(* ===== verification/Prelude.thy ===== *)
theory Prelude
  imports Main "HOL-Library.Word"
begin

text \<open>
  Shared vocabulary of the development: the C integer types as words, the outcome of
  running C code on a state (normal result, Ledger SDK exception, undefined behaviour),
  sequencing of such outcomes, memory blocks as byte lists, and the little-endian and
  big-endian readings of byte blocks that the code obtains with \<open>memcpy\<close> and
  \<open>READ_UNALIGNED_BIG_ENDIAN\<close>.
\<close>

unbundle bit_operations_syntax

type_synonym u8 = "8 word"
type_synonym u16 = "16 word"
type_synonym u32 = "32 word"
type_synonym u64 = "64 word"

named_theorems run_simps \<open>equations that execute outcomes and code fragments\<close>

section \<open>Outcomes\<close>

text \<open>
  \<open>Ok a g\<close> is a normal return with value \<open>a\<close> in state \<open>g\<close>; \<open>Throw e g\<close> is
  \<open>THROW(e)\<close> (a \<open>longjmp\<close> that keeps the memory as it is); \<open>Undef\<close> is undefined
  behaviour of C: an access outside an object, a read of a union member that is not the
  live one, or an out-of-range shift.
\<close>

datatype ('a, 'g) res = Ok 'a 'g | Throw u16 'g | Undef

definition res_bind :: "('a, 'g) res \<Rightarrow> ('a \<Rightarrow> 'g \<Rightarrow> ('b, 'g) res) \<Rightarrow> ('b, 'g) res" where
  "res_bind r k = (case r of Ok a g \<Rightarrow> k a g | Throw e g \<Rightarrow> Throw e g | Undef \<Rightarrow> Undef)"

lemma res_bind_simps [simp, run_simps]:
  "res_bind (Ok a g) k = k a g"
  "res_bind (Throw e g) k = Throw e g"
  "res_bind Undef k = Undef"
  by (simp_all add: res_bind_def)

lemma res_bind_assoc:
  "res_bind (res_bind r k) h = res_bind r (\<lambda>a g. res_bind (k a g) h)"
  by (cases r) simp_all

lemma res_bind_eq_Ok:
  "res_bind r k = Ok b h \<longleftrightarrow> (\<exists>a g. r = Ok a g \<and> k a g = Ok b h)"
  by (cases r) auto

lemma res_bind_cong [fundef_cong]:
  "r = r' \<Longrightarrow> (\<And>a g. r' = Ok a g \<Longrightarrow> k a g = k' a g) \<Longrightarrow> res_bind r k = res_bind r' k'"
  by (cases r') auto

text \<open>An optional callback without result: a NULL function pointer does nothing.\<close>

type_synonym 'g act = "'g \<Rightarrow> (unit, 'g) res"

definition call_opt :: "'g act option \<Rightarrow> 'g act" where
  "call_opt cb g = (case cb of None \<Rightarrow> Ok () g | Some f \<Rightarrow> f g)"

lemma call_opt_simps [simp, run_simps]:
  "call_opt None g = Ok () g"
  "call_opt (Some f) g = f g"
  by (simp_all add: call_opt_def)

text \<open>Lifting a total state update to an action.\<close>

definition upd :: "('g \<Rightarrow> 'g) \<Rightarrow> 'g act" where
  "upd f g = Ok () (f g)"

lemma upd_simp [simp, run_simps]: "upd f g = Ok () (f g)"
  by (simp add: upd_def)

text \<open>Running an action on a part of the state.\<close>

definition zoom :: "('g \<Rightarrow> 's) \<Rightarrow> ('s \<Rightarrow> 'g \<Rightarrow> 'g) \<Rightarrow> ('s \<Rightarrow> ('a, 's) res) \<Rightarrow> 'g \<Rightarrow> ('a, 'g) res" where
  "zoom get put m g =
     (case m (get g) of Ok a s \<Rightarrow> Ok a (put s g) | Throw e s \<Rightarrow> Throw e (put s g) | Undef \<Rightarrow> Undef)"

section \<open>Memory blocks\<close>

text \<open>\<open>mem_write buf i data\<close> is \<open>memcpy(buf + i, data, length data)\<close> inside the block.\<close>

definition mem_write :: "'a list \<Rightarrow> nat \<Rightarrow> 'a list \<Rightarrow> 'a list" where
  "mem_write buf i data = take i buf @ data @ drop (i + length data) buf"

lemma length_mem_write [simp]:
  "i + length data \<le> length buf \<Longrightarrow> length (mem_write buf i data) = length buf"
  by (simp add: mem_write_def)

lemma take_mem_write:
  "i + length data \<le> length buf \<Longrightarrow> take (i + length data) (mem_write buf i data) = take i buf @ data"
  by (simp add: mem_write_def)

lemma mem_write_append:
  assumes "i + length a + length b \<le> length buf"
  shows "mem_write (mem_write buf i a) (i + length a) b = mem_write buf i (a @ b)"
proof -
  have *: "min (length buf) i = i" using assms by simp
  have "drop (i + length a + length b) buf = drop (length b + (length a + i)) buf"
    by (simp add: ac_simps)
  then show ?thesis using * by (simp add: mem_write_def ac_simps)
qed

section \<open>Byte order\<close>

text \<open>
  All supported devices are little-endian ARM: a 4-byte block copied into a
  \<open>uint32_t\<close> is read with its first byte least significant.
\<close>

fun le_nat :: "u8 list \<Rightarrow> nat" where
  "le_nat [] = 0"
| "le_nat (b # bs) = unat b + 256 * le_nat bs"

definition le_word :: "u8 list \<Rightarrow> 'a::len word" where
  "le_word bs = of_nat (le_nat bs)"

definition be_word :: "u8 list \<Rightarrow> 'a::len word" where
  "be_word bs = le_word (rev bs)"

fun nat_le :: "nat \<Rightarrow> nat \<Rightarrow> u8 list" where
  "nat_le 0 x = []"
| "nat_le (Suc n) x = of_nat (x mod 256) # nat_le n (x div 256)"

definition u32_le :: "u32 \<Rightarrow> u8 list" where
  "u32_le w = nat_le 4 (unat w)"

definition u64_le :: "u64 \<Rightarrow> u8 list" where
  "u64_le w = nat_le 8 (unat w)"

lemma unat_bound: "unat (w :: 'a::len word) < 2 ^ LENGTH('a)"
  by (rule unsigned_less)

lemma length_nat_le [simp]: "length (nat_le n x) = n"
  by (induction n arbitrary: x) auto

lemma length_u32_le [simp]: "length (u32_le w) = 4"
  by (simp add: u32_le_def)

lemma length_u64_le [simp]: "length (u64_le w) = 8"
  by (simp add: u64_le_def)

lemma unat_of_nat_mod_256 [simp]: "unat (of_nat (x mod 256) :: u8) = x mod 256"
  by (simp add: unat_of_nat)

lemma le_nat_nat_le: "le_nat (nat_le n x) = x mod 256 ^ n"
proof (induction n arbitrary: x)
  case 0
  then show ?case by simp
next
  case (Suc n)
  have "x mod 256 + 256 * (x div 256 mod 256 ^ n) = x mod (256 * 256 ^ n)"
    by (simp add: mod_mult2_eq)
  with Suc show ?case by simp
qed

lemma le_nat_bound: "le_nat bs < 256 ^ length bs"
proof (induction bs)
  case Nil
  then show ?case by simp
next
  case (Cons b bs)
  have "unat b < 256" using unat_bound [of b] by simp
  with Cons show ?case by simp
qed

lemma nat_le_le_nat: "nat_le (length bs) (le_nat bs) = bs"
proof (induction bs)
  case Nil
  then show ?case by simp
next
  case (Cons b bs)
  have "unat b < 256" using unat_bound [of b] by simp
  then have "(unat b + 256 * le_nat bs) mod 256 = unat b"
    and "(unat b + 256 * le_nat bs) div 256 = le_nat bs" by simp_all
  with Cons show ?case by simp
qed

lemma le_word_u32_le [simp]: "le_word (u32_le w) = w"
proof -
  have "unat w < 256 ^ 4" using unat_bound [of w] by simp
  then show ?thesis by (simp add: le_word_def u32_le_def le_nat_nat_le)
qed

lemma u32_le_le_word: "length bs = 4 \<Longrightarrow> u32_le (le_word bs) = bs"
proof -
  assume len: "length bs = 4"
  have "le_nat bs < 2 ^ 32" using le_nat_bound [of bs] len by simp
  then have "unat (le_word bs :: u32) = le_nat bs"
    by (simp add: le_word_def unat_of_nat)
  with nat_le_le_nat [of bs] len show ?thesis by (simp add: u32_le_def)
qed

lemma le_word_u64_le [simp]: "le_word (u64_le w) = w"
proof -
  have "unat w < 256 ^ 8" using unat_bound [of w] by simp
  then show ?thesis by (simp add: le_word_def u64_le_def le_nat_nat_le)
qed

section \<open>SDK exception codes\<close>

text \<open>The codes of \<open>src/exception.h\<close>.\<close>

definition ASYNC_EXCEPTION :: u16 where "ASYNC_EXCEPTION = 0x2000"
definition EXC_WRONG_PARAM :: u16 where "EXC_WRONG_PARAM = 0x6B00"
definition EXC_WRONG_LENGTH :: u16 where "EXC_WRONG_LENGTH = 0x6C00"
definition EXC_INVALID_INS :: u16 where "EXC_INVALID_INS = 0x6D00"
definition EXC_WRONG_LENGTH_FOR_INS :: u16 where "EXC_WRONG_LENGTH_FOR_INS = 0x917E"
definition EXC_REJECT :: u16 where "EXC_REJECT = 0x6985"
definition EXC_PARSE_ERROR :: u16 where "EXC_PARSE_ERROR = 0x9405"
definition EXC_WRONG_VALUES :: u16 where "EXC_WRONG_VALUES = 0x6A80"
definition EXC_SECURITY :: u16 where "EXC_SECURITY = 0x6982"
definition EXC_CLASS :: u16 where "EXC_CLASS = 0x6E00"
definition EXC_MEMORY_ERROR :: u16 where "EXC_MEMORY_ERROR = 0x9200"
definition EXC_STACK_ERROR :: u16 where "EXC_STACK_ERROR = 0xA000"

lemmas exception_code_defs =
  ASYNC_EXCEPTION_def EXC_WRONG_PARAM_def EXC_WRONG_LENGTH_def EXC_INVALID_INS_def
  EXC_WRONG_LENGTH_FOR_INS_def EXC_REJECT_def EXC_PARSE_ERROR_def EXC_WRONG_VALUES_def
  EXC_SECURITY_def EXC_CLASS_def EXC_MEMORY_ERROR_def EXC_STACK_ERROR_def

text \<open>The number of rounds left goes down.\<close>

lemma unat_countdown:
  fixes a b :: u32
  assumes "a < b"
  shows "unat (b - (a + 1)) < unat (b - a)"
proof -
  have "b - a \<noteq> 0" using assms by auto
  then have "unat (b - a - 1) < unat (b - a)"
    by (rule unat_minus_one [THEN ssubst]) (use \<open>b - a \<noteq> 0\<close> in \<open>simp add: unat_gt_0\<close>)
  then show ?thesis by (simp add: algebra_simps)
qed

end
