(* ===== verification/Molecule_Reader.thy ===== *)
theory Molecule_Reader
  imports Prelude
begin

text \<open>
  The streaming reader core, \<open>src/src/molecule_reader_streaming.h\<close>, and the code
  templates that the generator instantiates in \<open>src/src/blockchain.h\<close> and
  \<open>src/src/annotated.h\<close>.

  A parser is resumable: it is called once per APDU chunk, keeps its position in a state
  structure, and returns \<open>INCOMPLETE\<close> when the chunk is exhausted. The chunk
  (\<open>struct mol_chunk\<close>) is modelled by the list of its unconsumed bytes; advancing
  \<open>consumed\<close> is dropping from the list, and \<open>length - consumed\<close> is the length of the
  list. The nested C state structures and their unions are one datatype; the live union
  member is the constructor, and using another member is \<open>Undef\<close>.
\<close>

section \<open>Results, states and numbers\<close>

datatype mol_rv = INCOMPLETE | COMPLETE | REJECT

definition MOL_NUM_MAX :: u32 where
  "MOL_NUM_MAX = -1"

text \<open>
  \<open>Bytes_st\<close>: \<open>struct bytes_state\<close> and \<open>struct num_state\<close> (fill, buffer);
  \<open>Vec_st\<close>: \<open>Bytes\<close> and the fixed-size-item vectors (state_num, length, u);
  \<open>DynVec_st\<close>: vectors of variable-size items (state_num, field_idx, total_size,
  first_offset, u); \<open>Table_st\<close>: tables (state_num, field_idx, total_size, the field
  offsets, u); \<open>Struct_st\<close>: structs (state_num, u); \<open>Opt_st\<close>: options.
\<close>

datatype mol_state =
    Byte_st
  | Bytes_st (st_fill: u32) (st_buffer: "u8 list")
  | Vec_st (vec_num: u32) (vec_length: u32) (vec_u: mol_state)
  | DynVec_st (dyn_num: u32) (dyn_field: u32) (dyn_total: u32) (dyn_first: u32) (dyn_u: mol_state)
  | Table_st (tbl_num: u32) (tbl_field: u32) (tbl_total: u32) (tbl_offsets: "u32 list")
      (tbl_u: mol_state)
  | Struct_st (struct_num: u32) (struct_u: mol_state)
  | Opt_st (opt_u: mol_state)

definition mol_unpack_number :: "u8 list \<Rightarrow> u32" where
  "mol_unpack_number src = le_word (take 4 src)"

type_synonym 'g mparser =
  "u32 \<Rightarrow> mol_state \<Rightarrow> u8 list \<Rightarrow> 'g \<Rightarrow> (mol_rv \<times> mol_state \<times> u8 list, 'g) res"

type_synonym 'g minit = "'g \<Rightarrow> (mol_state, 'g) res"

text \<open>A component parser: its \<open>_init_state\<close> and its \<open>_parse\<close> function.\<close>

type_synonym 'g component = "'g minit \<times> 'g mparser"

section \<open>Callback structures shared by the templates\<close>

record 'g byte_callbacks =
  byte_end :: "(u8 \<Rightarrow> 'g act) option"

record 'g bytes_callbacks =
  bytes_end :: "(u8 list \<Rightarrow> 'g act) option"

text \<open>\<open>start\<close>, \<open>chunk\<close> and \<open>end\<close> occur in every generated callbacks structure.\<close>

record 'g hooks =
  start_cb :: "'g act option"
  chunk_cb :: "(u8 list \<Rightarrow> 'g act) option"
  end_cb :: "'g act option"

definition no_hooks :: "'g hooks" where
  "no_hooks = \<lparr>start_cb = None, chunk_cb = None, end_cb = None\<rparr>"

text \<open>\<open>cb && cb->f\<close>: a field of a possibly NULL structure, itself possibly NULL.\<close>

definition cb_field :: "('c \<Rightarrow> 'f option) \<Rightarrow> 'c option \<Rightarrow> 'f option" where
  "cb_field f cb = (case cb of None \<Rightarrow> None | Some c \<Rightarrow> f c)"

lemma cb_field_simps [simp, run_simps]:
  "cb_field f None = None"
  "cb_field f (Some c) = f c"
  by (simp_all add: cb_field_def)

section \<open>Byte and byte-array parsers\<close>

definition MolReader_byte_init_state :: "'g minit" where
  "MolReader_byte_init_state g = Ok Byte_st g"

definition MolReader_byte_parse :: "'g byte_callbacks option \<Rightarrow> 'g mparser" where
  "MolReader_byte_parse cb sz s c g =
     (if sz \<noteq> 1 then Ok (REJECT, s, c) g
      else case c of
        [] \<Rightarrow> Ok (INCOMPLETE, s, c) g
      | b # c' \<Rightarrow>
          res_bind (case cb_field byte_end cb of None \<Rightarrow> Ok () g | Some f \<Rightarrow> f b g)
            (\<lambda>_. Ok (COMPLETE, s, c')))"

definition mol_bytes_init_state :: "'g minit" where
  "mol_bytes_init_state g = Ok (Bytes_st 0 (replicate 32 0)) g"

definition mol_parse_bytes :: "'g bytes_callbacks option \<Rightarrow> 'g mparser" where
  "mol_parse_bytes cb total_size s c g =
     (case s of
        Bytes_st fill buf \<Rightarrow>
          let needed = total_size - fill;
              copy_amount = min (unat needed) (length c);
              buf' = mem_write buf (unat fill) (take copy_amount c);
              s' = Bytes_st (fill + of_nat copy_amount) buf';
              c' = drop copy_amount c
          in if length buf < unat fill + copy_amount then Undef
             else if copy_amount = unat needed then
               res_bind (case cb_field bytes_end cb of None \<Rightarrow> Ok () g
                         | Some f \<Rightarrow> f (take (unat total_size) buf') g)
                 (\<lambda>_. Ok (COMPLETE, s', c'))
             else Ok (INCOMPLETE, s', c') g
      | _ \<Rightarrow> Undef)"

text \<open>\<open>mol_num_init_state\<close>: a zeroed \<open>num_state\<close> has a 4-byte payload.\<close>

definition mol_num_init_state :: mol_state where
  "mol_num_init_state = Bytes_st 0 (replicate 4 0)"

text \<open>The result carries the number stored to \<open>*dest\<close>; it is meaningful on \<open>COMPLETE\<close>.\<close>

definition mol_parse_num ::
    "mol_state \<Rightarrow> u8 list \<Rightarrow> 'g \<Rightarrow> (mol_rv \<times> mol_state \<times> u8 list \<times> u32, 'g) res" where
  "mol_parse_num s c g =
     res_bind (mol_parse_bytes None 4 s c g)
       (\<lambda>(rv, s', c'). Ok (rv, s', c', mol_unpack_number (st_buffer s')))"

section \<open>Control flow of the generated functions\<close>

text \<open>
  Generated bodies are sequences of statements. \<open>Fall\<close>: control reaches the next
  statement. \<open>Leave rv\<close>: \<open>MOL_CALL_NUM\<close> or \<open>MOL_CALL_SUBPARSER\<close> returns \<open>rv\<close>,
  after passing the bytes consumed so far to the \<open>chunk\<close> callback. \<open>Bare rv\<close>: a plain
  \<open>return rv\<close>. \<open>Finish\<close>: the early copy of the closing statements for an empty vector.
\<close>

datatype flow = Fall | Leave mol_rv | Bare mol_rv | Finish

type_synonym 'g frag =
  "mol_state \<Rightarrow> u8 list \<Rightarrow> 'g \<Rightarrow> (flow \<times> mol_state \<times> u8 list, 'g) res"

definition skip_frag :: "'g frag" where
  "skip_frag s c g = Ok (Fall, s, c) g"

definition seq :: "'g frag \<Rightarrow> 'g frag \<Rightarrow> 'g frag" where
  "seq F1 F2 s c g =
     res_bind (F1 s c g)
       (\<lambda>(fl, s', c'). if fl = Fall then F2 s' c' else Ok (fl, s', c'))"

fun chain :: "'g frag list \<Rightarrow> 'g frag" where
  "chain [] = skip_frag"
| "chain (F # Fs) = seq F (chain Fs)"

definition call_chunk :: "(u8 list \<Rightarrow> 'g act) option \<Rightarrow> u8 list \<Rightarrow> u8 list \<Rightarrow> 'g act" where
  "call_chunk cb start c g =
     (case cb of None \<Rightarrow> Ok () g | Some f \<Rightarrow> f (take (length start - length c) start) g)"

text \<open>The closing statements: the \<open>chunk\<close> and \<open>end\<close> callbacks, then \<open>COMPLETE\<close>.\<close>

definition closing :: "'g hooks \<Rightarrow> u8 list \<Rightarrow> mol_state \<Rightarrow> u8 list \<Rightarrow> 'g \<Rightarrow>
    (mol_rv \<times> mol_state \<times> u8 list, 'g) res" where
  "closing h start s c g =
     res_bind (call_chunk (chunk_cb h) start c g)
       (\<lambda>_ g1. res_bind (call_opt (end_cb h) g1) (\<lambda>_. Ok (COMPLETE, s, c)))"

definition run_body :: "'g hooks \<Rightarrow> 'g frag \<Rightarrow> mol_state \<Rightarrow> u8 list \<Rightarrow> 'g \<Rightarrow>
    (mol_rv \<times> mol_state \<times> u8 list, 'g) res" where
  "run_body h F s start g =
     res_bind (F s start g)
       (\<lambda>(fl, s', c) g'. case fl of
          Fall \<Rightarrow> closing h start s' c g'
        | Finish \<Rightarrow> closing h start s' c g'
        | Leave rv \<Rightarrow> res_bind (call_chunk (chunk_cb h) start c g') (\<lambda>_. Ok (rv, s', c))
        | Bare rv \<Rightarrow> Ok (rv, s', c) g')"

text \<open>
  \<open>MOL_CALL_NUM\<close> and \<open>MOL_CALL_SUBPARSER\<close> on the union member \<open>u\<close> of a state: \<open>put\<close>
  stores the member back, \<open>k\<close> is what follows when the part is complete.
\<close>

definition MOL_CALL_NUM ::
    "mol_state \<Rightarrow> (mol_state \<Rightarrow> mol_state) \<Rightarrow>
     (u32 \<Rightarrow> mol_state \<Rightarrow> u8 list \<Rightarrow> 'g \<Rightarrow> (flow \<times> mol_state \<times> u8 list, 'g) res) \<Rightarrow>
     u8 list \<Rightarrow> 'g \<Rightarrow> (flow \<times> mol_state \<times> u8 list, 'g) res" where
  "MOL_CALL_NUM u put k c g =
     res_bind (mol_parse_num u c g)
       (\<lambda>(rv, u', c', v). if rv = COMPLETE then k v u' c' else Ok (Leave rv, put u', c'))"

definition MOL_CALL_SUBPARSER ::
    "'g mparser \<Rightarrow> u32 \<Rightarrow> mol_state \<Rightarrow> (mol_state \<Rightarrow> mol_state) \<Rightarrow>
     (mol_state \<Rightarrow> u8 list \<Rightarrow> 'g \<Rightarrow> (flow \<times> mol_state \<times> u8 list, 'g) res) \<Rightarrow>
     u8 list \<Rightarrow> 'g \<Rightarrow> (flow \<times> mol_state \<times> u8 list, 'g) res" where
  "MOL_CALL_SUBPARSER p sz u put k c g =
     res_bind (p sz u c g)
       (\<lambda>(rv, u', c'). if rv = COMPLETE then k u' c' else Ok (Leave rv, put u', c'))"

section \<open>Template: tables\<close>

text \<open>\<open>_init_state\<close> of a table: \<open>start\<close>, both counters 0, \<open>MOL_INIT_NUM\<close>.\<close>

definition table_init :: "'g hooks \<Rightarrow> nat \<Rightarrow> 'g minit" where
  "table_init h n g =
     res_bind (call_opt (start_cb h) g)
       (\<lambda>_. Ok (Table_st 0 0 0 (replicate n 0) mol_num_init_state))"

text \<open>\<open>case 0\<close>: the total size, checked against the size the parent expects.\<close>

definition table_total :: "u32 \<Rightarrow> 'g frag" where
  "table_total sz s c g =
     (case s of
        Table_st sn fi tot offs u \<Rightarrow>
          if sn \<noteq> 0 then Ok (Fall, s, c) g
          else MOL_CALL_NUM u (Table_st sn fi tot offs)
            (\<lambda>v _ c'. if sz \<noteq> MOL_NUM_MAX \<and> v \<noteq> sz
               then Ok (Bare REJECT, Table_st sn fi v offs mol_num_init_state, c')
               else Ok (Fall, Table_st (sn + 1) fi v offs mol_num_init_state, c')) c g
      | _ \<Rightarrow> Undef)"

text \<open>\<open>case 1\<close>, inner \<open>case k\<close>: the offset of field \<open>k\<close>.\<close>

definition table_offset :: "nat \<Rightarrow> 'g frag" where
  "table_offset k s c g =
     (case s of
        Table_st sn fi tot offs u \<Rightarrow>
          if sn = 1 \<and> fi = of_nat k
          then MOL_CALL_NUM u (Table_st sn fi tot offs)
            (\<lambda>v _ c'. Ok (Fall, Table_st sn (fi + 1) tot (offs[k := v]) mol_num_init_state, c')) c g
          else Ok (Fall, s, c) g
      | _ \<Rightarrow> Undef)"

text \<open>
  End of \<open>case 1\<close>: the first field is initialised and the \<open>offsets\<close> callback runs on
  the state (its total size and offsets).
\<close>

definition table_offsets_done :: "(u32 \<Rightarrow> u32 list \<Rightarrow> 'g act) option \<Rightarrow> 'g minit \<Rightarrow> 'g frag" where
  "table_offsets_done ocb init0 s c g =
     (case s of
        Table_st sn fi tot offs u \<Rightarrow>
          if sn \<noteq> 1 then Ok (Fall, s, c) g
          else res_bind (init0 g)
            (\<lambda>u0 g1. res_bind (case ocb of None \<Rightarrow> Ok () g1 | Some f \<Rightarrow> f tot offs g1)
              (\<lambda>_. Ok (Fall, Table_st (sn + 1) 0 tot offs u0, c)))
      | _ \<Rightarrow> Undef)"

text \<open>The size of field \<open>k\<close>: up to the next offset, for the last field up to the end.\<close>

definition table_field_size :: "u32 \<Rightarrow> u32 list \<Rightarrow> nat \<Rightarrow> u32" where
  "table_field_size tot offs k =
     (if Suc k < length offs then offs ! Suc k - offs ! k else tot - offs ! k)"

text \<open>\<open>case 2\<close>, inner \<open>case k\<close>: field \<open>k\<close>; then the next field is initialised.\<close>

definition table_field :: "'g component list \<Rightarrow> nat \<Rightarrow> 'g frag" where
  "table_field ps k s c g =
     (case s of
        Table_st sn fi tot offs u \<Rightarrow>
          if sn = 2 \<and> fi = of_nat k
          then MOL_CALL_SUBPARSER (snd (ps ! k)) (table_field_size tot offs k) u
            (Table_st sn fi tot offs)
            (\<lambda>u' c' g'.
               if Suc k < length ps
               then res_bind (fst (ps ! Suc k) g')
                 (\<lambda>u'' . Ok (Fall, Table_st sn (fi + 1) tot offs u'', c'))
               else Ok (Fall, Table_st (sn + 1) fi tot offs u', c') g') c g
          else Ok (Fall, s, c) g
      | _ \<Rightarrow> Undef)"

definition table_parse ::
    "'g hooks \<Rightarrow> (u32 \<Rightarrow> u32 list \<Rightarrow> 'g act) option \<Rightarrow> 'g component list \<Rightarrow> 'g mparser" where
  "table_parse h ocb ps sz =
     run_body h (chain ([table_total sz] @ map table_offset [0..<length ps] @
       [table_offsets_done ocb (fst (ps ! 0))] @ map (table_field ps) [0..<length ps]))"

definition table :: "'g hooks \<Rightarrow> (u32 \<Rightarrow> u32 list \<Rightarrow> 'g act) option \<Rightarrow> 'g component list \<Rightarrow>
    'g component" where
  "table h ocb ps = (table_init h (length ps), table_parse h ocb ps)"

section \<open>Template: structs of two members\<close>

definition struct_init :: "'g hooks \<Rightarrow> 'g component \<Rightarrow> 'g minit" where
  "struct_init h p1 g =
     res_bind (call_opt (start_cb h) g) (\<lambda>_ g1. res_bind (fst p1 g1) (\<lambda>u. Ok (Struct_st 0 u)))"

definition struct_size :: "u32 \<Rightarrow> u32 \<Rightarrow> 'g frag" where
  "struct_size tsz sz s c g =
     (if sz \<noteq> tsz \<and> sz \<noteq> MOL_NUM_MAX then Ok (Bare REJECT, s, c) g else Ok (Fall, s, c) g)"

definition struct_first :: "'g component \<Rightarrow> u32 \<Rightarrow> 'g component \<Rightarrow> 'g frag" where
  "struct_first p1 sz1 p2 s c g =
     (case s of
        Struct_st sn u \<Rightarrow>
          if sn \<noteq> 0 then Ok (Fall, s, c) g
          else MOL_CALL_SUBPARSER (snd p1) sz1 u (Struct_st sn)
            (\<lambda>_ c' g'. res_bind (fst p2 g') (\<lambda>u'. Ok (Fall, Struct_st (sn + 1) u', c'))) c g
      | _ \<Rightarrow> Undef)"

definition struct_second :: "'g component \<Rightarrow> u32 \<Rightarrow> 'g frag" where
  "struct_second p2 sz2 s c g =
     (case s of
        Struct_st sn u \<Rightarrow>
          if sn \<noteq> 1 then Ok (Fall, s, c) g
          else MOL_CALL_SUBPARSER (snd p2) sz2 u (Struct_st sn)
            (\<lambda>u' c'. Ok (Fall, Struct_st sn u', c')) c g
      | _ \<Rightarrow> Undef)"

definition struct_parse ::
    "'g hooks \<Rightarrow> u32 \<Rightarrow> 'g component \<Rightarrow> u32 \<Rightarrow> 'g component \<Rightarrow> u32 \<Rightarrow> 'g mparser" where
  "struct_parse h tsz p1 sz1 p2 sz2 sz =
     run_body h (chain [struct_size tsz sz, struct_first p1 sz1 p2, struct_second p2 sz2])"

definition struct ::
    "'g hooks \<Rightarrow> u32 \<Rightarrow> 'g component \<Rightarrow> u32 \<Rightarrow> 'g component \<Rightarrow> u32 \<Rightarrow> 'g component" where
  "struct h tsz p1 sz1 p2 sz2 = (struct_init h p1, struct_parse h tsz p1 sz1 p2 sz2)"

section \<open>Template: options\<close>

definition option_init :: "'g hooks \<Rightarrow> 'g component \<Rightarrow> 'g minit" where
  "option_init h p g =
     res_bind (call_opt (start_cb h) g) (\<lambda>_ g1. res_bind (fst p g1) (\<lambda>u. Ok (Opt_st u)))"

definition option_item :: "'g component \<Rightarrow> u32 \<Rightarrow> 'g frag" where
  "option_item p sz s c g =
     (if sz = 0 then Ok (Finish, s, c) g
      else case s of
        Opt_st u \<Rightarrow>
          MOL_CALL_SUBPARSER (snd p) sz u Opt_st (\<lambda>u' c'. Ok (Fall, Opt_st u', c')) c g
      | _ \<Rightarrow> Undef)"

definition option_parse :: "'g hooks \<Rightarrow> 'g component \<Rightarrow> 'g mparser" where
  "option_parse h p sz = run_body h (option_item p sz)"

definition option_of :: "'g hooks \<Rightarrow> 'g component \<Rightarrow> 'g component" where
  "option_of h p = (option_init h p, option_parse h p)"

section \<open>Template: vectors of fixed-size items\<close>

definition vec_init :: "'g hooks \<Rightarrow> 'g minit" where
  "vec_init h g =
     res_bind (call_opt (start_cb h) g) (\<lambda>_. Ok (Vec_st 0 0 mol_num_init_state))"

text \<open>
  The two overflow-checked operations: the total size in bytes with its 4-byte prefix,
  or None when it does not fit \<open>mol_num_t\<close>.
\<close>

definition length_with_prefix :: "u32 \<Rightarrow> nat \<Rightarrow> u32 option" where
  "length_with_prefix len item_size =
     (if 2 ^ 32 \<le> unat len * item_size then None
      else if 2 ^ 32 \<le> unat len * item_size + 4 then None
      else Some (of_nat (unat len * item_size + 4)))"

text \<open>The size checks of the length prefix; \<open>k\<close> is what follows when they pass.\<close>

definition check_vec_size ::
    "(u32 \<Rightarrow> 'g \<Rightarrow> (bool, 'g) res) option \<Rightarrow> nat \<Rightarrow> u32 \<Rightarrow> u32 \<Rightarrow> mol_state \<Rightarrow> u8 list \<Rightarrow>
     ('g \<Rightarrow> (flow \<times> mol_state \<times> u8 list, 'g) res) \<Rightarrow> 'g \<Rightarrow>
     (flow \<times> mol_state \<times> u8 list, 'g) res" where
  "check_vec_size scb item_size sz len s c k g =
     (case length_with_prefix len item_size of
        None \<Rightarrow> Ok (Bare REJECT, s, c) g
      | Some tsz \<Rightarrow>
          if sz \<noteq> MOL_NUM_MAX \<and> tsz \<noteq> sz then Ok (Bare REJECT, s, c) g
          else res_bind (case scb of None \<Rightarrow> Ok True g | Some f \<Rightarrow> f tsz g)
            (\<lambda>ok g'. if ok then k g' else Ok (Bare REJECT, s, c) g'))"

definition call_index :: "(u32 \<Rightarrow> 'g act) option \<Rightarrow> u32 \<Rightarrow> 'g act" where
  "call_index cb i g = (case cb of None \<Rightarrow> Ok () g | Some f \<Rightarrow> f i g)"

definition vec_head ::
    "(u32 \<Rightarrow> 'g \<Rightarrow> (bool, 'g) res) option \<Rightarrow> (u32 \<Rightarrow> 'g act) option \<Rightarrow> nat \<Rightarrow> 'g component \<Rightarrow>
     u32 \<Rightarrow> 'g frag" where
  "vec_head scb icb item_size p sz s c g =
     (case s of
        Vec_st sn len u \<Rightarrow>
          if sn \<noteq> 0 then Ok (Fall, s, c) g
          else MOL_CALL_NUM u (Vec_st sn len)
            (\<lambda>v u' c'. check_vec_size scb item_size sz v (Vec_st (sn + 1) v u') c'
               (\<lambda>g'. res_bind (fst p g')
                 (\<lambda>u'' g''. res_bind (call_index icb (sn + 1 - 1) g'')
                   (\<lambda>_. Ok (Fall, Vec_st (sn + 1) v u'', c'))))) c g
      | _ \<Rightarrow> Undef)"

text \<open>\<open>while (state_num - 1 < length)\<close>: one item per round.\<close>

function vec_loop ::
    "(u32 \<Rightarrow> 'g act) option \<Rightarrow> 'g component \<Rightarrow> u32 \<Rightarrow> u32 \<Rightarrow> u32 \<Rightarrow> mol_state \<Rightarrow> u8 list \<Rightarrow> 'g \<Rightarrow>
     (flow \<times> mol_state \<times> u8 list, 'g) res" where
  "vec_loop icb p item_size sn len u c g =
     (if sn - 1 < len
      then MOL_CALL_SUBPARSER (snd p) item_size u (Vec_st sn len)
        (\<lambda>_ c' g'. res_bind (fst p g')
          (\<lambda>u' g''. res_bind (call_index icb (sn + 1 - 1) g'')
            (\<lambda>_ g3. vec_loop icb p item_size (sn + 1) len u' c' g3))) c g
      else Ok (Fall, Vec_st sn len u, c) g)"
  by pat_completeness auto
termination
  by (relation "measure (\<lambda>(_, _, _, sn, len, _). unat (len - (sn - 1)))") (auto dest: unat_countdown)

definition vec_items :: "(u32 \<Rightarrow> 'g act) option \<Rightarrow> 'g component \<Rightarrow> u32 \<Rightarrow> 'g frag" where
  "vec_items icb p item_size s c g =
     (case s of Vec_st sn len u \<Rightarrow> vec_loop icb p item_size sn len u c g | _ \<Rightarrow> Undef)"

definition vec_parse ::
    "'g hooks \<Rightarrow> (u32 \<Rightarrow> 'g \<Rightarrow> (bool, 'g) res) option \<Rightarrow> (u32 \<Rightarrow> 'g act) option \<Rightarrow> nat \<Rightarrow>
     'g component \<Rightarrow> 'g mparser" where
  "vec_parse h scb icb item_size p sz =
     run_body h (chain [vec_head scb icb item_size p sz, vec_items icb p (of_nat item_size)])"

definition vec_of ::
    "'g hooks \<Rightarrow> (u32 \<Rightarrow> 'g \<Rightarrow> (bool, 'g) res) option \<Rightarrow> (u32 \<Rightarrow> 'g act) option \<Rightarrow> nat \<Rightarrow>
     'g component \<Rightarrow> 'g component" where
  "vec_of h scb icb item_size p = (vec_init h, vec_parse h scb icb item_size p)"

section \<open>Template: vectors of variable-size items\<close>

definition dynvec_init :: "'g hooks \<Rightarrow> 'g minit" where
  "dynvec_init h g =
     res_bind (call_opt (start_cb h) g) (\<lambda>_. Ok (DynVec_st 0 0 0 0 mol_num_init_state))"

text \<open>\<open>(first_offset >> 2) - 1\<close>, the number of items the first offset implies.\<close>

definition dynvec_count :: "u32 \<Rightarrow> u32" where
  "dynvec_count first = drop_bit 2 first - 1"

definition dynvec_total :: "(u32 \<Rightarrow> 'g \<Rightarrow> (bool, 'g) res) option \<Rightarrow> u32 \<Rightarrow> 'g frag" where
  "dynvec_total scb sz s c g =
     (case s of
        DynVec_st sn fi tot first u \<Rightarrow>
          if sn \<noteq> 0 then Ok (Fall, s, c) g
          else MOL_CALL_NUM u (DynVec_st sn fi tot first)
            (\<lambda>v _ c' g1. res_bind (case scb of None \<Rightarrow> Ok True g1 | Some f \<Rightarrow> f v g1)
               (\<lambda>ok. if \<not> ok then Ok (Bare REJECT, DynVec_st sn fi v first mol_num_init_state, c')
                 else if v = 4 then Ok (Finish, DynVec_st sn fi v first mol_num_init_state, c')
                 else if sz \<noteq> MOL_NUM_MAX \<and> sz \<noteq> v
                 then Ok (Bare REJECT, DynVec_st sn fi v first mol_num_init_state, c')
                 else Ok (Fall, DynVec_st (sn + 1) fi v first mol_num_init_state, c'))) c g
      | _ \<Rightarrow> Undef)"

definition dynvec_first :: "'g frag" where
  "dynvec_first s c g =
     (case s of
        DynVec_st sn fi tot first u \<Rightarrow>
          if sn \<noteq> 1 then Ok (Fall, s, c) g
          else MOL_CALL_NUM u (DynVec_st sn fi tot first)
            (\<lambda>v _ c'. Ok (Fall, DynVec_st (sn + 1) 1 tot v mol_num_init_state, c')) c g
      | _ \<Rightarrow> Undef)"

text \<open>\<open>case 2\<close>: the other offsets are read and forgotten.\<close>

function dynvec_header :: "u32 \<Rightarrow> u32 \<Rightarrow> u32 \<Rightarrow> u32 \<Rightarrow> mol_state \<Rightarrow> u8 list \<Rightarrow> 'g \<Rightarrow>
    (flow \<times> mol_state \<times> u8 list, 'g) res" where
  "dynvec_header sn fi tot first u c g =
     (if fi < dynvec_count first
      then MOL_CALL_NUM u (DynVec_st sn fi tot first)
        (\<lambda>_ _ c' g'. dynvec_header sn (fi + 1) tot first mol_num_init_state c' g') c g
      else Ok (Fall, DynVec_st sn fi tot first u, c) g)"
  by pat_completeness auto
termination
  by (relation "measure (\<lambda>(_, fi, _, first, _). unat (dynvec_count first - fi))") (auto dest: unat_countdown)

definition dynvec_offsets :: "'g frag" where
  "dynvec_offsets s c g =
     (case s of
        DynVec_st sn fi tot first u \<Rightarrow>
          if sn \<noteq> 2 then Ok (Fall, s, c) g else dynvec_header sn fi tot first u c g
      | _ \<Rightarrow> Undef)"

definition dynvec_start_items ::
    "(u32 \<Rightarrow> 'g act) option \<Rightarrow> (u32 \<Rightarrow> 'g act) option \<Rightarrow> 'g component \<Rightarrow> 'g frag" where
  "dynvec_start_items lcb icb p s c g =
     (case s of
        DynVec_st sn fi tot first u \<Rightarrow>
          if sn \<noteq> 2 then Ok (Fall, s, c) g
          else res_bind (fst p g)
            (\<lambda>u' g1. res_bind (call_index lcb (dynvec_count first) g1)
              (\<lambda>_ g2. res_bind (call_index icb 0 g2)
                (\<lambda>_. Ok (Fall, DynVec_st (sn + 1) 0 tot first u', c))))
      | _ \<Rightarrow> Undef)"

function dynvec_loop ::
    "(u32 \<Rightarrow> 'g act) option \<Rightarrow> 'g component \<Rightarrow> u32 \<Rightarrow> u32 \<Rightarrow> u32 \<Rightarrow> u32 \<Rightarrow> mol_state \<Rightarrow> u8 list \<Rightarrow>
     'g \<Rightarrow> (flow \<times> mol_state \<times> u8 list, 'g) res" where
  "dynvec_loop icb p sn fi tot first u c g =
     (if fi < dynvec_count first
      then MOL_CALL_SUBPARSER (snd p) (-1) u (DynVec_st sn fi tot first)
        (\<lambda>_ c' g'. res_bind (fst p g')
          (\<lambda>u' g''. res_bind (call_index icb (fi + 1) g'')
            (\<lambda>_ g3. dynvec_loop icb p sn (fi + 1) tot first u' c' g3))) c g
      else Ok (Fall, DynVec_st sn fi tot first u, c) g)"
  by pat_completeness auto
termination
  by (relation "measure (\<lambda>(_, _, _, fi, _, first, _). unat (dynvec_count first - fi))")
    (auto dest: unat_countdown)

definition dynvec_items :: "(u32 \<Rightarrow> 'g act) option \<Rightarrow> 'g component \<Rightarrow> 'g frag" where
  "dynvec_items icb p s c g =
     (case s of
        DynVec_st sn fi tot first u \<Rightarrow>
          if sn \<noteq> 3 then Ok (Fall, s, c) g else dynvec_loop icb p sn fi tot first u c g
      | _ \<Rightarrow> Undef)"

definition dynvec_parse ::
    "'g hooks \<Rightarrow> (u32 \<Rightarrow> 'g \<Rightarrow> (bool, 'g) res) option \<Rightarrow> (u32 \<Rightarrow> 'g act) option \<Rightarrow>
     (u32 \<Rightarrow> 'g act) option \<Rightarrow> 'g component \<Rightarrow> 'g mparser" where
  "dynvec_parse h scb lcb icb p sz =
     run_body h (chain [dynvec_total scb sz, dynvec_first, dynvec_offsets,
       dynvec_start_items lcb icb p, dynvec_items icb p])"

definition dynvec_of ::
    "'g hooks \<Rightarrow> (u32 \<Rightarrow> 'g \<Rightarrow> (bool, 'g) res) option \<Rightarrow> (u32 \<Rightarrow> 'g act) option \<Rightarrow>
     (u32 \<Rightarrow> 'g act) option \<Rightarrow> 'g component \<Rightarrow> 'g component" where
  "dynvec_of h scb lcb icb p = (dynvec_init h, dynvec_parse h scb lcb icb p)"

declare vec_loop.simps [simp del] dynvec_header.simps [simp del] dynvec_loop.simps [simp del]

end
