(* ===== verification/Blockchain.thy ===== *)
theory Blockchain
  imports Molecule_Reader
begin

text \<open>
  The generated readers of \<open>src/src/blockchain.h\<close>: for every type of
  \<open>doc/blockchain.mol\<close> its callbacks structure, its \<open>_init_state\<close> and its
  \<open>_parse\<close> function, as instances of the templates of \<open>Molecule_Reader\<close>. A pointer to
  a callbacks structure that may be NULL is an \<open>option\<close>. Field names carry the
  structure's name as a prefix. The pair of a type's two functions is named after the type.
\<close>

section \<open>Callback structures\<close>

text \<open>\<open>start\<close>, \<open>chunk\<close>, \<open>end\<close> of a possibly NULL callbacks structure.\<close>

definition hooks_of :: "('g, 'z) hooks_scheme option \<Rightarrow> 'g hooks" where
  "hooks_of cb = (case cb of None \<Rightarrow> no_hooks
     | Some h \<Rightarrow> \<lparr>start_cb = start_cb h, chunk_cb = chunk_cb h, end_cb = end_cb h\<rparr>)"

lemma hooks_of_simps [simp, run_simps]:
  "hooks_of None = no_hooks"
  "start_cb (hooks_of (Some h)) = start_cb h"
  "chunk_cb (hooks_of (Some h)) = chunk_cb h"
  "end_cb (hooks_of (Some h)) = end_cb h"
  "start_cb no_hooks = None" "chunk_cb no_hooks = None" "end_cb no_hooks = None"
  by (simp_all add: hooks_of_def no_hooks_def)

record ('g, 'c) fixvec_callbacks = "'g hooks" +
  fixvec_size :: "(u32 \<Rightarrow> 'g \<Rightarrow> (bool, 'g) res) option"
  fixvec_index :: "(u32 \<Rightarrow> 'g act) option"
  fixvec_item :: "'c option"

record ('g, 'c) dynvec_callbacks = "'g hooks" +
  dynvec_size :: "(u32 \<Rightarrow> 'g \<Rightarrow> (bool, 'g) res) option"
  dynvec_length :: "(u32 \<Rightarrow> 'g act) option"
  dynvec_index :: "(u32 \<Rightarrow> 'g act) option"
  dynvec_item :: "'c option"

record ('g, 'c) option_callbacks = "'g hooks" +
  option_item_cb :: "'c option"

record 'g Bytes_callbacks = "'g hooks" +
  bytes_size :: "(u32 \<Rightarrow> 'g \<Rightarrow> (bool, 'g) res) option"
  bytes_body_chunk :: "(u8 list \<Rightarrow> 'g act) option"

section \<open>Basic types\<close>

definition byte_component :: "'g byte_callbacks option \<Rightarrow> 'g component" where
  "byte_component cb = (MolReader_byte_init_state, MolReader_byte_parse cb)"

type_synonym 'g Uint32_callbacks = "'g bytes_callbacks"

definition MolReader_Uint32_init_state :: "'g Uint32_callbacks option \<Rightarrow> 'g minit" where
  "MolReader_Uint32_init_state cb = mol_bytes_init_state"

definition MolReader_Uint32_parse :: "'g Uint32_callbacks option \<Rightarrow> 'g mparser" where
  "MolReader_Uint32_parse cb sz = mol_parse_bytes cb 4"

definition Uint32 :: "'g Uint32_callbacks option \<Rightarrow> 'g component" where
  "Uint32 cb = (MolReader_Uint32_init_state cb, MolReader_Uint32_parse cb)"

type_synonym 'g Uint64_callbacks = "'g bytes_callbacks"

definition MolReader_Uint64_init_state :: "'g Uint64_callbacks option \<Rightarrow> 'g minit" where
  "MolReader_Uint64_init_state cb = mol_bytes_init_state"

definition MolReader_Uint64_parse :: "'g Uint64_callbacks option \<Rightarrow> 'g mparser" where
  "MolReader_Uint64_parse cb sz = mol_parse_bytes cb 8"

definition Uint64 :: "'g Uint64_callbacks option \<Rightarrow> 'g component" where
  "Uint64 cb = (MolReader_Uint64_init_state cb, MolReader_Uint64_parse cb)"

type_synonym 'g Uint128_callbacks = "'g bytes_callbacks"

definition MolReader_Uint128_init_state :: "'g Uint128_callbacks option \<Rightarrow> 'g minit" where
  "MolReader_Uint128_init_state cb = mol_bytes_init_state"

definition MolReader_Uint128_parse :: "'g Uint128_callbacks option \<Rightarrow> 'g mparser" where
  "MolReader_Uint128_parse cb sz = mol_parse_bytes cb 16"

definition Uint128 :: "'g Uint128_callbacks option \<Rightarrow> 'g component" where
  "Uint128 cb = (MolReader_Uint128_init_state cb, MolReader_Uint128_parse cb)"

type_synonym 'g Byte32_callbacks = "'g bytes_callbacks"

definition MolReader_Byte32_init_state :: "'g Byte32_callbacks option \<Rightarrow> 'g minit" where
  "MolReader_Byte32_init_state cb = mol_bytes_init_state"

definition MolReader_Byte32_parse :: "'g Byte32_callbacks option \<Rightarrow> 'g mparser" where
  "MolReader_Byte32_parse cb sz = mol_parse_bytes cb 32"

definition Byte32 :: "'g Byte32_callbacks option \<Rightarrow> 'g component" where
  "Byte32 cb = (MolReader_Byte32_init_state cb, MolReader_Byte32_parse cb)"

type_synonym 'g Uint256_callbacks = "'g bytes_callbacks"

definition MolReader_Uint256_init_state :: "'g Uint256_callbacks option \<Rightarrow> 'g minit" where
  "MolReader_Uint256_init_state cb = mol_bytes_init_state"

definition MolReader_Uint256_parse :: "'g Uint256_callbacks option \<Rightarrow> 'g mparser" where
  "MolReader_Uint256_parse cb sz = mol_parse_bytes cb 32"

definition Uint256 :: "'g Uint256_callbacks option \<Rightarrow> 'g component" where
  "Uint256 cb = (MolReader_Uint256_init_state cb, MolReader_Uint256_parse cb)"

section \<open>Byte strings\<close>

definition MolReader_Bytes_init_state :: "'g Bytes_callbacks option \<Rightarrow> 'g minit" where
  "MolReader_Bytes_init_state cb = vec_init (hooks_of cb)"

definition Bytes_head :: "'g Bytes_callbacks option \<Rightarrow> u32 \<Rightarrow> 'g frag" where
  "Bytes_head cb sz s c g =
     (case s of
        Vec_st sn len u \<Rightarrow>
          if sn \<noteq> 0 then Ok (Fall, s, c) g
          else MOL_CALL_NUM u (Vec_st sn len)
            (\<lambda>v u' c'. check_vec_size (cb_field bytes_size cb) 1 sz v (Vec_st (sn + 1) v u') c'
               (Ok (Fall, Vec_st (sn + 1) v u', c'))) c g
      | _ \<Rightarrow> Undef)"

text \<open>
  The body is handed to \<open>body_chunk\<close> piecewise. Returning \<open>INCOMPLETE\<close> from here is a
  plain return, without the \<open>chunk\<close> callback.
\<close>

definition Bytes_body :: "'g Bytes_callbacks option \<Rightarrow> 'g frag" where
  "Bytes_body cb s c g =
     (case s of
        Vec_st sn len u \<Rightarrow>
          let needed = len + 1 - sn;
              copy = min (unat needed) (length c);
              c' = drop copy c;
              sn' = sn + of_nat copy;
              s' = Vec_st sn' len u
          in res_bind (if needed \<noteq> 0
                       then (case cb_field bytes_body_chunk cb of None \<Rightarrow> Ok () g
                             | Some f \<Rightarrow> f (take copy c) g)
                       else Ok () g)
               (\<lambda>_. if sn' - 1 < len then Ok (Bare INCOMPLETE, s', c') else Ok (Fall, s', c'))
      | _ \<Rightarrow> Undef)"

definition MolReader_Bytes_parse :: "'g Bytes_callbacks option \<Rightarrow> 'g mparser" where
  "MolReader_Bytes_parse cb sz = run_body (hooks_of cb) (chain [Bytes_head cb sz, Bytes_body cb])"

definition Bytes :: "'g Bytes_callbacks option \<Rightarrow> 'g component" where
  "Bytes cb = (MolReader_Bytes_init_state cb, MolReader_Bytes_parse cb)"

type_synonym 'g BytesOpt_callbacks = "('g, 'g Bytes_callbacks) option_callbacks"

definition MolReader_BytesOpt_init_state :: "'g BytesOpt_callbacks option \<Rightarrow> 'g minit" where
  "MolReader_BytesOpt_init_state cb = option_init (hooks_of cb) (Bytes (cb_field option_item_cb cb))"

definition MolReader_BytesOpt_parse :: "'g BytesOpt_callbacks option \<Rightarrow> 'g mparser" where
  "MolReader_BytesOpt_parse cb = option_parse (hooks_of cb) (Bytes (cb_field option_item_cb cb))"

definition BytesOpt :: "'g BytesOpt_callbacks option \<Rightarrow> 'g component" where
  "BytesOpt cb = (MolReader_BytesOpt_init_state cb, MolReader_BytesOpt_parse cb)"

type_synonym 'g BytesVec_callbacks = "('g, 'g Bytes_callbacks) dynvec_callbacks"

definition MolReader_BytesVec_init_state :: "'g BytesVec_callbacks option \<Rightarrow> 'g minit" where
  "MolReader_BytesVec_init_state cb = dynvec_init (hooks_of cb)"

definition MolReader_BytesVec_parse :: "'g BytesVec_callbacks option \<Rightarrow> 'g mparser" where
  "MolReader_BytesVec_parse cb =
     dynvec_parse (hooks_of cb) (cb_field dynvec_size cb) (cb_field dynvec_length cb)
       (cb_field dynvec_index cb) (Bytes (cb_field dynvec_item cb))"

definition BytesVec :: "'g BytesVec_callbacks option \<Rightarrow> 'g component" where
  "BytesVec cb = (MolReader_BytesVec_init_state cb, MolReader_BytesVec_parse cb)"

type_synonym 'g Byte32Vec_callbacks = "('g, 'g Byte32_callbacks) fixvec_callbacks"

definition MolReader_Byte32Vec_init_state :: "'g Byte32Vec_callbacks option \<Rightarrow> 'g minit" where
  "MolReader_Byte32Vec_init_state cb = vec_init (hooks_of cb)"

definition MolReader_Byte32Vec_parse :: "'g Byte32Vec_callbacks option \<Rightarrow> 'g mparser" where
  "MolReader_Byte32Vec_parse cb =
     vec_parse (hooks_of cb) (cb_field fixvec_size cb) (cb_field fixvec_index cb) 32
       (Byte32 (cb_field fixvec_item cb))"

definition Byte32Vec :: "'g Byte32Vec_callbacks option \<Rightarrow> 'g component" where
  "Byte32Vec cb = (MolReader_Byte32Vec_init_state cb, MolReader_Byte32Vec_parse cb)"

section \<open>Types for the chain\<close>

record 'g Script_callbacks = "'g hooks" +
  script_offsets :: "(u32 \<Rightarrow> u32 list \<Rightarrow> 'g act) option"
  script_code_hash :: "'g Byte32_callbacks option"
  script_hash_type :: "'g byte_callbacks option"
  script_args :: "'g Bytes_callbacks option"

definition Script_fields :: "'g Script_callbacks option \<Rightarrow> 'g component list" where
  "Script_fields cb =
    [Byte32 (cb_field script_code_hash cb),
     byte_component (cb_field script_hash_type cb),
     Bytes (cb_field script_args cb)]"

definition MolReader_Script_init_state :: "'g Script_callbacks option \<Rightarrow> 'g minit" where
  "MolReader_Script_init_state cb = table_init (hooks_of cb) 3"

definition MolReader_Script_parse :: "'g Script_callbacks option \<Rightarrow> 'g mparser" where
  "MolReader_Script_parse cb =
     table_parse (hooks_of cb) (cb_field script_offsets cb) (Script_fields cb)"

definition Script :: "'g Script_callbacks option \<Rightarrow> 'g component" where
  "Script cb = (MolReader_Script_init_state cb, MolReader_Script_parse cb)"

type_synonym 'g ScriptOpt_callbacks = "('g, 'g Script_callbacks) option_callbacks"

definition MolReader_ScriptOpt_init_state :: "'g ScriptOpt_callbacks option \<Rightarrow> 'g minit" where
  "MolReader_ScriptOpt_init_state cb = option_init (hooks_of cb) (Script (cb_field option_item_cb cb))"

definition MolReader_ScriptOpt_parse :: "'g ScriptOpt_callbacks option \<Rightarrow> 'g mparser" where
  "MolReader_ScriptOpt_parse cb = option_parse (hooks_of cb) (Script (cb_field option_item_cb cb))"

definition ScriptOpt :: "'g ScriptOpt_callbacks option \<Rightarrow> 'g component" where
  "ScriptOpt cb = (MolReader_ScriptOpt_init_state cb, MolReader_ScriptOpt_parse cb)"

record 'g OutPoint_callbacks = "'g hooks" +
  outpoint_tx_hash :: "'g Byte32_callbacks option"
  outpoint_index :: "'g Uint32_callbacks option"

definition MolReader_OutPoint_init_state :: "'g OutPoint_callbacks option \<Rightarrow> 'g minit" where
  "MolReader_OutPoint_init_state cb =
     struct_init (hooks_of cb) (Byte32 (cb_field outpoint_tx_hash cb))"

definition MolReader_OutPoint_parse :: "'g OutPoint_callbacks option \<Rightarrow> 'g mparser" where
  "MolReader_OutPoint_parse cb =
     struct_parse (hooks_of cb) 36
       (Byte32 (cb_field outpoint_tx_hash cb)) 32 (Uint32 (cb_field outpoint_index cb)) 4"

definition OutPoint :: "'g OutPoint_callbacks option \<Rightarrow> 'g component" where
  "OutPoint cb = (MolReader_OutPoint_init_state cb, MolReader_OutPoint_parse cb)"

record 'g CellInput_callbacks = "'g hooks" +
  cellinput_since :: "'g Uint64_callbacks option"
  cellinput_previous_output :: "'g OutPoint_callbacks option"

definition MolReader_CellInput_init_state :: "'g CellInput_callbacks option \<Rightarrow> 'g minit" where
  "MolReader_CellInput_init_state cb =
     struct_init (hooks_of cb) (Uint64 (cb_field cellinput_since cb))"

definition MolReader_CellInput_parse :: "'g CellInput_callbacks option \<Rightarrow> 'g mparser" where
  "MolReader_CellInput_parse cb =
     struct_parse (hooks_of cb) 44
       (Uint64 (cb_field cellinput_since cb)) 8 (OutPoint (cb_field cellinput_previous_output cb)) 36"

definition CellInput :: "'g CellInput_callbacks option \<Rightarrow> 'g component" where
  "CellInput cb = (MolReader_CellInput_init_state cb, MolReader_CellInput_parse cb)"

type_synonym 'g CellInputVec_callbacks = "('g, 'g CellInput_callbacks) fixvec_callbacks"

definition MolReader_CellInputVec_init_state :: "'g CellInputVec_callbacks option \<Rightarrow> 'g minit" where
  "MolReader_CellInputVec_init_state cb = vec_init (hooks_of cb)"

definition MolReader_CellInputVec_parse :: "'g CellInputVec_callbacks option \<Rightarrow> 'g mparser" where
  "MolReader_CellInputVec_parse cb =
     vec_parse (hooks_of cb) (cb_field fixvec_size cb) (cb_field fixvec_index cb) 44
       (CellInput (cb_field fixvec_item cb))"

definition CellInputVec :: "'g CellInputVec_callbacks option \<Rightarrow> 'g component" where
  "CellInputVec cb = (MolReader_CellInputVec_init_state cb, MolReader_CellInputVec_parse cb)"

record 'g CellOutput_callbacks = "'g hooks" +
  celloutput_offsets :: "(u32 \<Rightarrow> u32 list \<Rightarrow> 'g act) option"
  celloutput_capacity :: "'g Uint64_callbacks option"
  celloutput_lock :: "'g Script_callbacks option"
  celloutput_type :: "'g ScriptOpt_callbacks option"

definition CellOutput_fields :: "'g CellOutput_callbacks option \<Rightarrow> 'g component list" where
  "CellOutput_fields cb =
    [Uint64 (cb_field celloutput_capacity cb),
     Script (cb_field celloutput_lock cb),
     ScriptOpt (cb_field celloutput_type cb)]"

definition MolReader_CellOutput_init_state :: "'g CellOutput_callbacks option \<Rightarrow> 'g minit" where
  "MolReader_CellOutput_init_state cb = table_init (hooks_of cb) 3"

definition MolReader_CellOutput_parse :: "'g CellOutput_callbacks option \<Rightarrow> 'g mparser" where
  "MolReader_CellOutput_parse cb =
     table_parse (hooks_of cb) (cb_field celloutput_offsets cb) (CellOutput_fields cb)"

definition CellOutput :: "'g CellOutput_callbacks option \<Rightarrow> 'g component" where
  "CellOutput cb = (MolReader_CellOutput_init_state cb, MolReader_CellOutput_parse cb)"

type_synonym 'g CellOutputVec_callbacks = "('g, 'g CellOutput_callbacks) dynvec_callbacks"

definition MolReader_CellOutputVec_init_state :: "'g CellOutputVec_callbacks option \<Rightarrow> 'g minit" where
  "MolReader_CellOutputVec_init_state cb = dynvec_init (hooks_of cb)"

definition MolReader_CellOutputVec_parse :: "'g CellOutputVec_callbacks option \<Rightarrow> 'g mparser" where
  "MolReader_CellOutputVec_parse cb =
     dynvec_parse (hooks_of cb) (cb_field dynvec_size cb) (cb_field dynvec_length cb)
       (cb_field dynvec_index cb) (CellOutput (cb_field dynvec_item cb))"

definition CellOutputVec :: "'g CellOutputVec_callbacks option \<Rightarrow> 'g component" where
  "CellOutputVec cb = (MolReader_CellOutputVec_init_state cb, MolReader_CellOutputVec_parse cb)"

record 'g CellDep_callbacks = "'g hooks" +
  celldep_out_point :: "'g OutPoint_callbacks option"
  celldep_dep_type :: "'g byte_callbacks option"

definition MolReader_CellDep_init_state :: "'g CellDep_callbacks option \<Rightarrow> 'g minit" where
  "MolReader_CellDep_init_state cb =
     struct_init (hooks_of cb) (OutPoint (cb_field celldep_out_point cb))"

definition MolReader_CellDep_parse :: "'g CellDep_callbacks option \<Rightarrow> 'g mparser" where
  "MolReader_CellDep_parse cb =
     struct_parse (hooks_of cb) 37
       (OutPoint (cb_field celldep_out_point cb)) 36 (byte_component (cb_field celldep_dep_type cb)) 1"

definition CellDep :: "'g CellDep_callbacks option \<Rightarrow> 'g component" where
  "CellDep cb = (MolReader_CellDep_init_state cb, MolReader_CellDep_parse cb)"

type_synonym 'g CellDepVec_callbacks = "('g, 'g CellDep_callbacks) fixvec_callbacks"

definition MolReader_CellDepVec_init_state :: "'g CellDepVec_callbacks option \<Rightarrow> 'g minit" where
  "MolReader_CellDepVec_init_state cb = vec_init (hooks_of cb)"

definition MolReader_CellDepVec_parse :: "'g CellDepVec_callbacks option \<Rightarrow> 'g mparser" where
  "MolReader_CellDepVec_parse cb =
     vec_parse (hooks_of cb) (cb_field fixvec_size cb) (cb_field fixvec_index cb) 37
       (CellDep (cb_field fixvec_item cb))"

definition CellDepVec :: "'g CellDepVec_callbacks option \<Rightarrow> 'g component" where
  "CellDepVec cb = (MolReader_CellDepVec_init_state cb, MolReader_CellDepVec_parse cb)"

record 'g RawTransaction_callbacks = "'g hooks" +
  rawtransaction_offsets :: "(u32 \<Rightarrow> u32 list \<Rightarrow> 'g act) option"
  rawtransaction_version :: "'g Uint32_callbacks option"
  rawtransaction_cell_deps :: "'g CellDepVec_callbacks option"
  rawtransaction_header_deps :: "'g Byte32Vec_callbacks option"
  rawtransaction_inputs :: "'g CellInputVec_callbacks option"
  rawtransaction_outputs :: "'g CellOutputVec_callbacks option"
  rawtransaction_outputs_data :: "'g BytesVec_callbacks option"

definition RawTransaction_fields :: "'g RawTransaction_callbacks option \<Rightarrow> 'g component list" where
  "RawTransaction_fields cb =
    [Uint32 (cb_field rawtransaction_version cb),
     CellDepVec (cb_field rawtransaction_cell_deps cb),
     Byte32Vec (cb_field rawtransaction_header_deps cb),
     CellInputVec (cb_field rawtransaction_inputs cb),
     CellOutputVec (cb_field rawtransaction_outputs cb),
     BytesVec (cb_field rawtransaction_outputs_data cb)]"

definition MolReader_RawTransaction_init_state :: "'g RawTransaction_callbacks option \<Rightarrow> 'g minit" where
  "MolReader_RawTransaction_init_state cb = table_init (hooks_of cb) 6"

definition MolReader_RawTransaction_parse :: "'g RawTransaction_callbacks option \<Rightarrow> 'g mparser" where
  "MolReader_RawTransaction_parse cb =
     table_parse (hooks_of cb) (cb_field rawtransaction_offsets cb) (RawTransaction_fields cb)"

definition RawTransaction :: "'g RawTransaction_callbacks option \<Rightarrow> 'g component" where
  "RawTransaction cb = (MolReader_RawTransaction_init_state cb, MolReader_RawTransaction_parse cb)"

record 'g Transaction_callbacks = "'g hooks" +
  transaction_offsets :: "(u32 \<Rightarrow> u32 list \<Rightarrow> 'g act) option"
  transaction_raw :: "'g RawTransaction_callbacks option"
  transaction_witnesses :: "'g BytesVec_callbacks option"

definition Transaction_fields :: "'g Transaction_callbacks option \<Rightarrow> 'g component list" where
  "Transaction_fields cb =
    [RawTransaction (cb_field transaction_raw cb),
     BytesVec (cb_field transaction_witnesses cb)]"

definition MolReader_Transaction_init_state :: "'g Transaction_callbacks option \<Rightarrow> 'g minit" where
  "MolReader_Transaction_init_state cb = table_init (hooks_of cb) 2"

definition MolReader_Transaction_parse :: "'g Transaction_callbacks option \<Rightarrow> 'g mparser" where
  "MolReader_Transaction_parse cb =
     table_parse (hooks_of cb) (cb_field transaction_offsets cb) (Transaction_fields cb)"

definition Transaction :: "'g Transaction_callbacks option \<Rightarrow> 'g component" where
  "Transaction cb = (MolReader_Transaction_init_state cb, MolReader_Transaction_parse cb)"

record 'g WitnessArgs_callbacks = "'g hooks" +
  witnessargs_offsets :: "(u32 \<Rightarrow> u32 list \<Rightarrow> 'g act) option"
  witnessargs_lock :: "'g BytesOpt_callbacks option"
  witnessargs_input_type :: "'g BytesOpt_callbacks option"
  witnessargs_output_type :: "'g BytesOpt_callbacks option"

definition WitnessArgs_fields :: "'g WitnessArgs_callbacks option \<Rightarrow> 'g component list" where
  "WitnessArgs_fields cb =
    [BytesOpt (cb_field witnessargs_lock cb),
     BytesOpt (cb_field witnessargs_input_type cb),
     BytesOpt (cb_field witnessargs_output_type cb)]"

definition MolReader_WitnessArgs_init_state :: "'g WitnessArgs_callbacks option \<Rightarrow> 'g minit" where
  "MolReader_WitnessArgs_init_state cb = table_init (hooks_of cb) 3"

definition MolReader_WitnessArgs_parse :: "'g WitnessArgs_callbacks option \<Rightarrow> 'g mparser" where
  "MolReader_WitnessArgs_parse cb =
     table_parse (hooks_of cb) (cb_field witnessargs_offsets cb) (WitnessArgs_fields cb)"

definition WitnessArgs :: "'g WitnessArgs_callbacks option \<Rightarrow> 'g component" where
  "WitnessArgs cb = (MolReader_WitnessArgs_init_state cb, MolReader_WitnessArgs_parse cb)"

end
