(* ===== verification/Annotated.thy ===== *)
theory Annotated
  imports Blockchain
begin

text \<open>
  The generated readers of \<open>src/src/annotated.h\<close> (types of \<open>doc/annotated.mol\<close>): the
  transaction annotated with the signing paths and with the full source transaction of
  every input, as it is streamed to the device. Conventions as in \<open>Blockchain\<close>.
\<close>

record 'g AnnotatedCellInput_callbacks = "'g hooks" +
  annotatedcellinput_offsets :: "(u32 \<Rightarrow> u32 list \<Rightarrow> 'g act) option"
  annotatedcellinput_input :: "'g CellInput_callbacks option"
  annotatedcellinput_source :: "'g RawTransaction_callbacks option"

definition AnnotatedCellInput_fields :: "'g AnnotatedCellInput_callbacks option \<Rightarrow> 'g component list" where
  "AnnotatedCellInput_fields cb =
    [CellInput (cb_field annotatedcellinput_input cb),
     RawTransaction (cb_field annotatedcellinput_source cb)]"

definition MolReader_AnnotatedCellInput_init_state :: "'g AnnotatedCellInput_callbacks option \<Rightarrow> 'g minit" where
  "MolReader_AnnotatedCellInput_init_state cb = table_init (hooks_of cb) 2"

definition MolReader_AnnotatedCellInput_parse :: "'g AnnotatedCellInput_callbacks option \<Rightarrow> 'g mparser" where
  "MolReader_AnnotatedCellInput_parse cb =
     table_parse (hooks_of cb) (cb_field annotatedcellinput_offsets cb) (AnnotatedCellInput_fields cb)"

definition AnnotatedCellInput :: "'g AnnotatedCellInput_callbacks option \<Rightarrow> 'g component" where
  "AnnotatedCellInput cb = (MolReader_AnnotatedCellInput_init_state cb, MolReader_AnnotatedCellInput_parse cb)"

type_synonym 'g AnnotatedCellInputVec_callbacks = "('g, 'g AnnotatedCellInput_callbacks) dynvec_callbacks"

definition MolReader_AnnotatedCellInputVec_init_state :: "'g AnnotatedCellInputVec_callbacks option \<Rightarrow> 'g minit" where
  "MolReader_AnnotatedCellInputVec_init_state cb = dynvec_init (hooks_of cb)"

definition MolReader_AnnotatedCellInputVec_parse :: "'g AnnotatedCellInputVec_callbacks option \<Rightarrow> 'g mparser" where
  "MolReader_AnnotatedCellInputVec_parse cb =
     dynvec_parse (hooks_of cb) (cb_field dynvec_size cb) (cb_field dynvec_length cb)
       (cb_field dynvec_index cb) (AnnotatedCellInput (cb_field dynvec_item cb))"

definition AnnotatedCellInputVec :: "'g AnnotatedCellInputVec_callbacks option \<Rightarrow> 'g component" where
  "AnnotatedCellInputVec cb = (MolReader_AnnotatedCellInputVec_init_state cb, MolReader_AnnotatedCellInputVec_parse cb)"

record 'g AnnotatedRawTransaction_callbacks = "'g hooks" +
  annotatedrawtransaction_offsets :: "(u32 \<Rightarrow> u32 list \<Rightarrow> 'g act) option"
  annotatedrawtransaction_version :: "'g Uint32_callbacks option"
  annotatedrawtransaction_cell_deps :: "'g CellDepVec_callbacks option"
  annotatedrawtransaction_header_deps :: "'g Byte32Vec_callbacks option"
  annotatedrawtransaction_inputs :: "'g AnnotatedCellInputVec_callbacks option"
  annotatedrawtransaction_outputs :: "'g CellOutputVec_callbacks option"
  annotatedrawtransaction_outputs_data :: "'g BytesVec_callbacks option"

definition AnnotatedRawTransaction_fields :: "'g AnnotatedRawTransaction_callbacks option \<Rightarrow> 'g component list" where
  "AnnotatedRawTransaction_fields cb =
    [Uint32 (cb_field annotatedrawtransaction_version cb),
     CellDepVec (cb_field annotatedrawtransaction_cell_deps cb),
     Byte32Vec (cb_field annotatedrawtransaction_header_deps cb),
     AnnotatedCellInputVec (cb_field annotatedrawtransaction_inputs cb),
     CellOutputVec (cb_field annotatedrawtransaction_outputs cb),
     BytesVec (cb_field annotatedrawtransaction_outputs_data cb)]"

definition MolReader_AnnotatedRawTransaction_init_state :: "'g AnnotatedRawTransaction_callbacks option \<Rightarrow> 'g minit" where
  "MolReader_AnnotatedRawTransaction_init_state cb = table_init (hooks_of cb) 6"

definition MolReader_AnnotatedRawTransaction_parse :: "'g AnnotatedRawTransaction_callbacks option \<Rightarrow> 'g mparser" where
  "MolReader_AnnotatedRawTransaction_parse cb =
     table_parse (hooks_of cb) (cb_field annotatedrawtransaction_offsets cb) (AnnotatedRawTransaction_fields cb)"

definition AnnotatedRawTransaction :: "'g AnnotatedRawTransaction_callbacks option \<Rightarrow> 'g component" where
  "AnnotatedRawTransaction cb = (MolReader_AnnotatedRawTransaction_init_state cb, MolReader_AnnotatedRawTransaction_parse cb)"

type_synonym 'g Bip32_callbacks = "('g, 'g Uint32_callbacks) fixvec_callbacks"

definition MolReader_Bip32_init_state :: "'g Bip32_callbacks option \<Rightarrow> 'g minit" where
  "MolReader_Bip32_init_state cb = vec_init (hooks_of cb)"

definition MolReader_Bip32_parse :: "'g Bip32_callbacks option \<Rightarrow> 'g mparser" where
  "MolReader_Bip32_parse cb =
     vec_parse (hooks_of cb) (cb_field fixvec_size cb) (cb_field fixvec_index cb) 4
       (Uint32 (cb_field fixvec_item cb))"

definition Bip32 :: "'g Bip32_callbacks option \<Rightarrow> 'g component" where
  "Bip32 cb = (MolReader_Bip32_init_state cb, MolReader_Bip32_parse cb)"

record 'g AnnotatedTransaction_callbacks = "'g hooks" +
  annotatedtransaction_offsets :: "(u32 \<Rightarrow> u32 list \<Rightarrow> 'g act) option"
  annotatedtransaction_signPath :: "'g Bip32_callbacks option"
  annotatedtransaction_changePath :: "'g Bip32_callbacks option"
  annotatedtransaction_inputCount :: "'g Uint32_callbacks option"
  annotatedtransaction_raw :: "'g AnnotatedRawTransaction_callbacks option"
  annotatedtransaction_witnesses :: "'g BytesVec_callbacks option"

definition AnnotatedTransaction_fields :: "'g AnnotatedTransaction_callbacks option \<Rightarrow> 'g component list" where
  "AnnotatedTransaction_fields cb =
    [Bip32 (cb_field annotatedtransaction_signPath cb),
     Bip32 (cb_field annotatedtransaction_changePath cb),
     Uint32 (cb_field annotatedtransaction_inputCount cb),
     AnnotatedRawTransaction (cb_field annotatedtransaction_raw cb),
     BytesVec (cb_field annotatedtransaction_witnesses cb)]"

definition MolReader_AnnotatedTransaction_init_state :: "'g AnnotatedTransaction_callbacks option \<Rightarrow> 'g minit" where
  "MolReader_AnnotatedTransaction_init_state cb = table_init (hooks_of cb) 5"

definition MolReader_AnnotatedTransaction_parse :: "'g AnnotatedTransaction_callbacks option \<Rightarrow> 'g mparser" where
  "MolReader_AnnotatedTransaction_parse cb =
     table_parse (hooks_of cb) (cb_field annotatedtransaction_offsets cb) (AnnotatedTransaction_fields cb)"

definition AnnotatedTransaction :: "'g AnnotatedTransaction_callbacks option \<Rightarrow> 'g component" where
  "AnnotatedTransaction cb = (MolReader_AnnotatedTransaction_init_state cb, MolReader_AnnotatedTransaction_parse cb)"

end
