(* ===== verification/Molecule_Stream.thy ===== *)
theory Molecule_Stream
  imports Annotated "HOL-Library.Sublist"
begin

text \<open>
  The contract of the resumable readers: a parser may be handed its input in any number
  of pieces. \<open>stream_parser\<close> is the interface (what \<open>_init_state\<close> establishes, what an
  \<open>INCOMPLETE\<close> call leaves behind, and that two consecutive calls act as one call on the
  concatenated input). Each code template keeps it.
\<close>

section \<open>Relating outcomes\<close>

text \<open>
  Once a parser has rejected or thrown, its state is abandoned by the caller: two such
  outcomes are compared by their verdict only.
\<close>

definition sim :: "('t \<Rightarrow> bool) \<Rightarrow> ('t \<times> mol_state \<times> u8 list, 'g) res \<Rightarrow>
    ('t \<times> mol_state \<times> u8 list, 'g) res \<Rightarrow> bool" where
  "sim rej r r' =
     (case r of
        Ok (t, s, c) g \<Rightarrow>
          (case r' of Ok (t', s', c') g' \<Rightarrow> t = t' \<and> (rej t \<or> s = s' \<and> c = c' \<and> g = g')
           | _ \<Rightarrow> False)
      | Throw e g \<Rightarrow> (case r' of Throw e' g' \<Rightarrow> e = e' | _ \<Rightarrow> False)
      | Undef \<Rightarrow> r' = Undef)"

lemma sim_refl [simp]: "sim rej r r"
  by (auto simp: sim_def split: res.splits)

lemma sim_trans: "sim rej r1 r2 \<Longrightarrow> sim rej r2 r3 \<Longrightarrow> sim rej r1 r3"
  by (auto simp: sim_def split: res.splits)

lemma sim_sym: "sim rej r1 r2 \<Longrightarrow> sim rej r2 r1"
  by (auto simp: sim_def split: res.splits)

lemma sim_Ok [simp]:
  "sim rej (Ok (t, s, c) g) (Ok (t', s', c') g') \<longleftrightarrow> t = t' \<and> (rej t \<or> s = s' \<and> c = c' \<and> g = g')"
  by (simp add: sim_def)

lemma sim_cases [consumes 1, case_names ok rejected throw undef]:
  assumes "sim rej r r'"
  obtains t s c g where "r = Ok (t, s, c) g" "r' = Ok (t, s, c) g" "\<not> rej t"
  | t s c g s' c' g' where "r = Ok (t, s, c) g" "r' = Ok (t, s', c') g'" "rej t"
  | e g g' where "r = Throw e g" "r' = Throw e g'"
  | "r = Undef" "r' = Undef"
proof (cases r)
  case (Ok a g)
  obtain t s c where a: "a = (t, s, c)" by (cases a)
  then show thesis
    using assms Ok that(1) [of t s c g] that(2) [of t s c g]
    by (cases r') (auto simp: sim_def)
next
  case (Throw e g)
  then show thesis using assms that(3) by (cases r') (auto simp: sim_def)
next
  case Undef
  then show thesis using assms that(4) by (simp add: sim_def)
qed

lemma sim_Throw [simp]: "sim rej (Throw e g) (Throw e' g') \<longleftrightarrow> e = e'"
  by (simp add: sim_def)

definition resume :: "('t \<Rightarrow> bool) \<Rightarrow>
    (mol_state \<Rightarrow> u8 list \<Rightarrow> 'g \<Rightarrow> ('t \<times> mol_state \<times> u8 list, 'g) res) \<Rightarrow> u8 list \<Rightarrow>
    ('t \<times> mol_state \<times> u8 list, 'g) res \<Rightarrow> ('t \<times> mol_state \<times> u8 list, 'g) res" where
  "resume susp F ys r =
     (case r of
        Ok (t, s, c) g \<Rightarrow> if susp t then F s ys g else Ok (t, s, c @ ys) g
      | Throw e g \<Rightarrow> Throw e g
      | Undef \<Rightarrow> Undef)"

lemma resume_simps [simp]:
  "susp t \<Longrightarrow> resume susp F ys (Ok (t, s, c) g) = F s ys g"
  "\<not> susp t \<Longrightarrow> resume susp F ys (Ok (t, s, c) g) = Ok (t, s, c @ ys) g"
  "resume susp F ys (Throw e g) = Throw e g"
  "resume susp F ys Undef = Undef"
  by (simp_all add: resume_def)

definition post :: "('a \<Rightarrow> bool) \<Rightarrow> ('a, 'g) res \<Rightarrow> bool" where
  "post Q r = (case r of Ok a g \<Rightarrow> Q a | _ \<Rightarrow> True)"

lemma post_simps [simp]:
  "post Q (Ok a g) = Q a" "post Q (Throw e g)" "post Q Undef"
  by (simp_all add: post_def)

lemma post_bind: "(\<And>a g. r = Ok a g \<Longrightarrow> post Q (k a g)) \<Longrightarrow> post Q (res_bind r k)"
  by (cases r) simp_all

lemma postD: "post Q r \<Longrightarrow> r = Ok a g \<Longrightarrow> Q a"
  by simp

lemma post_mono: "post Q r \<Longrightarrow> (\<And>a. Q a \<Longrightarrow> Q' a) \<Longrightarrow> post Q' r"
  by (cases r) simp_all

section \<open>The interface of a resumable parser\<close>

abbreviation rv_susp :: "mol_rv \<Rightarrow> bool" where "rv_susp rv \<equiv> rv = INCOMPLETE"
abbreviation rv_rej :: "mol_rv \<Rightarrow> bool" where "rv_rej rv \<equiv> rv = REJECT"

text \<open>
  Handing over a list of chunks, one call each, until a call does not return
  \<open>INCOMPLETE\<close>; what the deciding call leaves unread is followed by the unused chunks.
\<close>

fun feed :: "'g mparser \<Rightarrow> u32 \<Rightarrow> mol_state \<Rightarrow> u8 list list \<Rightarrow> 'g \<Rightarrow>
    (mol_rv \<times> mol_state \<times> u8 list, 'g) res" where
  "feed p sz s [] g = Ok (INCOMPLETE, s, []) g"
| "feed p sz s (c # cs) g =
     res_bind (p sz s c g) (\<lambda>(rv, s', c'). if rv = INCOMPLETE \<and> cs \<noteq> [] then feed p sz s' cs
       else Ok (rv, s', c' @ concat cs))"

locale stream_parser =
  fixes p :: "'g component" and valid :: "mol_state \<Rightarrow> bool"
  assumes init_valid: "fst p g = Ok s g' \<Longrightarrow> valid s"
    and leaves: "valid s \<Longrightarrow>
      post (\<lambda>(rv, s', c'). (rv = INCOMPLETE \<longrightarrow> valid s' \<and> c' = []) \<and> suffix c' c) (snd p sz s c g)"
    and resumes: "valid s \<Longrightarrow>
      sim rv_rej (snd p sz s (xs @ ys) g) (resume rv_susp (snd p sz) ys (snd p sz s xs g))"
begin

lemma incomplete_valid:
  "valid s \<Longrightarrow> snd p sz s c g = Ok (INCOMPLETE, s', c') g' \<Longrightarrow> valid s' \<and> c' = []"
  using leaves [of s c sz g] by auto

lemma unread_suffix: "valid s \<Longrightarrow> snd p sz s c g = Ok (rv, s', c') g' \<Longrightarrow> suffix c' c"
  using leaves [of s c sz g] by auto

lemma feed_concat:
  "valid s \<Longrightarrow> cs \<noteq> [] \<Longrightarrow> sim rv_rej (snd p sz s (concat cs) g) (feed (snd p) sz s cs g)"
proof (induction cs arbitrary: s g)
  case Nil
  then show ?case by simp
next
  case (Cons c cs)
  let ?r = "snd p sz s c g"
  have main: "sim rv_rej (snd p sz s (c @ concat cs) g)
      (resume rv_susp (snd p sz) (concat cs) ?r)"
    using Cons.prems(1) by (rule resumes)
  show ?case
  proof (cases ?r)
    case (Ok a g')
    obtain rv s' c' where a: "a = (rv, s', c')" by (cases a)
    show ?thesis
    proof (cases "rv = INCOMPLETE")
      case True
      with Ok a Cons.prems(1) have v: "valid s'" "c' = []"
        using incomplete_valid by blast+
      show ?thesis
      proof (cases "cs = []")
        case True
        with v \<open>rv = INCOMPLETE\<close> Ok a show ?thesis by simp
      next
        case False
        with main Ok a True Cons.IH [of s' g'] v(1) show ?thesis
          by (auto intro: sim_trans)
      qed
    next
      case False
      with main Ok a show ?thesis by simp
    qed
  qed (use main in auto)
qed

text \<open>The verdict and all effects are independent of the packetisation.\<close>

lemma packetisation:
  assumes "valid s" "cs \<noteq> []" "ds \<noteq> []" "concat cs = concat ds"
  shows "sim rv_rej (feed (snd p) sz s cs g) (feed (snd p) sz s ds g)"
proof (rule sim_trans)
  show "sim rv_rej (feed (snd p) sz s cs g) (snd p sz s (concat ds) g)"
    using feed_concat [OF assms(1,2), of sz g] unfolding assms(4) by (rule sim_sym)
  show "sim rv_rej (snd p sz s (concat ds) g) (feed (snd p) sz s ds g)"
    using assms(1,3) by (rule feed_concat)
qed

end

section \<open>The contract of code fragments\<close>

definition fl_susp :: "flow \<Rightarrow> bool" where
  "fl_susp fl \<longleftrightarrow> fl = Leave INCOMPLETE \<or> fl = Bare INCOMPLETE"

definition fl_rej :: "flow \<Rightarrow> bool" where
  "fl_rej fl \<longleftrightarrow> fl = Leave REJECT \<or> fl = Bare REJECT"

lemma fl_simps [simp]:
  "\<not> fl_susp Fall" "\<not> fl_susp Finish" "fl_susp (Leave rv) \<longleftrightarrow> rv = INCOMPLETE"
  "fl_susp (Bare rv) \<longleftrightarrow> rv = INCOMPLETE" "\<not> fl_rej Fall" "\<not> fl_rej Finish"
  "fl_rej (Leave rv) \<longleftrightarrow> rv = REJECT" "fl_rej (Bare rv) \<longleftrightarrow> rv = REJECT"
  by (auto simp: fl_susp_def fl_rej_def)

abbreviation frag_sim :: "(flow \<times> mol_state \<times> u8 list, 'g) res \<Rightarrow>
    (flow \<times> mol_state \<times> u8 list, 'g) res \<Rightarrow> bool" where
  "frag_sim \<equiv> sim fl_rej"

abbreviation frag_resume :: "'g frag \<Rightarrow> u8 list \<Rightarrow> (flow \<times> mol_state \<times> u8 list, 'g) res \<Rightarrow>
    (flow \<times> mol_state \<times> u8 list, 'g) res" where
  "frag_resume \<equiv> resume fl_susp"

text \<open>\<open>leave_ok I J c\<close>: what a fragment entered in \<open>I\<close> with input \<open>c\<close> leaves behind.\<close>

definition leave_ok :: "(mol_state \<Rightarrow> bool) \<Rightarrow> (mol_state \<Rightarrow> bool) \<Rightarrow> u8 list \<Rightarrow>
    flow \<times> mol_state \<times> u8 list \<Rightarrow> bool" where
  "leave_ok I J c = (\<lambda>(fl, s', c').
     (fl_susp fl \<longrightarrow> I s' \<and> c' = []) \<and> (fl = Fall \<longrightarrow> J s') \<and> suffix c' c)"

definition frag_ok :: "(mol_state \<Rightarrow> bool) \<Rightarrow> (mol_state \<Rightarrow> bool) \<Rightarrow> 'g frag \<Rightarrow> bool" where
  "frag_ok I J F \<longleftrightarrow> (\<forall>s. I s \<longrightarrow>
     (\<forall>xs ys g. frag_sim (F s (xs @ ys) g) (frag_resume F ys (F s xs g))) \<and>
     (\<forall>c g. post (leave_ok I J c) (F s c g)))"

lemma frag_okI:
  assumes "\<And>s xs ys g. I s \<Longrightarrow> frag_sim (F s (xs @ ys) g) (frag_resume F ys (F s xs g))"
    and "\<And>s c g. I s \<Longrightarrow> post (leave_ok I J c) (F s c g)"
  shows "frag_ok I J F"
  using assms by (simp add: frag_ok_def)

lemma frag_ok_sim:
  "frag_ok I J F \<Longrightarrow> I s \<Longrightarrow> frag_sim (F s (xs @ ys) g) (frag_resume F ys (F s xs g))"
  by (simp add: frag_ok_def)

lemma frag_ok_post: "frag_ok I J F \<Longrightarrow> I s \<Longrightarrow> post (leave_ok I J c) (F s c g)"
  by (simp add: frag_ok_def)

lemma frag_ok_mono: "frag_ok I J F \<Longrightarrow> (\<And>s. J s \<Longrightarrow> J' s) \<Longrightarrow> frag_ok I J' F"
proof (rule frag_okI)
  fix s xs ys and g :: 'a
  assume "frag_ok I J F" "I s"
  then show "frag_sim (F s (xs @ ys) g) (frag_resume F ys (F s xs g))" by (rule frag_ok_sim)
next
  fix s c and g :: 'a
  assume F: "frag_ok I J F" and J: "\<And>s. J s \<Longrightarrow> J' s" and I: "I s"
  show "post (leave_ok I J' c) (F s c g)"
    using frag_ok_post [OF F I, of c g] by (rule post_mono) (auto simp: leave_ok_def J)
qed

text \<open>Continuations that hand the input on: the rules the fragment proofs are made of.\<close>

named_theorems stream_intros \<open>introduction rules for resumption of fragments\<close>

lemma sim_pass [stream_intros]:
  "\<not> fl_susp fl \<Longrightarrow> frag_sim (Ok (fl, s, c @ ys) g) (frag_resume F ys (Ok (fl, s, c) g))"
  by simp

lemma sim_bind [stream_intros]:
  "(\<And>a g. frag_sim (k1 a g) (frag_resume F ys (k2 a g))) \<Longrightarrow>
   frag_sim (res_bind m k1) (frag_resume F ys (res_bind m k2))"
  by (cases m) simp_all

lemma sim_if [stream_intros]:
  "(b \<Longrightarrow> frag_sim (A ) (frag_resume F ys (A'))) \<Longrightarrow> (\<not> b \<Longrightarrow> frag_sim (B) (frag_resume F ys (B'))) \<Longrightarrow>
   frag_sim (if b then A else B) (frag_resume F ys (if b then A' else B'))"
  by simp

section \<open>Sequencing\<close>

lemma seq_ok:
  assumes F1: "frag_ok I1 I2 F1" and F2: "frag_ok I2' J F2"
    and sub: "\<And>s. I2 s \<Longrightarrow> I2' s"
    and skip: "\<And>s c g. I2' s \<Longrightarrow> F1 s c g = Ok (Fall, s, c) g"
  shows "frag_ok (\<lambda>s. I1 s \<or> I2' s) J (seq F1 F2)"
proof (rule frag_okI)
  fix s xs ys and g :: 'a
  assume "I1 s \<or> I2' s"
  then show "frag_sim (seq F1 F2 s (xs @ ys) g) (frag_resume (seq F1 F2) ys (seq F1 F2 s xs g))"
  proof
    assume I1: "I1 s"
    have s1: "frag_sim (F1 s (xs @ ys) g) (frag_resume F1 ys (F1 s xs g))"
      using F1 I1 by (rule frag_ok_sim)
    show ?thesis
    proof (cases "F1 s xs g")
      case (Ok a g1)
      obtain fl s1' c where a: "a = (fl, s1', c)" by (cases a)
      have l: "leave_ok I1 I2 xs (fl, s1', c)"
        using frag_ok_post [OF F1 I1, of xs g] Ok a by simp
      show ?thesis
      proof (cases "fl = Fall")
        case True
        with s1 Ok a have eq: "F1 s (xs @ ys) g = Ok (Fall, s1', c @ ys) g1"
          by (auto simp: sim_def split: res.splits)
        have I2: "I2' s1'" using l True sub by (simp add: leave_ok_def)
        have s2: "frag_sim (F2 s1' (c @ ys) g1) (frag_resume F2 ys (F2 s1' c g1))"
          using F2 I2 by (rule frag_ok_sim)
        have l2: "post (leave_ok I2' J c) (F2 s1' c g1)" using F2 I2 by (rule frag_ok_post)
        have "frag_resume F2 ys (F2 s1' c g1) = frag_resume (seq F1 F2) ys (F2 s1' c g1)"
          using l2 skip by (auto simp: resume_def seq_def leave_ok_def split: res.splits)
        then show ?thesis using s2 Ok a True eq by (simp add: seq_def)
      next
        case False
        show ?thesis
        proof (cases "fl_susp fl")
          case True
          with s1 Ok a have "frag_sim (F1 s (xs @ ys) g) (F1 s1' ys g1)" by simp
          then have "frag_sim (seq F1 F2 s (xs @ ys) g) (seq F1 F2 s1' ys g1)"
            by (cases rule: sim_cases) (auto simp: seq_def)
          with Ok a False True show ?thesis by (simp add: seq_def)
        next
          case ns: False
          with s1 Ok a have "frag_sim (F1 s (xs @ ys) g) (Ok (fl, s1', c @ ys) g1)" by simp
          then show ?thesis using Ok a False ns
            by (cases rule: sim_cases) (auto simp: seq_def)
        qed
      qed
    qed (use s1 in \<open>auto simp: seq_def sim_def split: res.splits\<close>)
  next
    assume I2: "I2' s"
    have s2: "frag_sim (F2 s (xs @ ys) g) (frag_resume F2 ys (F2 s xs g))"
      using F2 I2 by (rule frag_ok_sim)
    have l2: "post (leave_ok I2' J xs) (F2 s xs g)" using F2 I2 by (rule frag_ok_post)
    have "frag_resume F2 ys (F2 s xs g) = frag_resume (seq F1 F2) ys (F2 s xs g)"
      using l2 skip by (auto simp: resume_def seq_def leave_ok_def split: res.splits)
    then show ?thesis using s2 I2 skip by (simp add: seq_def)
  qed
next
  fix s c and g :: 'a
  assume "I1 s \<or> I2' s"
  then show "post (leave_ok (\<lambda>s. I1 s \<or> I2' s) J c) (seq F1 F2 s c g)"
  proof
    assume I1: "I1 s"
    have p1: "post (leave_ok I1 I2 c) (F1 s c g)" using F1 I1 by (rule frag_ok_post)
    show ?thesis unfolding seq_def
    proof (rule post_bind)
      fix a g1
      assume r: "F1 s c g = Ok a g1"
      obtain fl s1 c1 where a: "a = (fl, s1, c1)" by (cases a)
      have l: "leave_ok I1 I2 c (fl, s1, c1)" using p1 r a by simp
      show "post (leave_ok (\<lambda>s. I1 s \<or> I2' s) J c)
          ((case a of (fl, s', c') \<Rightarrow> if fl = Fall then F2 s' c' else Ok (fl, s', c')) g1)"
      proof (cases "fl = Fall")
        case True
        then have "I2' s1" using l sub by (simp add: leave_ok_def)
        then have "post (leave_ok I2' J c1) (F2 s1 c1 g1)" by (rule frag_ok_post [OF F2])
        then show ?thesis using True a l
          by (auto simp: leave_ok_def intro: suffix_order.trans elim!: post_mono)
      qed (use l a in \<open>auto simp: leave_ok_def\<close>)
    qed
  next
    assume I2: "I2' s"
    have "post (leave_ok I2' J c) (F2 s c g)" using F2 I2 by (rule frag_ok_post)
    then show ?thesis using skip [OF I2]
      by (auto simp: seq_def leave_ok_def elim!: post_mono)
  qed
qed

lemma ex_le_Suc_split: "(\<exists>j\<le>Suc n. P j) \<longleftrightarrow> P 0 \<or> (\<exists>j\<le>n. P (Suc j))"
proof
  assume "\<exists>j\<le>Suc n. P j"
  then obtain j where "j \<le> Suc n" "P j" by blast
  then show "P 0 \<or> (\<exists>j\<le>n. P (Suc j))" by (cases j) auto
qed auto

text \<open>
  A chain of statements with an invariant for each program point: statement \<open>i\<close> takes
  point \<open>i\<close> to point \<open>i + 1\<close> and is skipped at every later point.
\<close>

lemma chain_ok:
  assumes "\<And>i. i < length Fs \<Longrightarrow> frag_ok (Inv (k + i)) (Inv (Suc (k + i))) (Fs ! i)"
    and "\<And>i j s c g. i < j \<Longrightarrow> j \<le> length Fs \<Longrightarrow> Inv (k + j) s \<Longrightarrow>
      (Fs ! i) s c g = Ok (Fall, s, c) g"
  shows "frag_ok (\<lambda>s. \<exists>j\<le>length Fs. Inv (k + j) s) (Inv (k + length Fs)) (chain Fs)"
  using assms
proof (induction Fs arbitrary: k)
  case Nil
  show ?case
    by (rule frag_okI) (simp_all add: skip_frag_def leave_ok_def)
next
  case (Cons F Fs)
  have hd: "frag_ok (Inv k) (Inv (Suc k)) F"
    using Cons.prems(1) [of 0] by simp
  have tl: "frag_ok (\<lambda>s. \<exists>j\<le>length Fs. Inv (Suc k + j) s) (Inv (Suc k + length Fs)) (chain Fs)"
  proof (rule Cons.IH)
    fix i assume "i < length Fs"
    then show "frag_ok (Inv (Suc k + i)) (Inv (Suc (Suc k + i))) (Fs ! i)"
      using Cons.prems(1) [of "Suc i"] by simp
  next
    fix i j s c and g :: 'a
    assume "i < j" "j \<le> length Fs" "Inv (Suc k + j) s"
    then show "(Fs ! i) s c g = Ok (Fall, s, c) g"
      using Cons.prems(2) [of "Suc i" "Suc j"] by simp
  qed
  have "frag_ok (\<lambda>s. Inv k s \<or> (\<exists>j\<le>length Fs. Inv (Suc k + j) s)) (Inv (Suc k + length Fs))
      (seq F (chain Fs))"
  proof (rule seq_ok [OF hd tl])
    fix s assume "Inv (Suc k) s"
    then show "\<exists>j\<le>length Fs. Inv (Suc k + j) s" by (intro exI [of _ 0]) simp
  next
    fix s c and g :: 'a
    assume "\<exists>j\<le>length Fs. Inv (Suc k + j) s"
    then obtain j where "j \<le> length Fs" "Inv (Suc k + j) s" by blast
    then show "F s c g = Ok (Fall, s, c) g"
      using Cons.prems(2) [of 0 "Suc j"] by simp
  qed
  moreover have "(\<lambda>s. Inv k s \<or> (\<exists>j\<le>length Fs. Inv (Suc k + j) s)) =
      (\<lambda>s. \<exists>j\<le>length (F # Fs). Inv (k + j) s)"
    by (rule ext) (simp add: ex_le_Suc_split)
  ultimately show ?case by simp
qed

section \<open>Byte arrays and numbers\<close>

definition bytes_valid :: "nat \<Rightarrow> mol_state \<Rightarrow> bool" where
  "bytes_valid n s = (case s of Bytes_st fill buf \<Rightarrow> unat fill \<le> n \<and> n \<le> length buf | _ \<Rightarrow> False)"

lemma bytes_validE:
  assumes "bytes_valid n s"
  obtains fill buf where "s = Bytes_st fill buf" "unat fill \<le> n" "n \<le> length buf"
  using assms by (cases s) (auto simp: bytes_valid_def)

lemma bytes_valid_init [simp]: "n \<le> m \<Longrightarrow> bytes_valid n (Bytes_st 0 (replicate m 0))"
  by (simp add: bytes_valid_def)

lemma unat_sub_le: "unat f \<le> unat (t :: u32) \<Longrightarrow> unat (t - f) = unat t - unat f"
  by (simp add: unat_sub word_le_nat_alt)

lemma unat_add_of_nat:
  assumes "unat (f :: u32) + k \<le> unat (t :: u32)"
  shows "unat (f + of_nat k) = unat f + k"
proof -
  have "unat t < 2 ^ 32" using unat_bound [of t] by simp
  then show ?thesis using assms by (simp add: unat_word_ariths unat_of_nat)
qed

text \<open>What \<open>mol_parse_bytes\<close> does on a valid state, without the word arithmetic.\<close>

lemma mol_parse_bytes_eq:
  assumes "unat fill \<le> unat tsz" "unat tsz \<le> length buf"
  shows "mol_parse_bytes cb tsz (Bytes_st fill buf) c g =
     (let needed = unat tsz - unat fill; k = min needed (length c);
          buf' = mem_write buf (unat fill) (take k c)
      in if needed \<le> length c
         then res_bind (case cb_field bytes_end cb of None \<Rightarrow> Ok () g
                         | Some f \<Rightarrow> f (take (unat tsz) buf') g)
                (\<lambda>_. Ok (COMPLETE, Bytes_st tsz buf', drop k c))
         else Ok (INCOMPLETE, Bytes_st (fill + of_nat k) buf', []) g)"
proof -
  have n: "unat (tsz - fill) = unat tsz - unat fill" using assms(1) by (rule unat_sub_le)
  have f: "fill + of_nat (unat tsz - unat fill) = tsz"
    by (simp add: n [symmetric])
  show ?thesis using assms
    by (auto simp: mol_parse_bytes_def Let_def n f min_def cong: option.case_cong)
qed

lemma mol_parse_bytes_stream:
  assumes v: "bytes_valid (unat tsz) s"
  shows "sim rv_rej (mol_parse_bytes cb tsz s (xs @ ys) g)
       (resume rv_susp (mol_parse_bytes cb tsz) ys (mol_parse_bytes cb tsz s xs g))"
    and "post (\<lambda>(rv, s', c'). (rv = INCOMPLETE \<longrightarrow> bytes_valid (unat tsz) s' \<and> c' = []) \<and>
       suffix c' c) (mol_parse_bytes cb tsz s c g)"
proof -
  obtain fill buf where s: "s = Bytes_st fill buf" and f: "unat fill \<le> unat tsz"
    and b: "unat tsz \<le> length buf"
    using v by (rule bytes_validE)
  let ?n = "unat tsz - unat fill"
  show "sim rv_rej (mol_parse_bytes cb tsz s (xs @ ys) g)
       (resume rv_susp (mol_parse_bytes cb tsz) ys (mol_parse_bytes cb tsz s xs g))"
  proof (cases "?n \<le> length xs")
    case True
    then show ?thesis using f b s
      by (auto simp: mol_parse_bytes_eq Let_def min_def split: option.splits)
        (auto simp: resume_def sim_def res_bind_def split: res.splits)
  next
    case False
    have f2: "unat (fill + of_nat (length xs)) = unat fill + length xs"
      by (rule unat_add_of_nat [of _ _ tsz]) (use False in simp)
    have assoc: "fill + of_nat (length xs) + of_nat k = fill + of_nat (length xs + k)" for k
      by simp
    show ?thesis using False f b s
      by (auto simp: mol_parse_bytes_eq Let_def min_def f2 mem_write_append split: option.splits)
  qed
  show "post (\<lambda>(rv, s', c'). (rv = INCOMPLETE \<longrightarrow> bytes_valid (unat tsz) s' \<and> c' = []) \<and>
       suffix c' c) (mol_parse_bytes cb tsz s c g)"
  proof (cases "?n \<le> length c")
    case True
    then show ?thesis using f b s
      by (auto simp: mol_parse_bytes_eq Let_def suffix_drop split: option.splits intro!: post_bind)
  next
    case False
    have f2: "unat (fill + of_nat (length c)) = unat fill + length c"
      by (rule unat_add_of_nat [of _ _ tsz]) (use False in simp)
    show ?thesis using False f b s
      by (auto simp: mol_parse_bytes_eq Let_def bytes_valid_def f2 min_def)
  qed
qed

lemma leave_ok_suffix: "leave_ok I J c' r \<Longrightarrow> suffix c' c \<Longrightarrow> leave_ok I J c r"
  by (cases r) (auto simp: leave_ok_def intro: suffix_order.trans)

lemma mol_parse_bytes_None_cases:
  assumes "bytes_valid (unat tsz) u"
  obtains u' c' where "mol_parse_bytes None tsz u c g = Ok (COMPLETE, u', c') g" "suffix c' c"
      "\<And>ys. mol_parse_bytes None tsz u (c @ ys) g = Ok (COMPLETE, u', c' @ ys) g"
  | u' where "mol_parse_bytes None tsz u c g = Ok (INCOMPLETE, u', []) g" "bytes_valid (unat tsz) u'"
      "\<And>ys. mol_parse_bytes None tsz u (c @ ys) g = mol_parse_bytes None tsz u' ys g"
proof -
  obtain fill buf where u: "u = Bytes_st fill buf" "unat fill \<le> unat tsz" "unat tsz \<le> length buf"
    using assms by (rule bytes_validE)
  have eqsim: "sim rv_rej r r' \<Longrightarrow> \<exists>a. r' = Ok a g \<and> fst a \<noteq> REJECT \<Longrightarrow> r = r'"
    for r r' :: "(mol_rv \<times> mol_state \<times> u8 list, 'a) res"
    by (auto simp: sim_def split: res.splits)
  have total: "\<exists>a. mol_parse_bytes None tsz u' d g = Ok a g \<and> fst a \<noteq> REJECT"
    if "bytes_valid (unat tsz) u'" for u' d
    using that by (auto elim!: bytes_validE simp: mol_parse_bytes_eq Let_def)
  note R = mol_parse_bytes_stream(1) [OF assms, where cb = None and xs = c and g = g]
  note P = mol_parse_bytes_stream(2) [OF assms, where cb = None and c = c and g = g]
  obtain rv u' c' where r: "mol_parse_bytes None tsz u c g = Ok (rv, u', c') g" "rv \<noteq> REJECT"
    using total [OF assms, of c] by auto
  show thesis
  proof (cases rv)
    case INCOMPLETE
    with P r have v: "bytes_valid (unat tsz) u'" "c' = []" by auto
    have "mol_parse_bytes None tsz u (c @ ys) g = mol_parse_bytes None tsz u' ys g" for ys
      using R [where ys = ys] r INCOMPLETE total [OF v(1), of ys] by (intro eqsim) auto
    with r INCOMPLETE v that(2) show thesis by simp
  next
    case COMPLETE
    have "mol_parse_bytes None tsz u (c @ ys) g = Ok (COMPLETE, u', c' @ ys) g" for ys
      using R [where ys = ys] r COMPLETE by (intro eqsim) auto
    with r COMPLETE P that(1) show thesis by simp
  qed (use r in simp)
qed

lemma unat_4 [simp]: "unat (4 :: u32) = 4" by simp

lemma MOL_CALL_NUM_sim:
  assumes u: "bytes_valid 4 u"
    and F: "\<And>u' ys g. bytes_valid 4 u' \<Longrightarrow> F (put u') ys g = MOL_CALL_NUM u' put k ys g"
    and k: "\<And>v u' c' g'. bytes_valid 4 u' \<or> True \<Longrightarrow>
      frag_sim (k v u' (c' @ ys) g') (frag_resume F ys (k v u' c' g'))"
  shows "frag_sim (MOL_CALL_NUM u put k (xs @ ys) g) (frag_resume F ys (MOL_CALL_NUM u put k xs g))"
proof -
  have "bytes_valid (unat (4 :: u32)) u" using u by simp
  then show ?thesis
    by (cases rule: mol_parse_bytes_None_cases [of 4 u xs g])
      (use F k in \<open>auto simp: MOL_CALL_NUM_def mol_parse_num_def\<close>)
qed

lemma MOL_CALL_NUM_post:
  assumes u: "bytes_valid 4 u" and I: "\<And>u'. bytes_valid 4 u' \<Longrightarrow> I (put u')"
    and k: "\<And>v u' c' g'. suffix c' c \<Longrightarrow> post (leave_ok I J c') (k v u' c' g')"
  shows "post (leave_ok I J c) (MOL_CALL_NUM u put k c g)"
proof -
  have "bytes_valid (unat (4 :: u32)) u" using u by simp
  then show ?thesis
  proof (cases rule: mol_parse_bytes_None_cases [of 4 u c g])
    case (1 u' c')
    have "post (leave_ok I J c) (k v u' c' g)" for v
      using k [OF 1(2), of v u' g] by (rule post_mono) (rule leave_ok_suffix [OF _ 1(2)])
    with 1 show ?thesis by (simp add: MOL_CALL_NUM_def mol_parse_num_def)
  next
    case (2 u')
    with I show ?thesis by (auto simp: MOL_CALL_NUM_def mol_parse_num_def leave_ok_def)
  qed
qed

section \<open>Calling a component\<close>

lemma MOL_CALL_SUBPARSER_sim:
  assumes p: "stream_parser p V" and u: "V u"
    and F: "\<And>u' ys g. V u' \<Longrightarrow> F (put u') ys g = MOL_CALL_SUBPARSER (snd p) sz u' put k ys g"
    and k: "\<And>u' c' g'. frag_sim (k u' (c' @ ys) g') (frag_resume F ys (k u' c' g'))"
  shows "frag_sim (MOL_CALL_SUBPARSER (snd p) sz u put k (xs @ ys) g)
     (frag_resume F ys (MOL_CALL_SUBPARSER (snd p) sz u put k xs g))"
proof -
  have R: "sim rv_rej (snd p sz u (xs @ ys) g) (resume rv_susp (snd p sz) ys (snd p sz u xs g))"
    using p u by (rule stream_parser.resumes)
  show ?thesis
  proof (cases "snd p sz u xs g")
    case (Ok a g1)
    obtain rv u' c' where a: "a = (rv, u', c')" by (cases a)
    show ?thesis
    proof (cases "rv = INCOMPLETE")
      case True
      have V: "V u'" using stream_parser.incomplete_valid [OF p u] Ok a True by blast
      have "sim rv_rej (snd p sz u (xs @ ys) g) (snd p sz u' ys g1)" using R Ok a True by simp
      then have "frag_sim (MOL_CALL_SUBPARSER (snd p) sz u put k (xs @ ys) g)
          (MOL_CALL_SUBPARSER (snd p) sz u' put k ys g1)"
        by (cases rule: sim_cases) (auto simp: MOL_CALL_SUBPARSER_def)
      then show ?thesis using Ok a True F [OF V] by (simp add: MOL_CALL_SUBPARSER_def)
    next
      case False
      then have "sim rv_rej (snd p sz u (xs @ ys) g) (Ok (rv, u', c' @ ys) g1)"
        using R Ok a by simp
      then show ?thesis using Ok a False k
        by (cases rule: sim_cases) (auto simp: MOL_CALL_SUBPARSER_def)
    qed
  qed (use R in \<open>auto simp: MOL_CALL_SUBPARSER_def sim_def split: res.splits\<close>)
qed

lemma MOL_CALL_SUBPARSER_post:
  assumes p: "stream_parser p V" and u: "V u" and I: "\<And>u'. V u' \<Longrightarrow> I (put u')"
    and k: "\<And>u' c' g'. suffix c' c \<Longrightarrow> post (leave_ok I J c') (k u' c' g')"
  shows "post (leave_ok I J c) (MOL_CALL_SUBPARSER (snd p) sz u put k c g)"
  unfolding MOL_CALL_SUBPARSER_def
proof (rule post_bind)
  fix a g1
  assume r: "snd p sz u c g = Ok a g1"
  obtain rv u' c' where a: "a = (rv, u', c')" by (cases a)
  have l: "(rv = INCOMPLETE \<longrightarrow> V u' \<and> c' = []) \<and> suffix c' c"
    using stream_parser.leaves [OF p u, of c sz g] r a by simp
  have "post (leave_ok I J c) (k u' c' g1)"
    using k [of c' u' g1] l by (auto elim!: post_mono intro: leave_ok_suffix)
  then show "post (leave_ok I J c) ((case a of (rv, u', c') \<Rightarrow>
      if rv = COMPLETE then k u' c' else Ok (Leave rv, put u', c')) g1)"
    using a l I by (auto simp: leave_ok_def)
qed

section \<open>Closing a body\<close>

definition map_res :: "('g \<Rightarrow> 'g) \<Rightarrow> ('a, 'g) res \<Rightarrow> ('a, 'g) res" where
  "map_res f r = (case r of Ok a g \<Rightarrow> Ok a (f g) | Throw e g \<Rightarrow> Throw e (f g) | Undef \<Rightarrow> Undef)"

lemma map_res_simps [simp]:
  "map_res f (Ok a g) = Ok a (f g)" "map_res f (Throw e g) = Throw e (f g)"
  "map_res f Undef = Undef"
  by (simp_all add: map_res_def)

text \<open>
  A \<open>chunk\<close> callback sees the bytes a body consumed in one call. For the pieces to add
  up, it is a total update that composes over concatenation (feeding a hash) and touches
  nothing the callbacks inside the body read or write.
\<close>

definition hook_ok :: "'g hooks \<Rightarrow> 'g frag \<Rightarrow> bool" where
  "hook_ok h F \<longleftrightarrow> (case chunk_cb h of None \<Rightarrow> True | Some f \<Rightarrow>
     (\<exists>G. f = (\<lambda>b g. Ok () (G b g)) \<and> (\<forall>a b g. G b (G a g) = G (a @ b) g) \<and>
        (\<forall>b s c g. F s c (G b g) = map_res (G b) (F s c g)) \<and>
        (\<forall>s c g. post (\<lambda>(fl, _, _). \<forall>rv. fl = Bare rv \<longrightarrow> rv = REJECT) (F s c g))))"

lemma hook_ok_None: "chunk_cb h = None \<Longrightarrow> hook_ok h F"
  by (simp add: hook_ok_def)

lemma run_body_post:
  assumes "frag_ok I J F" "I s"
  shows "post (\<lambda>(rv, s', c'). (rv = INCOMPLETE \<longrightarrow> I s' \<and> c' = []) \<and> suffix c' c)
     (run_body h F s c g)"
  unfolding run_body_def
proof (rule post_bind)
  fix a g1
  assume r: "F s c g = Ok a g1"
  obtain fl s' c' where a: "a = (fl, s', c')" by (cases a)
  have "leave_ok I J c (fl, s', c')" using frag_ok_post [OF assms, of c g] r a by simp
  then show "post (\<lambda>(rv, s', c'). (rv = INCOMPLETE \<longrightarrow> I s' \<and> c' = []) \<and> suffix c' c)
      ((case a of (fl, s', ca) \<Rightarrow> \<lambda>g'. case fl of Fall \<Rightarrow> closing h c s' ca g'
        | Leave rv \<Rightarrow> res_bind (call_chunk (chunk_cb h) c ca g') (\<lambda>_. Ok (rv, s', ca))
        | Bare rv \<Rightarrow> Ok (rv, s', ca) g' | Finish \<Rightarrow> closing h c s' ca g') g1)"
    using a by (cases fl) (auto simp: closing_def leave_ok_def intro!: post_bind)
qed

lemma run_body_sim:
  assumes F: "frag_ok I J F" and h: "hook_ok h F" and I: "I s"
  shows "sim rv_rej (run_body h F s (xs @ ys) g)
     (resume rv_susp (run_body h F) ys (run_body h F s xs g))"
proof -
  have R: "frag_sim (F s (xs @ ys) g) (frag_resume F ys (F s xs g))"
    using F I by (rule frag_ok_sim)
  have used: "take (length (xs @ ys) - length (c @ ys)) (xs @ ys) = take (length xs - length c) xs"
    for c by simp
  show ?thesis
  proof (cases "F s xs g")
    case (Ok a g1)
    obtain fl s' c where a: "a = (fl, s', c)" by (cases a)
    have l: "leave_ok I J xs (fl, s', c)" using frag_ok_post [OF F I, of xs g] Ok a by simp
    show ?thesis
    proof (cases "fl_susp fl")
      case True
      then have c: "c = []" and I': "I s'" using l by (simp_all add: leave_ok_def)
      have S: "frag_sim (F s (xs @ ys) g) (F s' ys g1)" using R Ok a True by simp
      have L: "post (leave_ok I J ys) (F s' ys g1)" using F I' by (rule frag_ok_post)
      have shift: "take (length xs + length ys - length d) xs = xs"
        "length xs + length ys - length d - length xs = length ys - length d"
        if "suffix d ys" for d
        using that suffix_length_le [OF that] by simp_all
      show ?thesis
      proof (cases "chunk_cb h")
        case None
        then have "run_body h F s xs g = Ok (INCOMPLETE, s', []) g1"
          using Ok a c True by (auto simp: run_body_def call_chunk_def fl_susp_def)
        moreover from S have "sim rv_rej (run_body h F s (xs @ ys) g) (run_body h F s' ys g1)"
        proof (cases rule: sim_cases)
          case (rejected t s1 c1 g2 s2 c2 g3)
          then show ?thesis using None
            by (auto simp: run_body_def call_chunk_def fl_rej_def)
        qed (use None in \<open>auto simp: run_body_def call_chunk_def closing_def split: flow.splits\<close>)
        ultimately show ?thesis by simp
      next
        case (Some f)
        then obtain G where f: "f = (\<lambda>b g. Ok () (G b g))"
          and add: "\<And>a b g. G b (G a g) = G (a @ b) g"
          and com: "\<And>b s c g. F s c (G b g) = map_res (G b) (F s c g)"
          and nb: "\<And>s c g. post (\<lambda>(fl, _, _). \<forall>rv. fl = Bare rv \<longrightarrow> rv = REJECT) (F s c g)"
          using h by (auto simp: hook_ok_def)
        have "fl = Leave INCOMPLETE"
          using True nb [of s xs g] Ok a by (auto simp: fl_susp_def)
        then have one: "run_body h F s xs g = Ok (INCOMPLETE, s', []) (G xs g1)"
          using Ok a c Some f by (simp add: run_body_def call_chunk_def)
        have two: "F s' ys (G xs g1) = map_res (G xs) (F s' ys g1)" by (rule com)
        from S have "sim rv_rej (run_body h F s (xs @ ys) g) (run_body h F s' ys (G xs g1))"
        proof (cases rule: sim_cases)
          case (ok t s1 c1 g2)
          have suf: "suffix c1 ys" using L ok by (simp add: leave_ok_def)
          have "\<forall>rv. t = Bare rv \<longrightarrow> rv = REJECT" using nb [of s' ys g1] ok by simp
          then show ?thesis using ok two Some f suf
            by (auto simp: run_body_def call_chunk_def closing_def shift add split: flow.splits)
        next
          case (rejected t s1 c1 g2 s2 c2 g3)
          then show ?thesis using two Some f
            by (auto simp: run_body_def call_chunk_def fl_rej_def)
        qed (use two in \<open>auto simp: run_body_def\<close>)
        with one show ?thesis by simp
      qed
    next
      case False
      then have "frag_sim (F s (xs @ ys) g) (Ok (fl, s', c @ ys) g1)" using R Ok a by simp
      then show ?thesis
      proof (cases rule: sim_cases)
        case (ok t s1 c1 g2)
        then show ?thesis using Ok a False
          by (auto simp: run_body_def closing_def call_chunk_def res_bind_def
              split: flow.splits option.splits res.splits)
      next
        case (rejected t s1 c1 g2 s2 c2 g3)
        then show ?thesis using Ok a h
          by (auto simp: run_body_def call_chunk_def fl_rej_def hook_ok_def split: option.splits)
      qed auto
    qed
  qed (use R in \<open>auto simp: run_body_def sim_def split: res.splits\<close>)
qed

end
