(* ===== verification/Molecule_Laws.thy ===== *)
theory Molecule_Laws
  imports Molecule_Stream
begin

text \<open>
  Every code template keeps the interface \<open>stream_parser\<close>: tables, structs, options, the
  two kinds of vectors, byte strings and the basic types. A validity predicate says which
  states of a component occur between two calls.
\<close>

section \<open>Basic types\<close>

definition byte_valid :: "mol_state \<Rightarrow> bool" where
  "byte_valid s \<longleftrightarrow> s = Byte_st"

lemma byte_stream: "stream_parser (byte_component cb) byte_valid"
proof
  fix g g' :: 'a and s
  assume "fst (byte_component cb) g = Ok s g'"
  then show "byte_valid s"
    by (simp add: byte_component_def MolReader_byte_init_state_def byte_valid_def)
next
  fix s sz c and g :: 'a
  assume "byte_valid s"
  then show "post (\<lambda>(rv, s', c'). (rv = INCOMPLETE \<longrightarrow> byte_valid s' \<and> c' = []) \<and> suffix c' c)
      (snd (byte_component cb) sz s c g)"
    by (auto simp: byte_component_def MolReader_byte_parse_def suffix_Cons
        split: list.splits option.splits intro!: post_bind)
next
  fix s sz xs ys and g :: 'a
  assume "byte_valid s"
  then show "sim rv_rej (snd (byte_component cb) sz s (xs @ ys) g)
      (resume rv_susp (snd (byte_component cb) sz) ys (snd (byte_component cb) sz s xs g))"
    by (auto simp: byte_component_def MolReader_byte_parse_def res_bind_def
        split: list.splits option.splits res.splits)
qed

lemma array_stream:
  assumes "unat n \<le> 32"
  shows "stream_parser (mol_bytes_init_state, \<lambda>sz. mol_parse_bytes cb n) (bytes_valid (unat n))"
proof
  fix g g' :: 'a and s
  assume "fst (mol_bytes_init_state, \<lambda>sz :: u32. mol_parse_bytes cb n) g = Ok s g'"
  with assms show "bytes_valid (unat n) s" by (auto simp: mol_bytes_init_state_def)
next
  fix s sz c and g :: 'a
  assume "bytes_valid (unat n) s"
  then show "post (\<lambda>(rv, s', c'). (rv = INCOMPLETE \<longrightarrow> bytes_valid (unat n) s' \<and> c' = []) \<and>
      suffix c' c) (snd (mol_bytes_init_state, \<lambda>sz :: u32. mol_parse_bytes cb n) sz s c g)"
    by (simp add: mol_parse_bytes_stream(2))
next
  fix s sz xs ys and g :: 'a
  assume "bytes_valid (unat n) s"
  then show "sim rv_rej (snd (mol_bytes_init_state, \<lambda>sz :: u32. mol_parse_bytes cb n) sz s (xs @ ys) g)
      (resume rv_susp (snd (mol_bytes_init_state, \<lambda>sz :: u32. mol_parse_bytes cb n) sz) ys
        (snd (mol_bytes_init_state, \<lambda>sz :: u32. mol_parse_bytes cb n) sz s xs g))"
    by (simp add: mol_parse_bytes_stream(1))
qed

lemma Uint32_stream: "stream_parser (Uint32 cb) (bytes_valid 4)"
  and Uint64_stream: "stream_parser (Uint64 cb) (bytes_valid 8)"
  and Uint128_stream: "stream_parser (Uint128 cb) (bytes_valid 16)"
  and Byte32_stream: "stream_parser (Byte32 cb) (bytes_valid 32)"
  and Uint256_stream: "stream_parser (Uint256 cb) (bytes_valid 32)"
  using array_stream [of 4 cb] array_stream [of 8 cb] array_stream [of 16 cb] array_stream [of 32 cb]
  by (simp_all add: Uint32_def Uint64_def Uint128_def Byte32_def Uint256_def
      MolReader_Uint32_init_state_def MolReader_Uint32_parse_def [abs_def]
      MolReader_Uint64_init_state_def MolReader_Uint64_parse_def [abs_def]
      MolReader_Uint128_init_state_def MolReader_Uint128_parse_def [abs_def]
      MolReader_Byte32_init_state_def MolReader_Byte32_parse_def [abs_def]
      MolReader_Uint256_init_state_def MolReader_Uint256_parse_def [abs_def])

section \<open>Tables\<close>

lemma of_nat_u32_eq:
  assumes "a < 2 ^ 32" "b < 2 ^ 32"
  shows "(of_nat a :: u32) = of_nat b \<longleftrightarrow> a = b"
proof
  assume "(of_nat a :: u32) = of_nat b"
  then have "unat (of_nat a :: u32) = unat (of_nat b :: u32)" by simp
  with assms show "a = b" by (simp add: unat_of_nat)
qed simp

text \<open>The state of a table of \<open>length Vs\<close> fields at program point \<open>i\<close> of its body.\<close>

definition table_inv :: "(mol_state \<Rightarrow> bool) list \<Rightarrow> nat \<Rightarrow> mol_state \<Rightarrow> bool" where
  "table_inv Vs i s =
     (case s of
        Table_st sn fi tot offs u \<Rightarrow>
          length offs = length Vs \<and>
          (if i = 0 then sn = 0 \<and> fi = 0 \<and> bytes_valid 4 u
           else if i \<le> length Vs + 1 then sn = 1 \<and> fi = of_nat (i - 1) \<and> bytes_valid 4 u
           else if i \<le> 2 * length Vs + 1
           then sn = 2 \<and> fi = of_nat (i - (length Vs + 2)) \<and> (Vs ! (i - (length Vs + 2))) u
           else sn = 3)
      | _ \<Rightarrow> False)"

definition table_valid :: "(mol_state \<Rightarrow> bool) list \<Rightarrow> mol_state \<Rightarrow> bool" where
  "table_valid Vs s \<longleftrightarrow> (\<exists>i\<le>2 * length Vs + 2. table_inv Vs i s)"

lemma table_invE:
  assumes "table_inv Vs i s"
  obtains sn fi tot offs u where "s = Table_st sn fi tot offs u"
  using assms by (cases s) (auto simp: table_inv_def)

lemma num_init_valid [simp]: "bytes_valid 4 mol_num_init_state"
  by (simp add: mol_num_init_state_def)

lemma table_total_ok: "frag_ok (table_inv Vs 0) (table_inv Vs (Suc 0)) (table_total sz)"
proof (rule frag_okI)
  fix s xs ys and g :: 'a
  assume "table_inv Vs 0 s"
  then obtain fi tot offs u where s: "s = Table_st 0 fi tot offs u" "bytes_valid 4 u"
    by (cases s) (auto simp: table_inv_def)
  show "frag_sim (table_total sz s (xs @ ys) g)
      (frag_resume (table_total sz) ys (table_total sz s xs g))"
    using s by (simp add: table_total_def) (rule MOL_CALL_NUM_sim, auto simp: table_total_def)
next
  fix s c and g :: 'a
  assume "table_inv Vs 0 s"
  then obtain tot offs u where s: "s = Table_st 0 0 tot offs u" "bytes_valid 4 u"
    "length offs = length Vs"
    by (cases s) (auto simp: table_inv_def)
  then show "post (leave_ok (table_inv Vs 0) (table_inv Vs (Suc 0)) c) (table_total sz s c g)"
    by (simp add: table_total_def)
      (rule MOL_CALL_NUM_post, auto simp: table_inv_def leave_ok_def)
qed

lemma table_offset_ok:
  assumes "k < length Vs"
  shows "frag_ok (table_inv Vs (Suc k)) (table_inv Vs (Suc (Suc k))) (table_offset k)"
proof (rule frag_okI)
  fix s xs ys and g :: 'a
  assume "table_inv Vs (Suc k) s"
  then obtain tot offs u where s: "s = Table_st 1 (of_nat k) tot offs u" "bytes_valid 4 u"
    using assms by (cases s) (auto simp: table_inv_def)
  show "frag_sim (table_offset k s (xs @ ys) g)
      (frag_resume (table_offset k) ys (table_offset k s xs g))"
    using s by (simp add: table_offset_def) (rule MOL_CALL_NUM_sim, auto simp: table_offset_def)
next
  fix s c and g :: 'a
  assume "table_inv Vs (Suc k) s"
  then obtain tot offs u where s: "s = Table_st 1 (of_nat k) tot offs u" "bytes_valid 4 u"
    "length offs = length Vs"
    using assms by (cases s) (auto simp: table_inv_def)
  then show "post (leave_ok (table_inv Vs (Suc k)) (table_inv Vs (Suc (Suc k))) c)
      (table_offset k s c g)"
    using assms by (simp add: table_offset_def)
      (rule MOL_CALL_NUM_post, auto simp: table_inv_def leave_ok_def)
qed

lemma table_offsets_done_ok:
  assumes p: "stream_parser p (Vs ! 0)" and n: "0 < length Vs"
  shows "frag_ok (table_inv Vs (Suc (length Vs))) (table_inv Vs (Suc (Suc (length Vs))))
     (table_offsets_done ocb (fst p))"
proof (rule frag_okI)
  fix s xs ys and g :: 'a
  assume "table_inv Vs (Suc (length Vs)) s"
  then obtain tot offs u where s: "s = Table_st 1 (of_nat (length Vs)) tot offs u"
    by (cases s) (auto simp: table_inv_def)
  then show "frag_sim (table_offsets_done ocb (fst p) s (xs @ ys) g)
      (frag_resume (table_offsets_done ocb (fst p)) ys (table_offsets_done ocb (fst p) s xs g))"
    by (auto simp: table_offsets_done_def intro!: stream_intros)
next
  fix s c and g :: 'a
  assume "table_inv Vs (Suc (length Vs)) s"
  then obtain tot offs u where s: "s = Table_st 1 (of_nat (length Vs)) tot offs u"
    "length offs = length Vs"
    by (cases s) (auto simp: table_inv_def)
  then show "post (leave_ok (table_inv Vs (Suc (length Vs))) (table_inv Vs (Suc (Suc (length Vs)))) c)
      (table_offsets_done ocb (fst p) s c g)"
    using n stream_parser.init_valid [OF p]
    by (auto simp: table_offsets_done_def leave_ok_def table_inv_def Suc_le_eq intro!: post_bind)
qed

lemma table_field_ok:
  assumes ps: "\<And>i. i < length Vs \<Longrightarrow> stream_parser (ps ! i) (Vs ! i)"
    and n: "length ps = length Vs" and k: "k < length Vs"
  shows "frag_ok (table_inv Vs (length Vs + 2 + k)) (table_inv Vs (Suc (length Vs + 2 + k)))
     (table_field ps k)"
proof (rule frag_okI)
  fix s xs ys and g :: 'a
  assume "table_inv Vs (length Vs + 2 + k) s"
  then obtain tot offs u where s: "s = Table_st 2 (of_nat k) tot offs u" "(Vs ! k) u"
    using k by (cases s) (auto simp: table_inv_def)
  show "frag_sim (table_field ps k s (xs @ ys) g)
      (frag_resume (table_field ps k) ys (table_field ps k s xs g))"
    using s k n
    by (simp add: table_field_def)
      (rule MOL_CALL_SUBPARSER_sim [OF ps [OF k]],
        auto simp: table_field_def intro!: stream_intros)
next
  fix s c and g :: 'a
  assume "table_inv Vs (length Vs + 2 + k) s"
  then obtain tot offs u where s: "s = Table_st 2 (of_nat k) tot offs u" "(Vs ! k) u"
    "length offs = length Vs"
    using k by (cases s) (auto simp: table_inv_def)
  show "post (leave_ok (table_inv Vs (length Vs + 2 + k)) (table_inv Vs (Suc (length Vs + 2 + k))) c)
      (table_field ps k s c g)"
    using s n k
    by (simp add: table_field_def)
      (rule MOL_CALL_SUBPARSER_post [OF ps [OF k]],
        auto simp: table_inv_def leave_ok_def dest: stream_parser.init_valid [OF ps]
          intro!: post_bind)
qed


text \<open>The fragments of a table are skipped once control is past them.\<close>

lemma table_skips:
  assumes "length Vs < 2 ^ 31" "table_inv Vs j s"
  shows "0 < j \<Longrightarrow> table_total sz s c g = Ok (Fall, s, c) g"
    and "k < length Vs \<Longrightarrow> Suc k < j \<Longrightarrow> table_offset k s c g = Ok (Fall, s, c) g"
    and "Suc (length Vs) < j \<Longrightarrow> table_offsets_done ocb i0 s c g = Ok (Fall, s, c) g"
    and "k < length Vs \<Longrightarrow> length Vs + 2 + k < j \<Longrightarrow> table_field ps k s c g = Ok (Fall, s, c) g"
proof -
  obtain sn fi tot offs u where s: "s = Table_st sn fi tot offs u"
    using assms(2) by (rule table_invE)
  show "0 < j \<Longrightarrow> table_total sz s c g = Ok (Fall, s, c) g"
    using assms s by (auto simp: table_inv_def table_total_def split: if_splits)
  show "Suc (length Vs) < j \<Longrightarrow> table_offsets_done ocb i0 s c g = Ok (Fall, s, c) g"
    using assms s by (auto simp: table_inv_def table_offsets_done_def split: if_splits)
  show "k < length Vs \<Longrightarrow> Suc k < j \<Longrightarrow> table_offset k s c g = Ok (Fall, s, c) g"
    using assms s of_nat_u32_eq [of "j - 1" k]
    by (auto simp: table_inv_def table_offset_def split: if_splits)
  show "k < length Vs \<Longrightarrow> length Vs + 2 + k < j \<Longrightarrow> table_field ps k s c g = Ok (Fall, s, c) g"
    using assms s of_nat_u32_eq [of "j - (length Vs + 2)" k]
    by (auto simp: table_inv_def table_field_def split: if_splits)
qed

definition table_frags :: "u32 \<Rightarrow> (u32 \<Rightarrow> u32 list \<Rightarrow> 'g act) option \<Rightarrow> 'g component list \<Rightarrow>
    'g frag list" where
  "table_frags sz ocb ps = [table_total sz] @ map table_offset [0..<length ps] @
     [table_offsets_done ocb (fst (ps ! 0))] @ map (table_field ps) [0..<length ps]"

lemma table_frags_nth:
  assumes "n = length ps"
  shows "length (table_frags sz ocb ps) = 2 * n + 2"
    and "table_frags sz ocb ps ! 0 = table_total sz"
    and "k < n \<Longrightarrow> table_frags sz ocb ps ! Suc k = table_offset k"
    and "table_frags sz ocb ps ! Suc n = table_offsets_done ocb (fst (ps ! 0))"
    and "k < n \<Longrightarrow> table_frags sz ocb ps ! (n + 2 + k) = table_field ps k"
  using assms by (simp_all add: table_frags_def nth_append)

lemma table_frags_cases:
  assumes "i < 2 * n + 2"
  obtains "i = 0" | k where "k < n" "i = Suc k" | "i = Suc n" | k where "k < n" "i = n + 2 + k"
proof -
  consider "i = 0" | "0 < i" "i \<le> n" | "i = Suc n" | "Suc n < i" by linarith
  then show thesis
  proof cases
    case 2
    then show thesis using that(2) [of "i - 1"] by simp
  next
    case 4
    then have "i = n + 2 + (i - (n + 2))" "i - (n + 2) < n" using assms by linarith+
    then show thesis using that(4) by blast
  qed (use that in auto)
qed

lemma table_chain_ok:
  assumes ps: "\<And>i. i < length Vs \<Longrightarrow> stream_parser (ps ! i) (Vs ! i)"
    and n: "length ps = length Vs" "0 < length Vs" "length Vs < 2 ^ 31"
  shows "frag_ok (table_valid Vs) (table_inv Vs (2 * length Vs + 2))
    (chain (table_frags sz ocb ps))"
proof -
  note nth = table_frags_nth [OF n(1) [symmetric], where sz = sz and ocb = ocb]
  have "frag_ok (\<lambda>s. \<exists>j\<le>length (table_frags sz ocb ps). table_inv Vs (0 + j) s)
     (table_inv Vs (0 + length (table_frags sz ocb ps))) (chain (table_frags sz ocb ps))"
  proof (rule chain_ok)
    fix i assume "i < length (table_frags sz ocb ps)"
    then have "i < 2 * length Vs + 2" by (simp add: nth(1))
    then have "frag_ok (table_inv Vs i) (table_inv Vs (Suc i)) (table_frags sz ocb ps ! i)"
    proof (cases rule: table_frags_cases)
      case 1 then show ?thesis by (simp only: nth) (rule table_total_ok)
    next
      case (2 k) then show ?thesis by (simp only: nth) (rule table_offset_ok)
    next
      case 3 then show ?thesis by (simp only: nth) (rule table_offsets_done_ok [OF ps [OF n(2)] n(2)])
    next
      case (4 k) then show ?thesis by (simp only: nth) (rule table_field_ok [OF ps n(1)])
    qed
    then show "frag_ok (table_inv Vs (0 + i)) (table_inv Vs (Suc (0 + i))) (table_frags sz ocb ps ! i)"
      by simp
  next
    fix i j s c and g :: 'a
    assume j: "i < j" "j \<le> length (table_frags sz ocb ps)" "table_inv Vs (0 + j) s"
    then have "i < 2 * length Vs + 2" by (simp add: nth(1))
    then show "(table_frags sz ocb ps ! i) s c g = Ok (Fall, s, c) g"
    proof (cases rule: table_frags_cases)
      case 1 with j show ?thesis by (simp only: nth) (rule table_skips(1) [OF n(3)], auto)
    next
      case (2 k) with j show ?thesis by (simp only: nth) (rule table_skips(2) [OF n(3)], auto)
    next
      case 3 with j show ?thesis by (simp only: nth) (rule table_skips(3) [OF n(3)], auto)
    next
      case (4 k) with j show ?thesis by (simp only: nth) (rule table_skips(4) [OF n(3)], auto)
    qed
  qed
  then show ?thesis by (simp add: table_valid_def [abs_def] nth(1))
qed

text \<open>\<open>ps\<close> and \<open>Vs\<close> given as explicit lists of the same length.\<close>

lemma table_stream:
  assumes ps: "list_all2 stream_parser ps Vs"
    and n: "ps \<noteq> []" "length ps < 2 ^ 31"
    and h: "\<And>sz. hook_ok h (chain (table_frags sz ocb ps))"
  shows "stream_parser (table h ocb ps) (table_valid Vs)"
proof
  have len: "length ps = length Vs" using ps by (rule list_all2_lengthD)
  have nth: "\<And>i. i < length Vs \<Longrightarrow> stream_parser (ps ! i) (Vs ! i)"
    using ps len by (simp add: list_all2_conv_all_nth)
  have F: "frag_ok (table_valid Vs) (table_inv Vs (2 * length Vs + 2))
      (chain (table_frags sz ocb ps))" for sz
    by (rule table_chain_ok) (use nth len n in auto)
  have P: "snd (table h ocb ps) = (\<lambda>sz. run_body h (chain (table_frags sz ocb ps)))"
    by (rule ext) (simp add: table_def table_parse_def table_frags_def)
  {
    fix g g' :: 'a and s
    assume "fst (table h ocb ps) g = Ok s g'"
    then have "table_inv Vs 0 s"
      by (auto simp: table_def table_init_def res_bind_eq_Ok table_inv_def len)
    then show "table_valid Vs s" unfolding table_valid_def by blast
  next
    fix s sz c and g :: 'a
    assume "table_valid Vs s"
    with F show "post (\<lambda>(rv, s', c'). (rv = INCOMPLETE \<longrightarrow> table_valid Vs s' \<and> c' = []) \<and>
        suffix c' c) (snd (table h ocb ps) sz s c g)"
      unfolding P by (rule run_body_post)
  next
    fix s sz xs ys and g :: 'a
    assume "table_valid Vs s"
    with F h show "sim rv_rej (snd (table h ocb ps) sz s (xs @ ys) g)
        (resume rv_susp (snd (table h ocb ps) sz) ys (snd (table h ocb ps) sz s xs g))"
      unfolding P by (rule run_body_sim)
  }
qed

section \<open>Structs and options\<close>

lemma seq_skip_frag [simp]: "seq F skip_frag = F"
proof (intro ext)
  fix s c and g :: 'a
  show "seq F skip_frag s c g = F s c g"
    by (cases "F s c g") (auto simp: seq_def skip_frag_def)
qed

lemma sim_bind_Ok:
  "(\<And>a g. m = Ok a g \<Longrightarrow> frag_sim (k1 a g) (frag_resume F ys (k2 a g))) \<Longrightarrow>
   frag_sim (res_bind m k1) (frag_resume F ys (res_bind m k2))"
  by (cases m) simp_all

definition struct_valid :: "(mol_state \<Rightarrow> bool) \<Rightarrow> (mol_state \<Rightarrow> bool) \<Rightarrow> mol_state \<Rightarrow> bool" where
  "struct_valid V1 V2 s \<longleftrightarrow> (case s of Struct_st sn u \<Rightarrow> sn = 0 \<and> V1 u \<or> sn = 1 \<and> V2 u | _ \<Rightarrow> False)"

lemma struct_first_ok:
  assumes p1: "stream_parser p1 V1" and p2: "stream_parser p2 V2"
  shows "frag_ok (\<lambda>s. \<exists>u. s = Struct_st 0 u \<and> V1 u) (\<lambda>s. \<exists>u. s = Struct_st 1 u \<and> V2 u)
    (struct_first p1 sz1 p2)"
proof (rule frag_okI)
  fix s xs ys and g :: 'a
  assume "\<exists>u. s = Struct_st 0 u \<and> V1 u"
  then obtain u where s: "s = Struct_st 0 u" "V1 u" by blast
  then show "frag_sim (struct_first p1 sz1 p2 s (xs @ ys) g)
      (frag_resume (struct_first p1 sz1 p2) ys (struct_first p1 sz1 p2 s xs g))"
    by (simp add: struct_first_def)
      (rule MOL_CALL_SUBPARSER_sim [OF p1], auto simp: struct_first_def intro!: stream_intros)
next
  fix s c and g :: 'a
  assume "\<exists>u. s = Struct_st 0 u \<and> V1 u"
  then obtain u where s: "s = Struct_st 0 u" "V1 u" by blast
  then show "post (leave_ok (\<lambda>s. \<exists>u. s = Struct_st 0 u \<and> V1 u)
      (\<lambda>s. \<exists>u. s = Struct_st 1 u \<and> V2 u) c) (struct_first p1 sz1 p2 s c g)"
    by (simp add: struct_first_def)
      (rule MOL_CALL_SUBPARSER_post [OF p1],
        auto simp: leave_ok_def dest: stream_parser.init_valid [OF p2] intro!: post_bind)
qed

lemma struct_second_ok:
  assumes p2: "stream_parser p2 V2"
  shows "frag_ok (\<lambda>s. \<exists>u. s = Struct_st 1 u \<and> V2 u) (\<lambda>s. True) (struct_second p2 sz2)"
proof (rule frag_okI)
  fix s xs ys and g :: 'a
  assume "\<exists>u. s = Struct_st 1 u \<and> V2 u"
  then obtain u where s: "s = Struct_st 1 u" "V2 u" by blast
  then show "frag_sim (struct_second p2 sz2 s (xs @ ys) g)
      (frag_resume (struct_second p2 sz2) ys (struct_second p2 sz2 s xs g))"
    by (simp add: struct_second_def)
      (rule MOL_CALL_SUBPARSER_sim [OF p2], auto simp: struct_second_def)
next
  fix s c and g :: 'a
  assume "\<exists>u. s = Struct_st 1 u \<and> V2 u"
  then obtain u where s: "s = Struct_st 1 u" "V2 u" by blast
  then show "post (leave_ok (\<lambda>s. \<exists>u. s = Struct_st 1 u \<and> V2 u) (\<lambda>s. True) c)
      (struct_second p2 sz2 s c g)"
    by (simp add: struct_second_def)
      (rule MOL_CALL_SUBPARSER_post [OF p2], auto simp: leave_ok_def)
qed

abbreviation struct_body :: "u32 \<Rightarrow> 'g component \<Rightarrow> u32 \<Rightarrow> 'g component \<Rightarrow> u32 \<Rightarrow> u32 \<Rightarrow> 'g frag" where
  "struct_body tsz p1 sz1 p2 sz2 sz \<equiv>
     chain [struct_size tsz sz, struct_first p1 sz1 p2, struct_second p2 sz2]"

lemma struct_body_ok:
  assumes p1: "stream_parser p1 V1" and p2: "stream_parser p2 V2"
  shows "frag_ok (struct_valid V1 V2) (\<lambda>_. True) (struct_body tsz p1 sz1 p2 sz2 sz)"
proof (cases "sz \<noteq> tsz \<and> sz \<noteq> MOL_NUM_MAX")
  case True
  then show ?thesis
    by (intro frag_okI) (auto simp: seq_def struct_size_def leave_ok_def)
next
  case False
  let ?B = "seq (struct_first p1 sz1 p2) (struct_second p2 sz2)"
  have eq: "struct_body tsz p1 sz1 p2 sz2 sz = ?B"
    by (intro ext) (use False in \<open>auto simp: seq_def [of "struct_size tsz sz"] struct_size_def\<close>)
  have "frag_ok (\<lambda>s. (\<exists>u. s = Struct_st 0 u \<and> V1 u) \<or> (\<exists>u. s = Struct_st 1 u \<and> V2 u))
      (\<lambda>_. True) ?B"
    by (rule seq_ok [OF struct_first_ok [OF p1 p2] struct_second_ok [OF p2]])
      (auto simp: struct_first_def)
  moreover have "(\<lambda>s. (\<exists>u. s = Struct_st 0 u \<and> V1 u) \<or> (\<exists>u. s = Struct_st 1 u \<and> V2 u)) =
      struct_valid V1 V2"
    by (rule ext) (auto simp: struct_valid_def split: mol_state.splits)
  ultimately show ?thesis unfolding eq by simp
qed

text \<open>A component whose \<open>_parse\<close> is \<open>run_body\<close> of a lawful body is lawful.\<close>

lemma run_body_stream:
  assumes i: "\<And>g s g'. fst p g = Ok s g' \<Longrightarrow> I s"
    and P: "\<And>sz s c g. snd p sz s c g = run_body h (B sz) s c g"
    and F: "\<And>sz. frag_ok I J (B sz)" and h: "\<And>sz. hook_ok h (B sz)"
  shows "stream_parser p I"
proof
  have P': "snd p = (\<lambda>sz. run_body h (B sz))" by (intro ext) (rule P)
  {
    fix g g' :: 'a and s
    assume "fst p g = Ok s g'"
    then show "I s" by (rule i)
  next
    fix s sz c and g :: 'a
    assume "I s"
    with F show "post (\<lambda>(rv, s', c'). (rv = INCOMPLETE \<longrightarrow> I s' \<and> c' = []) \<and>
        suffix c' c) (snd p sz s c g)"
      unfolding P' by (rule run_body_post)
  next
    fix s sz xs ys and g :: 'a
    assume "I s"
    with F h show "sim rv_rej (snd p sz s (xs @ ys) g) (resume rv_susp (snd p sz) ys (snd p sz s xs g))"
      unfolding P' by (rule run_body_sim)
  }
qed

lemma struct_stream:
  assumes p1: "stream_parser p1 V1" and p2: "stream_parser p2 V2"
    and h: "\<And>sz. hook_ok h (struct_body tsz p1 sz1 p2 sz2 sz)"
  shows "stream_parser (struct h tsz p1 sz1 p2 sz2) (struct_valid V1 V2)"
  by (rule run_body_stream [OF _ _ struct_body_ok [OF p1 p2] h])
    (auto simp: struct_def struct_init_def struct_parse_def res_bind_eq_Ok struct_valid_def
      dest: stream_parser.init_valid [OF p1])

definition option_valid :: "(mol_state \<Rightarrow> bool) \<Rightarrow> mol_state \<Rightarrow> bool" where
  "option_valid V s \<longleftrightarrow> (case s of Opt_st u \<Rightarrow> V u | _ \<Rightarrow> False)"

lemma option_item_ok:
  assumes p: "stream_parser p V"
  shows "frag_ok (option_valid V) (\<lambda>_. True) (option_item p sz)"
proof (cases "sz = 0")
  case True
  then show ?thesis by (intro frag_okI) (auto simp: option_item_def leave_ok_def)
next
  case False
  show ?thesis
  proof (rule frag_okI)
    fix s xs ys and g :: 'a
    assume "option_valid V s"
    then obtain u where s: "s = Opt_st u" "V u"
      by (cases s) (auto simp: option_valid_def)
    with False show "frag_sim (option_item p sz s (xs @ ys) g)
        (frag_resume (option_item p sz) ys (option_item p sz s xs g))"
      by (simp add: option_item_def)
        (rule MOL_CALL_SUBPARSER_sim [OF p], auto simp: option_item_def)
  next
    fix s c and g :: 'a
    assume "option_valid V s"
    then obtain u where s: "s = Opt_st u" "V u"
      by (cases s) (auto simp: option_valid_def)
    with False show "post (leave_ok (option_valid V) (\<lambda>_. True) c) (option_item p sz s c g)"
      by (simp add: option_item_def)
        (rule MOL_CALL_SUBPARSER_post [OF p], auto simp: leave_ok_def option_valid_def)
  qed
qed

lemma option_stream:
  assumes p: "stream_parser p V" and h: "\<And>sz. hook_ok h (option_item p sz)"
  shows "stream_parser (option_of h p) (option_valid V)"
  by (rule run_body_stream [OF _ _ option_item_ok [OF p] h])
    (auto simp: option_of_def option_init_def option_parse_def res_bind_eq_Ok option_valid_def
      dest: stream_parser.init_valid [OF p])

section \<open>Vectors of fixed-size items\<close>

text \<open>
  The length prefix of a vector of items of at least one byte fits with its items in 32
  bits, so \<open>state_num\<close>, which counts from 1, never wraps around.
\<close>

definition vec_run :: "(mol_state \<Rightarrow> bool) \<Rightarrow> mol_state \<Rightarrow> bool" where
  "vec_run V s = (case s of Vec_st sn len u \<Rightarrow>
     0 < unat sn \<and> unat sn \<le> unat len + 1 \<and> unat len + 4 < 2 ^ 32 \<and> V u | _ \<Rightarrow> False)"

definition vec_start :: "mol_state \<Rightarrow> bool" where
  "vec_start s = (case s of Vec_st sn len u \<Rightarrow> sn = 0 \<and> bytes_valid 4 u | _ \<Rightarrow> False)"

definition vec_valid :: "(mol_state \<Rightarrow> bool) \<Rightarrow> mol_state \<Rightarrow> bool" where
  "vec_valid V s \<longleftrightarrow> vec_start s \<or> vec_run V s"

lemma vec_start_Vec [simp]: "vec_start (Vec_st sn len u) \<longleftrightarrow> sn = 0 \<and> bytes_valid 4 u"
  by (simp add: vec_start_def)

lemma vec_run_upd: "vec_run V (Vec_st sn len u) \<Longrightarrow> V u' \<Longrightarrow> vec_run V (Vec_st sn len u')"
  by (simp add: vec_run_def)

lemma vec_run_first: "V u \<Longrightarrow> unat len + 4 < 2 ^ 32 \<Longrightarrow> vec_run V (Vec_st 1 len u)"
  by (simp add: vec_run_def)

lemma leave_ok_tuple:
  "leave_ok I J c (fl, s', c') \<longleftrightarrow>
     (fl_susp fl \<longrightarrow> I s' \<and> c' = []) \<and> (fl = Fall \<longrightarrow> J s') \<and> suffix c' c"
  by (simp add: leave_ok_def)

lemma length_with_prefix_bound:
  assumes "length_with_prefix len n = Some t" "0 < n"
  shows "unat len + 4 < 2 ^ 32"
proof -
  have "unat len \<le> unat len * n" using assms(2) by simp
  moreover have "unat len * n + 4 < 2 ^ 32"
    using assms(1) by (auto simp: length_with_prefix_def split: if_splits)
  ultimately show ?thesis by linarith
qed

lemma check_vec_size_sim:
  assumes "\<And>t g'. length_with_prefix v n = Some t \<Longrightarrow> frag_sim (k1 g') (frag_resume F ys (k2 g'))"
  shows "frag_sim (check_vec_size scb n sz v s (c @ ys) k1 g)
    (frag_resume F ys (check_vec_size scb n sz v s c k2 g))"
  using assms
  by (auto simp: check_vec_size_def split: option.splits intro!: stream_intros)

lemma check_vec_size_post:
  assumes "\<And>t g'. length_with_prefix v n = Some t \<Longrightarrow> post (leave_ok I J c) (k g')"
  shows "post (leave_ok I J c) (check_vec_size scb n sz v s c k g)"
  using assms
  by (auto simp: check_vec_size_def leave_ok_def split: option.splits intro!: post_bind)

lemma vec_head_ok:
  assumes p: "stream_parser p V" and n: "0 < n"
  shows "frag_ok vec_start (vec_run V) (vec_head scb icb n p sz)"
proof (rule frag_okI)
  fix s xs ys and g :: 'a
  assume "vec_start s"
  then obtain len u where s: "s = Vec_st 0 len u" "bytes_valid 4 u"
    by (cases s) (auto simp: vec_start_def)
  then show "frag_sim (vec_head scb icb n p sz s (xs @ ys) g)
      (frag_resume (vec_head scb icb n p sz) ys (vec_head scb icb n p sz s xs g))"
    by (simp add: vec_head_def)
      (rule MOL_CALL_NUM_sim,
        auto simp: vec_head_def intro!: check_vec_size_sim stream_intros)
next
  fix s c and g :: 'a
  assume "vec_start s"
  then obtain len u where s: "s = Vec_st 0 len u" "bytes_valid 4 u"
    by (cases s) (auto simp: vec_start_def)
  then show "post (leave_ok vec_start (vec_run V) c) (vec_head scb icb n p sz s c g)"
    by (simp add: vec_head_def)
      (rule MOL_CALL_NUM_post,
        auto simp: leave_ok_tuple
          dest!: length_with_prefix_bound [OF _ n] dest: stream_parser.init_valid [OF p]
          intro!: check_vec_size_post post_bind vec_run_first)
qed

lemma vec_run_step:
  assumes "vec_run V (Vec_st sn len u)" "sn - 1 < len" "V u'"
  shows "vec_run V (Vec_st (sn + 1) len u')"
proof -
  from assms(1) have sn: "0 < unat sn" "unat sn \<le> unat len + 1" "unat len + 4 < 2 ^ 32"
    by (auto simp: vec_run_def)
  have "unat (sn - 1) = unat sn - 1" using sn(1) by (intro unat_minus_one) auto
  then have lt: "unat sn < unat len + 1" using assms(2) sn(1) by (simp add: word_less_nat_alt)
  then have "unat (sn + 1) = unat sn + 1" using sn(3) by (simp add: unat_word_ariths)
  with lt sn assms(3) show ?thesis by (simp add: vec_run_def)
qed

lemma vec_loop_sim:
  assumes p: "stream_parser p V"
  shows "vec_run V (Vec_st sn len u) \<Longrightarrow>
    frag_sim (vec_loop icb p n sn len u (c @ ys) g)
      (frag_resume (vec_items icb p n) ys (vec_loop icb p n sn len u c g))"
proof (induction icb p\<equiv>p n sn len u c g rule: vec_loop.induct)
  case (1 icb n sn len u c g)
  have V: "V u" using 1(2) by (simp add: vec_run_def)
  show ?case
  proof (cases "sn - 1 < len")
    case False
    then show ?thesis by (simp add: vec_loop.simps)
  next
    case True
    show ?thesis
      unfolding vec_loop.simps [of icb p n sn len] using True
      by simp (rule MOL_CALL_SUBPARSER_sim [OF p V],
          auto simp: vec_items_def vec_loop.simps [of icb p n sn len]
            intro!: sim_bind_Ok 1(1) vec_run_step [OF 1(2)] dest: stream_parser.init_valid [OF p])
  qed
qed

lemma vec_loop_post:
  assumes p: "stream_parser p V"
  shows "vec_run V (Vec_st sn len u) \<Longrightarrow>
    post (leave_ok (vec_run V) (\<lambda>_. True) c) (vec_loop icb p n sn len u c g)"
proof (induction icb p\<equiv>p n sn len u c g rule: vec_loop.induct)
  case (1 icb n sn len u c g)
  have V: "V u" using 1(2) by (simp add: vec_run_def)
  show ?case
  proof (cases "sn - 1 < len")
    case False
    then show ?thesis by (simp add: vec_loop.simps leave_ok_def)
  next
    case True
    show ?thesis
      unfolding vec_loop.simps [of icb p n sn len] using True 1(2)
      by simp (rule MOL_CALL_SUBPARSER_post [OF p V],
          auto intro!: post_bind 1(1) vec_run_step [OF 1(2)] intro: vec_run_upd [OF 1(2)]
            dest: stream_parser.init_valid [OF p])
  qed
qed

lemma vec_items_ok:
  assumes p: "stream_parser p V"
  shows "frag_ok (vec_run V) (\<lambda>_. True) (vec_items icb p n)"
proof (rule frag_okI)
  fix s xs ys and g :: 'a
  assume I: "vec_run V s"
  then obtain sn len u where s: "s = Vec_st sn len u" by (cases s) (auto simp: vec_run_def)
  show "frag_sim (vec_items icb p n s (xs @ ys) g)
      (frag_resume (vec_items icb p n) ys (vec_items icb p n s xs g))"
    using vec_loop_sim [OF p I [unfolded s], of icb n xs ys g]
    by (simp add: s vec_items_def [of icb p n "Vec_st sn len u"])
next
  fix s c and g :: 'a
  assume I: "vec_run V s"
  then obtain sn len u where s: "s = Vec_st sn len u" by (cases s) (auto simp: vec_run_def)
  show "post (leave_ok (vec_run V) (\<lambda>_. True) c) (vec_items icb p n s c g)"
    using vec_loop_post [OF p I [unfolded s], of c icb n g] by (simp add: s vec_items_def)
qed

abbreviation vec_body ::
    "(u32 \<Rightarrow> 'g \<Rightarrow> (bool, 'g) res) option \<Rightarrow> (u32 \<Rightarrow> 'g act) option \<Rightarrow> nat \<Rightarrow> 'g component \<Rightarrow>
     u32 \<Rightarrow> 'g frag" where
  "vec_body scb icb n p sz \<equiv> chain [vec_head scb icb n p sz, vec_items icb p (of_nat n)]"

lemma vec_head_skip: "vec_run V s \<Longrightarrow> vec_head scb icb n p sz s c g = Ok (Fall, s, c) g"
  by (auto simp: vec_run_def vec_head_def split: mol_state.splits)

lemma vec_stream:
  assumes p: "stream_parser p V" and n: "0 < n"
    and h: "\<And>sz. hook_ok h (vec_body scb icb n p sz)"
  shows "stream_parser (vec_of h scb icb n p) (vec_valid V)"
proof (rule run_body_stream [OF _ _ _ h])
  fix sz
  show "frag_ok (vec_valid V) (\<lambda>_. True) (vec_body scb icb n p sz)"
    unfolding vec_valid_def [abs_def] chain.simps seq_skip_frag
    by (rule seq_ok [OF vec_head_ok [OF p n] vec_items_ok [OF p]]) (auto simp: vec_head_skip)
qed (auto simp: vec_of_def vec_init_def vec_parse_def res_bind_eq_Ok vec_valid_def vec_start_def)

section \<open>Byte strings\<close>

text \<open>
  A byte string hands its body to \<open>body_chunk\<close> in the pieces the packets happen to have:
  the callback must not notice the division.
\<close>

definition additive :: "(u8 list \<Rightarrow> 'g act) option \<Rightarrow> bool" where
  "additive f \<longleftrightarrow> (case f of None \<Rightarrow> True
     | Some f \<Rightarrow> \<forall>a b g. f (a @ b) g = res_bind (f a g) (\<lambda>_. f b))"

lemma additive_None [simp]: "additive None"
  by (simp add: additive_def)

definition no_valid :: "mol_state \<Rightarrow> bool" where
  "no_valid s = True"

lemma Bytes_head_ok: "frag_ok vec_start (vec_run no_valid) (Bytes_head cb sz)"
proof (rule frag_okI)
  fix s xs ys and g :: 'a
  assume "vec_start s"
  then obtain len u where s: "s = Vec_st 0 len u" "bytes_valid 4 u"
    by (cases s) (auto simp: vec_start_def)
  then show "frag_sim (Bytes_head cb sz s (xs @ ys) g)
      (frag_resume (Bytes_head cb sz) ys (Bytes_head cb sz s xs g))"
    by (simp add: Bytes_head_def)
      (rule MOL_CALL_NUM_sim,
        auto simp: Bytes_head_def intro!: check_vec_size_sim stream_intros)
next
  fix s c and g :: 'a
  assume "vec_start s"
  then obtain len u where s: "s = Vec_st 0 len u" "bytes_valid 4 u"
    by (cases s) (auto simp: vec_start_def)
  then show "post (leave_ok vec_start (vec_run no_valid) c) (Bytes_head cb sz s c g)"
    by (simp add: Bytes_head_def)
      (rule MOL_CALL_NUM_post,
        auto simp: leave_ok_tuple no_valid_def dest!: length_with_prefix_bound
          intro!: check_vec_size_post vec_run_first)
qed

text \<open>What the body does in a valid state, without the word arithmetic.\<close>

lemma Bytes_body_eq:
  assumes "vec_run no_valid (Vec_st sn len u)"
  shows "Bytes_body cb (Vec_st sn len u) c g =
    (let n = unat len + 1 - unat sn; k = min n (length c); s' = Vec_st (sn + of_nat k) len u
     in res_bind (if n \<noteq> 0 then (case cb_field bytes_body_chunk cb of None \<Rightarrow> Ok () g
                             | Some f \<Rightarrow> f (take k c) g)
                  else Ok () g)
          (\<lambda>_. if length c < n then Ok (Bare INCOMPLETE, s', []) else Ok (Fall, s', drop k c)))"
proof -
  from assms have sn: "0 < unat sn" "unat sn \<le> unat len + 1" "unat len + 4 < 2 ^ 32"
    by (auto simp: vec_run_def)
  define k where "k = min (unat len + 1 - unat sn) (length c)"
  have len1: "unat (len + 1) = unat len + 1" using sn(3) by (simp add: unat_word_ariths)
  have n: "unat (len + 1 - sn) = unat len + 1 - unat sn"
    using unat_sub_le [of sn "len + 1"] sn(2) len1 by simp
  have n0: "len + 1 - sn \<noteq> 0 \<longleftrightarrow> unat len + 1 - unat sn \<noteq> 0"
    using n by (metis unat_eq_zero)
  have sk: "unat (sn + of_nat k) = unat sn + k"
    by (rule unat_add_of_nat [of _ _ "len + 1"]) (use sn len1 in \<open>auto simp: k_def\<close>)
  have "unat (sn + of_nat k - 1) = unat sn + k - 1"
    using sk sn(1) by (subst unat_minus_one) auto
  then have lt: "sn + of_nat k - 1 < len \<longleftrightarrow> length c < unat len + 1 - unat sn"
    using sn by (auto simp: word_less_nat_alt k_def min_def)
  show ?thesis
    using lt n0 unfolding Bytes_body_def Let_def mol_state.case n k_def [symmetric]
    by (auto simp: k_def)
qed

lemma vec_run_adv:
  assumes "vec_run V (Vec_st sn len u)" "unat sn + k \<le> unat len + 1"
  shows "vec_run V (Vec_st (sn + of_nat k) len u)" and "unat (sn + of_nat k) = unat sn + k"
proof -
  from assms have sn: "0 < unat sn" "unat len + 4 < 2 ^ 32" "V u"
    by (auto simp: vec_run_def)
  then have "unat (len + 1) = unat len + 1" by (simp add: unat_word_ariths)
  then show sk: "unat (sn + of_nat k) = unat sn + k"
    using assms(2) by (intro unat_add_of_nat [of _ _ "len + 1"]) auto
  show "vec_run V (Vec_st (sn + of_nat k) len u)"
    using sn assms(2) by (simp add: vec_run_def sk)
qed

lemma Bytes_body_ok:
  assumes a: "additive (cb_field bytes_body_chunk cb)"
  shows "frag_ok (vec_run no_valid) (\<lambda>_. True) (Bytes_body cb)"
proof (rule frag_okI)
  fix s xs ys and g :: 'a
  assume I: "vec_run no_valid s"
  then obtain sn len u where s: "s = Vec_st sn len u" by (cases s) (auto simp: vec_run_def)
  note I = I [unfolded s]
  define n where "n = unat len + 1 - unat sn"
  note E = Bytes_body_eq [OF I, folded n_def]
  show "frag_sim (Bytes_body cb s (xs @ ys) g)
      (frag_resume (Bytes_body cb) ys (Bytes_body cb s xs g))"
  proof (cases "length xs < n")
    case False
    then show ?thesis
      by (auto simp: s E Let_def min_def intro!: stream_intros split: option.splits)
  next
    case True
    have le: "unat sn + length xs \<le> unat len + 1" using True by (simp add: n_def)
    note adv = vec_run_adv [OF I le]
    have n': "unat len + 1 - unat (sn + of_nat (length xs)) = n - length xs"
      by (simp add: adv(2) n_def)
    note E' = Bytes_body_eq [OF adv(1), unfolded n']
    show ?thesis
    proof (cases "cb_field bytes_body_chunk cb")
      case None
      then show ?thesis using True
        by (auto simp: s E E' Let_def min_def simp flip: of_nat_add)
    next
      case (Some f)
      then have f: "f (xs @ b) g = res_bind (f xs g) (\<lambda>_. f b)" for b
        using a by (simp add: additive_def)
      have t: "take (min n (length xs + length ys)) (xs @ ys) = xs @ take (min (n - length xs) (length ys)) ys"
        using True by (auto simp: min_def)
      show ?thesis using True Some t
        by (cases "f xs g")
          (auto simp: s E E' Let_def f min_def res_bind_assoc add.assoc
            simp flip: of_nat_add)
    qed
  qed
next
  fix s c and g :: 'a
  assume I: "vec_run no_valid s"
  then obtain sn len u where s: "s = Vec_st sn len u" by (cases s) (auto simp: vec_run_def)
  note I = I [unfolded s]
  show "post (leave_ok (vec_run no_valid) (\<lambda>_. True) c) (Bytes_body cb s c g)"
    using vec_run_adv(1) [OF I, of "length c"]
    by (auto simp: s Bytes_body_eq [OF I] Let_def leave_ok_tuple suffix_drop min_def
        intro!: post_bind)
qed

lemma Bytes_stream:
  assumes "additive (cb_field bytes_body_chunk cb)" and h: "chunk_cb (hooks_of cb) = None"
  shows "stream_parser (Bytes cb) (vec_valid no_valid)"
proof (rule run_body_stream [OF _ _ _ hook_ok_None [OF h]])
  fix sz
  show "frag_ok (vec_valid no_valid) (\<lambda>_. True) (chain [Bytes_head cb sz, Bytes_body cb])"
    unfolding vec_valid_def [abs_def] chain.simps seq_skip_frag
    by (rule seq_ok [OF Bytes_head_ok Bytes_body_ok [OF assms(1)]])
      (auto simp: vec_run_def Bytes_head_def split: mol_state.splits)
qed (auto simp: Bytes_def MolReader_Bytes_init_state_def MolReader_Bytes_parse_def
  vec_init_def res_bind_eq_Ok vec_valid_def vec_start_def)

section \<open>Vectors of variable-size items\<close>

definition dynvec_inv :: "(mol_state \<Rightarrow> bool) \<Rightarrow> nat \<Rightarrow> mol_state \<Rightarrow> bool" where
  "dynvec_inv V i s = (case s of DynVec_st sn fi tot first u \<Rightarrow>
     (if i \<le> 2 then sn = of_nat i \<and> bytes_valid 4 u
      else if i = 3 then sn = 2 \<and> \<not> fi < dynvec_count first
      else if i = 4 then sn = 3 \<and> V u
      else sn = 3 \<and> \<not> fi < dynvec_count first)
   | _ \<Rightarrow> False)"

definition dynvec_valid :: "(mol_state \<Rightarrow> bool) \<Rightarrow> mol_state \<Rightarrow> bool" where
  "dynvec_valid V s \<longleftrightarrow> (\<exists>i\<le>5. dynvec_inv V i s)"

lemma dynvec_inv_simps [simp]:
  "dynvec_inv V 0 (DynVec_st sn fi tot first u) \<longleftrightarrow> sn = 0 \<and> bytes_valid 4 u"
  "dynvec_inv V 1 (DynVec_st sn fi tot first u) \<longleftrightarrow> sn = 1 \<and> bytes_valid 4 u"
  "dynvec_inv V (Suc 0) (DynVec_st sn fi tot first u) \<longleftrightarrow> sn = 1 \<and> bytes_valid 4 u"
  "dynvec_inv V 2 (DynVec_st sn fi tot first u) \<longleftrightarrow> sn = 2 \<and> bytes_valid 4 u"
  "dynvec_inv V 3 (DynVec_st sn fi tot first u) \<longleftrightarrow> sn = 2 \<and> \<not> fi < dynvec_count first"
  "dynvec_inv V 4 (DynVec_st sn fi tot first u) \<longleftrightarrow> sn = 3 \<and> V u"
  "dynvec_inv V 5 (DynVec_st sn fi tot first u) \<longleftrightarrow> sn = 3 \<and> \<not> fi < dynvec_count first"
  by (simp_all add: dynvec_inv_def)

lemma dynvec_invE:
  assumes "dynvec_inv V i s"
  obtains sn fi tot first u where "s = DynVec_st sn fi tot first u"
  using assms by (cases s) (auto simp: dynvec_inv_def)

lemma dynvec_total_ok: "frag_ok (dynvec_inv V 0) (dynvec_inv V 1) (dynvec_total scb sz)"
proof (rule frag_okI)
  fix s xs ys and g :: 'a
  assume I: "dynvec_inv V 0 s"
  then obtain sn fi tot first u where s: "s = DynVec_st sn fi tot first u" by (rule dynvec_invE)
  with I show "frag_sim (dynvec_total scb sz s (xs @ ys) g)
      (frag_resume (dynvec_total scb sz) ys (dynvec_total scb sz s xs g))"
    by (simp add: dynvec_total_def)
      (rule MOL_CALL_NUM_sim, auto simp: dynvec_total_def intro!: stream_intros)
next
  fix s c and g :: 'a
  assume I: "dynvec_inv V 0 s"
  then obtain sn fi tot first u where s: "s = DynVec_st sn fi tot first u" by (rule dynvec_invE)
  with I show "post (leave_ok (dynvec_inv V 0) (dynvec_inv V 1) c) (dynvec_total scb sz s c g)"
    by (simp add: dynvec_total_def)
      (rule MOL_CALL_NUM_post, auto simp: leave_ok_tuple intro!: post_bind)
qed

lemma dynvec_first_ok: "frag_ok (dynvec_inv V 1) (dynvec_inv V 2) dynvec_first"
proof (rule frag_okI)
  fix s xs ys and g :: 'a
  assume I: "dynvec_inv V 1 s"
  then obtain sn fi tot first u where s: "s = DynVec_st sn fi tot first u" by (rule dynvec_invE)
  with I show "frag_sim (dynvec_first s (xs @ ys) g)
      (frag_resume dynvec_first ys (dynvec_first s xs g))"
    by (simp add: dynvec_first_def)
      (rule MOL_CALL_NUM_sim, auto simp: dynvec_first_def intro!: stream_intros)
next
  fix s c and g :: 'a
  assume I: "dynvec_inv V 1 s"
  then obtain sn fi tot first u where s: "s = DynVec_st sn fi tot first u" by (rule dynvec_invE)
  with I show "post (leave_ok (dynvec_inv V 1) (dynvec_inv V 2) c) (dynvec_first s c g)"
    by (simp add: dynvec_first_def)
      (rule MOL_CALL_NUM_post, auto simp: leave_ok_tuple)
qed

lemma dynvec_header_sim:
  "sn = 2 \<Longrightarrow> bytes_valid 4 u \<Longrightarrow>
    frag_sim (dynvec_header sn fi tot first u (c @ ys) g)
      (frag_resume dynvec_offsets ys (dynvec_header sn fi tot first u c g))"
proof (induction sn fi tot first u c g rule: dynvec_header.induct)
  case (1 sn fi tot first u c g)
  show ?case
  proof (cases "fi < dynvec_count first")
    case False
    then show ?thesis by (simp add: dynvec_header.simps)
  next
    case True
    show ?thesis
      unfolding dynvec_header.simps [of sn fi tot first] using True
      by simp (rule MOL_CALL_NUM_sim [OF 1(3)],
          auto simp: dynvec_offsets_def [of "DynVec_st 2 fi tot first u'" for u']
            dynvec_header.simps [of 2 fi tot first] 1(2) intro!: 1(1) [unfolded 1(2)])
  qed
qed

lemma dynvec_header_post:
  "sn = 2 \<Longrightarrow> bytes_valid 4 u \<Longrightarrow>
    post (leave_ok (dynvec_inv V 2) (dynvec_inv V 3) c) (dynvec_header sn fi tot first u c g)"
proof (induction sn fi tot first u c g rule: dynvec_header.induct)
  case (1 sn fi tot first u c g)
  show ?case
  proof (cases "fi < dynvec_count first")
    case False
    then show ?thesis using 1 by (simp add: dynvec_header.simps leave_ok_tuple)
  next
    case True
    show ?thesis
      unfolding dynvec_header.simps [of sn fi tot first] using True
      by simp (rule MOL_CALL_NUM_post [OF 1(3)], auto simp: 1(2) intro!: 1(1) [unfolded 1(2)])
  qed
qed

lemma dynvec_offsets_ok: "frag_ok (dynvec_inv V 2) (dynvec_inv V 3) dynvec_offsets"
proof (rule frag_okI)
  fix s xs ys and g :: 'a
  assume I: "dynvec_inv V 2 s"
  then obtain sn fi tot first u where s: "s = DynVec_st sn fi tot first u" by (rule dynvec_invE)
  with I dynvec_header_sim [of sn u fi tot first xs ys g]
  show "frag_sim (dynvec_offsets s (xs @ ys) g) (frag_resume dynvec_offsets ys (dynvec_offsets s xs g))"
    by (simp add: dynvec_offsets_def [of "DynVec_st 2 fi tot first u"])
next
  fix s c and g :: 'a
  assume I: "dynvec_inv V 2 s"
  then obtain sn fi tot first u where s: "s = DynVec_st sn fi tot first u" by (rule dynvec_invE)
  with I dynvec_header_post [of sn u V c fi tot first g]
  show "post (leave_ok (dynvec_inv V 2) (dynvec_inv V 3) c) (dynvec_offsets s c g)"
    by (simp add: dynvec_offsets_def)
qed

lemma dynvec_start_items_ok:
  assumes p: "stream_parser p V"
  shows "frag_ok (dynvec_inv V 3) (dynvec_inv V 4) (dynvec_start_items lcb icb p)"
proof (rule frag_okI)
  fix s xs ys and g :: 'a
  assume I: "dynvec_inv V 3 s"
  then obtain sn fi tot first u where s: "s = DynVec_st sn fi tot first u" by (rule dynvec_invE)
  with I show "frag_sim (dynvec_start_items lcb icb p s (xs @ ys) g)
      (frag_resume (dynvec_start_items lcb icb p) ys (dynvec_start_items lcb icb p s xs g))"
    by (auto simp: dynvec_start_items_def intro!: stream_intros)
next
  fix s c and g :: 'a
  assume I: "dynvec_inv V 3 s"
  then obtain sn fi tot first u where s: "s = DynVec_st sn fi tot first u" by (rule dynvec_invE)
  with I show "post (leave_ok (dynvec_inv V 3) (dynvec_inv V 4) c)
      (dynvec_start_items lcb icb p s c g)"
    by (auto simp: dynvec_start_items_def leave_ok_tuple dest: stream_parser.init_valid [OF p]
        intro!: post_bind)
qed

lemma dynvec_loop_sim:
  assumes p: "stream_parser p V"
  shows "sn = 3 \<Longrightarrow> V u \<Longrightarrow>
    frag_sim (dynvec_loop icb p sn fi tot first u (c @ ys) g)
      (frag_resume (dynvec_items icb p) ys (dynvec_loop icb p sn fi tot first u c g))"
proof (induction icb p\<equiv>p sn fi tot first u c g rule: dynvec_loop.induct)
  case (1 icb sn fi tot first u c g)
  show ?case
  proof (cases "fi < dynvec_count first")
    case False
    then show ?thesis by (simp add: dynvec_loop.simps)
  next
    case True
    show ?thesis
      unfolding dynvec_loop.simps [of icb p sn fi tot first] using True
      by simp (rule MOL_CALL_SUBPARSER_sim [OF p 1(3)],
          auto simp: dynvec_items_def [of icb p "DynVec_st 3 fi tot first u'" for u']
            dynvec_loop.simps [of icb p 3 fi tot first] 1(2)
            intro!: sim_bind_Ok 1(1) [unfolded 1(2)] dest: stream_parser.init_valid [OF p])
  qed
qed

lemma dynvec_loop_post:
  assumes p: "stream_parser p V"
  shows "sn = 3 \<Longrightarrow> V u \<Longrightarrow>
    post (leave_ok (dynvec_inv V 4) (dynvec_inv V 5) c) (dynvec_loop icb p sn fi tot first u c g)"
proof (induction icb p\<equiv>p sn fi tot first u c g rule: dynvec_loop.induct)
  case (1 icb sn fi tot first u c g)
  show ?case
  proof (cases "fi < dynvec_count first")
    case False
    then show ?thesis using 1 by (simp add: dynvec_loop.simps leave_ok_tuple)
  next
    case True
    show ?thesis
      unfolding dynvec_loop.simps [of icb p sn fi tot first] using True
      by simp (rule MOL_CALL_SUBPARSER_post [OF p 1(3)],
          auto simp: 1(2) intro!: post_bind 1(1) [unfolded 1(2)] dest: stream_parser.init_valid [OF p])
  qed
qed

lemma dynvec_items_ok:
  assumes p: "stream_parser p V"
  shows "frag_ok (dynvec_inv V 4) (dynvec_inv V 5) (dynvec_items icb p)"
proof (rule frag_okI)
  fix s xs ys and g :: 'a
  assume I: "dynvec_inv V 4 s"
  then obtain sn fi tot first u where s: "s = DynVec_st sn fi tot first u" by (rule dynvec_invE)
  with I dynvec_loop_sim [OF p, of sn u icb fi tot first xs ys g]
  show "frag_sim (dynvec_items icb p s (xs @ ys) g)
      (frag_resume (dynvec_items icb p) ys (dynvec_items icb p s xs g))"
    by (simp add: dynvec_items_def [of icb p "DynVec_st 3 fi tot first u"])
next
  fix s c and g :: 'a
  assume I: "dynvec_inv V 4 s"
  then obtain sn fi tot first u where s: "s = DynVec_st sn fi tot first u" by (rule dynvec_invE)
  with I dynvec_loop_post [OF p, of sn u c icb fi tot first g]
  show "post (leave_ok (dynvec_inv V 4) (dynvec_inv V 5) c) (dynvec_items icb p s c g)"
    by (simp add: dynvec_items_def)
qed

abbreviation dynvec_frags ::
    "(u32 \<Rightarrow> 'g \<Rightarrow> (bool, 'g) res) option \<Rightarrow> (u32 \<Rightarrow> 'g act) option \<Rightarrow>
     (u32 \<Rightarrow> 'g act) option \<Rightarrow> 'g component \<Rightarrow> u32 \<Rightarrow> 'g frag list" where
  "dynvec_frags scb lcb icb p sz \<equiv> [dynvec_total scb sz, dynvec_first, dynvec_offsets,
     dynvec_start_items lcb icb p, dynvec_items icb p]"

lemma dynvec_skips:
  assumes "dynvec_inv V j s" "j \<le> 5"
  shows "0 < j \<Longrightarrow> dynvec_total scb sz s c g = Ok (Fall, s, c) g"
    and "1 < j \<Longrightarrow> dynvec_first s c g = Ok (Fall, s, c) g"
    and "2 < j \<Longrightarrow> dynvec_offsets s c g = Ok (Fall, s, c) g"
    and "3 < j \<Longrightarrow> dynvec_start_items lcb icb p s c g = Ok (Fall, s, c) g"
    and "4 < j \<Longrightarrow> dynvec_items icb p s c g = Ok (Fall, s, c) g"
proof -
  obtain sn fi tot first u where s: "s = DynVec_st sn fi tot first u"
    using assms(1) by (rule dynvec_invE)
  have j: "j = 0 \<or> j = 1 \<or> j = 2 \<or> j = 3 \<or> j = 4 \<or> j = 5" using assms(2) by linarith
  show "0 < j \<Longrightarrow> dynvec_total scb sz s c g = Ok (Fall, s, c) g"
    and "1 < j \<Longrightarrow> dynvec_first s c g = Ok (Fall, s, c) g"
    and "2 < j \<Longrightarrow> dynvec_offsets s c g = Ok (Fall, s, c) g"
    and "3 < j \<Longrightarrow> dynvec_start_items lcb icb p s c g = Ok (Fall, s, c) g"
    and "4 < j \<Longrightarrow> dynvec_items icb p s c g = Ok (Fall, s, c) g"
    using assms(1) j
    by (auto simp: s dynvec_total_def dynvec_first_def dynvec_offsets_def dynvec_start_items_def
        dynvec_items_def dynvec_header.simps dynvec_loop.simps)
qed

lemma dynvec_chain_ok:
  assumes p: "stream_parser p V"
  shows "frag_ok (dynvec_valid V) (dynvec_inv V 5) (chain (dynvec_frags scb lcb icb p sz))"
proof -
  let ?Fs = "dynvec_frags scb lcb icb p sz"
  have "frag_ok (\<lambda>s. \<exists>j\<le>length ?Fs. dynvec_inv V (0 + j) s)
     (dynvec_inv V (0 + length ?Fs)) (chain ?Fs)"
  proof (rule chain_ok)
    fix i assume "i < length ?Fs"
    then have "i = 0 \<or> i = 1 \<or> i = 2 \<or> i = 3 \<or> i = 4" by auto
    then show "frag_ok (dynvec_inv V (0 + i)) (dynvec_inv V (Suc (0 + i))) (?Fs ! i)"
      using dynvec_total_ok [of V scb sz] dynvec_first_ok [of V] dynvec_offsets_ok [of V]
        dynvec_start_items_ok [OF p, of lcb icb] dynvec_items_ok [OF p, of icb]
      by (auto simp: numeral_eq_Suc)
  next
    fix i j s c and g :: 'a
    assume j: "i < j" "j \<le> length ?Fs" "dynvec_inv V (0 + j) s"
    have i: "i = 0 \<or> i = 1 \<or> i = 2 \<or> i = 3 \<or> i = 4" using j(1,2) by auto
    have j': "dynvec_inv V j s" "j \<le> 5" using j by simp_all
    show "(?Fs ! i) s c g = Ok (Fall, s, c) g"
      using i j(1) dynvec_skips(1) [OF j', of scb sz c g] dynvec_skips(2,3) [OF j', of c g]
        dynvec_skips(4) [OF j', of lcb icb p c g] dynvec_skips(5) [OF j', of icb p c g]
      by (elim disjE) simp_all
  qed
  then show ?thesis by (simp add: dynvec_valid_def [abs_def] numeral_eq_Suc)
qed

lemma dynvec_stream:
  assumes p: "stream_parser p V"
    and h: "\<And>sz. hook_ok h (chain (dynvec_frags scb lcb icb p sz))"
  shows "stream_parser (dynvec_of h scb lcb icb p) (dynvec_valid V)"
proof (rule run_body_stream [OF _ _ dynvec_chain_ok [OF p] h])
  fix g g' :: 'a and s
  assume "fst (dynvec_of h scb lcb icb p) g = Ok s g'"
  then have "dynvec_inv V 0 s" by (auto simp: dynvec_of_def dynvec_init_def res_bind_eq_Ok)
  then show "dynvec_valid V s" unfolding dynvec_valid_def by blast
qed (simp add: dynvec_of_def dynvec_parse_def)

end
