(* ===== verification/Molecule_Hooks.thy ===== *)
theory Molecule_Hooks
  imports Molecule_Laws
begin

text \<open>
  When a \<open>chunk\<close> callback sees the pieces of a body, its update has to commute with
  everything the body does. Commutation is compositional: a template instance commutes
  with an update when its callbacks do. In particular a reader without callbacks commutes
  with every update, which covers the parts of a transaction that are only hashed.
\<close>

section \<open>Actions that commute with an update\<close>

definition comm :: "('g \<Rightarrow> 'g) \<Rightarrow> ('g \<Rightarrow> ('a, 'g) res) \<Rightarrow> bool" where
  "comm f m \<longleftrightarrow> (\<forall>g. m (f g) = map_res f (m g))"

named_theorems comm_intros \<open>introduction rules for commutation with an update\<close>

lemma commI: "(\<And>g. m (f g) = map_res f (m g)) \<Longrightarrow> comm f m"
  by (simp add: comm_def)

lemma commD: "comm f m \<Longrightarrow> m (f g) = map_res f (m g)"
  by (simp add: comm_def)

lemma comm_Ok [comm_intros]: "comm f (\<lambda>g. Ok a g)"
  by (simp add: comm_def)

lemma comm_Undef [comm_intros]: "comm f (\<lambda>g. Undef)"
  by (simp add: comm_def)

lemma comm_bind [comm_intros]:
  "comm f m \<Longrightarrow> (\<And>a. comm f (k a)) \<Longrightarrow> comm f (\<lambda>g. res_bind (m g) k)"
proof (rule commI)
  fix g
  assume "comm f m" "\<And>a. comm f (k a)"
  then show "res_bind (m (f g)) k = map_res f (res_bind (m g) k)"
    by (cases "m g") (simp_all add: commD)
qed

lemma comm_if [comm_intros]:
  "(b \<Longrightarrow> comm f m1) \<Longrightarrow> (\<not> b \<Longrightarrow> comm f m2) \<Longrightarrow> comm f (\<lambda>g. if b then m1 g else m2 g)"
  by (cases b) simp_all

lemma comm_if_fun [comm_intros]:
  "(b \<Longrightarrow> comm f m1) \<Longrightarrow> (\<not> b \<Longrightarrow> comm f m2) \<Longrightarrow> comm f (if b then m1 else m2)"
  by simp

lemma comm_option [comm_intros]:
  "(o' = None \<Longrightarrow> comm f m) \<Longrightarrow> (\<And>a. o' = Some a \<Longrightarrow> comm f (m' a)) \<Longrightarrow>
   comm f (\<lambda>g. case o' of None \<Rightarrow> m g | Some a \<Rightarrow> m' a g)"
  by (cases o') simp_all

text \<open>Optional callbacks.\<close>

definition comm_cb :: "('g \<Rightarrow> 'g) \<Rightarrow> ('x \<Rightarrow> 'g \<Rightarrow> ('a, 'g) res) option \<Rightarrow> bool" where
  "comm_cb f cb \<longleftrightarrow> (\<forall>h x. cb = Some h \<longrightarrow> comm f (h x))"

lemma comm_cb_None [simp]: "comm_cb f None"
  by (simp add: comm_cb_def)

lemma comm_cbD: "comm_cb f cb \<Longrightarrow> cb = Some h \<Longrightarrow> comm f (h x)"
  by (simp add: comm_cb_def)

definition comm_hooks :: "('g \<Rightarrow> 'g) \<Rightarrow> 'g hooks \<Rightarrow> bool" where
  "comm_hooks f h \<longleftrightarrow> (\<forall>m. start_cb h = Some m \<longrightarrow> comm f m) \<and>
     comm_cb f (chunk_cb h) \<and> (\<forall>m. end_cb h = Some m \<longrightarrow> comm f m)"

lemma comm_hooks_none [simp]: "comm_hooks f no_hooks"
  by (simp add: comm_hooks_def no_hooks_def)

lemma comm_call_opt: "(\<And>m. cb = Some m \<Longrightarrow> comm f m) \<Longrightarrow> comm f (call_opt cb)"
  by (cases cb) (simp_all add: comm_def)

lemma comm_call_index [comm_intros]: "comm_cb f cb \<Longrightarrow> comm f (call_index cb i)"
  unfolding call_index_def [abs_def] by (intro comm_intros) (auto simp: comm_cb_def)

lemma comm_call_chunk: "comm_cb f cb \<Longrightarrow> comm f (call_chunk cb s c)"
  unfolding call_chunk_def [abs_def] by (intro comm_intros) (auto simp: comm_cb_def)

section \<open>Components and fragments\<close>

definition comm_frag :: "('g \<Rightarrow> 'g) \<Rightarrow> 'g frag \<Rightarrow> bool" where
  "comm_frag f F \<longleftrightarrow> (\<forall>s c. comm f (F s c))"

definition comm_component :: "('g \<Rightarrow> 'g) \<Rightarrow> 'g component \<Rightarrow> bool" where
  "comm_component f p \<longleftrightarrow> comm f (fst p) \<and> (\<forall>sz s c. comm f (snd p sz s c))"

lemma comm_componentD [comm_intros]:
  "comm_component f p \<Longrightarrow> comm f (fst p)" "comm_component f p \<Longrightarrow> comm f (snd p sz s c)"
  by (simp_all add: comm_component_def)

lemma comm_fragD: "comm_frag f F \<Longrightarrow> comm f (F s c)"
  by (simp add: comm_frag_def)

lemma comm_seq: "comm_frag f F1 \<Longrightarrow> comm_frag f F2 \<Longrightarrow> comm_frag f (seq F1 F2)"
  unfolding comm_frag_def seq_def [abs_def]
  by (auto intro!: comm_intros split: prod.splits)

lemma comm_chain: "(\<And>F. F \<in> set Fs \<Longrightarrow> comm_frag f F) \<Longrightarrow> comm_frag f (chain Fs)"
proof (induction Fs)
  case Nil
  then show ?case by (simp add: comm_frag_def skip_frag_def [abs_def] comm_Ok)
next
  case (Cons F Fs)
  then show ?case by (simp add: comm_seq)
qed

lemma comm_run_body:
  assumes h: "comm_hooks f h" and F: "comm_frag f F"
  shows "comm f (run_body h F s c)"
proof -
  have "comm f (call_opt (end_cb h))"
    using h by (intro comm_call_opt) (simp add: comm_hooks_def)
  moreover have ch: "comm f (call_chunk (chunk_cb h) a b)" for a b
    using h by (intro comm_call_chunk) (simp add: comm_hooks_def)
  ultimately have cl: "comm f (closing h a b d)" for a b d
    unfolding closing_def [abs_def] by (intro comm_intros) simp_all
  show ?thesis
    unfolding run_body_def [abs_def]
  proof (intro comm_intros comm_fragD [OF F], clarsimp)
    fix fl s' c'
    show "comm f (\<lambda>g'. case fl of Fall \<Rightarrow> closing h c s' c' g'
        | Leave rv \<Rightarrow> res_bind (call_chunk (chunk_cb h) c c' g') (\<lambda>_. Ok (rv, s', c'))
        | Bare rv \<Rightarrow> Ok (rv, s', c') g' | Finish \<Rightarrow> closing h c s' c' g')"
      by (cases fl) (simp_all add: cl ch comm_intros)
  qed
qed

lemma comm_mol_parse_bytes: "comm_cb f (cb_field bytes_end cb) \<Longrightarrow> comm f (mol_parse_bytes cb n s c)"
  by (cases s)
    (auto simp: mol_parse_bytes_def [abs_def] Let_def intro!: comm_intros dest: comm_cbD)

lemma comm_MOL_CALL_NUM [comm_intros]:
  "(\<And>v u c. comm f (k v u c)) \<Longrightarrow> comm f (MOL_CALL_NUM u put k c)"
  unfolding MOL_CALL_NUM_def [abs_def] mol_parse_num_def [abs_def]
  by (auto intro!: comm_intros comm_mol_parse_bytes split: prod.splits)

lemma comm_MOL_CALL_SUBPARSER [comm_intros]:
  "comm_component f p \<Longrightarrow> (\<And>u c. comm f (k u c)) \<Longrightarrow>
    comm f (MOL_CALL_SUBPARSER (snd p) sz u put k c)"
  unfolding MOL_CALL_SUBPARSER_def [abs_def]
  by (auto intro!: comm_intros split: prod.splits)

lemma comm_check_vec_size [comm_intros]:
  "comm_cb f scb \<Longrightarrow> comm f k \<Longrightarrow> comm f (check_vec_size scb n sz len s c k)"
  unfolding check_vec_size_def [abs_def]
  by (intro comm_intros) (auto dest: comm_cbD)

text \<open>One live constructor, \<open>Undef\<close> otherwise.\<close>

lemma comm_case_state [comm_intros]:
  "(\<And>sn fi tot offs u. s = Table_st sn fi tot offs u \<Longrightarrow> comm f (mt sn fi tot offs u)) \<Longrightarrow>
    comm f (\<lambda>g. case s of Table_st sn fi tot offs u \<Rightarrow> mt sn fi tot offs u g | _ \<Rightarrow> Undef)"
  "(\<And>sn u. s = Struct_st sn u \<Longrightarrow> comm f (ms sn u)) \<Longrightarrow>
    comm f (\<lambda>g. case s of Struct_st sn u \<Rightarrow> ms sn u g | _ \<Rightarrow> Undef)"
  "(\<And>u. s = Opt_st u \<Longrightarrow> comm f (mo u)) \<Longrightarrow>
    comm f (\<lambda>g. case s of Opt_st u \<Rightarrow> mo u g | _ \<Rightarrow> Undef)"
  "(\<And>sn len u. s = Vec_st sn len u \<Longrightarrow> comm f (mv sn len u)) \<Longrightarrow>
    comm f (\<lambda>g. case s of Vec_st sn len u \<Rightarrow> mv sn len u g | _ \<Rightarrow> Undef)"
  "(\<And>sn fi tot first u. s = DynVec_st sn fi tot first u \<Longrightarrow> comm f (md sn fi tot first u)) \<Longrightarrow>
    comm f (\<lambda>g. case s of DynVec_st sn fi tot first u \<Rightarrow> md sn fi tot first u g | _ \<Rightarrow> Undef)"
  by (cases s; simp add: comm_Undef)+

section \<open>The templates\<close>

lemma comm_table_total: "comm_frag f (table_total sz)"
  unfolding comm_frag_def table_total_def [abs_def]
  by (auto intro!: comm_intros)

lemma comm_table_offset: "comm_frag f (table_offset k)"
  unfolding comm_frag_def table_offset_def [abs_def]
  by (auto intro!: comm_intros)

definition comm_offsets :: "('g \<Rightarrow> 'g) \<Rightarrow> (u32 \<Rightarrow> u32 list \<Rightarrow> 'g act) option \<Rightarrow> bool" where
  "comm_offsets f ocb \<longleftrightarrow> (\<forall>h tot offs. ocb = Some h \<longrightarrow> comm f (h tot offs))"

lemma comm_offsets_None [simp]: "comm_offsets f None"
  by (simp add: comm_offsets_def)

lemma comm_table_offsets_done:
  "comm f i0 \<Longrightarrow> comm_offsets f ocb \<Longrightarrow> comm_frag f (table_offsets_done ocb i0)"
  unfolding comm_frag_def table_offsets_done_def [abs_def]
  by (auto intro!: comm_intros simp: comm_offsets_def)

lemma comm_table_field:
  assumes "\<And>i. i < length ps \<Longrightarrow> comm_component f (ps ! i)" "k < length ps"
  shows "comm_frag f (table_field ps k)"
  using assms unfolding comm_frag_def table_field_def [abs_def]
  by (auto intro!: comm_intros)

lemma comm_table_frags:
  assumes ps: "\<And>p. p \<in> set ps \<Longrightarrow> comm_component f p" "ps \<noteq> []" and o': "comm_offsets f ocb"
  shows "comm_frag f (chain (table_frags sz ocb ps))"
proof (rule comm_chain)
  fix F assume "F \<in> set (table_frags sz ocb ps)"
  then show "comm_frag f F"
    using ps(2) o' ps(1) [OF nth_mem]
    by (auto simp: table_frags_def intro!: comm_table_total comm_table_offset comm_table_field
        comm_table_offsets_done comm_componentD(1))
qed

lemma comm_table:
  assumes "\<And>p. p \<in> set ps \<Longrightarrow> comm_component f p" "ps \<noteq> []" "comm_offsets f ocb" "comm_hooks f h"
  shows "comm_component f (table h ocb ps)"
proof -
  have "comm f (fst (table h ocb ps))"
    using assms(4) unfolding table_def table_init_def [abs_def] fst_conv
    by (intro comm_intros comm_call_opt) (auto simp: comm_hooks_def)
  moreover have "comm f (snd (table h ocb ps) sz s c)" for sz s c
    using comm_run_body [OF assms(4) comm_table_frags [OF assms(1-3)], of sz s c]
    by (simp add: table_def table_parse_def [abs_def] table_frags_def)
  ultimately show ?thesis by (simp add: comm_component_def)
qed

lemma comm_init [comm_intros]: "comm_hooks f h \<Longrightarrow> comm f (call_opt (start_cb h))"
  by (intro comm_call_opt) (auto simp: comm_hooks_def)

lemma comm_struct_body:
  assumes "comm_component f p1" "comm_component f p2"
  shows "comm_frag f (struct_body tsz p1 sz1 p2 sz2 sz)"
proof (rule comm_chain)
  fix F assume "F \<in> set [struct_size tsz sz, struct_first p1 sz1 p2, struct_second p2 sz2]"
  moreover have "comm_frag f (struct_size tsz sz)" "comm_frag f (struct_first p1 sz1 p2)"
    "comm_frag f (struct_second p2 sz2)"
    using assms unfolding comm_frag_def struct_size_def [abs_def] struct_first_def [abs_def]
      struct_second_def [abs_def]
    by (auto intro!: comm_intros)
  ultimately show "comm_frag f F" by auto
qed

lemma comm_struct:
  assumes "comm_component f p1" "comm_component f p2" "comm_hooks f h"
  shows "comm_component f (struct h tsz p1 sz1 p2 sz2)"
proof -
  have "comm f (fst (struct h tsz p1 sz1 p2 sz2))"
    using assms unfolding struct_def struct_init_def [abs_def] fst_conv by (intro comm_intros)
  then show ?thesis
    using comm_run_body [OF assms(3) comm_struct_body [OF assms(1,2)]]
    by (simp add: comm_component_def struct_def struct_parse_def [abs_def])
qed

lemma comm_option_item: "comm_component f p \<Longrightarrow> comm_frag f (option_item p sz)"
  unfolding comm_frag_def option_item_def [abs_def]
  by (auto intro!: comm_intros)

lemma comm_option_of:
  assumes "comm_component f p" "comm_hooks f h"
  shows "comm_component f (option_of h p)"
proof -
  have "comm f (fst (option_of h p))"
    using assms unfolding option_of_def option_init_def [abs_def] fst_conv by (intro comm_intros)
  then show ?thesis
    using comm_run_body [OF assms(2) comm_option_item [OF assms(1)]]
    by (simp add: comm_component_def option_of_def option_parse_def [abs_def])
qed

lemma comm_vec_init: "comm_hooks f h \<Longrightarrow> comm f (vec_init h)"
  unfolding vec_init_def [abs_def] by (intro comm_intros)

lemma comm_vec_loop_eq:
  assumes p: "comm_component f p" and i: "comm_cb f icb"
  shows "vec_loop icb p n sn len u c (f g) = map_res f (vec_loop icb p n sn len u c g)"
proof (induction "unat (len - (sn - 1))" arbitrary: sn u c g rule: less_induct)
  case (less sn u c g)
  define K where "K = (\<lambda>(u' :: mol_state) c' g'. res_bind (fst p g') (\<lambda>u' g''.
      res_bind (call_index icb sn g'') (\<lambda>_. vec_loop icb p n (sn + 1) len u' c')))"
  show ?case
  proof (cases "sn - 1 < len")
    case True
    have "unat (len - (sn + 1 - 1)) < unat (len - (sn - 1))"
      using unat_countdown [of "sn - 1" len] True by simp
    then have "comm f (vec_loop icb p n (sn + 1) len u' c')" for u' c'
      using less by (intro commI)
    then have "comm f (K u' c')" for u' c'
      unfolding K_def by (intro comm_intros p i)
    then have "comm f (MOL_CALL_SUBPARSER (snd p) n u (Vec_st sn len) K c)"
      by (intro comm_intros p)
    with True show ?thesis
      by (simp add: vec_loop.simps [of _ _ _ sn len] K_def [symmetric] commD)
  qed (simp add: vec_loop.simps)
qed

lemma comm_vec_loop:
  assumes "comm_component f p" "comm_cb f icb"
  shows "comm f (vec_loop icb p n sn len u c)"
  by (rule commI) (rule comm_vec_loop_eq [OF assms])

lemma comm_vec_body:
  assumes "comm_component f p" "comm_cb f icb" "comm_cb f scb"
  shows "comm_frag f (vec_body scb icb n p sz)"
proof (rule comm_chain)
  fix F assume "F \<in> set [vec_head scb icb n p sz, vec_items icb p (of_nat n)]"
  moreover have "comm_frag f (vec_head scb icb n p sz)"
    using assms unfolding comm_frag_def vec_head_def [abs_def]
    by (auto intro!: comm_intros)
  moreover have "comm_frag f (vec_items icb p (of_nat n))"
    unfolding comm_frag_def vec_items_def [abs_def]
    by (intro allI comm_intros comm_vec_loop [OF assms(1,2)])
  ultimately show "comm_frag f F" by auto
qed

lemma comm_vec_of:
  assumes "comm_component f p" "comm_cb f icb" "comm_cb f scb" "comm_hooks f h"
  shows "comm_component f (vec_of h scb icb n p)"
  using comm_run_body [OF assms(4) comm_vec_body [OF assms(1-3)]] comm_vec_init [OF assms(4)]
  by (simp add: comm_component_def vec_of_def vec_parse_def [abs_def])

lemma comm_dynvec_header_eq:
  "dynvec_header sn fi tot first u c (f g) = map_res f (dynvec_header sn fi tot first u c g)"
proof (induction sn fi tot first u c g rule: dynvec_header.induct)
  case (1 sn fi tot first u c g)
  define K where "K = (\<lambda>(v :: u32) (u' :: mol_state).
      dynvec_header sn (fi + 1) tot first mol_num_init_state :: u8 list \<Rightarrow> 'a \<Rightarrow> _)"
  show ?case
  proof (cases "fi < dynvec_count first")
    case True
    then have "comm f (K v u' c')" for v u' c'
      unfolding K_def using 1 by (intro commI)
    then have "comm f (MOL_CALL_NUM u (DynVec_st sn fi tot first) K c)"
      by (intro comm_intros)
    with True show ?thesis
      by (simp add: dynvec_header.simps [of sn fi] K_def [symmetric] commD)
  qed (simp add: dynvec_header.simps)
qed

lemma comm_dynvec_loop_eq:
  assumes p: "comm_component f p" and i: "comm_cb f icb"
  shows "dynvec_loop icb p sn fi tot first u c (f g) =
    map_res f (dynvec_loop icb p sn fi tot first u c g)"
proof (induction "unat (dynvec_count first - fi)" arbitrary: fi u c g rule: less_induct)
  case (less fi u c g)
  define K where "K = (\<lambda>(u' :: mol_state) c' g'. res_bind (fst p g') (\<lambda>u' g''.
      res_bind (call_index icb (fi + 1) g'') (\<lambda>_. dynvec_loop icb p sn (fi + 1) tot first u' c')))"
  show ?case
  proof (cases "fi < dynvec_count first")
    case True
    have "unat (dynvec_count first - (fi + 1)) < unat (dynvec_count first - fi)"
      using True by (rule unat_countdown)
    then have "comm f (dynvec_loop icb p sn (fi + 1) tot first u' c')" for u' c'
      using less by (intro commI)
    then have "comm f (K u' c')" for u' c'
      unfolding K_def by (intro comm_intros p i)
    then have "comm f (MOL_CALL_SUBPARSER (snd p) (- 1) u (DynVec_st sn fi tot first) K c)"
      by (intro comm_intros p)
    with True show ?thesis
      by (simp add: dynvec_loop.simps [of _ _ sn fi] K_def [symmetric] commD)
  qed (simp add: dynvec_loop.simps)
qed

lemma comm_dynvec_loop:
  assumes "comm_component f p" "comm_cb f icb"
  shows "comm f (dynvec_loop icb p sn fi tot first u c)"
  by (rule commI) (rule comm_dynvec_loop_eq [OF assms])

lemma comm_dynvec_header: "comm f (dynvec_header sn fi tot first u c)"
  by (rule commI) (rule comm_dynvec_header_eq)

lemma comm_dynvec_body:
  assumes p: "comm_component f p" and i: "comm_cb f icb" and s: "comm_cb f scb"
    and l: "comm_cb f lcb"
  shows "comm_frag f (chain (dynvec_frags scb lcb icb p sz))"
proof (rule comm_chain)
  fix F assume "F \<in> set (dynvec_frags scb lcb icb p sz)"
  moreover have "comm_frag f (dynvec_total scb sz)"
    using s unfolding comm_frag_def dynvec_total_def [abs_def]
    by (auto intro!: comm_intros dest: comm_cbD)
  moreover have "comm_frag f dynvec_first"
    unfolding comm_frag_def dynvec_first_def [abs_def]
    by (auto intro!: comm_intros)
  moreover have "comm_frag f dynvec_offsets"
    unfolding comm_frag_def dynvec_offsets_def [abs_def]
    by (intro allI comm_intros comm_dynvec_header)
  moreover have "comm_frag f (dynvec_start_items lcb icb p)"
    unfolding comm_frag_def dynvec_start_items_def [abs_def]
    by (auto intro!: comm_intros p l i)
  moreover have "comm_frag f (dynvec_items icb p)"
    unfolding comm_frag_def dynvec_items_def [abs_def]
    by (intro allI comm_intros comm_dynvec_loop [OF p i])
  ultimately show "comm_frag f F" by auto
qed

lemma comm_dynvec_of:
  assumes "comm_component f p" "comm_cb f icb" "comm_cb f scb" "comm_cb f lcb" "comm_hooks f h"
  shows "comm_component f (dynvec_of h scb lcb icb p)"
proof -
  have "comm f (fst (dynvec_of h scb lcb icb p))"
    using assms unfolding dynvec_of_def dynvec_init_def [abs_def] fst_conv by (intro comm_intros)
  then show ?thesis
    using comm_run_body [OF assms(5) comm_dynvec_body [OF assms(1-4)]]
    by (simp add: comm_component_def dynvec_of_def dynvec_parse_def [abs_def])
qed

section \<open>Lawful \<open>chunk\<close> callbacks\<close>

text \<open>The templates return plainly only to reject.\<close>

definition bare_rej :: "(flow \<times> mol_state \<times> u8 list, 'g) res \<Rightarrow> bool" where
  "bare_rej = post (\<lambda>(fl, _, _). \<forall>rv. fl = Bare rv \<longrightarrow> rv = REJECT)"

named_theorems bare_intros \<open>introduction rules for bodies that return plainly only to reject\<close>

lemma bare_Ok [simp]: "bare_rej (Ok (fl, s, c) g) \<longleftrightarrow> (\<forall>rv. fl = Bare rv \<longrightarrow> rv = REJECT)"
  and bare_Undef [simp]: "bare_rej Undef"
  by (simp_all add: bare_rej_def)

lemma bare_bind [bare_intros]: "(\<And>a g. bare_rej (k a g)) \<Longrightarrow> bare_rej (res_bind r k)"
  unfolding bare_rej_def by (rule post_bind)

lemma bare_MOL_CALL_NUM [bare_intros]:
  "(\<And>v u c g. bare_rej (k v u c g)) \<Longrightarrow> bare_rej (MOL_CALL_NUM u put k c g)"
  by (auto simp: MOL_CALL_NUM_def intro!: bare_bind)

lemma bare_MOL_CALL_SUBPARSER [bare_intros]:
  "(\<And>u c g. bare_rej (k u c g)) \<Longrightarrow> bare_rej (MOL_CALL_SUBPARSER p sz u put k c g)"
  by (auto simp: MOL_CALL_SUBPARSER_def intro!: bare_bind)

lemma bare_check_vec_size [bare_intros]:
  "(\<And>g. bare_rej (k g)) \<Longrightarrow> bare_rej (check_vec_size scb n sz len s c k g)"
  by (auto simp: check_vec_size_def intro!: bare_bind split: option.split)

lemma bare_chain: "(\<And>F s c g. F \<in> set Fs \<Longrightarrow> bare_rej (F s c g)) \<Longrightarrow> bare_rej (chain Fs s c g)"
proof (induction Fs arbitrary: s c g)
  case (Cons F Fs)
  have "bare_rej (F s c g)" using Cons.prems by simp
  then show ?case using Cons
    by (cases "F s c g") (auto simp: seq_def)
qed (simp add: skip_frag_def)

lemma bare_table: "bare_rej (chain (table_frags sz ocb ps) s c g)"
proof (rule bare_chain)
  fix F s c and g :: 'a
  assume "F \<in> set (table_frags sz ocb ps)"
  then show "bare_rej (F s c g)"
    by (auto simp: table_frags_def table_total_def table_offset_def table_offsets_done_def
        table_field_def intro!: bare_intros split: mol_state.split)
qed

lemma bare_struct: "bare_rej (struct_body tsz p1 sz1 p2 sz2 sz s c g)"
  by (rule bare_chain)
    (auto simp: struct_size_def struct_first_def struct_second_def intro!: bare_intros
      split: mol_state.split)

lemma bare_option: "bare_rej (option_item p sz s c g)"
  by (auto simp: option_item_def intro!: bare_intros split: mol_state.split)

lemma bare_vec_loop: "bare_rej (vec_loop icb p n sn len u c g)"
proof (induction icb p n sn len u c g rule: vec_loop.induct)
  case (1 icb p n sn len u c g)
  then show ?case
    by (subst vec_loop.simps) (auto simp: MOL_CALL_SUBPARSER_def bare_rej_def intro!: post_bind)
qed

lemma bare_vec: "bare_rej (vec_body scb icb n p sz s c g)"
  by (rule bare_chain)
    (auto simp: vec_head_def vec_items_def bare_vec_loop intro!: bare_intros split: mol_state.split)

lemma bare_dynvec_header: "bare_rej (dynvec_header sn fi tot first u c g)"
proof (induction sn fi tot first u c g rule: dynvec_header.induct)
  case (1 sn fi tot first u c g)
  then show ?case
    by (subst dynvec_header.simps) (auto intro!: bare_MOL_CALL_NUM)
qed

lemma bare_dynvec_loop: "bare_rej (dynvec_loop icb p sn fi tot first u c g)"
proof (induction icb p sn fi tot first u c g rule: dynvec_loop.induct)
  case (1 icb p sn fi tot first u c g)
  then show ?case
    by (subst dynvec_loop.simps) (auto simp: MOL_CALL_SUBPARSER_def bare_rej_def intro!: post_bind)
qed

lemma bare_dynvec: "bare_rej (chain (dynvec_frags scb lcb icb p sz) s c g)"
  by (rule bare_chain)
    (auto simp: dynvec_total_def dynvec_first_def dynvec_offsets_def dynvec_start_items_def
      dynvec_items_def bare_dynvec_header bare_dynvec_loop intro!: bare_intros
      split: mol_state.split)

text \<open>
  \<open>chunk_ok h C\<close>: the \<open>chunk\<close> callback, if there is one, is a total update that composes
  over concatenation, and its updates satisfy \<open>C\<close> (commute with the body's callbacks).
\<close>

definition chunk_ok :: "('g, 'z) hooks_scheme option \<Rightarrow> (('g \<Rightarrow> 'g) \<Rightarrow> bool) \<Rightarrow> bool" where
  "chunk_ok cb C \<longleftrightarrow> (case cb_field chunk_cb cb of None \<Rightarrow> True | Some f \<Rightarrow>
     (\<exists>G. f = (\<lambda>b g. Ok () (G b g)) \<and> (\<forall>a b g. G b (G a g) = G (a @ b) g) \<and> (\<forall>b. C (G b))))"

lemma chunk_ok_None [simp]: "chunk_ok None C"
  by (simp add: chunk_ok_def)

lemma hook_okI:
  assumes "chunk_ok cb (\<lambda>f. comm_frag f F)" "\<And>s c g. bare_rej (F s c g)"
  shows "hook_ok (hooks_of cb) F"
proof (cases "cb_field chunk_cb cb")
  case None
  then show ?thesis by (cases cb) (simp_all add: hook_ok_def)
next
  case (Some f)
  then have "chunk_cb (hooks_of cb) = Some f" by (cases cb) simp_all
  then show ?thesis
    using assms Some
    by (fastforce simp: chunk_ok_def hook_ok_def comm_frag_def comm_def bare_rej_def)
qed

lemma chunk_ok_mono: "chunk_ok cb C \<Longrightarrow> (\<And>f. C f \<Longrightarrow> D f) \<Longrightarrow> chunk_ok cb D"
  unfolding chunk_ok_def by (auto split: option.splits)

end
