(* ===== verification/Molecule_Instances.thy ===== *)
theory Molecule_Instances
  imports Molecule_Hooks
begin

text \<open>
  The readers of \<open>blockchain.h\<close> and \<open>annotated.h\<close> are lawful resumable parsers. For every
  type \<open>X\<close>: \<open>X_inner f cb\<close> and \<open>X_comm f cb\<close> say that the callbacks (below the \<open>start\<close>,
  \<open>chunk\<close> and \<open>end\<close> of \<open>X\<close>, and with them) commute with the update \<open>f\<close>; \<open>X_lawful cb\<close>
  that every \<open>chunk\<close> and \<open>body_chunk\<close> callback in \<open>cb\<close> is indifferent to how its input is
  divided; \<open>X_valid\<close> describes the states between two calls. \<open>X_comp\<close> and \<open>X_stream\<close> are
  the two laws.
\<close>

section \<open>Basic types\<close>

definition byte_comm :: "('g \<Rightarrow> 'g) \<Rightarrow> 'g byte_callbacks option \<Rightarrow> bool" where
  "byte_comm f cb \<longleftrightarrow> comm_cb f (cb_field byte_end cb)"

lemma byte_comp: "byte_comm f cb \<Longrightarrow> comm_component f (byte_component cb)"
proof -
  assume cb: "byte_comm f cb"
  have "comm f (MolReader_byte_parse cb sz s c)" for sz s c
    using cb unfolding MolReader_byte_parse_def [abs_def] byte_comm_def
    by (cases c) (auto intro!: comm_intros dest: comm_cbD)
  then show ?thesis
    by (simp add: comm_component_def byte_component_def MolReader_byte_init_state_def [abs_def]
        comm_Ok)
qed

definition array_comm :: "('g \<Rightarrow> 'g) \<Rightarrow> 'g bytes_callbacks option \<Rightarrow> bool" where
  "array_comm f cb \<longleftrightarrow> comm_cb f (cb_field bytes_end cb)"

lemma comm_bytes_init: "comm f mol_bytes_init_state"
  unfolding mol_bytes_init_state_def [abs_def] by (intro comm_intros)

lemma array_comp:
  assumes "array_comm f cb"
  shows "comm_component f (Uint32 cb)" "comm_component f (Uint64 cb)" "comm_component f (Byte32 cb)"
  using assms comm_bytes_init comm_mol_parse_bytes [of f cb]
  by (simp_all add: array_comm_def comm_component_def Uint32_def Uint64_def Byte32_def
      MolReader_Uint32_init_state_def [abs_def] MolReader_Uint32_parse_def [abs_def]
      MolReader_Uint64_init_state_def [abs_def] MolReader_Uint64_parse_def [abs_def]
      MolReader_Byte32_init_state_def [abs_def] MolReader_Byte32_parse_def [abs_def])

lemma basic_comm_None [simp]: "byte_comm f None" "array_comm f None"
  by (simp_all add: byte_comm_def array_comm_def)

section \<open>Byte strings\<close>

definition Bytes_inner :: "('g \<Rightarrow> 'g) \<Rightarrow> 'g Bytes_callbacks option \<Rightarrow> bool" where
  "Bytes_inner f cb \<longleftrightarrow> comm_cb f (cb_field bytes_size cb) \<and> comm_cb f (cb_field bytes_body_chunk cb)"

definition Bytes_comm :: "('g \<Rightarrow> 'g) \<Rightarrow> 'g Bytes_callbacks option \<Rightarrow> bool" where
  "Bytes_comm f cb \<longleftrightarrow> comm_hooks f (hooks_of cb) \<and> Bytes_inner f cb"

definition Bytes_lawful :: "'g Bytes_callbacks option \<Rightarrow> bool" where
  "Bytes_lawful cb \<longleftrightarrow> additive (cb_field bytes_body_chunk cb) \<and> cb_field chunk_cb cb = None"

definition Bytes_valid :: "mol_state \<Rightarrow> bool" where
  "Bytes_valid = vec_valid no_valid"

lemma Bytes_body_comm:
  assumes "Bytes_inner f cb"
  shows "comm_frag f (Bytes_body cb)"
  using assms unfolding comm_frag_def Bytes_inner_def Bytes_body_def [abs_def] Let_def
  by (intro allI comm_intros) (auto dest: comm_cbD)

lemma Bytes_head_comm:
  assumes "Bytes_inner f cb"
  shows "comm_frag f (Bytes_head cb sz)"
  using assms unfolding comm_frag_def Bytes_inner_def Bytes_head_def [abs_def]
  by (auto intro!: comm_intros)

lemma Bytes_comp: "Bytes_comm f cb \<Longrightarrow> comm_component f (Bytes cb)"
  unfolding comm_component_def Bytes_def MolReader_Bytes_init_state_def [abs_def]
    MolReader_Bytes_parse_def [abs_def] Bytes_comm_def
  by (auto intro!: comm_vec_init comm_run_body comm_seq Bytes_head_comm Bytes_body_comm)

lemma Bytes_law: "Bytes_lawful cb \<Longrightarrow> stream_parser (Bytes cb) Bytes_valid"
  unfolding Bytes_valid_def Bytes_lawful_def
  by (rule Bytes_stream) (cases cb, auto)+

lemma Bytes_None [simp]: "Bytes_comm f None" "Bytes_lawful None"
  by (simp_all add: Bytes_comm_def Bytes_inner_def Bytes_lawful_def)


section \<open>Types of \<open>blockchain.h\<close>\<close>


definition BytesOpt_inner :: "('g \<Rightarrow> 'g) \<Rightarrow> 'g BytesOpt_callbacks option \<Rightarrow> bool" where
  "BytesOpt_inner f cb \<longleftrightarrow>
     Bytes_comm f (cb_field option_item_cb cb)"

definition BytesOpt_comm :: "('g \<Rightarrow> 'g) \<Rightarrow> 'g BytesOpt_callbacks option \<Rightarrow> bool" where
  "BytesOpt_comm f cb \<longleftrightarrow> comm_hooks f (hooks_of cb) \<and> BytesOpt_inner f cb"

definition BytesOpt_lawful :: "'g BytesOpt_callbacks option \<Rightarrow> bool" where
  "BytesOpt_lawful cb \<longleftrightarrow>
     Bytes_lawful (cb_field option_item_cb cb) \<and>
     chunk_ok cb (\<lambda>f. BytesOpt_inner f cb)"

definition BytesOpt_valid :: "mol_state \<Rightarrow> bool" where
  "BytesOpt_valid = option_valid (Bytes_valid)"

lemma BytesOpt_eq: "BytesOpt cb = option_of (hooks_of cb) (Bytes (cb_field option_item_cb cb))"
  by (simp add: BytesOpt_def MolReader_BytesOpt_init_state_def MolReader_BytesOpt_parse_def option_of_def)

lemma BytesOpt_comp: "BytesOpt_comm f cb \<Longrightarrow> comm_component f (BytesOpt cb)"
  unfolding BytesOpt_eq BytesOpt_comm_def BytesOpt_inner_def
  by (intro comm_option_of Bytes_comp) auto

lemma BytesOpt_hook:
  "BytesOpt_lawful cb \<Longrightarrow> hook_ok (hooks_of cb) (option_item (Bytes (cb_field option_item_cb cb)) sz)"
  unfolding BytesOpt_lawful_def
  by ((elim conjE)?, rule hook_okI [OF _ bare_option], erule chunk_ok_mono, rule comm_option_item)
    (auto simp: BytesOpt_inner_def intro: Bytes_comp)

lemma BytesOpt_law: "BytesOpt_lawful cb \<Longrightarrow> stream_parser (BytesOpt cb) BytesOpt_valid"
  unfolding BytesOpt_eq BytesOpt_valid_def
  by (rule option_stream [OF _ BytesOpt_hook])
    (auto simp: BytesOpt_lawful_def intro: Bytes_law)

lemma BytesOpt_None [simp]: "BytesOpt_comm f None" "BytesOpt_lawful None"
  by (simp_all add: BytesOpt_comm_def BytesOpt_inner_def BytesOpt_lawful_def)


definition BytesVec_inner :: "('g \<Rightarrow> 'g) \<Rightarrow> 'g BytesVec_callbacks option \<Rightarrow> bool" where
  "BytesVec_inner f cb \<longleftrightarrow>
     comm_cb f (cb_field dynvec_size cb) \<and>
     comm_cb f (cb_field dynvec_length cb) \<and>
     comm_cb f (cb_field dynvec_index cb) \<and>
     Bytes_comm f (cb_field dynvec_item cb)"

definition BytesVec_comm :: "('g \<Rightarrow> 'g) \<Rightarrow> 'g BytesVec_callbacks option \<Rightarrow> bool" where
  "BytesVec_comm f cb \<longleftrightarrow> comm_hooks f (hooks_of cb) \<and> BytesVec_inner f cb"

definition BytesVec_lawful :: "'g BytesVec_callbacks option \<Rightarrow> bool" where
  "BytesVec_lawful cb \<longleftrightarrow>
     Bytes_lawful (cb_field dynvec_item cb) \<and>
     chunk_ok cb (\<lambda>f. BytesVec_inner f cb)"

definition BytesVec_valid :: "mol_state \<Rightarrow> bool" where
  "BytesVec_valid = dynvec_valid (Bytes_valid)"

lemma BytesVec_eq: "BytesVec cb = dynvec_of (hooks_of cb) (cb_field dynvec_size cb) (cb_field dynvec_length cb)
    (cb_field dynvec_index cb) (Bytes (cb_field dynvec_item cb))"
  by (simp add: BytesVec_def MolReader_BytesVec_init_state_def MolReader_BytesVec_parse_def dynvec_of_def)

lemma BytesVec_comp: "BytesVec_comm f cb \<Longrightarrow> comm_component f (BytesVec cb)"
  unfolding BytesVec_eq BytesVec_comm_def BytesVec_inner_def
  by (intro comm_dynvec_of Bytes_comp) auto

lemma BytesVec_hook:
  "BytesVec_lawful cb \<Longrightarrow> hook_ok (hooks_of cb) (chain (dynvec_frags (cb_field dynvec_size cb) (cb_field dynvec_length cb)
    (cb_field dynvec_index cb) (Bytes (cb_field dynvec_item cb)) sz))"
  unfolding BytesVec_lawful_def
  by ((elim conjE)?, rule hook_okI [OF _ bare_dynvec], erule chunk_ok_mono, rule comm_dynvec_body)
    (auto simp: BytesVec_inner_def intro: Bytes_comp)

lemma BytesVec_law: "BytesVec_lawful cb \<Longrightarrow> stream_parser (BytesVec cb) BytesVec_valid"
  unfolding BytesVec_eq BytesVec_valid_def
  by (rule dynvec_stream [OF _ BytesVec_hook])
    (auto simp: BytesVec_lawful_def intro: Bytes_law)

lemma BytesVec_None [simp]: "BytesVec_comm f None" "BytesVec_lawful None"
  by (simp_all add: BytesVec_comm_def BytesVec_inner_def BytesVec_lawful_def)


definition Byte32Vec_inner :: "('g \<Rightarrow> 'g) \<Rightarrow> 'g Byte32Vec_callbacks option \<Rightarrow> bool" where
  "Byte32Vec_inner f cb \<longleftrightarrow>
     comm_cb f (cb_field fixvec_size cb) \<and>
     comm_cb f (cb_field fixvec_index cb) \<and>
     array_comm f (cb_field fixvec_item cb)"

definition Byte32Vec_comm :: "('g \<Rightarrow> 'g) \<Rightarrow> 'g Byte32Vec_callbacks option \<Rightarrow> bool" where
  "Byte32Vec_comm f cb \<longleftrightarrow> comm_hooks f (hooks_of cb) \<and> Byte32Vec_inner f cb"

definition Byte32Vec_lawful :: "'g Byte32Vec_callbacks option \<Rightarrow> bool" where
  "Byte32Vec_lawful cb \<longleftrightarrow>
     chunk_ok cb (\<lambda>f. Byte32Vec_inner f cb)"

definition Byte32Vec_valid :: "mol_state \<Rightarrow> bool" where
  "Byte32Vec_valid = vec_valid (bytes_valid 32)"

lemma Byte32Vec_eq: "Byte32Vec cb = vec_of (hooks_of cb) (cb_field fixvec_size cb) (cb_field fixvec_index cb) 32
    (Byte32 (cb_field fixvec_item cb))"
  by (simp add: Byte32Vec_def MolReader_Byte32Vec_init_state_def MolReader_Byte32Vec_parse_def vec_of_def)

lemma Byte32Vec_comp: "Byte32Vec_comm f cb \<Longrightarrow> comm_component f (Byte32Vec cb)"
  unfolding Byte32Vec_eq Byte32Vec_comm_def Byte32Vec_inner_def
  by (intro comm_vec_of array_comp) auto

lemma Byte32Vec_hook:
  "Byte32Vec_lawful cb \<Longrightarrow> hook_ok (hooks_of cb) (vec_body (cb_field fixvec_size cb) (cb_field fixvec_index cb) 32
    (Byte32 (cb_field fixvec_item cb)) sz)"
  unfolding Byte32Vec_lawful_def
  by ((elim conjE)?, rule hook_okI [OF _ bare_vec], erule chunk_ok_mono, rule comm_vec_body)
    (auto simp: Byte32Vec_inner_def intro: array_comp)

lemma Byte32Vec_law: "Byte32Vec_lawful cb \<Longrightarrow> stream_parser (Byte32Vec cb) Byte32Vec_valid"
  unfolding Byte32Vec_eq Byte32Vec_valid_def
  by (rule vec_stream [OF _ _ Byte32Vec_hook])
    (auto simp: Byte32Vec_lawful_def intro: Byte32_stream)

lemma Byte32Vec_None [simp]: "Byte32Vec_comm f None" "Byte32Vec_lawful None"
  by (simp_all add: Byte32Vec_comm_def Byte32Vec_inner_def Byte32Vec_lawful_def)


definition Script_inner :: "('g \<Rightarrow> 'g) \<Rightarrow> 'g Script_callbacks option \<Rightarrow> bool" where
  "Script_inner f cb \<longleftrightarrow>
     comm_offsets f (cb_field script_offsets cb) \<and>
     array_comm f (cb_field script_code_hash cb) \<and>
     byte_comm f (cb_field script_hash_type cb) \<and>
     Bytes_comm f (cb_field script_args cb)"

definition Script_comm :: "('g \<Rightarrow> 'g) \<Rightarrow> 'g Script_callbacks option \<Rightarrow> bool" where
  "Script_comm f cb \<longleftrightarrow> comm_hooks f (hooks_of cb) \<and> Script_inner f cb"

definition Script_lawful :: "'g Script_callbacks option \<Rightarrow> bool" where
  "Script_lawful cb \<longleftrightarrow>
     Bytes_lawful (cb_field script_args cb) \<and>
     chunk_ok cb (\<lambda>f. Script_inner f cb)"

definition Script_valid :: "mol_state \<Rightarrow> bool" where
  "Script_valid = table_valid [bytes_valid 32, byte_valid, Bytes_valid]"

lemma Script_eq: "Script cb = table (hooks_of cb) (cb_field script_offsets cb) (Script_fields cb)"
  by (simp add: Script_def MolReader_Script_init_state_def MolReader_Script_parse_def table_def Script_fields_def numeral_eq_Suc)

lemma Script_comp: "Script_comm f cb \<Longrightarrow> comm_component f (Script cb)"
  unfolding Script_eq Script_comm_def Script_inner_def
  by (rule comm_table) (auto simp: Script_fields_def intro: Bytes_comp array_comp byte_comp)

lemma Script_hook:
  "Script_lawful cb \<Longrightarrow> hook_ok (hooks_of cb) (chain (table_frags sz (cb_field script_offsets cb) (Script_fields cb)))"
  unfolding Script_lawful_def
  by ((elim conjE)?, rule hook_okI [OF _ bare_table], erule chunk_ok_mono, rule comm_table_frags)
    (auto simp: Script_inner_def Script_fields_def intro: Bytes_comp array_comp byte_comp)

lemma Script_law: "Script_lawful cb \<Longrightarrow> stream_parser (Script cb) Script_valid"
  unfolding Script_eq Script_valid_def
  by (rule table_stream [OF _ _ _ Script_hook])
    (auto simp: Script_fields_def Script_lawful_def intro: Byte32_stream Bytes_law byte_stream)

lemma Script_None [simp]: "Script_comm f None" "Script_lawful None"
  by (simp_all add: Script_comm_def Script_inner_def Script_lawful_def)


definition ScriptOpt_inner :: "('g \<Rightarrow> 'g) \<Rightarrow> 'g ScriptOpt_callbacks option \<Rightarrow> bool" where
  "ScriptOpt_inner f cb \<longleftrightarrow>
     Script_comm f (cb_field option_item_cb cb)"

definition ScriptOpt_comm :: "('g \<Rightarrow> 'g) \<Rightarrow> 'g ScriptOpt_callbacks option \<Rightarrow> bool" where
  "ScriptOpt_comm f cb \<longleftrightarrow> comm_hooks f (hooks_of cb) \<and> ScriptOpt_inner f cb"

definition ScriptOpt_lawful :: "'g ScriptOpt_callbacks option \<Rightarrow> bool" where
  "ScriptOpt_lawful cb \<longleftrightarrow>
     Script_lawful (cb_field option_item_cb cb) \<and>
     chunk_ok cb (\<lambda>f. ScriptOpt_inner f cb)"

definition ScriptOpt_valid :: "mol_state \<Rightarrow> bool" where
  "ScriptOpt_valid = option_valid (Script_valid)"

lemma ScriptOpt_eq: "ScriptOpt cb = option_of (hooks_of cb) (Script (cb_field option_item_cb cb))"
  by (simp add: ScriptOpt_def MolReader_ScriptOpt_init_state_def MolReader_ScriptOpt_parse_def option_of_def)

lemma ScriptOpt_comp: "ScriptOpt_comm f cb \<Longrightarrow> comm_component f (ScriptOpt cb)"
  unfolding ScriptOpt_eq ScriptOpt_comm_def ScriptOpt_inner_def
  by (intro comm_option_of Script_comp) auto

lemma ScriptOpt_hook:
  "ScriptOpt_lawful cb \<Longrightarrow> hook_ok (hooks_of cb) (option_item (Script (cb_field option_item_cb cb)) sz)"
  unfolding ScriptOpt_lawful_def
  by ((elim conjE)?, rule hook_okI [OF _ bare_option], erule chunk_ok_mono, rule comm_option_item)
    (auto simp: ScriptOpt_inner_def intro: Script_comp)

lemma ScriptOpt_law: "ScriptOpt_lawful cb \<Longrightarrow> stream_parser (ScriptOpt cb) ScriptOpt_valid"
  unfolding ScriptOpt_eq ScriptOpt_valid_def
  by (rule option_stream [OF _ ScriptOpt_hook])
    (auto simp: ScriptOpt_lawful_def intro: Script_law)

lemma ScriptOpt_None [simp]: "ScriptOpt_comm f None" "ScriptOpt_lawful None"
  by (simp_all add: ScriptOpt_comm_def ScriptOpt_inner_def ScriptOpt_lawful_def)


definition OutPoint_inner :: "('g \<Rightarrow> 'g) \<Rightarrow> 'g OutPoint_callbacks option \<Rightarrow> bool" where
  "OutPoint_inner f cb \<longleftrightarrow>
     array_comm f (cb_field outpoint_tx_hash cb) \<and>
     array_comm f (cb_field outpoint_index cb)"

definition OutPoint_comm :: "('g \<Rightarrow> 'g) \<Rightarrow> 'g OutPoint_callbacks option \<Rightarrow> bool" where
  "OutPoint_comm f cb \<longleftrightarrow> comm_hooks f (hooks_of cb) \<and> OutPoint_inner f cb"

definition OutPoint_lawful :: "'g OutPoint_callbacks option \<Rightarrow> bool" where
  "OutPoint_lawful cb \<longleftrightarrow>
     chunk_ok cb (\<lambda>f. OutPoint_inner f cb)"

definition OutPoint_valid :: "mol_state \<Rightarrow> bool" where
  "OutPoint_valid = struct_valid (bytes_valid 32) (bytes_valid 4)"

lemma OutPoint_eq: "OutPoint cb = struct (hooks_of cb) 36 (Byte32 (cb_field outpoint_tx_hash cb)) 32 (Uint32 (cb_field outpoint_index cb)) 4"
  by (simp add: OutPoint_def MolReader_OutPoint_init_state_def MolReader_OutPoint_parse_def struct_def)

lemma OutPoint_comp: "OutPoint_comm f cb \<Longrightarrow> comm_component f (OutPoint cb)"
  unfolding OutPoint_eq OutPoint_comm_def OutPoint_inner_def
  by (intro comm_struct array_comp) auto

lemma OutPoint_hook:
  "OutPoint_lawful cb \<Longrightarrow> hook_ok (hooks_of cb) (struct_body 36 (Byte32 (cb_field outpoint_tx_hash cb)) 32 (Uint32 (cb_field outpoint_index cb)) 4 sz)"
  unfolding OutPoint_lawful_def
  by ((elim conjE)?, rule hook_okI [OF _ bare_struct], erule chunk_ok_mono, rule comm_struct_body)
    (auto simp: OutPoint_inner_def intro: array_comp)

lemma OutPoint_law: "OutPoint_lawful cb \<Longrightarrow> stream_parser (OutPoint cb) OutPoint_valid"
  unfolding OutPoint_eq OutPoint_valid_def
  by (rule struct_stream [OF _ _ OutPoint_hook])
    (auto simp: OutPoint_lawful_def intro: Byte32_stream Uint32_stream)

lemma OutPoint_None [simp]: "OutPoint_comm f None" "OutPoint_lawful None"
  by (simp_all add: OutPoint_comm_def OutPoint_inner_def OutPoint_lawful_def)


definition CellInput_inner :: "('g \<Rightarrow> 'g) \<Rightarrow> 'g CellInput_callbacks option \<Rightarrow> bool" where
  "CellInput_inner f cb \<longleftrightarrow>
     array_comm f (cb_field cellinput_since cb) \<and>
     OutPoint_comm f (cb_field cellinput_previous_output cb)"

definition CellInput_comm :: "('g \<Rightarrow> 'g) \<Rightarrow> 'g CellInput_callbacks option \<Rightarrow> bool" where
  "CellInput_comm f cb \<longleftrightarrow> comm_hooks f (hooks_of cb) \<and> CellInput_inner f cb"

definition CellInput_lawful :: "'g CellInput_callbacks option \<Rightarrow> bool" where
  "CellInput_lawful cb \<longleftrightarrow>
     OutPoint_lawful (cb_field cellinput_previous_output cb) \<and>
     chunk_ok cb (\<lambda>f. CellInput_inner f cb)"

definition CellInput_valid :: "mol_state \<Rightarrow> bool" where
  "CellInput_valid = struct_valid (bytes_valid 8) (OutPoint_valid)"

lemma CellInput_eq: "CellInput cb = struct (hooks_of cb) 44 (Uint64 (cb_field cellinput_since cb)) 8 (OutPoint (cb_field cellinput_previous_output cb)) 36"
  by (simp add: CellInput_def MolReader_CellInput_init_state_def MolReader_CellInput_parse_def struct_def)

lemma CellInput_comp: "CellInput_comm f cb \<Longrightarrow> comm_component f (CellInput cb)"
  unfolding CellInput_eq CellInput_comm_def CellInput_inner_def
  by (intro comm_struct OutPoint_comp array_comp) auto

lemma CellInput_hook:
  "CellInput_lawful cb \<Longrightarrow> hook_ok (hooks_of cb) (struct_body 44 (Uint64 (cb_field cellinput_since cb)) 8 (OutPoint (cb_field cellinput_previous_output cb)) 36 sz)"
  unfolding CellInput_lawful_def
  by ((elim conjE)?, rule hook_okI [OF _ bare_struct], erule chunk_ok_mono, rule comm_struct_body)
    (auto simp: CellInput_inner_def intro: OutPoint_comp array_comp)

lemma CellInput_law: "CellInput_lawful cb \<Longrightarrow> stream_parser (CellInput cb) CellInput_valid"
  unfolding CellInput_eq CellInput_valid_def
  by (rule struct_stream [OF _ _ CellInput_hook])
    (auto simp: CellInput_lawful_def intro: OutPoint_law Uint64_stream)

lemma CellInput_None [simp]: "CellInput_comm f None" "CellInput_lawful None"
  by (simp_all add: CellInput_comm_def CellInput_inner_def CellInput_lawful_def)


definition CellInputVec_inner :: "('g \<Rightarrow> 'g) \<Rightarrow> 'g CellInputVec_callbacks option \<Rightarrow> bool" where
  "CellInputVec_inner f cb \<longleftrightarrow>
     comm_cb f (cb_field fixvec_size cb) \<and>
     comm_cb f (cb_field fixvec_index cb) \<and>
     CellInput_comm f (cb_field fixvec_item cb)"

definition CellInputVec_comm :: "('g \<Rightarrow> 'g) \<Rightarrow> 'g CellInputVec_callbacks option \<Rightarrow> bool" where
  "CellInputVec_comm f cb \<longleftrightarrow> comm_hooks f (hooks_of cb) \<and> CellInputVec_inner f cb"

definition CellInputVec_lawful :: "'g CellInputVec_callbacks option \<Rightarrow> bool" where
  "CellInputVec_lawful cb \<longleftrightarrow>
     CellInput_lawful (cb_field fixvec_item cb) \<and>
     chunk_ok cb (\<lambda>f. CellInputVec_inner f cb)"

definition CellInputVec_valid :: "mol_state \<Rightarrow> bool" where
  "CellInputVec_valid = vec_valid (CellInput_valid)"

lemma CellInputVec_eq: "CellInputVec cb = vec_of (hooks_of cb) (cb_field fixvec_size cb) (cb_field fixvec_index cb) 44
    (CellInput (cb_field fixvec_item cb))"
  by (simp add: CellInputVec_def MolReader_CellInputVec_init_state_def MolReader_CellInputVec_parse_def vec_of_def)

lemma CellInputVec_comp: "CellInputVec_comm f cb \<Longrightarrow> comm_component f (CellInputVec cb)"
  unfolding CellInputVec_eq CellInputVec_comm_def CellInputVec_inner_def
  by (intro comm_vec_of CellInput_comp) auto

lemma CellInputVec_hook:
  "CellInputVec_lawful cb \<Longrightarrow> hook_ok (hooks_of cb) (vec_body (cb_field fixvec_size cb) (cb_field fixvec_index cb) 44
    (CellInput (cb_field fixvec_item cb)) sz)"
  unfolding CellInputVec_lawful_def
  by ((elim conjE)?, rule hook_okI [OF _ bare_vec], erule chunk_ok_mono, rule comm_vec_body)
    (auto simp: CellInputVec_inner_def intro: CellInput_comp)

lemma CellInputVec_law: "CellInputVec_lawful cb \<Longrightarrow> stream_parser (CellInputVec cb) CellInputVec_valid"
  unfolding CellInputVec_eq CellInputVec_valid_def
  by (rule vec_stream [OF _ _ CellInputVec_hook])
    (auto simp: CellInputVec_lawful_def intro: CellInput_law)

lemma CellInputVec_None [simp]: "CellInputVec_comm f None" "CellInputVec_lawful None"
  by (simp_all add: CellInputVec_comm_def CellInputVec_inner_def CellInputVec_lawful_def)


definition CellOutput_inner :: "('g \<Rightarrow> 'g) \<Rightarrow> 'g CellOutput_callbacks option \<Rightarrow> bool" where
  "CellOutput_inner f cb \<longleftrightarrow>
     comm_offsets f (cb_field celloutput_offsets cb) \<and>
     array_comm f (cb_field celloutput_capacity cb) \<and>
     Script_comm f (cb_field celloutput_lock cb) \<and>
     ScriptOpt_comm f (cb_field celloutput_type cb)"

definition CellOutput_comm :: "('g \<Rightarrow> 'g) \<Rightarrow> 'g CellOutput_callbacks option \<Rightarrow> bool" where
  "CellOutput_comm f cb \<longleftrightarrow> comm_hooks f (hooks_of cb) \<and> CellOutput_inner f cb"

definition CellOutput_lawful :: "'g CellOutput_callbacks option \<Rightarrow> bool" where
  "CellOutput_lawful cb \<longleftrightarrow>
     Script_lawful (cb_field celloutput_lock cb) \<and>
     ScriptOpt_lawful (cb_field celloutput_type cb) \<and>
     chunk_ok cb (\<lambda>f. CellOutput_inner f cb)"

definition CellOutput_valid :: "mol_state \<Rightarrow> bool" where
  "CellOutput_valid = table_valid [bytes_valid 8, Script_valid, ScriptOpt_valid]"

lemma CellOutput_eq: "CellOutput cb = table (hooks_of cb) (cb_field celloutput_offsets cb) (CellOutput_fields cb)"
  by (simp add: CellOutput_def MolReader_CellOutput_init_state_def MolReader_CellOutput_parse_def table_def CellOutput_fields_def numeral_eq_Suc)

lemma CellOutput_comp: "CellOutput_comm f cb \<Longrightarrow> comm_component f (CellOutput cb)"
  unfolding CellOutput_eq CellOutput_comm_def CellOutput_inner_def
  by (rule comm_table) (auto simp: CellOutput_fields_def intro: ScriptOpt_comp Script_comp array_comp)

lemma CellOutput_hook:
  "CellOutput_lawful cb \<Longrightarrow> hook_ok (hooks_of cb) (chain (table_frags sz (cb_field celloutput_offsets cb) (CellOutput_fields cb)))"
  unfolding CellOutput_lawful_def
  by ((elim conjE)?, rule hook_okI [OF _ bare_table], erule chunk_ok_mono, rule comm_table_frags)
    (auto simp: CellOutput_inner_def CellOutput_fields_def intro: ScriptOpt_comp Script_comp array_comp)

lemma CellOutput_law: "CellOutput_lawful cb \<Longrightarrow> stream_parser (CellOutput cb) CellOutput_valid"
  unfolding CellOutput_eq CellOutput_valid_def
  by (rule table_stream [OF _ _ _ CellOutput_hook])
    (auto simp: CellOutput_fields_def CellOutput_lawful_def intro: ScriptOpt_law Script_law Uint64_stream)

lemma CellOutput_None [simp]: "CellOutput_comm f None" "CellOutput_lawful None"
  by (simp_all add: CellOutput_comm_def CellOutput_inner_def CellOutput_lawful_def)


definition CellOutputVec_inner :: "('g \<Rightarrow> 'g) \<Rightarrow> 'g CellOutputVec_callbacks option \<Rightarrow> bool" where
  "CellOutputVec_inner f cb \<longleftrightarrow>
     comm_cb f (cb_field dynvec_size cb) \<and>
     comm_cb f (cb_field dynvec_length cb) \<and>
     comm_cb f (cb_field dynvec_index cb) \<and>
     CellOutput_comm f (cb_field dynvec_item cb)"

definition CellOutputVec_comm :: "('g \<Rightarrow> 'g) \<Rightarrow> 'g CellOutputVec_callbacks option \<Rightarrow> bool" where
  "CellOutputVec_comm f cb \<longleftrightarrow> comm_hooks f (hooks_of cb) \<and> CellOutputVec_inner f cb"

definition CellOutputVec_lawful :: "'g CellOutputVec_callbacks option \<Rightarrow> bool" where
  "CellOutputVec_lawful cb \<longleftrightarrow>
     CellOutput_lawful (cb_field dynvec_item cb) \<and>
     chunk_ok cb (\<lambda>f. CellOutputVec_inner f cb)"

definition CellOutputVec_valid :: "mol_state \<Rightarrow> bool" where
  "CellOutputVec_valid = dynvec_valid (CellOutput_valid)"

lemma CellOutputVec_eq: "CellOutputVec cb = dynvec_of (hooks_of cb) (cb_field dynvec_size cb) (cb_field dynvec_length cb)
    (cb_field dynvec_index cb) (CellOutput (cb_field dynvec_item cb))"
  by (simp add: CellOutputVec_def MolReader_CellOutputVec_init_state_def MolReader_CellOutputVec_parse_def dynvec_of_def)

lemma CellOutputVec_comp: "CellOutputVec_comm f cb \<Longrightarrow> comm_component f (CellOutputVec cb)"
  unfolding CellOutputVec_eq CellOutputVec_comm_def CellOutputVec_inner_def
  by (intro comm_dynvec_of CellOutput_comp) auto

lemma CellOutputVec_hook:
  "CellOutputVec_lawful cb \<Longrightarrow> hook_ok (hooks_of cb) (chain (dynvec_frags (cb_field dynvec_size cb) (cb_field dynvec_length cb)
    (cb_field dynvec_index cb) (CellOutput (cb_field dynvec_item cb)) sz))"
  unfolding CellOutputVec_lawful_def
  by ((elim conjE)?, rule hook_okI [OF _ bare_dynvec], erule chunk_ok_mono, rule comm_dynvec_body)
    (auto simp: CellOutputVec_inner_def intro: CellOutput_comp)

lemma CellOutputVec_law: "CellOutputVec_lawful cb \<Longrightarrow> stream_parser (CellOutputVec cb) CellOutputVec_valid"
  unfolding CellOutputVec_eq CellOutputVec_valid_def
  by (rule dynvec_stream [OF _ CellOutputVec_hook])
    (auto simp: CellOutputVec_lawful_def intro: CellOutput_law)

lemma CellOutputVec_None [simp]: "CellOutputVec_comm f None" "CellOutputVec_lawful None"
  by (simp_all add: CellOutputVec_comm_def CellOutputVec_inner_def CellOutputVec_lawful_def)


definition CellDep_inner :: "('g \<Rightarrow> 'g) \<Rightarrow> 'g CellDep_callbacks option \<Rightarrow> bool" where
  "CellDep_inner f cb \<longleftrightarrow>
     OutPoint_comm f (cb_field celldep_out_point cb) \<and>
     byte_comm f (cb_field celldep_dep_type cb)"

definition CellDep_comm :: "('g \<Rightarrow> 'g) \<Rightarrow> 'g CellDep_callbacks option \<Rightarrow> bool" where
  "CellDep_comm f cb \<longleftrightarrow> comm_hooks f (hooks_of cb) \<and> CellDep_inner f cb"

definition CellDep_lawful :: "'g CellDep_callbacks option \<Rightarrow> bool" where
  "CellDep_lawful cb \<longleftrightarrow>
     OutPoint_lawful (cb_field celldep_out_point cb) \<and>
     chunk_ok cb (\<lambda>f. CellDep_inner f cb)"

definition CellDep_valid :: "mol_state \<Rightarrow> bool" where
  "CellDep_valid = struct_valid (OutPoint_valid) (byte_valid)"

lemma CellDep_eq: "CellDep cb = struct (hooks_of cb) 37 (OutPoint (cb_field celldep_out_point cb)) 36 (byte_component (cb_field celldep_dep_type cb)) 1"
  by (simp add: CellDep_def MolReader_CellDep_init_state_def MolReader_CellDep_parse_def struct_def)

lemma CellDep_comp: "CellDep_comm f cb \<Longrightarrow> comm_component f (CellDep cb)"
  unfolding CellDep_eq CellDep_comm_def CellDep_inner_def
  by (intro comm_struct OutPoint_comp byte_comp) auto

lemma CellDep_hook:
  "CellDep_lawful cb \<Longrightarrow> hook_ok (hooks_of cb) (struct_body 37 (OutPoint (cb_field celldep_out_point cb)) 36 (byte_component (cb_field celldep_dep_type cb)) 1 sz)"
  unfolding CellDep_lawful_def
  by ((elim conjE)?, rule hook_okI [OF _ bare_struct], erule chunk_ok_mono, rule comm_struct_body)
    (auto simp: CellDep_inner_def intro: OutPoint_comp byte_comp)

lemma CellDep_law: "CellDep_lawful cb \<Longrightarrow> stream_parser (CellDep cb) CellDep_valid"
  unfolding CellDep_eq CellDep_valid_def
  by (rule struct_stream [OF _ _ CellDep_hook])
    (auto simp: CellDep_lawful_def intro: OutPoint_law byte_stream)

lemma CellDep_None [simp]: "CellDep_comm f None" "CellDep_lawful None"
  by (simp_all add: CellDep_comm_def CellDep_inner_def CellDep_lawful_def)


definition CellDepVec_inner :: "('g \<Rightarrow> 'g) \<Rightarrow> 'g CellDepVec_callbacks option \<Rightarrow> bool" where
  "CellDepVec_inner f cb \<longleftrightarrow>
     comm_cb f (cb_field fixvec_size cb) \<and>
     comm_cb f (cb_field fixvec_index cb) \<and>
     CellDep_comm f (cb_field fixvec_item cb)"

definition CellDepVec_comm :: "('g \<Rightarrow> 'g) \<Rightarrow> 'g CellDepVec_callbacks option \<Rightarrow> bool" where
  "CellDepVec_comm f cb \<longleftrightarrow> comm_hooks f (hooks_of cb) \<and> CellDepVec_inner f cb"

definition CellDepVec_lawful :: "'g CellDepVec_callbacks option \<Rightarrow> bool" where
  "CellDepVec_lawful cb \<longleftrightarrow>
     CellDep_lawful (cb_field fixvec_item cb) \<and>
     chunk_ok cb (\<lambda>f. CellDepVec_inner f cb)"

definition CellDepVec_valid :: "mol_state \<Rightarrow> bool" where
  "CellDepVec_valid = vec_valid (CellDep_valid)"

lemma CellDepVec_eq: "CellDepVec cb = vec_of (hooks_of cb) (cb_field fixvec_size cb) (cb_field fixvec_index cb) 37
    (CellDep (cb_field fixvec_item cb))"
  by (simp add: CellDepVec_def MolReader_CellDepVec_init_state_def MolReader_CellDepVec_parse_def vec_of_def)

lemma CellDepVec_comp: "CellDepVec_comm f cb \<Longrightarrow> comm_component f (CellDepVec cb)"
  unfolding CellDepVec_eq CellDepVec_comm_def CellDepVec_inner_def
  by (intro comm_vec_of CellDep_comp) auto

lemma CellDepVec_hook:
  "CellDepVec_lawful cb \<Longrightarrow> hook_ok (hooks_of cb) (vec_body (cb_field fixvec_size cb) (cb_field fixvec_index cb) 37
    (CellDep (cb_field fixvec_item cb)) sz)"
  unfolding CellDepVec_lawful_def
  by ((elim conjE)?, rule hook_okI [OF _ bare_vec], erule chunk_ok_mono, rule comm_vec_body)
    (auto simp: CellDepVec_inner_def intro: CellDep_comp)

lemma CellDepVec_law: "CellDepVec_lawful cb \<Longrightarrow> stream_parser (CellDepVec cb) CellDepVec_valid"
  unfolding CellDepVec_eq CellDepVec_valid_def
  by (rule vec_stream [OF _ _ CellDepVec_hook])
    (auto simp: CellDepVec_lawful_def intro: CellDep_law)

lemma CellDepVec_None [simp]: "CellDepVec_comm f None" "CellDepVec_lawful None"
  by (simp_all add: CellDepVec_comm_def CellDepVec_inner_def CellDepVec_lawful_def)


definition RawTransaction_inner :: "('g \<Rightarrow> 'g) \<Rightarrow> 'g RawTransaction_callbacks option \<Rightarrow> bool" where
  "RawTransaction_inner f cb \<longleftrightarrow>
     comm_offsets f (cb_field rawtransaction_offsets cb) \<and>
     array_comm f (cb_field rawtransaction_version cb) \<and>
     CellDepVec_comm f (cb_field rawtransaction_cell_deps cb) \<and>
     Byte32Vec_comm f (cb_field rawtransaction_header_deps cb) \<and>
     CellInputVec_comm f (cb_field rawtransaction_inputs cb) \<and>
     CellOutputVec_comm f (cb_field rawtransaction_outputs cb) \<and>
     BytesVec_comm f (cb_field rawtransaction_outputs_data cb)"

definition RawTransaction_comm :: "('g \<Rightarrow> 'g) \<Rightarrow> 'g RawTransaction_callbacks option \<Rightarrow> bool" where
  "RawTransaction_comm f cb \<longleftrightarrow> comm_hooks f (hooks_of cb) \<and> RawTransaction_inner f cb"

definition RawTransaction_lawful :: "'g RawTransaction_callbacks option \<Rightarrow> bool" where
  "RawTransaction_lawful cb \<longleftrightarrow>
     CellDepVec_lawful (cb_field rawtransaction_cell_deps cb) \<and>
     Byte32Vec_lawful (cb_field rawtransaction_header_deps cb) \<and>
     CellInputVec_lawful (cb_field rawtransaction_inputs cb) \<and>
     CellOutputVec_lawful (cb_field rawtransaction_outputs cb) \<and>
     BytesVec_lawful (cb_field rawtransaction_outputs_data cb) \<and>
     chunk_ok cb (\<lambda>f. RawTransaction_inner f cb)"

definition RawTransaction_valid :: "mol_state \<Rightarrow> bool" where
  "RawTransaction_valid = table_valid [bytes_valid 4, CellDepVec_valid, Byte32Vec_valid, CellInputVec_valid, CellOutputVec_valid, BytesVec_valid]"

lemma RawTransaction_eq: "RawTransaction cb = table (hooks_of cb) (cb_field rawtransaction_offsets cb) (RawTransaction_fields cb)"
  by (simp add: RawTransaction_def MolReader_RawTransaction_init_state_def MolReader_RawTransaction_parse_def table_def RawTransaction_fields_def numeral_eq_Suc)

lemma RawTransaction_comp: "RawTransaction_comm f cb \<Longrightarrow> comm_component f (RawTransaction cb)"
  unfolding RawTransaction_eq RawTransaction_comm_def RawTransaction_inner_def
  by (rule comm_table) (auto simp: RawTransaction_fields_def intro: Byte32Vec_comp BytesVec_comp CellDepVec_comp CellInputVec_comp CellOutputVec_comp array_comp)

lemma RawTransaction_hook:
  "RawTransaction_lawful cb \<Longrightarrow> hook_ok (hooks_of cb) (chain (table_frags sz (cb_field rawtransaction_offsets cb) (RawTransaction_fields cb)))"
  unfolding RawTransaction_lawful_def
  by ((elim conjE)?, rule hook_okI [OF _ bare_table], erule chunk_ok_mono, rule comm_table_frags)
    (auto simp: RawTransaction_inner_def RawTransaction_fields_def intro: Byte32Vec_comp BytesVec_comp CellDepVec_comp CellInputVec_comp CellOutputVec_comp array_comp)

lemma RawTransaction_law: "RawTransaction_lawful cb \<Longrightarrow> stream_parser (RawTransaction cb) RawTransaction_valid"
  unfolding RawTransaction_eq RawTransaction_valid_def
  by (rule table_stream [OF _ _ _ RawTransaction_hook])
    (auto simp: RawTransaction_fields_def RawTransaction_lawful_def intro: Byte32Vec_law BytesVec_law CellDepVec_law CellInputVec_law CellOutputVec_law Uint32_stream)

lemma RawTransaction_None [simp]: "RawTransaction_comm f None" "RawTransaction_lawful None"
  by (simp_all add: RawTransaction_comm_def RawTransaction_inner_def RawTransaction_lawful_def)


definition Transaction_inner :: "('g \<Rightarrow> 'g) \<Rightarrow> 'g Transaction_callbacks option \<Rightarrow> bool" where
  "Transaction_inner f cb \<longleftrightarrow>
     comm_offsets f (cb_field transaction_offsets cb) \<and>
     RawTransaction_comm f (cb_field transaction_raw cb) \<and>
     BytesVec_comm f (cb_field transaction_witnesses cb)"

definition Transaction_comm :: "('g \<Rightarrow> 'g) \<Rightarrow> 'g Transaction_callbacks option \<Rightarrow> bool" where
  "Transaction_comm f cb \<longleftrightarrow> comm_hooks f (hooks_of cb) \<and> Transaction_inner f cb"

definition Transaction_lawful :: "'g Transaction_callbacks option \<Rightarrow> bool" where
  "Transaction_lawful cb \<longleftrightarrow>
     RawTransaction_lawful (cb_field transaction_raw cb) \<and>
     BytesVec_lawful (cb_field transaction_witnesses cb) \<and>
     chunk_ok cb (\<lambda>f. Transaction_inner f cb)"

definition Transaction_valid :: "mol_state \<Rightarrow> bool" where
  "Transaction_valid = table_valid [RawTransaction_valid, BytesVec_valid]"

lemma Transaction_eq: "Transaction cb = table (hooks_of cb) (cb_field transaction_offsets cb) (Transaction_fields cb)"
  by (simp add: Transaction_def MolReader_Transaction_init_state_def MolReader_Transaction_parse_def table_def Transaction_fields_def numeral_eq_Suc)

lemma Transaction_comp: "Transaction_comm f cb \<Longrightarrow> comm_component f (Transaction cb)"
  unfolding Transaction_eq Transaction_comm_def Transaction_inner_def
  by (rule comm_table) (auto simp: Transaction_fields_def intro: BytesVec_comp RawTransaction_comp)

lemma Transaction_hook:
  "Transaction_lawful cb \<Longrightarrow> hook_ok (hooks_of cb) (chain (table_frags sz (cb_field transaction_offsets cb) (Transaction_fields cb)))"
  unfolding Transaction_lawful_def
  by ((elim conjE)?, rule hook_okI [OF _ bare_table], erule chunk_ok_mono, rule comm_table_frags)
    (auto simp: Transaction_inner_def Transaction_fields_def intro: BytesVec_comp RawTransaction_comp)

lemma Transaction_law: "Transaction_lawful cb \<Longrightarrow> stream_parser (Transaction cb) Transaction_valid"
  unfolding Transaction_eq Transaction_valid_def
  by (rule table_stream [OF _ _ _ Transaction_hook])
    (auto simp: Transaction_fields_def Transaction_lawful_def intro: BytesVec_law RawTransaction_law)

lemma Transaction_None [simp]: "Transaction_comm f None" "Transaction_lawful None"
  by (simp_all add: Transaction_comm_def Transaction_inner_def Transaction_lawful_def)


definition WitnessArgs_inner :: "('g \<Rightarrow> 'g) \<Rightarrow> 'g WitnessArgs_callbacks option \<Rightarrow> bool" where
  "WitnessArgs_inner f cb \<longleftrightarrow>
     comm_offsets f (cb_field witnessargs_offsets cb) \<and>
     BytesOpt_comm f (cb_field witnessargs_lock cb) \<and>
     BytesOpt_comm f (cb_field witnessargs_input_type cb) \<and>
     BytesOpt_comm f (cb_field witnessargs_output_type cb)"

definition WitnessArgs_comm :: "('g \<Rightarrow> 'g) \<Rightarrow> 'g WitnessArgs_callbacks option \<Rightarrow> bool" where
  "WitnessArgs_comm f cb \<longleftrightarrow> comm_hooks f (hooks_of cb) \<and> WitnessArgs_inner f cb"

definition WitnessArgs_lawful :: "'g WitnessArgs_callbacks option \<Rightarrow> bool" where
  "WitnessArgs_lawful cb \<longleftrightarrow>
     BytesOpt_lawful (cb_field witnessargs_lock cb) \<and>
     BytesOpt_lawful (cb_field witnessargs_input_type cb) \<and>
     BytesOpt_lawful (cb_field witnessargs_output_type cb) \<and>
     chunk_ok cb (\<lambda>f. WitnessArgs_inner f cb)"

definition WitnessArgs_valid :: "mol_state \<Rightarrow> bool" where
  "WitnessArgs_valid = table_valid [BytesOpt_valid, BytesOpt_valid, BytesOpt_valid]"

lemma WitnessArgs_eq: "WitnessArgs cb = table (hooks_of cb) (cb_field witnessargs_offsets cb) (WitnessArgs_fields cb)"
  by (simp add: WitnessArgs_def MolReader_WitnessArgs_init_state_def MolReader_WitnessArgs_parse_def table_def WitnessArgs_fields_def numeral_eq_Suc)

lemma WitnessArgs_comp: "WitnessArgs_comm f cb \<Longrightarrow> comm_component f (WitnessArgs cb)"
  unfolding WitnessArgs_eq WitnessArgs_comm_def WitnessArgs_inner_def
  by (rule comm_table) (auto simp: WitnessArgs_fields_def intro: BytesOpt_comp)

lemma WitnessArgs_hook:
  "WitnessArgs_lawful cb \<Longrightarrow> hook_ok (hooks_of cb) (chain (table_frags sz (cb_field witnessargs_offsets cb) (WitnessArgs_fields cb)))"
  unfolding WitnessArgs_lawful_def
  by ((elim conjE)?, rule hook_okI [OF _ bare_table], erule chunk_ok_mono, rule comm_table_frags)
    (auto simp: WitnessArgs_inner_def WitnessArgs_fields_def intro: BytesOpt_comp)

lemma WitnessArgs_law: "WitnessArgs_lawful cb \<Longrightarrow> stream_parser (WitnessArgs cb) WitnessArgs_valid"
  unfolding WitnessArgs_eq WitnessArgs_valid_def
  by (rule table_stream [OF _ _ _ WitnessArgs_hook])
    (auto simp: WitnessArgs_fields_def WitnessArgs_lawful_def intro: BytesOpt_law)

lemma WitnessArgs_None [simp]: "WitnessArgs_comm f None" "WitnessArgs_lawful None"
  by (simp_all add: WitnessArgs_comm_def WitnessArgs_inner_def WitnessArgs_lawful_def)


section \<open>Types of \<open>annotated.h\<close>\<close>


definition AnnotatedCellInput_inner :: "('g \<Rightarrow> 'g) \<Rightarrow> 'g AnnotatedCellInput_callbacks option \<Rightarrow> bool" where
  "AnnotatedCellInput_inner f cb \<longleftrightarrow>
     comm_offsets f (cb_field annotatedcellinput_offsets cb) \<and>
     CellInput_comm f (cb_field annotatedcellinput_input cb) \<and>
     RawTransaction_comm f (cb_field annotatedcellinput_source cb)"

definition AnnotatedCellInput_comm :: "('g \<Rightarrow> 'g) \<Rightarrow> 'g AnnotatedCellInput_callbacks option \<Rightarrow> bool" where
  "AnnotatedCellInput_comm f cb \<longleftrightarrow> comm_hooks f (hooks_of cb) \<and> AnnotatedCellInput_inner f cb"

definition AnnotatedCellInput_lawful :: "'g AnnotatedCellInput_callbacks option \<Rightarrow> bool" where
  "AnnotatedCellInput_lawful cb \<longleftrightarrow>
     CellInput_lawful (cb_field annotatedcellinput_input cb) \<and>
     RawTransaction_lawful (cb_field annotatedcellinput_source cb) \<and>
     chunk_ok cb (\<lambda>f. AnnotatedCellInput_inner f cb)"

definition AnnotatedCellInput_valid :: "mol_state \<Rightarrow> bool" where
  "AnnotatedCellInput_valid = table_valid [CellInput_valid, RawTransaction_valid]"

lemma AnnotatedCellInput_eq: "AnnotatedCellInput cb = table (hooks_of cb) (cb_field annotatedcellinput_offsets cb) (AnnotatedCellInput_fields cb)"
  by (simp add: AnnotatedCellInput_def MolReader_AnnotatedCellInput_init_state_def MolReader_AnnotatedCellInput_parse_def table_def AnnotatedCellInput_fields_def numeral_eq_Suc)

lemma AnnotatedCellInput_comp: "AnnotatedCellInput_comm f cb \<Longrightarrow> comm_component f (AnnotatedCellInput cb)"
  unfolding AnnotatedCellInput_eq AnnotatedCellInput_comm_def AnnotatedCellInput_inner_def
  by (rule comm_table) (auto simp: AnnotatedCellInput_fields_def intro: CellInput_comp RawTransaction_comp)

lemma AnnotatedCellInput_hook:
  "AnnotatedCellInput_lawful cb \<Longrightarrow> hook_ok (hooks_of cb) (chain (table_frags sz (cb_field annotatedcellinput_offsets cb) (AnnotatedCellInput_fields cb)))"
  unfolding AnnotatedCellInput_lawful_def
  by ((elim conjE)?, rule hook_okI [OF _ bare_table], erule chunk_ok_mono, rule comm_table_frags)
    (auto simp: AnnotatedCellInput_inner_def AnnotatedCellInput_fields_def intro: CellInput_comp RawTransaction_comp)

lemma AnnotatedCellInput_law: "AnnotatedCellInput_lawful cb \<Longrightarrow> stream_parser (AnnotatedCellInput cb) AnnotatedCellInput_valid"
  unfolding AnnotatedCellInput_eq AnnotatedCellInput_valid_def
  by (rule table_stream [OF _ _ _ AnnotatedCellInput_hook])
    (auto simp: AnnotatedCellInput_fields_def AnnotatedCellInput_lawful_def intro: CellInput_law RawTransaction_law)

lemma AnnotatedCellInput_None [simp]: "AnnotatedCellInput_comm f None" "AnnotatedCellInput_lawful None"
  by (simp_all add: AnnotatedCellInput_comm_def AnnotatedCellInput_inner_def AnnotatedCellInput_lawful_def)


definition AnnotatedCellInputVec_inner :: "('g \<Rightarrow> 'g) \<Rightarrow> 'g AnnotatedCellInputVec_callbacks option \<Rightarrow> bool" where
  "AnnotatedCellInputVec_inner f cb \<longleftrightarrow>
     comm_cb f (cb_field dynvec_size cb) \<and>
     comm_cb f (cb_field dynvec_length cb) \<and>
     comm_cb f (cb_field dynvec_index cb) \<and>
     AnnotatedCellInput_comm f (cb_field dynvec_item cb)"

definition AnnotatedCellInputVec_comm :: "('g \<Rightarrow> 'g) \<Rightarrow> 'g AnnotatedCellInputVec_callbacks option \<Rightarrow> bool" where
  "AnnotatedCellInputVec_comm f cb \<longleftrightarrow> comm_hooks f (hooks_of cb) \<and> AnnotatedCellInputVec_inner f cb"

definition AnnotatedCellInputVec_lawful :: "'g AnnotatedCellInputVec_callbacks option \<Rightarrow> bool" where
  "AnnotatedCellInputVec_lawful cb \<longleftrightarrow>
     AnnotatedCellInput_lawful (cb_field dynvec_item cb) \<and>
     chunk_ok cb (\<lambda>f. AnnotatedCellInputVec_inner f cb)"

definition AnnotatedCellInputVec_valid :: "mol_state \<Rightarrow> bool" where
  "AnnotatedCellInputVec_valid = dynvec_valid (AnnotatedCellInput_valid)"

lemma AnnotatedCellInputVec_eq: "AnnotatedCellInputVec cb = dynvec_of (hooks_of cb) (cb_field dynvec_size cb) (cb_field dynvec_length cb)
    (cb_field dynvec_index cb) (AnnotatedCellInput (cb_field dynvec_item cb))"
  by (simp add: AnnotatedCellInputVec_def MolReader_AnnotatedCellInputVec_init_state_def MolReader_AnnotatedCellInputVec_parse_def dynvec_of_def)

lemma AnnotatedCellInputVec_comp: "AnnotatedCellInputVec_comm f cb \<Longrightarrow> comm_component f (AnnotatedCellInputVec cb)"
  unfolding AnnotatedCellInputVec_eq AnnotatedCellInputVec_comm_def AnnotatedCellInputVec_inner_def
  by (intro comm_dynvec_of AnnotatedCellInput_comp) auto

lemma AnnotatedCellInputVec_hook:
  "AnnotatedCellInputVec_lawful cb \<Longrightarrow> hook_ok (hooks_of cb) (chain (dynvec_frags (cb_field dynvec_size cb) (cb_field dynvec_length cb)
    (cb_field dynvec_index cb) (AnnotatedCellInput (cb_field dynvec_item cb)) sz))"
  unfolding AnnotatedCellInputVec_lawful_def
  by ((elim conjE)?, rule hook_okI [OF _ bare_dynvec], erule chunk_ok_mono, rule comm_dynvec_body)
    (auto simp: AnnotatedCellInputVec_inner_def intro: AnnotatedCellInput_comp)

lemma AnnotatedCellInputVec_law: "AnnotatedCellInputVec_lawful cb \<Longrightarrow> stream_parser (AnnotatedCellInputVec cb) AnnotatedCellInputVec_valid"
  unfolding AnnotatedCellInputVec_eq AnnotatedCellInputVec_valid_def
  by (rule dynvec_stream [OF _ AnnotatedCellInputVec_hook])
    (auto simp: AnnotatedCellInputVec_lawful_def intro: AnnotatedCellInput_law)

lemma AnnotatedCellInputVec_None [simp]: "AnnotatedCellInputVec_comm f None" "AnnotatedCellInputVec_lawful None"
  by (simp_all add: AnnotatedCellInputVec_comm_def AnnotatedCellInputVec_inner_def AnnotatedCellInputVec_lawful_def)


definition AnnotatedRawTransaction_inner :: "('g \<Rightarrow> 'g) \<Rightarrow> 'g AnnotatedRawTransaction_callbacks option \<Rightarrow> bool" where
  "AnnotatedRawTransaction_inner f cb \<longleftrightarrow>
     comm_offsets f (cb_field annotatedrawtransaction_offsets cb) \<and>
     array_comm f (cb_field annotatedrawtransaction_version cb) \<and>
     CellDepVec_comm f (cb_field annotatedrawtransaction_cell_deps cb) \<and>
     Byte32Vec_comm f (cb_field annotatedrawtransaction_header_deps cb) \<and>
     AnnotatedCellInputVec_comm f (cb_field annotatedrawtransaction_inputs cb) \<and>
     CellOutputVec_comm f (cb_field annotatedrawtransaction_outputs cb) \<and>
     BytesVec_comm f (cb_field annotatedrawtransaction_outputs_data cb)"

definition AnnotatedRawTransaction_comm :: "('g \<Rightarrow> 'g) \<Rightarrow> 'g AnnotatedRawTransaction_callbacks option \<Rightarrow> bool" where
  "AnnotatedRawTransaction_comm f cb \<longleftrightarrow> comm_hooks f (hooks_of cb) \<and> AnnotatedRawTransaction_inner f cb"

definition AnnotatedRawTransaction_lawful :: "'g AnnotatedRawTransaction_callbacks option \<Rightarrow> bool" where
  "AnnotatedRawTransaction_lawful cb \<longleftrightarrow>
     CellDepVec_lawful (cb_field annotatedrawtransaction_cell_deps cb) \<and>
     Byte32Vec_lawful (cb_field annotatedrawtransaction_header_deps cb) \<and>
     AnnotatedCellInputVec_lawful (cb_field annotatedrawtransaction_inputs cb) \<and>
     CellOutputVec_lawful (cb_field annotatedrawtransaction_outputs cb) \<and>
     BytesVec_lawful (cb_field annotatedrawtransaction_outputs_data cb) \<and>
     chunk_ok cb (\<lambda>f. AnnotatedRawTransaction_inner f cb)"

definition AnnotatedRawTransaction_valid :: "mol_state \<Rightarrow> bool" where
  "AnnotatedRawTransaction_valid = table_valid [bytes_valid 4, CellDepVec_valid, Byte32Vec_valid, AnnotatedCellInputVec_valid, CellOutputVec_valid, BytesVec_valid]"

lemma AnnotatedRawTransaction_eq: "AnnotatedRawTransaction cb = table (hooks_of cb) (cb_field annotatedrawtransaction_offsets cb) (AnnotatedRawTransaction_fields cb)"
  by (simp add: AnnotatedRawTransaction_def MolReader_AnnotatedRawTransaction_init_state_def MolReader_AnnotatedRawTransaction_parse_def table_def AnnotatedRawTransaction_fields_def numeral_eq_Suc)

lemma AnnotatedRawTransaction_comp: "AnnotatedRawTransaction_comm f cb \<Longrightarrow> comm_component f (AnnotatedRawTransaction cb)"
  unfolding AnnotatedRawTransaction_eq AnnotatedRawTransaction_comm_def AnnotatedRawTransaction_inner_def
  by (rule comm_table) (auto simp: AnnotatedRawTransaction_fields_def intro: AnnotatedCellInputVec_comp Byte32Vec_comp BytesVec_comp CellDepVec_comp CellOutputVec_comp array_comp)

lemma AnnotatedRawTransaction_hook:
  "AnnotatedRawTransaction_lawful cb \<Longrightarrow> hook_ok (hooks_of cb) (chain (table_frags sz (cb_field annotatedrawtransaction_offsets cb) (AnnotatedRawTransaction_fields cb)))"
  unfolding AnnotatedRawTransaction_lawful_def
  by ((elim conjE)?, rule hook_okI [OF _ bare_table], erule chunk_ok_mono, rule comm_table_frags)
    (auto simp: AnnotatedRawTransaction_inner_def AnnotatedRawTransaction_fields_def intro: AnnotatedCellInputVec_comp Byte32Vec_comp BytesVec_comp CellDepVec_comp CellOutputVec_comp array_comp)

lemma AnnotatedRawTransaction_law: "AnnotatedRawTransaction_lawful cb \<Longrightarrow> stream_parser (AnnotatedRawTransaction cb) AnnotatedRawTransaction_valid"
  unfolding AnnotatedRawTransaction_eq AnnotatedRawTransaction_valid_def
  by (rule table_stream [OF _ _ _ AnnotatedRawTransaction_hook])
    (auto simp: AnnotatedRawTransaction_fields_def AnnotatedRawTransaction_lawful_def intro: AnnotatedCellInputVec_law Byte32Vec_law BytesVec_law CellDepVec_law CellOutputVec_law Uint32_stream)

lemma AnnotatedRawTransaction_None [simp]: "AnnotatedRawTransaction_comm f None" "AnnotatedRawTransaction_lawful None"
  by (simp_all add: AnnotatedRawTransaction_comm_def AnnotatedRawTransaction_inner_def AnnotatedRawTransaction_lawful_def)


definition Bip32_inner :: "('g \<Rightarrow> 'g) \<Rightarrow> 'g Bip32_callbacks option \<Rightarrow> bool" where
  "Bip32_inner f cb \<longleftrightarrow>
     comm_cb f (cb_field fixvec_size cb) \<and>
     comm_cb f (cb_field fixvec_index cb) \<and>
     array_comm f (cb_field fixvec_item cb)"

definition Bip32_comm :: "('g \<Rightarrow> 'g) \<Rightarrow> 'g Bip32_callbacks option \<Rightarrow> bool" where
  "Bip32_comm f cb \<longleftrightarrow> comm_hooks f (hooks_of cb) \<and> Bip32_inner f cb"

definition Bip32_lawful :: "'g Bip32_callbacks option \<Rightarrow> bool" where
  "Bip32_lawful cb \<longleftrightarrow>
     chunk_ok cb (\<lambda>f. Bip32_inner f cb)"

definition Bip32_valid :: "mol_state \<Rightarrow> bool" where
  "Bip32_valid = vec_valid (bytes_valid 4)"

lemma Bip32_eq: "Bip32 cb = vec_of (hooks_of cb) (cb_field fixvec_size cb) (cb_field fixvec_index cb) 4
    (Uint32 (cb_field fixvec_item cb))"
  by (simp add: Bip32_def MolReader_Bip32_init_state_def MolReader_Bip32_parse_def vec_of_def)

lemma Bip32_comp: "Bip32_comm f cb \<Longrightarrow> comm_component f (Bip32 cb)"
  unfolding Bip32_eq Bip32_comm_def Bip32_inner_def
  by (intro comm_vec_of array_comp) auto

lemma Bip32_hook:
  "Bip32_lawful cb \<Longrightarrow> hook_ok (hooks_of cb) (vec_body (cb_field fixvec_size cb) (cb_field fixvec_index cb) 4
    (Uint32 (cb_field fixvec_item cb)) sz)"
  unfolding Bip32_lawful_def
  by ((elim conjE)?, rule hook_okI [OF _ bare_vec], erule chunk_ok_mono, rule comm_vec_body)
    (auto simp: Bip32_inner_def intro: array_comp)

lemma Bip32_law: "Bip32_lawful cb \<Longrightarrow> stream_parser (Bip32 cb) Bip32_valid"
  unfolding Bip32_eq Bip32_valid_def
  by (rule vec_stream [OF _ _ Bip32_hook])
    (auto simp: Bip32_lawful_def intro: Uint32_stream)

lemma Bip32_None [simp]: "Bip32_comm f None" "Bip32_lawful None"
  by (simp_all add: Bip32_comm_def Bip32_inner_def Bip32_lawful_def)


definition AnnotatedTransaction_inner :: "('g \<Rightarrow> 'g) \<Rightarrow> 'g AnnotatedTransaction_callbacks option \<Rightarrow> bool" where
  "AnnotatedTransaction_inner f cb \<longleftrightarrow>
     comm_offsets f (cb_field annotatedtransaction_offsets cb) \<and>
     Bip32_comm f (cb_field annotatedtransaction_signPath cb) \<and>
     Bip32_comm f (cb_field annotatedtransaction_changePath cb) \<and>
     array_comm f (cb_field annotatedtransaction_inputCount cb) \<and>
     AnnotatedRawTransaction_comm f (cb_field annotatedtransaction_raw cb) \<and>
     BytesVec_comm f (cb_field annotatedtransaction_witnesses cb)"

definition AnnotatedTransaction_comm :: "('g \<Rightarrow> 'g) \<Rightarrow> 'g AnnotatedTransaction_callbacks option \<Rightarrow> bool" where
  "AnnotatedTransaction_comm f cb \<longleftrightarrow> comm_hooks f (hooks_of cb) \<and> AnnotatedTransaction_inner f cb"

definition AnnotatedTransaction_lawful :: "'g AnnotatedTransaction_callbacks option \<Rightarrow> bool" where
  "AnnotatedTransaction_lawful cb \<longleftrightarrow>
     Bip32_lawful (cb_field annotatedtransaction_signPath cb) \<and>
     Bip32_lawful (cb_field annotatedtransaction_changePath cb) \<and>
     AnnotatedRawTransaction_lawful (cb_field annotatedtransaction_raw cb) \<and>
     BytesVec_lawful (cb_field annotatedtransaction_witnesses cb) \<and>
     chunk_ok cb (\<lambda>f. AnnotatedTransaction_inner f cb)"

definition AnnotatedTransaction_valid :: "mol_state \<Rightarrow> bool" where
  "AnnotatedTransaction_valid = table_valid [Bip32_valid, Bip32_valid, bytes_valid 4, AnnotatedRawTransaction_valid, BytesVec_valid]"

lemma AnnotatedTransaction_eq: "AnnotatedTransaction cb = table (hooks_of cb) (cb_field annotatedtransaction_offsets cb) (AnnotatedTransaction_fields cb)"
  by (simp add: AnnotatedTransaction_def MolReader_AnnotatedTransaction_init_state_def MolReader_AnnotatedTransaction_parse_def table_def AnnotatedTransaction_fields_def numeral_eq_Suc)

lemma AnnotatedTransaction_comp: "AnnotatedTransaction_comm f cb \<Longrightarrow> comm_component f (AnnotatedTransaction cb)"
  unfolding AnnotatedTransaction_eq AnnotatedTransaction_comm_def AnnotatedTransaction_inner_def
  by (rule comm_table) (auto simp: AnnotatedTransaction_fields_def intro: AnnotatedRawTransaction_comp Bip32_comp BytesVec_comp array_comp)

lemma AnnotatedTransaction_hook:
  "AnnotatedTransaction_lawful cb \<Longrightarrow> hook_ok (hooks_of cb) (chain (table_frags sz (cb_field annotatedtransaction_offsets cb) (AnnotatedTransaction_fields cb)))"
  unfolding AnnotatedTransaction_lawful_def
  by ((elim conjE)?, rule hook_okI [OF _ bare_table], erule chunk_ok_mono, rule comm_table_frags)
    (auto simp: AnnotatedTransaction_inner_def AnnotatedTransaction_fields_def intro: AnnotatedRawTransaction_comp Bip32_comp BytesVec_comp array_comp)

lemma AnnotatedTransaction_law: "AnnotatedTransaction_lawful cb \<Longrightarrow> stream_parser (AnnotatedTransaction cb) AnnotatedTransaction_valid"
  unfolding AnnotatedTransaction_eq AnnotatedTransaction_valid_def
  by (rule table_stream [OF _ _ _ AnnotatedTransaction_hook])
    (auto simp: AnnotatedTransaction_fields_def AnnotatedTransaction_lawful_def intro: AnnotatedRawTransaction_law Bip32_law BytesVec_law Uint32_stream)

lemma AnnotatedTransaction_None [simp]: "AnnotatedTransaction_comm f None" "AnnotatedTransaction_lawful None"
  by (simp_all add: AnnotatedTransaction_comm_def AnnotatedTransaction_inner_def AnnotatedTransaction_lawful_def)


end
