(* ===== verification/Molecule_Effects.thy ===== *)
theory Molecule_Effects
  imports Molecule_Instances
begin

text \<open>
  What a reader does to the state is what its callbacks do. An effect contract is a relation
  \<open>R\<close> between the state before and after an action that returns and a relation \<open>E\<close>, by exception,
  for one that throws; the locale \<open>effects\<close> states what they must satisfy to be lifted from the
  callbacks to a whole reader (\<open>R\<close> is a preorder and \<open>E\<close> is closed under it) and proves the lifting for every template and every type of
  \<open>blockchain.h\<close> and \<open>annotated.h\<close>. Invariants, frame conditions and flags that are never
  taken back are such relations.
\<close>

section \<open>Effects\<close>

definition eff :: "('g \<Rightarrow> 'g \<Rightarrow> bool) \<Rightarrow> (u16 \<Rightarrow> 'g \<Rightarrow> 'g \<Rightarrow> bool) \<Rightarrow> 'g \<Rightarrow> ('a, 'g) res \<Rightarrow> bool" where
  "eff R E g r = (case r of Ok a g' \<Rightarrow> R g g' | Throw e g' \<Rightarrow> E e g g' | Undef \<Rightarrow> True)"

lemma eff_simps [simp]:
  "eff R E g (Ok a g') \<longleftrightarrow> R g g'"
  "eff R E g (Throw e g') \<longleftrightarrow> E e g g'"
  "eff R E g Undef"
  by (simp_all add: eff_def)

definition keeps :: "('g \<Rightarrow> 'g \<Rightarrow> bool) \<Rightarrow> (u16 \<Rightarrow> 'g \<Rightarrow> 'g \<Rightarrow> bool) \<Rightarrow> ('g \<Rightarrow> ('a, 'g) res) \<Rightarrow> bool" where
  "keeps R E m \<longleftrightarrow> (\<forall>g. eff R E g (m g))"

named_theorems keeps_intros \<open>introduction rules for effect contracts\<close>

lemma keepsI: "(\<And>g. eff R E g (m g)) \<Longrightarrow> keeps R E m"
  by (simp add: keeps_def)

lemma keepsD: "keeps R E m \<Longrightarrow> eff R E g (m g)"
  by (simp add: keeps_def)

definition keeps_cb :: "('g \<Rightarrow> 'g \<Rightarrow> bool) \<Rightarrow> (u16 \<Rightarrow> 'g \<Rightarrow> 'g \<Rightarrow> bool) \<Rightarrow> ('x \<Rightarrow> 'g \<Rightarrow> ('a, 'g) res) option \<Rightarrow> bool" where
  "keeps_cb R E cb \<longleftrightarrow> (\<forall>h x. cb = Some h \<longrightarrow> keeps R E (h x))"

lemma keeps_cb_None [simp]: "keeps_cb R E None"
  by (simp add: keeps_cb_def)

lemma keeps_cbD: "keeps_cb R E cb \<Longrightarrow> cb = Some h \<Longrightarrow> keeps R E (h x)"
  by (simp add: keeps_cb_def)

definition keeps_hooks :: "('g \<Rightarrow> 'g \<Rightarrow> bool) \<Rightarrow> (u16 \<Rightarrow> 'g \<Rightarrow> 'g \<Rightarrow> bool) \<Rightarrow> 'g hooks \<Rightarrow> bool" where
  "keeps_hooks R E h \<longleftrightarrow> (\<forall>m. start_cb h = Some m \<longrightarrow> keeps R E m) \<and>
     keeps_cb R E (chunk_cb h) \<and> (\<forall>m. end_cb h = Some m \<longrightarrow> keeps R E m)"

lemma keeps_hooks_none [simp]: "keeps_hooks R E no_hooks"
  by (simp add: keeps_hooks_def no_hooks_def)

definition keeps_frag :: "('g \<Rightarrow> 'g \<Rightarrow> bool) \<Rightarrow> (u16 \<Rightarrow> 'g \<Rightarrow> 'g \<Rightarrow> bool) \<Rightarrow> 'g frag \<Rightarrow> bool" where
  "keeps_frag R E F \<longleftrightarrow> (\<forall>s c. keeps R E (F s c))"

definition keeps_component :: "('g \<Rightarrow> 'g \<Rightarrow> bool) \<Rightarrow> (u16 \<Rightarrow> 'g \<Rightarrow> 'g \<Rightarrow> bool) \<Rightarrow> 'g component \<Rightarrow> bool" where
  "keeps_component R E p \<longleftrightarrow> keeps R E (fst p) \<and> (\<forall>sz s c. keeps R E (snd p sz s c))"

lemma keeps_componentD [keeps_intros]:
  "keeps_component R E p \<Longrightarrow> keeps R E (fst p)" "keeps_component R E p \<Longrightarrow> keeps R E (snd p sz s c)"
  by (simp_all add: keeps_component_def)

lemma keeps_fragD: "keeps_frag R E F \<Longrightarrow> keeps R E (F s c)"
  by (simp add: keeps_frag_def)

definition keeps_offsets :: "('g \<Rightarrow> 'g \<Rightarrow> bool) \<Rightarrow> (u16 \<Rightarrow> 'g \<Rightarrow> 'g \<Rightarrow> bool) \<Rightarrow> (u32 \<Rightarrow> u32 list \<Rightarrow> 'g act) option \<Rightarrow> bool" where
  "keeps_offsets R E ocb \<longleftrightarrow> (\<forall>h tot offs. ocb = Some h \<longrightarrow> keeps R E (h tot offs))"

lemma keeps_offsets_None [simp]: "keeps_offsets R E None"
  by (simp add: keeps_offsets_def)

section \<open>The contract of the relation\<close>

locale effects =
  fixes R :: "'g \<Rightarrow> 'g \<Rightarrow> bool" and E :: "u16 \<Rightarrow> 'g \<Rightarrow> 'g \<Rightarrow> bool"
  assumes R_refl: "R g g" and R_trans: "R g1 g2 \<Longrightarrow> R g2 g3 \<Longrightarrow> R g1 g3"
    and E_trans: "R g1 g2 \<Longrightarrow> E e g2 g3 \<Longrightarrow> E e g1 g3"
begin

lemma keeps_Ok [keeps_intros]: "keeps R E (\<lambda>g. Ok a g)"
  by (simp add: keeps_def R_refl)

lemma keeps_Undef [keeps_intros]: "keeps R E (\<lambda>g. Undef)"
  by (simp add: keeps_def)

lemma eff_trans: "R g g' \<Longrightarrow> eff R E g' r \<Longrightarrow> eff R E g r"
  by (cases r) (simp_all, (meson R_trans E_trans)+)

lemma eff_bind:
  assumes "eff R E g r" "\<And>a g'. r = Ok a g' \<Longrightarrow> eff R E g' (k a g')"
  shows "eff R E g (res_bind r k)"
proof (cases r)
  case (Ok a g')
  then show ?thesis using assms eff_trans [of g g' "k a g'"] by simp
qed (use assms in simp_all)

lemma keeps_bind [keeps_intros]:
  "keeps R E m \<Longrightarrow> (\<And>a. keeps R E (k a)) \<Longrightarrow> keeps R E (\<lambda>g. res_bind (m g) k)"
  by (rule keepsI, rule eff_bind, erule keepsD, rule keepsD)

lemma keeps_if [keeps_intros]:
  "(b \<Longrightarrow> keeps R E m1) \<Longrightarrow> (\<not> b \<Longrightarrow> keeps R E m2) \<Longrightarrow> keeps R E (\<lambda>g. if b then m1 g else m2 g)"
  by (cases b) simp_all

lemma keeps_if_fun [keeps_intros]:
  "(b \<Longrightarrow> keeps R E m1) \<Longrightarrow> (\<not> b \<Longrightarrow> keeps R E m2) \<Longrightarrow> keeps R E (if b then m1 else m2)"
  by simp

lemma keeps_option [keeps_intros]:
  "(o' = None \<Longrightarrow> keeps R E m) \<Longrightarrow> (\<And>a. o' = Some a \<Longrightarrow> keeps R E (m' a)) \<Longrightarrow>
   keeps R E (\<lambda>g. case o' of None \<Rightarrow> m g | Some a \<Rightarrow> m' a g)"
  by (cases o') simp_all

lemma keeps_call_opt: "(\<And>m. cb = Some m \<Longrightarrow> keeps R E m) \<Longrightarrow> keeps R E (call_opt cb)"
  by (cases cb) (simp_all add: keeps_def R_refl)

lemma keeps_call_index [keeps_intros]: "keeps_cb R E cb \<Longrightarrow> keeps R E (call_index cb i)"
  unfolding call_index_def [abs_def] by (intro keeps_intros) (auto simp: keeps_cb_def)

lemma keeps_call_chunk: "keeps_cb R E cb \<Longrightarrow> keeps R E (call_chunk cb s c)"
  unfolding call_chunk_def [abs_def] by (intro keeps_intros) (auto simp: keeps_cb_def)

lemma keeps_seq: "keeps_frag R E F1 \<Longrightarrow> keeps_frag R E F2 \<Longrightarrow> keeps_frag R E (seq F1 F2)"
  unfolding keeps_frag_def seq_def [abs_def]
  by (auto intro!: keeps_intros split: prod.splits)

lemma keeps_chain: "(\<And>F. F \<in> set Fs \<Longrightarrow> keeps_frag R E F) \<Longrightarrow> keeps_frag R E (chain Fs)"
proof (induction Fs)
  case Nil
  then show ?case by (simp add: keeps_frag_def skip_frag_def [abs_def] keeps_Ok)
next
  case (Cons F Fs)
  then show ?case by (simp add: keeps_seq)
qed

lemma keeps_run_body:
  assumes h: "keeps_hooks R E h" and F: "keeps_frag R E F"
  shows "keeps R E (run_body h F s c)"
proof -
  have "keeps R E (call_opt (end_cb h))"
    using h by (intro keeps_call_opt) (simp add: keeps_hooks_def)
  moreover have ch: "keeps R E (call_chunk (chunk_cb h) a b)" for a b
    using h by (intro keeps_call_chunk) (simp add: keeps_hooks_def)
  ultimately have cl: "keeps R E (closing h a b d)" for a b d
    unfolding closing_def [abs_def] by (intro keeps_intros) simp_all
  show ?thesis
    unfolding run_body_def [abs_def]
  proof (intro keeps_intros keeps_fragD [OF F], clarsimp)
    fix fl s' c'
    show "keeps R E (\<lambda>g'. case fl of Fall \<Rightarrow> closing h c s' c' g'
        | Leave rv \<Rightarrow> res_bind (call_chunk (chunk_cb h) c c' g') (\<lambda>_. Ok (rv, s', c'))
        | Bare rv \<Rightarrow> Ok (rv, s', c') g' | Finish \<Rightarrow> closing h c s' c' g')"
      by (cases fl) (simp_all add: cl ch keeps_intros)
  qed
qed

lemma keeps_mol_parse_bytes: "keeps_cb R E (cb_field bytes_end cb) \<Longrightarrow> keeps R E (mol_parse_bytes cb n s c)"
  by (cases s)
    (auto simp: mol_parse_bytes_def [abs_def] Let_def intro!: keeps_intros dest: keeps_cbD)

lemma keeps_MOL_CALL_NUM [keeps_intros]:
  "(\<And>v u c. keeps R E (k v u c)) \<Longrightarrow> keeps R E (MOL_CALL_NUM u put k c)"
  unfolding MOL_CALL_NUM_def [abs_def] mol_parse_num_def [abs_def]
  by (auto intro!: keeps_intros keeps_mol_parse_bytes split: prod.splits)

lemma keeps_MOL_CALL_SUBPARSER [keeps_intros]:
  "keeps_component R E p \<Longrightarrow> (\<And>u c. keeps R E (k u c)) \<Longrightarrow>
    keeps R E (MOL_CALL_SUBPARSER (snd p) sz u put k c)"
  unfolding MOL_CALL_SUBPARSER_def [abs_def]
  by (auto intro!: keeps_intros split: prod.splits)

lemma keeps_check_vec_size [keeps_intros]:
  "keeps_cb R E scb \<Longrightarrow> keeps R E k \<Longrightarrow> keeps R E (check_vec_size scb n sz len s c k)"
  unfolding check_vec_size_def [abs_def]
  by (intro keeps_intros) (auto dest: keeps_cbD)

lemma keeps_case_state [keeps_intros]:
  "(\<And>sn fi tot offs u. s = Table_st sn fi tot offs u \<Longrightarrow> keeps R E (mt sn fi tot offs u)) \<Longrightarrow>
    keeps R E (\<lambda>g. case s of Table_st sn fi tot offs u \<Rightarrow> mt sn fi tot offs u g | _ \<Rightarrow> Undef)"
  "(\<And>sn u. s = Struct_st sn u \<Longrightarrow> keeps R E (ms sn u)) \<Longrightarrow>
    keeps R E (\<lambda>g. case s of Struct_st sn u \<Rightarrow> ms sn u g | _ \<Rightarrow> Undef)"
  "(\<And>u. s = Opt_st u \<Longrightarrow> keeps R E (mo u)) \<Longrightarrow>
    keeps R E (\<lambda>g. case s of Opt_st u \<Rightarrow> mo u g | _ \<Rightarrow> Undef)"
  "(\<And>sn len u. s = Vec_st sn len u \<Longrightarrow> keeps R E (mv sn len u)) \<Longrightarrow>
    keeps R E (\<lambda>g. case s of Vec_st sn len u \<Rightarrow> mv sn len u g | _ \<Rightarrow> Undef)"
  "(\<And>sn fi tot first u. s = DynVec_st sn fi tot first u \<Longrightarrow> keeps R E (md sn fi tot first u)) \<Longrightarrow>
    keeps R E (\<lambda>g. case s of DynVec_st sn fi tot first u \<Rightarrow> md sn fi tot first u g | _ \<Rightarrow> Undef)"
  by (cases s; simp add: keeps_Undef)+

lemma keeps_table_total: "keeps_frag R E (table_total sz)"
  unfolding keeps_frag_def table_total_def [abs_def]
  by (auto intro!: keeps_intros)

lemma keeps_table_offset: "keeps_frag R E (table_offset k)"
  unfolding keeps_frag_def table_offset_def [abs_def]
  by (auto intro!: keeps_intros)

lemma keeps_table_offsets_done:
  "keeps R E i0 \<Longrightarrow> keeps_offsets R E ocb \<Longrightarrow> keeps_frag R E (table_offsets_done ocb i0)"
  unfolding keeps_frag_def table_offsets_done_def [abs_def]
  by (auto intro!: keeps_intros simp: keeps_offsets_def)

lemma keeps_table_field:
  assumes "\<And>i. i < length ps \<Longrightarrow> keeps_component R E (ps ! i)" "k < length ps"
  shows "keeps_frag R E (table_field ps k)"
  using assms unfolding keeps_frag_def table_field_def [abs_def]
  by (auto intro!: keeps_intros)

lemma keeps_table_frags:
  assumes ps: "\<And>p. p \<in> set ps \<Longrightarrow> keeps_component R E p" "ps \<noteq> []" and o': "keeps_offsets R E ocb"
  shows "keeps_frag R E (chain (table_frags sz ocb ps))"
proof (rule keeps_chain)
  fix F assume "F \<in> set (table_frags sz ocb ps)"
  then show "keeps_frag R E F"
    using ps(2) o' ps(1) [OF nth_mem]
    by (auto simp: table_frags_def intro!: keeps_table_total keeps_table_offset keeps_table_field
        keeps_table_offsets_done keeps_componentD(1))
qed

lemma keeps_table:
  assumes "\<And>p. p \<in> set ps \<Longrightarrow> keeps_component R E p" "ps \<noteq> []" "keeps_offsets R E ocb" "keeps_hooks R E h"
  shows "keeps_component R E (table h ocb ps)"
proof -
  have "keeps R E (fst (table h ocb ps))"
    using assms(4) unfolding table_def table_init_def [abs_def] fst_conv
    by (intro keeps_intros keeps_call_opt) (auto simp: keeps_hooks_def)
  moreover have "keeps R E (snd (table h ocb ps) sz s c)" for sz s c
    using keeps_run_body [OF assms(4) keeps_table_frags [OF assms(1-3)], of sz s c]
    by (simp add: table_def table_parse_def [abs_def] table_frags_def)
  ultimately show ?thesis by (simp add: keeps_component_def)
qed

lemma keeps_init [keeps_intros]: "keeps_hooks R E h \<Longrightarrow> keeps R E (call_opt (start_cb h))"
  by (intro keeps_call_opt) (auto simp: keeps_hooks_def)

lemma keeps_struct_body:
  assumes "keeps_component R E p1" "keeps_component R E p2"
  shows "keeps_frag R E (struct_body tsz p1 sz1 p2 sz2 sz)"
proof (rule keeps_chain)
  fix F assume "F \<in> set [struct_size tsz sz, struct_first p1 sz1 p2, struct_second p2 sz2]"
  moreover have "keeps_frag R E (struct_size tsz sz)" "keeps_frag R E (struct_first p1 sz1 p2)"
    "keeps_frag R E (struct_second p2 sz2)"
    using assms unfolding keeps_frag_def struct_size_def [abs_def] struct_first_def [abs_def]
      struct_second_def [abs_def]
    by (auto intro!: keeps_intros)
  ultimately show "keeps_frag R E F" by auto
qed

lemma keeps_struct:
  assumes "keeps_component R E p1" "keeps_component R E p2" "keeps_hooks R E h"
  shows "keeps_component R E (struct h tsz p1 sz1 p2 sz2)"
proof -
  have "keeps R E (fst (struct h tsz p1 sz1 p2 sz2))"
    using assms unfolding struct_def struct_init_def [abs_def] fst_conv by (intro keeps_intros)
  then show ?thesis
    using keeps_run_body [OF assms(3) keeps_struct_body [OF assms(1,2)]]
    by (simp add: keeps_component_def struct_def struct_parse_def [abs_def])
qed

lemma keeps_option_item: "keeps_component R E p \<Longrightarrow> keeps_frag R E (option_item p sz)"
  unfolding keeps_frag_def option_item_def [abs_def]
  by (auto intro!: keeps_intros)

lemma keeps_option_of:
  assumes "keeps_component R E p" "keeps_hooks R E h"
  shows "keeps_component R E (option_of h p)"
proof -
  have "keeps R E (fst (option_of h p))"
    using assms unfolding option_of_def option_init_def [abs_def] fst_conv by (intro keeps_intros)
  then show ?thesis
    using keeps_run_body [OF assms(2) keeps_option_item [OF assms(1)]]
    by (simp add: keeps_component_def option_of_def option_parse_def [abs_def])
qed

lemma keeps_vec_init: "keeps_hooks R E h \<Longrightarrow> keeps R E (vec_init h)"
  unfolding vec_init_def [abs_def] by (intro keeps_intros)

lemma keeps_vec_loop_eq:
  assumes p: "keeps_component R E p" and i: "keeps_cb R E icb"
  shows "eff R E g (vec_loop icb p n sn len u c g)"
proof (induction "unat (len - (sn - 1))" arbitrary: sn u c g rule: less_induct)
  case (less sn u c g)
  define K where "K = (\<lambda>(u' :: mol_state) c' g'. res_bind (fst p g') (\<lambda>u' g''.
      res_bind (call_index icb sn g'') (\<lambda>_. vec_loop icb p n (sn + 1) len u' c')))"
  show ?case
  proof (cases "sn - 1 < len")
    case True
    have "unat (len - (sn + 1 - 1)) < unat (len - (sn - 1))"
      using unat_countdown [of "sn - 1" len] True by simp
    then have "keeps R E (vec_loop icb p n (sn + 1) len u' c')" for u' c'
      using less by (intro keepsI)
    then have "keeps R E (K u' c')" for u' c'
      unfolding K_def by (intro keeps_intros p i)
    then have "keeps R E (MOL_CALL_SUBPARSER (snd p) n u (Vec_st sn len) K c)"
      by (intro keeps_intros p)
    with True show ?thesis
      by (simp add: vec_loop.simps [of _ _ _ sn len] K_def [symmetric] keepsD)
  qed (simp add: vec_loop.simps R_refl)
qed

lemma keeps_vec_loop:
  assumes "keeps_component R E p" "keeps_cb R E icb"
  shows "keeps R E (vec_loop icb p n sn len u c)"
  by (rule keepsI) (rule keeps_vec_loop_eq [OF assms])

lemma keeps_vec_body:
  assumes "keeps_component R E p" "keeps_cb R E icb" "keeps_cb R E scb"
  shows "keeps_frag R E (vec_body scb icb n p sz)"
proof (rule keeps_chain)
  fix F assume "F \<in> set [vec_head scb icb n p sz, vec_items icb p (of_nat n)]"
  moreover have "keeps_frag R E (vec_head scb icb n p sz)"
    using assms unfolding keeps_frag_def vec_head_def [abs_def]
    by (auto intro!: keeps_intros)
  moreover have "keeps_frag R E (vec_items icb p (of_nat n))"
    unfolding keeps_frag_def vec_items_def [abs_def]
    by (intro allI keeps_intros keeps_vec_loop [OF assms(1,2)])
  ultimately show "keeps_frag R E F" by auto
qed

lemma keeps_vec_of:
  assumes "keeps_component R E p" "keeps_cb R E icb" "keeps_cb R E scb" "keeps_hooks R E h"
  shows "keeps_component R E (vec_of h scb icb n p)"
  using keeps_run_body [OF assms(4) keeps_vec_body [OF assms(1-3)]] keeps_vec_init [OF assms(4)]
  by (simp add: keeps_component_def vec_of_def vec_parse_def [abs_def])

lemma keeps_dynvec_header_eq:
  "eff R E g (dynvec_header sn fi tot first u c g)"
proof (induction sn fi tot first u c g rule: dynvec_header.induct)
  case (1 sn fi tot first u c g)
  define K where "K = (\<lambda>(v :: u32) (u' :: mol_state).
      dynvec_header sn (fi + 1) tot first mol_num_init_state :: u8 list \<Rightarrow> 'g \<Rightarrow> _)"
  show ?case
  proof (cases "fi < dynvec_count first")
    case True
    then have "keeps R E (K v u' c')" for v u' c'
      unfolding K_def using 1 by (intro keepsI)
    then have "keeps R E (MOL_CALL_NUM u (DynVec_st sn fi tot first) K c)"
      by (intro keeps_intros)
    with True show ?thesis
      by (simp add: dynvec_header.simps [of sn fi] K_def [symmetric] keepsD)
  qed (simp add: dynvec_header.simps R_refl)
qed

lemma keeps_dynvec_loop_eq:
  assumes p: "keeps_component R E p" and i: "keeps_cb R E icb"
  shows "eff R E g (dynvec_loop icb p sn fi tot first u c g)"
proof (induction "unat (dynvec_count first - fi)" arbitrary: fi u c g rule: less_induct)
  case (less fi u c g)
  define K where "K = (\<lambda>(u' :: mol_state) c' g'. res_bind (fst p g') (\<lambda>u' g''.
      res_bind (call_index icb (fi + 1) g'') (\<lambda>_. dynvec_loop icb p sn (fi + 1) tot first u' c')))"
  show ?case
  proof (cases "fi < dynvec_count first")
    case True
    have "unat (dynvec_count first - (fi + 1)) < unat (dynvec_count first - fi)"
      using True by (rule unat_countdown)
    then have "keeps R E (dynvec_loop icb p sn (fi + 1) tot first u' c')" for u' c'
      using less by (intro keepsI)
    then have "keeps R E (K u' c')" for u' c'
      unfolding K_def by (intro keeps_intros p i)
    then have "keeps R E (MOL_CALL_SUBPARSER (snd p) (- 1) u (DynVec_st sn fi tot first) K c)"
      by (intro keeps_intros p)
    with True show ?thesis
      by (simp add: dynvec_loop.simps [of _ _ sn fi] K_def [symmetric] keepsD)
  qed (simp add: dynvec_loop.simps R_refl)
qed

lemma keeps_dynvec_loop:
  assumes "keeps_component R E p" "keeps_cb R E icb"
  shows "keeps R E (dynvec_loop icb p sn fi tot first u c)"
  by (rule keepsI) (rule keeps_dynvec_loop_eq [OF assms])

lemma keeps_dynvec_header: "keeps R E (dynvec_header sn fi tot first u c)"
  by (rule keepsI) (rule keeps_dynvec_header_eq)

lemma keeps_dynvec_body:
  assumes p: "keeps_component R E p" and i: "keeps_cb R E icb" and s: "keeps_cb R E scb"
    and l: "keeps_cb R E lcb"
  shows "keeps_frag R E (chain (dynvec_frags scb lcb icb p sz))"
proof (rule keeps_chain)
  fix F assume "F \<in> set (dynvec_frags scb lcb icb p sz)"
  moreover have "keeps_frag R E (dynvec_total scb sz)"
    using s unfolding keeps_frag_def dynvec_total_def [abs_def]
    by (auto intro!: keeps_intros dest: keeps_cbD)
  moreover have "keeps_frag R E dynvec_first"
    unfolding keeps_frag_def dynvec_first_def [abs_def]
    by (auto intro!: keeps_intros)
  moreover have "keeps_frag R E dynvec_offsets"
    unfolding keeps_frag_def dynvec_offsets_def [abs_def]
    by (intro allI keeps_intros keeps_dynvec_header)
  moreover have "keeps_frag R E (dynvec_start_items lcb icb p)"
    unfolding keeps_frag_def dynvec_start_items_def [abs_def]
    by (auto intro!: keeps_intros p l i)
  moreover have "keeps_frag R E (dynvec_items icb p)"
    unfolding keeps_frag_def dynvec_items_def [abs_def]
    by (intro allI keeps_intros keeps_dynvec_loop [OF p i])
  ultimately show "keeps_frag R E F" by auto
qed

lemma keeps_dynvec_of:
  assumes "keeps_component R E p" "keeps_cb R E icb" "keeps_cb R E scb" "keeps_cb R E lcb" "keeps_hooks R E h"
  shows "keeps_component R E (dynvec_of h scb lcb icb p)"
proof -
  have "keeps R E (fst (dynvec_of h scb lcb icb p))"
    using assms unfolding dynvec_of_def dynvec_init_def [abs_def] fst_conv by (intro keeps_intros)
  then show ?thesis
    using keeps_run_body [OF assms(5) keeps_dynvec_body [OF assms(1-4)]]
    by (simp add: keeps_component_def dynvec_of_def dynvec_parse_def [abs_def])
qed

text \<open>The types, from the inside out.\<close>

lemma byte_keeps:
  assumes "keeps_cb R E (cb_field byte_end cb)"
  shows "keeps_component R E (byte_component cb)"
proof -
  have "keeps R E (MolReader_byte_parse cb sz s c)" for sz s c
    using assms unfolding MolReader_byte_parse_def [abs_def]
    by (cases c) (auto intro!: keeps_intros dest: keeps_cbD)
  then show ?thesis
    by (simp add: keeps_component_def byte_component_def MolReader_byte_init_state_def [abs_def]
        keeps_Ok)
qed

lemma array_keeps:
  assumes "keeps_cb R E (cb_field bytes_end cb)"
  shows "keeps_component R E (Uint32 cb)" "keeps_component R E (Uint64 cb)" "keeps_component R E (Byte32 cb)"
  using assms keeps_mol_parse_bytes [of cb] keeps_Ok
  by (simp_all add: keeps_component_def Uint32_def Uint64_def Byte32_def mol_bytes_init_state_def [abs_def]
      MolReader_Uint32_init_state_def [abs_def] MolReader_Uint32_parse_def [abs_def]
      MolReader_Uint64_init_state_def [abs_def] MolReader_Uint64_parse_def [abs_def]
      MolReader_Byte32_init_state_def [abs_def] MolReader_Byte32_parse_def [abs_def])

lemma Bytes_keeps:
  assumes "keeps_hooks R E (hooks_of cb)" "keeps_cb R E (cb_field bytes_size cb)"
    "keeps_cb R E (cb_field bytes_body_chunk cb)"
  shows "keeps_component R E (Bytes cb)"
proof -
  have "keeps_frag R E (Bytes_head cb sz)" for sz
    using assms unfolding keeps_frag_def Bytes_head_def [abs_def] by (auto intro!: keeps_intros)
  moreover have "keeps_frag R E (Bytes_body cb)"
    using assms unfolding keeps_frag_def Bytes_body_def [abs_def] Let_def
    by (intro allI keeps_intros) (auto dest: keeps_cbD)
  ultimately show ?thesis
    using assms unfolding keeps_component_def Bytes_def MolReader_Bytes_init_state_def [abs_def]
      MolReader_Bytes_parse_def [abs_def]
    by (auto intro!: keeps_vec_init keeps_run_body keeps_seq keeps_chain)
qed

lemma BytesOpt_keeps:
  assumes "keeps_hooks R E (hooks_of cb)" "keeps_component R E (Bytes (cb_field option_item_cb cb))"
  shows "keeps_component R E (BytesOpt cb)"
  unfolding BytesOpt_eq by (rule keeps_option_of) (use assms in auto)

lemma BytesVec_keeps:
  assumes "keeps_hooks R E (hooks_of cb)" "keeps_cb R E (cb_field dynvec_size cb)"
    "keeps_cb R E (cb_field dynvec_length cb)" "keeps_cb R E (cb_field dynvec_index cb)"
    "keeps_component R E (Bytes (cb_field dynvec_item cb))"
  shows "keeps_component R E (BytesVec cb)"
  unfolding BytesVec_eq by (rule keeps_dynvec_of) (use assms in auto)

lemma Byte32Vec_keeps:
  assumes "keeps_hooks R E (hooks_of cb)" "keeps_cb R E (cb_field fixvec_size cb)"
    "keeps_cb R E (cb_field fixvec_index cb)" "keeps_component R E (Byte32 (cb_field fixvec_item cb))"
  shows "keeps_component R E (Byte32Vec cb)"
  unfolding Byte32Vec_eq by (rule keeps_vec_of) (use assms in auto)

lemma Script_keeps:
  assumes "keeps_hooks R E (hooks_of cb)" "keeps_offsets R E (cb_field script_offsets cb)"
    "keeps_component R E (Byte32 (cb_field script_code_hash cb))"
    "keeps_component R E (byte_component (cb_field script_hash_type cb))"
    "keeps_component R E (Bytes (cb_field script_args cb))"
  shows "keeps_component R E (Script cb)"
  unfolding Script_eq by (rule keeps_table) (use assms in \<open>auto simp: Script_fields_def\<close>)

lemma ScriptOpt_keeps:
  assumes "keeps_hooks R E (hooks_of cb)" "keeps_component R E (Script (cb_field option_item_cb cb))"
  shows "keeps_component R E (ScriptOpt cb)"
  unfolding ScriptOpt_eq by (rule keeps_option_of) (use assms in auto)

lemma OutPoint_keeps:
  assumes "keeps_hooks R E (hooks_of cb)"
    "keeps_component R E (Byte32 (cb_field outpoint_tx_hash cb))"
    "keeps_component R E (Uint32 (cb_field outpoint_index cb))"
  shows "keeps_component R E (OutPoint cb)"
  unfolding OutPoint_eq by (rule keeps_struct) (use assms in auto)

lemma CellInput_keeps:
  assumes "keeps_hooks R E (hooks_of cb)"
    "keeps_component R E (Uint64 (cb_field cellinput_since cb))"
    "keeps_component R E (OutPoint (cb_field cellinput_previous_output cb))"
  shows "keeps_component R E (CellInput cb)"
  unfolding CellInput_eq by (rule keeps_struct) (use assms in auto)

lemma CellInputVec_keeps:
  assumes "keeps_hooks R E (hooks_of cb)" "keeps_cb R E (cb_field fixvec_size cb)"
    "keeps_cb R E (cb_field fixvec_index cb)" "keeps_component R E (CellInput (cb_field fixvec_item cb))"
  shows "keeps_component R E (CellInputVec cb)"
  unfolding CellInputVec_eq by (rule keeps_vec_of) (use assms in auto)

lemma CellOutput_keeps:
  assumes "keeps_hooks R E (hooks_of cb)" "keeps_offsets R E (cb_field celloutput_offsets cb)"
    "keeps_component R E (Uint64 (cb_field celloutput_capacity cb))"
    "keeps_component R E (Script (cb_field celloutput_lock cb))"
    "keeps_component R E (ScriptOpt (cb_field celloutput_type cb))"
  shows "keeps_component R E (CellOutput cb)"
  unfolding CellOutput_eq by (rule keeps_table) (use assms in \<open>auto simp: CellOutput_fields_def\<close>)

lemma CellOutputVec_keeps:
  assumes "keeps_hooks R E (hooks_of cb)" "keeps_cb R E (cb_field dynvec_size cb)"
    "keeps_cb R E (cb_field dynvec_length cb)" "keeps_cb R E (cb_field dynvec_index cb)"
    "keeps_component R E (CellOutput (cb_field dynvec_item cb))"
  shows "keeps_component R E (CellOutputVec cb)"
  unfolding CellOutputVec_eq by (rule keeps_dynvec_of) (use assms in auto)

lemma CellDep_keeps:
  assumes "keeps_hooks R E (hooks_of cb)"
    "keeps_component R E (OutPoint (cb_field celldep_out_point cb))"
    "keeps_component R E (byte_component (cb_field celldep_dep_type cb))"
  shows "keeps_component R E (CellDep cb)"
  unfolding CellDep_eq by (rule keeps_struct) (use assms in auto)

lemma CellDepVec_keeps:
  assumes "keeps_hooks R E (hooks_of cb)" "keeps_cb R E (cb_field fixvec_size cb)"
    "keeps_cb R E (cb_field fixvec_index cb)" "keeps_component R E (CellDep (cb_field fixvec_item cb))"
  shows "keeps_component R E (CellDepVec cb)"
  unfolding CellDepVec_eq by (rule keeps_vec_of) (use assms in auto)

lemma RawTransaction_keeps:
  assumes "keeps_hooks R E (hooks_of cb)" "keeps_offsets R E (cb_field rawtransaction_offsets cb)"
    "keeps_component R E (Uint32 (cb_field rawtransaction_version cb))"
    "keeps_component R E (CellDepVec (cb_field rawtransaction_cell_deps cb))"
    "keeps_component R E (Byte32Vec (cb_field rawtransaction_header_deps cb))"
    "keeps_component R E (CellInputVec (cb_field rawtransaction_inputs cb))"
    "keeps_component R E (CellOutputVec (cb_field rawtransaction_outputs cb))"
    "keeps_component R E (BytesVec (cb_field rawtransaction_outputs_data cb))"
  shows "keeps_component R E (RawTransaction cb)"
  unfolding RawTransaction_eq by (rule keeps_table) (use assms in \<open>auto simp: RawTransaction_fields_def\<close>)

lemma WitnessArgs_keeps:
  assumes "keeps_hooks R E (hooks_of cb)" "keeps_offsets R E (cb_field witnessargs_offsets cb)"
    "keeps_component R E (BytesOpt (cb_field witnessargs_lock cb))"
    "keeps_component R E (BytesOpt (cb_field witnessargs_input_type cb))"
    "keeps_component R E (BytesOpt (cb_field witnessargs_output_type cb))"
  shows "keeps_component R E (WitnessArgs cb)"
  unfolding WitnessArgs_eq by (rule keeps_table) (use assms in \<open>auto simp: WitnessArgs_fields_def\<close>)

lemma AnnotatedCellInput_keeps:
  assumes "keeps_hooks R E (hooks_of cb)" "keeps_offsets R E (cb_field annotatedcellinput_offsets cb)"
    "keeps_component R E (CellInput (cb_field annotatedcellinput_input cb))"
    "keeps_component R E (RawTransaction (cb_field annotatedcellinput_source cb))"
  shows "keeps_component R E (AnnotatedCellInput cb)"
  unfolding AnnotatedCellInput_eq by (rule keeps_table) (use assms in \<open>auto simp: AnnotatedCellInput_fields_def\<close>)

lemma AnnotatedCellInputVec_keeps:
  assumes "keeps_hooks R E (hooks_of cb)" "keeps_cb R E (cb_field dynvec_size cb)"
    "keeps_cb R E (cb_field dynvec_length cb)" "keeps_cb R E (cb_field dynvec_index cb)"
    "keeps_component R E (AnnotatedCellInput (cb_field dynvec_item cb))"
  shows "keeps_component R E (AnnotatedCellInputVec cb)"
  unfolding AnnotatedCellInputVec_eq by (rule keeps_dynvec_of) (use assms in auto)

lemma AnnotatedRawTransaction_keeps:
  assumes "keeps_hooks R E (hooks_of cb)" "keeps_offsets R E (cb_field annotatedrawtransaction_offsets cb)"
    "keeps_component R E (Uint32 (cb_field annotatedrawtransaction_version cb))"
    "keeps_component R E (CellDepVec (cb_field annotatedrawtransaction_cell_deps cb))"
    "keeps_component R E (Byte32Vec (cb_field annotatedrawtransaction_header_deps cb))"
    "keeps_component R E (AnnotatedCellInputVec (cb_field annotatedrawtransaction_inputs cb))"
    "keeps_component R E (CellOutputVec (cb_field annotatedrawtransaction_outputs cb))"
    "keeps_component R E (BytesVec (cb_field annotatedrawtransaction_outputs_data cb))"
  shows "keeps_component R E (AnnotatedRawTransaction cb)"
  unfolding AnnotatedRawTransaction_eq by (rule keeps_table) (use assms in \<open>auto simp: AnnotatedRawTransaction_fields_def\<close>)

lemma Bip32_keeps:
  assumes "keeps_hooks R E (hooks_of cb)" "keeps_cb R E (cb_field fixvec_size cb)"
    "keeps_cb R E (cb_field fixvec_index cb)" "keeps_component R E (Uint32 (cb_field fixvec_item cb))"
  shows "keeps_component R E (Bip32 cb)"
  unfolding Bip32_eq by (rule keeps_vec_of) (use assms in auto)

lemma AnnotatedTransaction_keeps:
  assumes "keeps_hooks R E (hooks_of cb)" "keeps_offsets R E (cb_field annotatedtransaction_offsets cb)"
    "keeps_component R E (Bip32 (cb_field annotatedtransaction_signPath cb))"
    "keeps_component R E (Bip32 (cb_field annotatedtransaction_changePath cb))"
    "keeps_component R E (Uint32 (cb_field annotatedtransaction_inputCount cb))"
    "keeps_component R E (AnnotatedRawTransaction (cb_field annotatedtransaction_raw cb))"
    "keeps_component R E (BytesVec (cb_field annotatedtransaction_witnesses cb))"
  shows "keeps_component R E (AnnotatedTransaction cb)"
  unfolding AnnotatedTransaction_eq by (rule keeps_table) (use assms in \<open>auto simp: AnnotatedTransaction_fields_def\<close>)

lemmas reader_keeps = byte_keeps array_keeps Bytes_keeps BytesOpt_keeps BytesVec_keeps Byte32Vec_keeps
  Script_keeps ScriptOpt_keeps OutPoint_keeps CellInput_keeps CellInputVec_keeps CellOutput_keeps
  CellOutputVec_keeps CellDep_keeps CellDepVec_keeps RawTransaction_keeps WitnessArgs_keeps
  AnnotatedCellInput_keeps AnnotatedCellInputVec_keeps AnnotatedRawTransaction_keeps Bip32_keeps
  AnnotatedTransaction_keeps

end

section \<open>Completed tables\<close>

text \<open>A table that has been read to its end is complete whatever follows.\<close>

lemma chain_falls: "\<forall>F\<in>set Fs. F s c g = Ok (Fall, s, c) g \<Longrightarrow> chain Fs s c g = Ok (Fall, s, c) g"
  by (induction Fs) (simp_all add: skip_frag_def seq_def)

lemma table_done:
  "table_parse h ocb ps sz (Table_st 3 fi tot offs u) c g = closing h c (Table_st 3 fi tot offs u) c g"
proof -
  have "chain ([table_total sz] @ map table_offset [0..<length ps] @ [table_offsets_done ocb (fst (ps ! 0))] @
      map (table_field ps) [0..<length ps]) (Table_st 3 fi tot offs u) c g = Ok (Fall, Table_st 3 fi tot offs u, c) g"
    by (rule chain_falls) (auto simp: table_total_def table_offset_def table_offsets_done_def table_field_def)
  then show ?thesis by (simp add: table_parse_def run_body_def)
qed

end
