(* ===== verification/Molecule_Encode.thy ===== *)
theory Molecule_Encode
  imports Molecule_Effects
begin

text \<open>
  The other direction: what the readers do with well-formed input. The serialisations of the
  molecule format (tables, fixed and dynamic vectors, byte strings) are defined here as
  reference functions; \<open>reads\<close> says that a reader handed a serialisation uses exactly those
  bytes, and relates the states before and after; \<open>frun\<close> says the same of a code fragment.
\<close>

section \<open>Serialised values\<close>

text \<open>A molecule table: its total size, the offsets of its fields and the fields.\<close>

fun table_offsets :: "u32 \<Rightarrow> u32 list \<Rightarrow> u32 list" where
  "table_offsets o' [] = []"
| "table_offsets o' (l # ls) = o' # table_offsets (o' + l) ls"

definition table_header :: "u32 list \<Rightarrow> u8 list" where
  "table_header ls =
     (let h = 4 + 4 * of_nat (length ls)
      in u32_le (h + sum_list ls) @ concat (map u32_le (table_offsets h ls)))"

definition molecule_table :: "u8 list list \<Rightarrow> u8 list" where
  "molecule_table fs = table_header (map (\<lambda>f. of_nat (length f)) fs) @ concat fs"

definition molecule_bytes :: "u8 list \<Rightarrow> u8 list" where
  "molecule_bytes bs = u32_le (of_nat (length bs)) @ bs"

text \<open>A vector of items of one size: their number and the items. A vector of items of any
  size is serialised like a table.\<close>

definition molecule_fixvec :: "u8 list list \<Rightarrow> u8 list" where
  "molecule_fixvec xs = u32_le (of_nat (length xs)) @ concat xs"

definition sizes_of :: "u8 list list \<Rightarrow> u32 list" where
  "sizes_of fs = map (\<lambda>f. of_nat (length f)) fs"

lemma length_table_offsets [simp]: "length (table_offsets o' ls) = length ls"
  by (induction ls arbitrary: o') simp_all

lemma table_offsets_nth: "k < length ls \<Longrightarrow> table_offsets o' ls ! k = o' + sum_list (take k ls)"
proof (induction ls arbitrary: o' k)
  case (Cons l ls)
  then show ?case by (cases k) (simp_all add: add.assoc)
qed simp

lemma length_u32s [simp]: "length (concat (map u32_le ws)) = 4 * length ws"
  by (induction ws) simp_all

lemma length_molecule_table:
  "length (molecule_table fs) = 4 + 4 * length fs + length (concat fs)"
  by (simp add: molecule_table_def table_header_def Let_def)

lemma sum_sizes: "sum_list (sizes_of fs) = of_nat (length (concat fs))"
  by (induction fs) (simp_all add: sizes_of_def)

lemma length_sizes [simp]: "length (sizes_of fs) = length fs"
  by (simp add: sizes_of_def)

lemma molecule_table_eq:
  "molecule_table fs = u32_le (of_nat (length (molecule_table fs))) @
     concat (map u32_le (table_offsets (4 + 4 * of_nat (length fs)) (sizes_of fs))) @ concat fs"
proof -
  have "of_nat (length (molecule_table fs)) =
      4 + 4 * of_nat (length fs) + sum_list (map (\<lambda>f. of_nat (length f)) fs :: u32 list)"
    by (simp add: length_molecule_table sum_sizes [unfolded sizes_of_def])
  then show ?thesis
    by (simp add: molecule_table_def table_header_def Let_def sizes_of_def add.assoc)
qed

lemma length_molecule_bytes [simp]: "length (molecule_bytes bs) = 4 + length bs"
  by (simp add: molecule_bytes_def)

lemma length_molecule_fixvec: "length (molecule_fixvec xs) = 4 + length (concat xs)"
  by (simp add: molecule_fixvec_def)

text \<open>The size of field \<open>k\<close>, as the table reader computes it from its offsets.\<close>

lemma table_field_size_eq:
  assumes "k < length fs"
  shows "table_field_size (of_nat (length (molecule_table fs)))
    (table_offsets (4 + 4 * of_nat (length fs)) (sizes_of fs)) k = of_nat (length (fs ! k))"
proof -
  let ?h = "4 + 4 * of_nat (length fs) :: u32"
  have s: "sum_list (take (Suc k) (sizes_of fs)) =
      sum_list (take k (sizes_of fs)) + of_nat (length (fs ! k))"
    using assms by (simp add: take_Suc_conv_app_nth sizes_of_def)
  show ?thesis
  proof (cases "Suc k < length fs")
    case True
    then show ?thesis
      using assms s by (simp add: table_field_size_def table_offsets_nth)
  next
    case False
    then have k: "Suc k = length fs" using assms by simp
    have t: "of_nat (length (molecule_table fs)) = ?h + sum_list (sizes_of fs)"
      by (simp add: length_molecule_table sum_sizes)
    have a: "take (Suc k) (sizes_of fs) = sizes_of fs" using k by simp
    show ?thesis
      using False assms s unfolding a t by (simp add: table_field_size_def table_offsets_nth)
  qed
qed

section \<open>Actions and readers\<close>

text \<open>When \<open>m\<close> returns, its result satisfies \<open>Q\<close> and the two states are related by \<open>R\<close>.\<close>

definition does :: "('g \<Rightarrow> 'g \<Rightarrow> bool) \<Rightarrow> ('a \<Rightarrow> bool) \<Rightarrow> ('g \<Rightarrow> ('a, 'g) res) \<Rightarrow> bool" where
  "does R Q m \<longleftrightarrow> (\<forall>g a g'. m g = Ok a g' \<longrightarrow> R g g' \<and> Q a)"

abbreviation any :: "'a \<Rightarrow> bool" where "any \<equiv> \<lambda>_. True"

definition does_opt :: "('g \<Rightarrow> 'g \<Rightarrow> bool) \<Rightarrow> ('a \<Rightarrow> bool) \<Rightarrow> ('g \<Rightarrow> ('a, 'g) res) option \<Rightarrow> bool" where
  "does_opt R Q cb \<longleftrightarrow> (case cb of None \<Rightarrow> \<forall>g. R g g | Some m \<Rightarrow> does R Q m)"

lemma doesI: "(\<And>g a g'. m g = Ok a g' \<Longrightarrow> R g g' \<and> Q a) \<Longrightarrow> does R Q m"
  by (simp add: does_def)

lemma doesD: "does R Q m \<Longrightarrow> m g = Ok a g' \<Longrightarrow> R g g' \<and> Q a"
  by (simp add: does_def)

lemma does_mono: "does R Q m \<Longrightarrow> (\<And>g g'. R g g' \<Longrightarrow> R' g g') \<Longrightarrow> (\<And>a. Q a \<Longrightarrow> Q' a) \<Longrightarrow> does R' Q' m"
  by (auto simp: does_def)

lemma does_Undef [simp]: "does R Q (\<lambda>g. Undef)"
  by (simp add: does_def)

text \<open>
  \<open>reads acc p sz bs R\<close>: the reader \<open>p\<close>, fresh from its \<open>_init_state\<close> and told the size \<open>sz\<close>,
  uses exactly the bytes \<open>bs\<close> of a longer input and relates the states by \<open>R\<close>; when \<open>acc\<close> holds
  it does not reject them either.
\<close>

definition verdict :: "bool \<Rightarrow> u8 list \<Rightarrow> mol_rv \<times> mol_state \<times> u8 list \<Rightarrow> bool" where
  "verdict acc rest = (\<lambda>(rv, s', c'). rv = COMPLETE \<and> c' = rest \<or> rv = REJECT \<and> \<not> acc)"

definition reads :: "bool \<Rightarrow> 'g component \<Rightarrow> u32 \<Rightarrow> u8 list \<Rightarrow> ('g \<Rightarrow> 'g \<Rightarrow> bool) \<Rightarrow> bool" where
  "reads acc p sz bs R \<longleftrightarrow> (\<forall>g0 s0 g1 rest g rv s' c' g'. fst p g0 = Ok s0 g1 \<longrightarrow>
     snd p sz s0 (bs @ rest) g = Ok (rv, s', c') g' \<longrightarrow>
     verdict acc rest (rv, s', c') \<and> (rv = COMPLETE \<longrightarrow> R g g'))"

definition initial :: "'g component \<Rightarrow> mol_state \<Rightarrow> bool" where
  "initial p s0 \<longleftrightarrow> (\<exists>g0 g1. fst p g0 = Ok s0 g1)"

lemma initialI: "fst p g0 = Ok s0 g1 \<Longrightarrow> initial p s0"
  by (auto simp: initial_def)

lemma readsI:
  assumes "\<And>s0 rest g rv s' c' g'. initial p s0 \<Longrightarrow> snd p sz s0 (bs @ rest) g = Ok (rv, s', c') g' \<Longrightarrow>
    verdict acc rest (rv, s', c') \<and> (rv = COMPLETE \<longrightarrow> R g g')"
  shows "reads acc p sz bs R"
  using assms unfolding reads_def initial_def by blast

lemma readsD:
  "reads acc p sz bs R \<Longrightarrow> initial p s0 \<Longrightarrow> snd p sz s0 (bs @ rest) g = Ok (rv, s', c') g' \<Longrightarrow>
    verdict acc rest (rv, s', c') \<and> (rv = COMPLETE \<longrightarrow> R g g')"
  unfolding reads_def initial_def by blast

lemma reads_mono:
  "reads acc p sz bs R \<Longrightarrow> (\<And>g g'. R g g' \<Longrightarrow> R' g g') \<Longrightarrow> reads acc p sz bs R'"
  unfolding reads_def by blast

text \<open>A reader's bytes and its effect can be shown apart.\<close>

lemma reads_keeps:
  assumes "reads acc p sz bs R'" "keeps_component R E p"
  shows "reads acc p sz bs R"
proof (rule readsI)
  fix s0 rest g rv s' c' g'
  assume i: "initial p s0" and r: "snd p sz s0 (bs @ rest) g = Ok (rv, s', c') g'"
  show "verdict acc rest (rv, s', c') \<and> (rv = COMPLETE \<longrightarrow> R g g')"
    using readsD [OF assms(1) i r] keepsD [OF keeps_componentD(2) [OF assms(2)], of g sz s0 "bs @ rest"] r
    by simp
qed

text \<open>The parent passes the size of the part, or \<open>MOL_NUM_MAX\<close> when it does not know it.\<close>

definition fits :: "u32 \<Rightarrow> u8 list \<Rightarrow> bool" where
  "fits sz bs \<longleftrightarrow> sz = MOL_NUM_MAX \<or> sz = of_nat (length bs)"

lemma fits_simps [simp]: "fits MOL_NUM_MAX bs" "fits (- 1) bs" "fits (of_nat (length bs)) bs"
  by (simp_all add: fits_def MOL_NUM_MAX_def)

section \<open>Fragments on well-formed input\<close>

definition frun :: "bool \<Rightarrow> (mol_state \<Rightarrow> bool) \<Rightarrow> 'g frag \<Rightarrow> u8 list \<Rightarrow> (mol_state \<Rightarrow> bool) \<Rightarrow>
    ('g \<Rightarrow> 'g \<Rightarrow> bool) \<Rightarrow> bool" where
  "frun acc I F bs J R \<longleftrightarrow> (\<forall>s g rest fl s' c' g'. I s \<longrightarrow> F s (bs @ rest) g = Ok (fl, s', c') g' \<longrightarrow>
     fl = Fall \<and> J s' \<and> c' = rest \<and> R g g' \<or> fl_rej fl \<and> \<not> acc)"

lemma frunI:
  assumes "\<And>s g rest. I s \<Longrightarrow> \<exists>r. F s (bs @ rest) g = r \<and> (\<forall>fl s' c' g'. r = Ok (fl, s', c') g' \<longrightarrow>
     fl = Fall \<and> J s' \<and> c' = rest \<and> R g g' \<or> fl_rej fl \<and> \<not> acc)"
  shows "frun acc I F bs J R"
  using assms unfolding frun_def by blast

lemma frunD:
  "frun acc I F bs J R \<Longrightarrow> I s \<Longrightarrow> F s (bs @ rest) g = Ok (fl, s', c') g' \<Longrightarrow>
     fl = Fall \<and> J s' \<and> c' = rest \<and> R g g' \<or> fl_rej fl \<and> \<not> acc"
  unfolding frun_def by blast

lemma unat_small: "m < 2 ^ 32 \<Longrightarrow> unat (of_nat m :: u32) = m"
  by (simp add: unat_of_nat)

lemma frun_post: "frun acc I F bs J R \<Longrightarrow> frun acc I F bs any R"
  unfolding frun_def by blast

lemma frun_weaken: "frun acc I F bs J R \<Longrightarrow> (\<And>s. I' s \<Longrightarrow> I s) \<Longrightarrow> frun acc I' F bs J R"
  unfolding frun_def by blast

lemma MOL_CALL_NUM_read:
  "MOL_CALL_NUM mol_num_init_state put k (u32_le v @ c) g = k v (Bytes_st 4 (u32_le v)) c g"
proof -
  have "unat (4 - 0 :: u32) = 4" by simp
  then show ?thesis
    by (simp add: MOL_CALL_NUM_def mol_parse_num_def mol_parse_bytes_def mol_num_init_state_def Let_def
        mem_write_def mol_unpack_number_def le_word_u32_le)
qed

end
