(* ===== verification/Molecule_Trace.thy ===== *)
theory Molecule_Trace
  imports Molecule_Encode
begin

text \<open>
  What a reader does on a serialisation is what its callbacks do, one after the other. The
  locale \<open>trace\<close> composes their effects, read as lists of events, over the code of every
  template: a table does what its \<open>offsets\<close> callback, its fields and its closing callbacks do, a
  vector what its items do, and so on.
\<close>

section \<open>Traces\<close>

text \<open>
  \<open>T es g g'\<close>: the step from \<open>g\<close> to \<open>g'\<close> has the effect of the events \<open>es\<close>, on the part of the
  state that the relation watches.
\<close>

locale trace =
  fixes T :: "'e list \<Rightarrow> 'g \<Rightarrow> 'g \<Rightarrow> bool"
  assumes T_nil: "T [] g g"
    and T_app: "T a g1 g2 \<Longrightarrow> T b g2 g3 \<Longrightarrow> T (a @ b) g1 g3"
begin

lemma does_Ok: "Q a \<Longrightarrow> does (T []) Q (\<lambda>g. Ok a g)"
  by (simp add: does_def T_nil)

lemma does_bind:
  "does (T a) Q m \<Longrightarrow> (\<And>x. Q x \<Longrightarrow> does (T b) Q' (k x)) \<Longrightarrow> does (T (a @ b)) Q' (\<lambda>g. res_bind (m g) k)"
  unfolding does_def res_bind_eq_Ok by (blast intro: T_app)

lemma does_call_opt: "does_opt (T es) any cb \<Longrightarrow> does (T es) any (call_opt cb)"
  by (cases cb) (simp_all add: does_opt_def does_def)

text \<open>The closing statements of a body that consumed \<open>bs\<close>.\<close>

definition closes :: "'g hooks \<Rightarrow> u8 list \<Rightarrow> 'e list \<Rightarrow> bool" where
  "closes h bs es \<longleftrightarrow> does (T es) any (\<lambda>g. res_bind (case chunk_cb h of None \<Rightarrow> Ok () g | Some f \<Rightarrow> f bs g)
     (\<lambda>_. call_opt (end_cb h)))"

lemma closes_none [simp]: "chunk_cb h = None \<Longrightarrow> end_cb h = None \<Longrightarrow> closes h bs []"
  by (simp add: closes_def does_def T_nil)

lemma closing_trace:
  assumes "closes h bs es" "closing h (bs @ rest) s rest g = Ok r g'"
  shows "r = (COMPLETE, s, rest) \<and> T es g g'"
proof -
  have u: "take (length (bs @ rest) - length rest) (bs @ rest) = bs" by simp
  obtain g1 where "(case chunk_cb h of None \<Rightarrow> Ok () g | Some f \<Rightarrow> f bs g) = Ok () g1"
    "call_opt (end_cb h) g1 = Ok () g'" "r = (COMPLETE, s, rest)"
    using assms(2) unfolding closing_def call_chunk_def u by (auto simp: res_bind_eq_Ok)
  then show ?thesis
    using doesD [OF assms(1) [unfolded closes_def], of g "()" g'] by simp
qed

lemma run_body_trace:
  assumes "frun acc I F bs J (T a)" "closes h bs b" "I s"
    "run_body h F s (bs @ rest) g = Ok (rv, s', c') g'"
  shows "verdict acc rest (rv, s', c') \<and> (rv = COMPLETE \<longrightarrow> T (a @ b) g g')"
proof -
  obtain fl s1 c1 g1 where F: "F s (bs @ rest) g = Ok (fl, s1, c1) g1"
    and k: "(case fl of Fall \<Rightarrow> closing h (bs @ rest) s1 c1 g1 | Finish \<Rightarrow> closing h (bs @ rest) s1 c1 g1
        | Leave rv \<Rightarrow> res_bind (call_chunk (chunk_cb h) (bs @ rest) c1 g1) (\<lambda>_. Ok (rv, s1, c1))
        | Bare rv \<Rightarrow> Ok (rv, s1, c1) g1) = Ok (rv, s', c') g'"
    using assms(4) by (auto simp: run_body_def res_bind_eq_Ok)
  from frunD [OF assms(1,3) F] show ?thesis
  proof
    assume f: "fl = Fall \<and> J s1 \<and> c1 = rest \<and> T a g g1"
    then have "(rv, s', c') = (COMPLETE, s1, rest) \<and> T b g1 g'"
      using k by (intro closing_trace [OF assms(2)]) simp
    then show ?thesis using f by (auto simp: verdict_def intro: T_app)
  next
    assume "fl_rej fl \<and> \<not> acc"
    then show ?thesis using k by (auto simp: fl_rej_def verdict_def res_bind_eq_Ok)
  qed
qed

lemma run_body_then:
  assumes "frun acc I F bs J R" "chunk_cb h = None" "I s" "run_body h F s (bs @ rest) g = Ok (rv, s', c') g'"
  shows "verdict acc rest (rv, s', c') \<and> (rv = COMPLETE \<longrightarrow> (\<exists>g1. R g g1 \<and> call_opt (end_cb h) g1 = Ok () g'))"
proof -
  obtain fl s1 c1 g1 where F: "F s (bs @ rest) g = Ok (fl, s1, c1) g1"
    and k: "(case fl of Fall \<Rightarrow> closing h (bs @ rest) s1 c1 g1 | Finish \<Rightarrow> closing h (bs @ rest) s1 c1 g1
        | Leave rv \<Rightarrow> res_bind (call_chunk (chunk_cb h) (bs @ rest) c1 g1) (\<lambda>_. Ok (rv, s1, c1))
        | Bare rv \<Rightarrow> Ok (rv, s1, c1) g1) = Ok (rv, s', c') g'"
    using assms(4) by (auto simp: run_body_def res_bind_eq_Ok)
  from frunD [OF assms(1,3) F] show ?thesis
  proof
    assume f: "fl = Fall \<and> J s1 \<and> c1 = rest \<and> R g g1"
    then show ?thesis using k assms(2) by (auto simp: closing_def call_chunk_def res_bind_eq_Ok verdict_def)
  next
    assume "fl_rej fl \<and> \<not> acc"
    then show ?thesis using k by (auto simp: fl_rej_def verdict_def res_bind_eq_Ok)
  qed
qed

lemma frun_skip: "frun acc I skip_frag [] I (T [])"
  by (simp add: frun_def skip_frag_def T_nil)

lemma frun_seq:
  assumes "frun acc I F1 a J (T x)" "frun acc J F2 b K (T y)"
  shows "frun acc I (seq F1 F2) (a @ b) K (T (x @ y))"
  unfolding frun_def
proof (intro allI impI)
  fix s g rest fl s' c' g'
  assume I: "I s" and r: "seq F1 F2 s ((a @ b) @ rest) g = Ok (fl, s', c') g'"
  obtain fl1 s1 c1 g1 where F: "F1 s (a @ b @ rest) g = Ok (fl1, s1, c1) g1"
    and k: "(if fl1 = Fall then F2 s1 c1 else Ok (fl1, s1, c1)) g1 = Ok (fl, s', c') g'"
    using r by (auto simp: seq_def res_bind_eq_Ok)
  from frunD [OF assms(1) I F] show "fl = Fall \<and> K s' \<and> c' = rest \<and> T (x @ y) g g' \<or> fl_rej fl \<and> \<not> acc"
  proof
    assume f: "fl1 = Fall \<and> J s1 \<and> c1 = b @ rest \<and> T x g g1"
    then have "F2 s1 (b @ rest) g1 = Ok (fl, s', c') g'" using k by simp
    from frunD [OF assms(2) _ this] f show ?thesis by (auto intro: T_app)
  next
    assume "fl_rej fl1 \<and> \<not> acc"
    then show ?thesis using k by (cases "fl1 = Fall") auto
  qed
qed

lemma frun_chain_Nil: "frun acc I (chain []) [] I (T [])"
  by (simp add: frun_skip)

lemma frun_chain_append:
  assumes "frun acc I (chain Fs) a J (T x)" "frun acc J (chain Gs) b K (T y)"
  shows "frun acc I (chain (Fs @ Gs)) (a @ b) K (T (x @ y))"
proof -
  have "chain (Fs @ Gs) = seq (chain Fs) (chain Gs)"
  proof (induction Fs)
    case Nil
    show ?case by (intro ext) (simp add: seq_def skip_frag_def)
  next
    case (Cons F Fs)
    then show ?case
      by (auto simp: seq_def fun_eq_iff res_bind_assoc intro!: res_bind_cong split: prod.splits)
  qed
  then show ?thesis using frun_seq [OF assms] by simp
qed

lemma frun_one: "frun acc I F a J (T x) \<Longrightarrow> frun acc I (chain [F]) a J (T x)"
  using frun_seq [OF _ frun_skip] by fastforce

lemma frun_chain_upto:
  assumes "m \<le> n"
    "\<And>k. m \<le> k \<Longrightarrow> k < n \<Longrightarrow> frun acc (I k) (F k) (b k) (I (Suc k)) (T (x k))"
  shows "frun acc (I m) (chain (map F [m..<n])) (concat (map b [m..<n])) (I n) (T (concat (map x [m..<n])))"
  using assms
proof (induction n)
  case 0
  then show ?case by (simp add: frun_skip)
next
  case (Suc n)
  show ?case
  proof (cases "m = Suc n")
    case False
    then have "frun acc (I m) (chain (map F [m..<n])) (concat (map b [m..<n])) (I n) (T (concat (map x [m..<n])))"
      using Suc by simp
    moreover have "frun acc (I n) (chain [F n]) (b n) (I (Suc n)) (T (x n))"
      using Suc.prems False by (intro frun_one) simp
    ultimately show ?thesis
      using False Suc.prems(1) frun_chain_append by (fastforce simp: upt_Suc)
  qed (simp add: frun_skip)
qed

lemma SUBPARSER_trace:
  assumes "reads acc p sz bs (T es)" "initial p u"
    "MOL_CALL_SUBPARSER (snd p) sz u put k (bs @ rest) g = Ok (fl, s', c') g'"
  obtains u1 g1 where "T es g g1" "k u1 rest g1 = Ok (fl, s', c') g'" | "fl_rej fl" "\<not> acc"
proof -
  obtain rv u1 c1 g1 where p: "snd p sz u (bs @ rest) g = Ok (rv, u1, c1) g1"
    and k: "(if rv = COMPLETE then k u1 c1 else Ok (Leave rv, put u1, c1)) g1 = Ok (fl, s', c') g'"
    using assms(3) by (auto simp: MOL_CALL_SUBPARSER_def res_bind_eq_Ok)
  have "verdict acc rest (rv, u1, c1)" "rv = COMPLETE \<longrightarrow> T es g g1"
    using readsD [OF assms(1,2) p] by auto
  then show thesis
    using that k by (cases "rv = COMPLETE") (auto simp: verdict_def fl_rej_def)
qed

lemma init_trace: "does (T ei) any (fst p) \<Longrightarrow> fst p g = Ok u g' \<Longrightarrow> T es g0 g \<Longrightarrow> T (es @ ei) g0 g' \<and> initial p u"
  using T_app [of es g0 g ei g'] by (auto simp: does_def intro: initialI)

text \<open>Tables.\<close>

lemma table_total_trace:
  assumes "fits sz (molecule_table fs)" "v = of_nat (length (molecule_table fs))"
  shows "frun acc (\<lambda>s. s = Table_st 0 0 0 offs mol_num_init_state) (table_total sz) (u32_le v)
    (\<lambda>s. s = Table_st 1 0 v offs mol_num_init_state) (T [])"
  by (rule frunI) (use assms in \<open>auto simp: table_total_def MOL_CALL_NUM_read fits_def T_nil\<close>)

lemma table_offset_trace:
  assumes "k < length os" "length os < 2 ^ 32"
  shows "frun acc (\<lambda>s. s = Table_st 1 (of_nat k) tot (take k os @ replicate (length os - k) 0) mol_num_init_state)
    (table_offset k) (u32_le (os ! k))
    (\<lambda>s. s = Table_st 1 (of_nat (Suc k)) tot (take (Suc k) os @ replicate (length os - Suc k) 0) mol_num_init_state)
    (T [])"
proof (rule frunI)
  fix s g rest
  assume s: "s = Table_st 1 (of_nat k) tot (take k os @ replicate (length os - k) 0) mol_num_init_state"
  have "replicate (length os - k) 0 = (0 :: u32) # replicate (length os - Suc k) 0"
    using assms(1) by (simp add: Suc_diff_Suc flip: replicate_Suc)
  then have o': "(take k os @ replicate (length os - k) 0)[k := os ! k] =
      take (Suc k) os @ replicate (length os - Suc k) 0"
    using assms(1) by (simp add: list_update_append take_Suc_conv_app_nth)
  show "\<exists>r. table_offset k s (u32_le (os ! k) @ rest) g = r \<and> (\<forall>fl s' c' g'. r = Ok (fl, s', c') g' \<longrightarrow>
     fl = Fall \<and> s' = Table_st 1 (of_nat (Suc k)) tot (take (Suc k) os @ replicate (length os - Suc k) 0)
        mol_num_init_state \<and> c' = rest \<and> T [] g g' \<or> fl_rej fl \<and> \<not> acc)"
    by (simp add: s table_offset_def MOL_CALL_NUM_read o' T_nil add.commute)
qed

lemma table_offsets_done_trace:
  assumes "does (T []) any (fst p)" "\<And>f. ocb = Some f \<Longrightarrow> does (T es) any (f tot os)" "ocb = None \<Longrightarrow> es = []"
  shows "frun acc (\<lambda>s. s = Table_st 1 fi tot os u) (table_offsets_done ocb (fst p)) []
    (\<lambda>s. \<exists>u. initial p u \<and> s = Table_st 2 0 tot os u) (T es)"
  unfolding frun_def
proof (intro allI impI)
  fix s g rest fl s' c' g'
  assume s: "s = Table_st 1 fi tot os u" and r: "table_offsets_done ocb (fst p) s ([] @ rest) g = Ok (fl, s', c') g'"
  then obtain u0 g1 where i: "fst p g = Ok u0 g1"
    and o': "(case ocb of None \<Rightarrow> Ok () g1 | Some f \<Rightarrow> f tot os g1) = Ok () g'"
    and f: "fl = Fall" "s' = Table_st 2 0 tot os u0" "c' = rest"
    by (auto simp: table_offsets_done_def res_bind_eq_Ok)
  have "T [] g g1" using assms(1) i by (simp add: does_def)
  moreover have "T es g1 g'"
    using o' assms(2,3) by (cases ocb) (auto simp: T_nil does_def)
  ultimately have "T es g g'" using T_app by fastforce
  then show "fl = Fall \<and> (\<exists>u. initial p u \<and> s' = Table_st 2 0 tot os u) \<and> c' = rest \<and> T es g g' \<or>
      fl_rej fl \<and> \<not> acc"
    using f initialI [OF i] by auto
qed

definition at_field :: "'g component list \<Rightarrow> u32 \<Rightarrow> u32 list \<Rightarrow> nat \<Rightarrow> mol_state \<Rightarrow> bool" where
  "at_field ps tot os k s \<longleftrightarrow> k < length ps \<longrightarrow> (\<exists>u. initial (ps ! k) u \<and> s = Table_st 2 (of_nat k) tot os u)"

lemma table_field_trace:
  assumes "reads acc (ps ! k) (table_field_size tot os k) bs (T es)" "k < length ps"
    "Suc k < length ps \<Longrightarrow> does (T []) any (fst (ps ! Suc k))"
  shows "frun acc (at_field ps tot os k) (table_field ps k) bs (at_field ps tot os (Suc k)) (T es)"
  unfolding frun_def
proof (intro allI impI)
  fix s g rest fl s' c' g'
  assume "at_field ps tot os k s" and r: "table_field ps k s (bs @ rest) g = Ok (fl, s', c') g'"
  then obtain u where i: "initial (ps ! k) u" and s: "s = Table_st 2 (of_nat k) tot os u"
    using assms(2) by (auto simp: at_field_def)
  let ?K = "\<lambda>u' c' g'. if Suc k < length ps
      then res_bind (fst (ps ! Suc k) g') (\<lambda>u''. Ok (Fall, Table_st 2 (of_nat k + 1) tot os u'', c'))
      else Ok (Fall, Table_st (2 + 1) (of_nat k) tot os u', c') g'"
  have "MOL_CALL_SUBPARSER (snd (ps ! k)) (table_field_size tot os k) u (Table_st 2 (of_nat k) tot os) ?K
      (bs @ rest) g = Ok (fl, s', c') g'"
    using r by (simp add: table_field_def s)
  from assms(1) i this show "fl = Fall \<and> at_field ps tot os (Suc k) s' \<and> c' = rest \<and> T es g g' \<or> fl_rej fl \<and> \<not> acc"
  proof (rule SUBPARSER_trace)
    fix u1 g1
    assume t: "T es g g1" and k: "?K u1 rest g1 = Ok (fl, s', c') g'"
    show ?thesis
    proof (cases "Suc k < length ps")
      case True
      then obtain u2 where i2: "fst (ps ! Suc k) g1 = Ok u2 g'" and f: "fl = Fall"
        "s' = Table_st 2 (of_nat k + 1) tot os u2" "c' = rest"
        using k by (auto simp: res_bind_eq_Ok)
      then show ?thesis
        using init_trace [OF assms(3) [OF True] i2 t] by (auto simp: at_field_def add.commute)
    qed (use k t in \<open>auto simp: at_field_def\<close>)
  qed simp
qed

lemma table_body_trace:
  assumes n: "ps \<noteq> []" "length ps = length fs" "length ps = length es" "length ps < 2 ^ 32"
    and fit: "fits sz (molecule_table fs)"
    and inits: "\<And>k. k < length ps \<Longrightarrow> does (T []) any (fst (ps ! k))"
    and ocb: "\<And>f. ocb = Some f \<Longrightarrow> does (T eo) any
      (f (of_nat (length (molecule_table fs))) (table_offsets (4 + 4 * of_nat (length fs)) (sizes_of fs)))"
      "ocb = None \<Longrightarrow> eo = []"
    and fields: "\<And>k. k < length ps \<Longrightarrow> reads acc (ps ! k) (of_nat (length (fs ! k))) (fs ! k) (T (es ! k))"
  shows "frun acc (\<lambda>s. s = Table_st 0 0 0 (replicate (length ps) 0) mol_num_init_state)
    (chain (table_frags sz ocb ps)) (molecule_table fs) any (T (eo @ concat es))"
proof -
  define n where "n = length ps"
  define tot where "tot = (of_nat (length (molecule_table fs)) :: u32)"
  define os where "os = table_offsets (4 + 4 * of_nat (length fs)) (sizes_of fs)"
  have l: "length os = n" "n < 2 ^ 32" using n by (simp_all add: os_def n_def)
  let ?I = "\<lambda>k s. s = Table_st 1 (of_nat k) tot (take k os @ replicate (n - k) 0) mol_num_init_state"
  have "frun acc (\<lambda>s. s = Table_st 0 0 0 (replicate n 0) mol_num_init_state) (chain [table_total sz])
      (u32_le tot) (?I 0) (T [])"
    using table_total_trace [OF fit tot_def] by (intro frun_one) simp
  moreover have "frun acc (?I 0) (chain (map table_offset [0..<n])) (concat (map (\<lambda>k. u32_le (os ! k)) [0..<n]))
      (?I n) (T (concat (map (\<lambda>_. []) [0..<n])))"
    using table_offset_trace [of _ os] l by (intro frun_chain_upto [where I = ?I]) auto
  moreover have "frun acc (?I n) (chain [table_offsets_done ocb (fst (ps ! 0))]) [] (at_field ps tot os 0) (T eo)"
  proof (rule frun_one)
    have "(\<lambda>s. \<exists>u. initial (ps ! 0) u \<and> s = Table_st 2 0 tot os u) = at_field ps tot os 0"
      using n(1) by (simp add: at_field_def fun_eq_iff)
    moreover have "frun acc (\<lambda>s. s = Table_st 1 (of_nat n) tot os mol_num_init_state)
        (table_offsets_done ocb (fst (ps ! 0))) [] (\<lambda>s. \<exists>u. initial (ps ! 0) u \<and> s = Table_st 2 0 tot os u) (T eo)"
      by (rule table_offsets_done_trace) (use inits ocb n(1) in \<open>auto simp: tot_def os_def\<close>)
    ultimately show "frun acc (?I n) (table_offsets_done ocb (fst (ps ! 0))) [] (at_field ps tot os 0) (T eo)"
      using l by simp
  qed
  moreover have "frun acc (at_field ps tot os 0) (chain (map (table_field ps) [0..<n]))
      (concat (map (\<lambda>k. fs ! k) [0..<n])) any (T (concat (map (\<lambda>k. es ! k) [0..<n])))"
    using fields inits table_field_size_eq [of _ fs, folded tot_def os_def] n
    by (intro frun_post [OF frun_chain_upto] table_field_trace) (auto simp: n_def)
  ultimately have "frun acc (\<lambda>s. s = Table_st 0 0 0 (replicate n 0) mol_num_init_state)
      (chain ([table_total sz] @ map table_offset [0..<n] @ [table_offsets_done ocb (fst (ps ! 0))] @
        map (table_field ps) [0..<n]))
      (u32_le tot @ concat (map (\<lambda>k. u32_le (os ! k)) [0..<n]) @ [] @ concat (map (\<lambda>k. fs ! k) [0..<n]))
      any (T ([] @ concat (map (\<lambda>_. []) [0..<n]) @ eo @ concat (map (\<lambda>k. es ! k) [0..<n])))"
    by (intro frun_chain_append)
  moreover have "map (\<lambda>k. u32_le (os ! k)) [0..<n] = map u32_le os" "map (\<lambda>k. fs ! k) [0..<n] = fs"
    "map (\<lambda>k. es ! k) [0..<n] = es"
    using n l by (auto simp: n_def intro!: nth_equalityI)
  moreover have "concat (map (\<lambda>_. []) ks) = ([] :: 'e list)" for ks :: "nat list"
    by (induction ks) simp_all
  ultimately show ?thesis
    using molecule_table_eq [of fs, folded tot_def os_def] unfolding table_frags_def n_def by simp
qed

lemma table_trace:
  assumes n: "ps \<noteq> []" "length ps = length fs" "length ps = length es" "length ps < 2 ^ 32"
    and fit: "fits sz (molecule_table fs)"
    and inits: "\<And>k. k < length ps \<Longrightarrow> does (T []) any (fst (ps ! k))"
    and ocb: "\<And>f. ocb = Some f \<Longrightarrow> does (T eo) any
      (f (of_nat (length (molecule_table fs))) (table_offsets (4 + 4 * of_nat (length fs)) (sizes_of fs)))"
      "ocb = None \<Longrightarrow> eo = []"
    and fields: "\<And>k. k < length ps \<Longrightarrow> reads acc (ps ! k) (of_nat (length (fs ! k))) (fs ! k) (T (es ! k))"
    and cl: "closes h (molecule_table fs) ec"
  shows "reads acc (table h ocb ps) sz (molecule_table fs) (T (eo @ concat es @ ec))"
proof (rule readsI)
  fix s0 rest g rv s' c' g'
  assume i: "initial (table h ocb ps) s0" and r: "snd (table h ocb ps) sz s0 (molecule_table fs @ rest) g = Ok (rv, s', c') g'"
  have s0: "s0 = Table_st 0 0 0 (replicate (length ps) 0) mol_num_init_state"
    using i by (auto simp: initial_def table_def table_init_def res_bind_eq_Ok)
  have F: "frun acc (\<lambda>s. s = Table_st 0 0 0 (replicate (length ps) 0) mol_num_init_state)
      (chain (table_frags sz ocb ps)) (molecule_table fs) any (T (eo @ concat es))"
    by (rule table_body_trace; fact)
  from run_body_trace [OF F cl s0, of rest g rv s' c' g'] r
  show "verdict acc rest (rv, s', c') \<and> (rv = COMPLETE \<longrightarrow> T (eo @ concat es @ ec) g g')"
    by (simp add: table_def table_parse_def table_frags_def)
qed

text \<open>The same over a list of the fields: reader, serialisation and events of each.\<close>

lemma table_list_trace:
  assumes xs: "list_all (\<lambda>(p, f, e). reads acc p (of_nat (length f)) f (T e) \<and> does (T []) any (fst p)) xs"
    and n: "xs \<noteq> []" "length xs < 2 ^ 32" and fit: "fits sz (molecule_table (map (fst \<circ> snd) xs))"
    and ocb: "\<And>f. ocb = Some f \<Longrightarrow> does (T eo) any (f (of_nat (length (molecule_table (map (fst \<circ> snd) xs))))
      (table_offsets (4 + 4 * of_nat (length xs)) (sizes_of (map (fst \<circ> snd) xs))))" "ocb = None \<Longrightarrow> eo = []"
    and cl: "closes h (molecule_table (map (fst \<circ> snd) xs)) ec"
  shows "reads acc (table h ocb (map fst xs)) sz (molecule_table (map (fst \<circ> snd) xs))
    (T (eo @ concat (map (snd \<circ> snd) xs) @ ec))"
proof (rule table_trace)
  fix k
  assume "k < length (map fst xs)"
  then have k: "k < length xs" by simp
  then show "does (T []) any (fst (map fst xs ! k))"
    "reads acc (map fst xs ! k) (of_nat (length (map (fst \<circ> snd) xs ! k))) (map (fst \<circ> snd) xs ! k)
      (T (map (snd \<circ> snd) xs ! k))"
    using xs k by (simp_all add: list_all_length case_prod_unfold)
qed (use n fit ocb cl in auto)

text \<open>A table whose \<open>end\<close> callback is no event: it runs after the events of the fields.\<close>

lemma table_list_then:
  assumes xs: "list_all (\<lambda>(p, f, e). reads acc p (of_nat (length f)) f (T e) \<and> does (T []) any (fst p)) xs"
    and n: "xs \<noteq> []" "length xs < 2 ^ 32" and fit: "fits sz (molecule_table (map (fst \<circ> snd) xs))"
    and ocb: "\<And>f. ocb = Some f \<Longrightarrow> does (T eo) any (f (of_nat (length (molecule_table (map (fst \<circ> snd) xs))))
      (table_offsets (4 + 4 * of_nat (length xs)) (sizes_of (map (fst \<circ> snd) xs))))" "ocb = None \<Longrightarrow> eo = []"
    and chunk: "chunk_cb h = None"
  shows "reads acc (table h ocb (map fst xs)) sz (molecule_table (map (fst \<circ> snd) xs))
    (\<lambda>g g'. \<exists>g1. T (eo @ concat (map (snd \<circ> snd) xs)) g g1 \<and> call_opt (end_cb h) g1 = Ok () g')"
proof (rule readsI)
  let ?fs = "map (fst \<circ> snd) xs" and ?ps = "map fst xs"
  have F: "frun acc (\<lambda>s. s = Table_st 0 0 0 (replicate (length ?ps) 0) mol_num_init_state)
      (chain (table_frags sz ocb ?ps)) (molecule_table ?fs) any (T (eo @ concat (map (snd \<circ> snd) xs)))"
  proof (rule table_body_trace)
    fix k
    assume "k < length ?ps"
    then have k: "k < length xs" by simp
    then show "does (T []) any (fst (?ps ! k))"
      "reads acc (?ps ! k) (of_nat (length (?fs ! k))) (?fs ! k) (T (map (snd \<circ> snd) xs ! k))"
      using xs k by (simp_all add: list_all_length case_prod_unfold)
  qed (use n fit ocb in auto)
  fix s0 rest g rv s' c' g'
  assume i: "initial (table h ocb ?ps) s0" and r: "snd (table h ocb ?ps) sz s0 (molecule_table ?fs @ rest) g = Ok (rv, s', c') g'"
  have s0: "s0 = Table_st 0 0 0 (replicate (length ?ps) 0) mol_num_init_state"
    using i by (auto simp: initial_def table_def table_init_def res_bind_eq_Ok)
  from run_body_then [OF F chunk s0, of rest g rv s' c' g'] r
  show "verdict acc rest (rv, s', c') \<and> (rv = COMPLETE \<longrightarrow>
      (\<exists>g1. T (eo @ concat (map (snd \<circ> snd) xs)) g g1 \<and> call_opt (end_cb h) g1 = Ok () g'))"
    by (simp add: table_def table_parse_def table_frags_def)
qed

text \<open>Structs of two members.\<close>

lemma struct_trace:
  assumes 1: "reads acc p1 sz1 b1 (T e1)" and 2: "reads acc p2 sz2 b2 (T e2)"
    and i2: "does (T []) any (fst p2)" and fit: "sz = tsz \<or> sz = MOL_NUM_MAX"
    and cl: "closes h (b1 @ b2) ec"
  shows "reads acc (struct h tsz p1 sz1 p2 sz2) sz (b1 @ b2) (T (e1 @ e2 @ ec))"
proof (rule readsI)
  let ?I1 = "\<lambda>s. \<exists>u. initial p1 u \<and> s = Struct_st 0 u" and ?I2 = "\<lambda>s. \<exists>u. initial p2 u \<and> s = Struct_st 1 u"
  have "frun acc ?I1 (struct_size tsz sz) [] ?I1 (T [])"
    using fit by (auto simp: frun_def struct_size_def T_nil)
  moreover have "frun acc ?I1 (struct_first p1 sz1 p2) b1 ?I2 (T e1)"
    unfolding frun_def
  proof (intro allI impI)
    fix s g rest fl s' c' g'
    assume "?I1 s" and r: "struct_first p1 sz1 p2 s (b1 @ rest) g = Ok (fl, s', c') g'"
    then obtain u where u: "initial p1 u" "s = Struct_st 0 u" by auto
    from 1 u(1) r [unfolded struct_first_def u(2), simplified]
    show "fl = Fall \<and> ?I2 s' \<and> c' = rest \<and> T e1 g g' \<or> fl_rej fl \<and> \<not> acc"
    proof (rule SUBPARSER_trace)
      fix u1 g1
      assume t: "T e1 g g1" and "res_bind (fst p2 g1) (\<lambda>u'. Ok (Fall, Struct_st 1 u', rest)) = Ok (fl, s', c') g'"
      then obtain u2 where "fst p2 g1 = Ok u2 g'" "fl = Fall" "s' = Struct_st 1 u2" "c' = rest"
        by (auto simp: res_bind_eq_Ok)
      then show ?thesis using init_trace [OF i2 _ t] by auto
    qed simp
  qed
  moreover have "frun acc ?I2 (struct_second p2 sz2) b2 (\<lambda>_. True) (T e2)"
    unfolding frun_def
  proof (intro allI impI)
    fix s g rest fl s' c' g'
    assume "?I2 s" and r: "struct_second p2 sz2 s (b2 @ rest) g = Ok (fl, s', c') g'"
    then obtain u where u: "initial p2 u" "s = Struct_st 1 u" by auto
    from 2 u(1) r [unfolded struct_second_def u(2), simplified]
    show "fl = Fall \<and> True \<and> c' = rest \<and> T e2 g g' \<or> fl_rej fl \<and> \<not> acc"
      by (rule SUBPARSER_trace) auto
  qed
  ultimately have F: "frun acc ?I1 (chain [struct_size tsz sz, struct_first p1 sz1 p2, struct_second p2 sz2])
      (b1 @ b2) (\<lambda>_. True) (T (e1 @ e2))"
    using frun_chain_append [OF frun_one frun_chain_append [OF frun_one frun_one]] by fastforce
  fix s0 rest g rv s' c' g'
  assume i: "initial (struct h tsz p1 sz1 p2 sz2) s0"
    and r: "snd (struct h tsz p1 sz1 p2 sz2) sz s0 ((b1 @ b2) @ rest) g = Ok (rv, s', c') g'"
  have "?I1 s0"
    using i by (auto simp: initial_def struct_def struct_init_def res_bind_eq_Ok)
  from run_body_trace [OF F cl this, of rest g rv s' c' g'] r
  show "verdict acc rest (rv, s', c') \<and> (rv = COMPLETE \<longrightarrow> T (e1 @ e2 @ ec) g g')"
    by (simp add: struct_def struct_parse_def)
qed

text \<open>Options: nothing, or the item.\<close>

lemma option_trace_None:
  assumes "closes h [] ec"
  shows "reads acc (option_of h p) 0 [] (T ec)"
proof (rule readsI)
  fix s0 rest g rv s' c' g'
  assume "snd (option_of h p) 0 s0 ([] @ rest) g = Ok (rv, s', c') g'"
  then have "closing h ([] @ rest) s0 rest g = Ok (rv, s', c') g'"
    by (simp add: option_of_def option_parse_def run_body_def option_item_def)
  from closing_trace [OF assms this]
  show "verdict acc rest (rv, s', c') \<and> (rv = COMPLETE \<longrightarrow> T ec g g')"
    by (simp add: verdict_def)
qed

lemma option_trace_Some:
  assumes p: "reads acc p sz bs (T es)" and "sz \<noteq> 0" and cl: "closes h bs ec"
  shows "reads acc (option_of h p) sz bs (T (es @ ec))"
proof (rule readsI)
  let ?I = "\<lambda>s. \<exists>u. initial p u \<and> s = Opt_st u"
  have F: "frun acc ?I (option_item p sz) bs (\<lambda>_. True) (T es)"
    unfolding frun_def
  proof (intro allI impI)
    fix s g rest fl s' c' g'
    assume "?I s" and r: "option_item p sz s (bs @ rest) g = Ok (fl, s', c') g'"
    then obtain u where u: "initial p u" "s = Opt_st u" by auto
    have "MOL_CALL_SUBPARSER (snd p) sz u Opt_st (\<lambda>u' c'. Ok (Fall, Opt_st u', c')) (bs @ rest) g = Ok (fl, s', c') g'"
      using r assms(2) by (simp add: option_item_def u)
    from p u(1) this show "fl = Fall \<and> True \<and> c' = rest \<and> T es g g' \<or> fl_rej fl \<and> \<not> acc"
      by (rule SUBPARSER_trace) auto
  qed
  fix s0 rest g rv s' c' g'
  assume i: "initial (option_of h p) s0" and r: "snd (option_of h p) sz s0 (bs @ rest) g = Ok (rv, s', c') g'"
  have "?I s0"
    using i by (auto simp: initial_def option_of_def option_init_def res_bind_eq_Ok)
  from run_body_trace [OF F cl this, of rest g rv s' c' g'] r
  show "verdict acc rest (rv, s', c') \<and> (rv = COMPLETE \<longrightarrow> T (es @ ec) g g')"
    by (simp add: option_of_def option_parse_def)
qed

text \<open>Byte arrays and bytes.\<close>

lemma mol_parse_bytes_trace:
  assumes "length bs = unat tsz" "length bs \<le> 32"
    and cb: "\<And>f. cb_field bytes_end cb = Some f \<Longrightarrow> does (T es) any (f bs)" "cb_field bytes_end cb = None \<Longrightarrow> es = []"
    and r: "mol_parse_bytes cb tsz (Bytes_st 0 (replicate 32 0)) (bs @ rest) g = Ok (rv, s', c') g'"
  shows "verdict acc rest (rv, s', c') \<and> (rv = COMPLETE \<longrightarrow> T es g g')"
proof -
  have "res_bind (case cb_field bytes_end cb of None \<Rightarrow> Ok () g | Some f \<Rightarrow> f bs g)
      (\<lambda>_. Ok (COMPLETE, Bytes_st (of_nat (length bs)) (mem_write (replicate 32 0) 0 bs), rest)) = Ok (rv, s', c') g'"
    using r assms(2)
    by (cases "cb_field bytes_end cb")
      (simp_all add: mol_parse_bytes_def Let_def assms(1) [symmetric] mem_write_def)
  then show ?thesis
    using cb by (cases "cb_field bytes_end cb") (auto simp: res_bind_eq_Ok verdict_def T_nil does_def)
qed

lemma array_trace:
  assumes cb: "\<And>f. cb_field bytes_end cb = Some f \<Longrightarrow> does (T es) any (f bs)" "cb_field bytes_end cb = None \<Longrightarrow> es = []"
  shows "length bs = 4 \<Longrightarrow> reads acc (Uint32 cb) sz bs (T es)"
    "length bs = 8 \<Longrightarrow> reads acc (Uint64 cb) sz bs (T es)"
    "length bs = 32 \<Longrightarrow> reads acc (Byte32 cb) sz bs (T es)"
  using mol_parse_bytes_trace [OF _ _ cb, where tsz = 4] mol_parse_bytes_trace [OF _ _ cb, where tsz = 8]
    mol_parse_bytes_trace [OF _ _ cb, where tsz = 32]
  by (auto intro!: readsI simp: initial_def Uint32_def Uint64_def Byte32_def mol_bytes_init_state_def
      MolReader_Uint32_init_state_def MolReader_Uint64_init_state_def MolReader_Byte32_init_state_def
      MolReader_Uint32_parse_def MolReader_Uint64_parse_def MolReader_Byte32_parse_def)

lemma byte_trace:
  assumes "\<And>f. cb_field byte_end cb = Some f \<Longrightarrow> does (T es) any (f b)" "cb_field byte_end cb = None \<Longrightarrow> es = []"
  shows "reads acc (byte_component cb) 1 [b] (T es)"
  using assms
  by (cases "cb_field byte_end cb")
    (auto intro!: readsI simp: byte_component_def MolReader_byte_parse_def verdict_def T_nil does_def res_bind_eq_Ok)

text \<open>The length prefix of a vector.\<close>

definition size_does :: "bool \<Rightarrow> (u32 \<Rightarrow> 'g \<Rightarrow> (bool, 'g) res) option \<Rightarrow> u32 \<Rightarrow> 'e list \<Rightarrow> bool" where
  "size_does acc scb n es \<longleftrightarrow> (case scb of None \<Rightarrow> es = [] | Some f \<Rightarrow> does (T es) (\<lambda>ok. acc \<longrightarrow> ok) (f n))"

lemma size_does_None [simp]: "size_does acc None n []"
  by (simp add: size_does_def)

lemma check_vec_size_trace:
  assumes "size_does acc scb n es" "unat len * isz + 4 < 2 ^ 32" "n = of_nat (unat len * isz + 4)"
    "sz = n \<or> sz = MOL_NUM_MAX" "check_vec_size scb isz sz len s c k g = Ok (fl, s', c') g'"
  obtains g1 where "T es g g1" "k g1 = Ok (fl, s', c') g'" | "fl_rej fl" "\<not> acc"
proof -
  have "length_with_prefix len isz = Some n" using assms(2,3) by (simp add: length_with_prefix_def)
  then obtain ok g1 where k: "(if ok then k g1 else Ok (Bare REJECT, s, c) g1) = Ok (fl, s', c') g'"
    and o': "(case scb of None \<Rightarrow> Ok True g | Some f \<Rightarrow> f n g) = Ok ok g1"
    using assms(4,5) by (auto simp: check_vec_size_def res_bind_eq_Ok)
  have "T es g g1 \<and> (acc \<longrightarrow> ok)"
    using o' assms(1) by (cases scb) (auto simp: size_does_def does_def T_nil)
  then show thesis using that k by (cases ok) (auto simp: fl_rej_def)
qed

lemma index_trace: "does_opt (T []) any (map_option (\<lambda>f. f i) cb) \<Longrightarrow> call_index cb i g = Ok a g' \<Longrightarrow> T es g0 g \<Longrightarrow> T es g0 g'"
  using T_app [of es g0 g "[]" g'] by (cases cb) (auto simp: call_index_def does_opt_def does_def)

text \<open>Vectors of items of one size.\<close>

lemma vec_loop_trace:
  assumes items: "\<And>j. j < length xs \<Longrightarrow> reads acc p isz (xs ! j) (T (es ! j))"
    and inits: "does (T []) any (fst p)" and index: "\<And>i. does_opt (T []) any (map_option (\<lambda>f. f i) icb)"
    and len: "length es = length xs" "k + length xs < 2 ^ 32"
    and u: "initial p u"
    and r: "vec_loop icb p isz (of_nat (Suc k)) (of_nat (k + length xs)) u (concat xs @ rest) g = Ok (fl, s', c') g'"
  shows "fl = Fall \<and> c' = rest \<and> T (concat es) g g' \<or> fl_rej fl \<and> \<not> acc"
  using assms
proof (induction xs arbitrary: es k u g)
  case Nil
  then show ?case by (auto simp: vec_loop.simps T_nil)
next
  case (Cons x xs)
  obtain e es' where es: "es = e # es'" "length es' = length xs" using Cons.prems(4) by (cases es) auto
  have lt: "of_nat k < (of_nat (k + length (x # xs)) :: u32)"
    using Cons.prems(5) by (simp add: word_less_nat_alt unat_small del: of_nat_add of_nat_Suc)
  let ?K = "\<lambda>(_ :: mol_state) c' g'. res_bind (fst p g') (\<lambda>u' g''. res_bind (call_index icb (of_nat (Suc k) + 1 - 1) g'')
      (\<lambda>_ g3. vec_loop icb p isz (of_nat (Suc k) + 1) (of_nat (k + length (x # xs))) u' c' g3))"
  have "MOL_CALL_SUBPARSER (snd p) isz u (Vec_st (of_nat (Suc k)) (of_nat (k + length (x # xs)))) ?K
      (x @ concat xs @ rest) g = Ok (fl, s', c') g'"
    using Cons.prems(7) lt by (subst (asm) vec_loop.simps) simp
  from Cons.prems(1) [of 0, simplified es, simplified] Cons.prems(6) this show ?case
  proof (rule SUBPARSER_trace)
    fix u1 g1
    assume t: "T e g g1" and k: "?K u1 (concat xs @ rest) g1 = Ok (fl, s', c') g'"
    then obtain u2 g2 g3 where i: "fst p g1 = Ok u2 g2" "call_index icb (of_nat (Suc k)) g2 = Ok () g3"
      and l: "vec_loop icb p isz (of_nat (Suc k) + 1) (of_nat (k + length (x # xs))) u2 (concat xs @ rest) g3 = Ok (fl, s', c') g'"
      by (auto simp: res_bind_eq_Ok)
    have t3: "T e g g3" "initial p u2"
      using init_trace [OF Cons.prems(2) i(1) t] index_trace [OF Cons.prems(3) i(2)] by auto
    have "fl = Fall \<and> c' = rest \<and> T (concat es') g3 g' \<or> fl_rej fl \<and> \<not> acc"
    proof (rule Cons.IH [OF _ Cons.prems(2,3) es(2) _ t3(2)])
      show "reads acc p isz (xs ! j) (T (es' ! j))" if "j < length xs" for j
        using Cons.prems(1) [of "Suc j"] that es by simp
      show "Suc k + length xs < 2 ^ 32" using Cons.prems(5) by simp
      show "vec_loop icb p isz (of_nat (Suc (Suc k))) (of_nat (Suc k + length xs)) u2 (concat xs @ rest) g3 = Ok (fl, s', c') g'"
        using l by (simp add: ac_simps)
    qed
    then show ?thesis using t3(1) T_app es by fastforce
  qed simp
qed

lemma vec_head_trace:
  assumes sd: "size_does acc scb (of_nat (4 + n * isz)) es" and n: "4 + n * isz < 2 ^ 32" "n < 2 ^ 32"
    and fit: "sz = of_nat (4 + n * isz) \<or> sz = MOL_NUM_MAX"
    and inits: "does (T []) any (fst p)" and index: "\<And>i. does_opt (T []) any (map_option (\<lambda>f. f i) icb)"
  shows "frun acc (\<lambda>s. s = Vec_st 0 0 mol_num_init_state) (vec_head scb icb isz p sz) (u32_le (of_nat n))
     (\<lambda>s. \<exists>u. initial p u \<and> s = Vec_st 1 (of_nat n) u) (T es)"
  unfolding frun_def
proof (intro allI impI)
  fix s g rest fl s' c' g'
  assume s: "s = Vec_st 0 0 mol_num_init_state" and r: "vec_head scb icb isz p sz s (u32_le (of_nat n) @ rest) g = Ok (fl, s', c') g'"
  have u: "unat (of_nat n :: u32) * isz + 4 < 2 ^ 32" "of_nat (4 + n * isz) = of_nat (unat (of_nat n :: u32) * isz + 4)"
    using n by (simp_all only: unat_small add.commute)
  have "check_vec_size scb isz sz (of_nat n) (Vec_st 1 (of_nat n) (Bytes_st 4 (u32_le (of_nat n)))) rest
      (\<lambda>g'. res_bind (fst p g') (\<lambda>u'' g''. res_bind (call_index icb 0 g'') (\<lambda>_. Ok (Fall, Vec_st 1 (of_nat n) u'', rest)))) g =
      Ok (fl, s', c') g'"
    using r by (simp add: s vec_head_def MOL_CALL_NUM_read)
  from sd u fit this show "fl = Fall \<and> (\<exists>u. initial p u \<and> s' = Vec_st 1 (of_nat n) u) \<and> c' = rest \<and> T es g g' \<or> fl_rej fl \<and> \<not> acc"
  proof (rule check_vec_size_trace)
    fix g1
    assume t: "T es g g1" and "res_bind (fst p g1) (\<lambda>u'' g''. res_bind (call_index icb 0 g'')
        (\<lambda>_. Ok (Fall, Vec_st 1 (of_nat n) u'', rest))) = Ok (fl, s', c') g'"
    then obtain u2 g2 where i: "fst p g1 = Ok u2 g2" "call_index icb 0 g2 = Ok () g'"
      and f: "fl = Fall" "s' = Vec_st 1 (of_nat n) u2" "c' = rest"
      by (auto simp: res_bind_eq_Ok)
    then show ?thesis
      using init_trace [OF inits i(1) t] index_trace [OF index i(2)] by auto
  qed simp
qed

lemma length_concat_same: "(\<And>x. x \<in> set xs \<Longrightarrow> length x = n) \<Longrightarrow> length (concat xs) = length xs * n"
  by (induction xs) auto

lemma vec_trace:
  assumes items: "\<And>j. j < length xs \<Longrightarrow> reads acc p (of_nat isz) (xs ! j) (T (es ! j))"
    and len: "\<And>x. x \<in> set xs \<Longrightarrow> length x = isz" "length es = length xs" "0 < isz"
    and small: "length (molecule_fixvec xs) < 2 ^ 32" and fit: "fits sz (molecule_fixvec xs)"
    and sd: "size_does acc scb (of_nat (length (molecule_fixvec xs))) e0"
    and inits: "does (T []) any (fst p)" and index: "\<And>i. does_opt (T []) any (map_option (\<lambda>f. f i) icb)"
    and cl: "closes h (molecule_fixvec xs) ec"
  shows "reads acc (vec_of h scb icb isz p) sz (molecule_fixvec xs) (T (e0 @ concat es @ ec))"
proof (rule readsI)
  let ?n = "length xs"
  have l: "length (molecule_fixvec xs) = 4 + ?n * isz"
    using length_concat_same [OF len(1)] by (simp add: length_molecule_fixvec)
  have "?n \<le> ?n * isz" using len(3) by (cases isz) simp_all
  then have n: "?n < 2 ^ 32" using small l by linarith
  have "frun acc (\<lambda>s. s = Vec_st 0 0 mol_num_init_state) (chain [vec_head scb icb isz p sz]) (u32_le (of_nat ?n))
     (\<lambda>s. \<exists>u. initial p u \<and> s = Vec_st 1 (of_nat ?n) u) (T e0)"
    using fit small sd unfolding l fits_def
    by (intro frun_one vec_head_trace inits index) (use n in auto)
  moreover have "frun acc (\<lambda>s. \<exists>u. initial p u \<and> s = Vec_st 1 (of_nat ?n) u) (chain [vec_items icb p (of_nat isz)])
     (concat xs) any (T (concat es))"
  proof (rule frun_one, unfold frun_def, intro allI impI)
    fix s g rest fl s' c' g'
    assume "\<exists>u. initial p u \<and> s = Vec_st 1 (of_nat ?n) u" and r: "vec_items icb p (of_nat isz) s (concat xs @ rest) g = Ok (fl, s', c') g'"
    then obtain u where u: "initial p u" "s = Vec_st 1 (of_nat ?n) u" by auto
    from vec_loop_trace [OF items inits index len(2) _ u(1), of 0 rest g fl s' c' g'] r n
    show "fl = Fall \<and> any s' \<and> c' = rest \<and> T (concat es) g g' \<or> fl_rej fl \<and> \<not> acc"
      by (simp add: vec_items_def u(2))
  qed
  ultimately have F: "frun acc (\<lambda>s. s = Vec_st 0 0 mol_num_init_state)
      (chain [vec_head scb icb isz p sz, vec_items icb p (of_nat isz)]) (molecule_fixvec xs) any (T (e0 @ concat es))"
    using frun_chain_append by (fastforce simp: molecule_fixvec_def)
  fix s0 rest g rv s' c' g'
  assume i: "initial (vec_of h scb icb isz p) s0"
    and r: "snd (vec_of h scb icb isz p) sz s0 (molecule_fixvec xs @ rest) g = Ok (rv, s', c') g'"
  have "s0 = Vec_st 0 0 mol_num_init_state"
    using i by (auto simp: initial_def vec_of_def vec_init_def res_bind_eq_Ok)
  from run_body_trace [OF F cl this, of rest g rv s' c' g'] r
  show "verdict acc rest (rv, s', c') \<and> (rv = COMPLETE \<longrightarrow> T (e0 @ concat es @ ec) g g')"
    by (simp add: vec_of_def vec_parse_def)
qed

text \<open>Byte strings.\<close>

lemma Bytes_trace:
  assumes small: "length bs + 4 < 2 ^ 32" and fit: "fits sz (molecule_bytes bs)"
    and sd: "size_does acc (cb_field bytes_size cb) (of_nat (4 + length bs)) e0"
    and body: "\<And>f. cb_field bytes_body_chunk cb = Some f \<Longrightarrow> bs \<noteq> [] \<Longrightarrow> does (T es) any (f bs)"
      "cb_field bytes_body_chunk cb = None \<or> bs = [] \<Longrightarrow> es = []"
    and cl: "closes (hooks_of cb) (molecule_bytes bs) ec"
  shows "reads acc (Bytes cb) sz (molecule_bytes bs) (T (e0 @ es @ ec))"
proof (rule readsI)
  let ?n = "of_nat (length bs) :: u32"
  have u: "unat ?n = length bs" using small by (simp add: unat_small)
  have H: "frun acc (\<lambda>s. s = Vec_st 0 0 mol_num_init_state) (chain [Bytes_head cb sz]) (u32_le ?n)
     (\<lambda>s. \<exists>u. s = Vec_st 1 ?n u) (T e0)"
  proof (rule frun_one, unfold frun_def, intro allI impI)
    fix s g rest fl s' c' g'
    assume s: "s = Vec_st 0 0 mol_num_init_state" and r: "Bytes_head cb sz s (u32_le ?n @ rest) g = Ok (fl, s', c') g'"
    let ?s1 = "Vec_st 1 ?n (Bytes_st 4 (u32_le ?n))"
    have c: "check_vec_size (cb_field bytes_size cb) 1 sz ?n ?s1 rest (Ok (Fall, ?s1, rest)) g = Ok (fl, s', c') g'"
      using r by (simp add: s Bytes_head_def MOL_CALL_NUM_read)
    have n: "unat ?n * 1 + 4 < 2 ^ 32" "of_nat (4 + length bs) = (of_nat (unat ?n * 1 + 4) :: u32)"
      using small by (simp_all only: u mult_1_right add.commute [of 4])
    have f: "sz = of_nat (4 + length bs) \<or> sz = MOL_NUM_MAX"
      using fit unfolding fits_def length_molecule_bytes by blast
    from sd n f c show "fl = Fall \<and> (\<exists>u. s' = Vec_st 1 ?n u) \<and> c' = rest \<and> T e0 g g' \<or> fl_rej fl \<and> \<not> acc"
    proof (rule check_vec_size_trace)
      fix g1
      assume "T e0 g g1" "Ok (Fall, ?s1, rest) g1 = Ok (fl, s', c') g'"
      then show ?thesis by blast
    qed blast
  qed
  have B: "frun acc (\<lambda>s. \<exists>u. s = Vec_st 1 ?n u) (chain [Bytes_body cb]) bs any (T es)"
  proof (rule frun_one, unfold frun_def, intro allI impI)
    fix s g rest fl s' c' g'
    assume "\<exists>u. s = Vec_st 1 ?n u" and r: "Bytes_body cb s (bs @ rest) g = Ok (fl, s', c') g'"
    then obtain u where s: "s = Vec_st 1 ?n u" by auto
    have z: "?n = 0 \<longleftrightarrow> bs = []" by (simp only: unat_eq_0 [symmetric] u length_0_conv)
    have "res_bind (if bs \<noteq> [] then case cb_field bytes_body_chunk cb of None \<Rightarrow> Ok () g | Some f \<Rightarrow> f bs g else Ok () g)
        (\<lambda>_. Ok (Fall, Vec_st (1 + ?n) ?n u, rest)) = Ok (fl, s', c') g'"
      using r by (cases "cb_field bytes_body_chunk cb") (simp_all add: Bytes_body_def s u z Let_def split: if_splits)
    then show "fl = Fall \<and> any s' \<and> c' = rest \<and> T es g g' \<or> fl_rej fl \<and> \<not> acc"
      using body by (cases "cb_field bytes_body_chunk cb"; cases "bs = []")
        (simp_all add: T_nil res_bind_eq_Ok, (blast dest: doesD)+)
  qed
  have F: "frun acc (\<lambda>s. s = Vec_st 0 0 mol_num_init_state) (chain [Bytes_head cb sz, Bytes_body cb])
      (molecule_bytes bs) any (T (e0 @ es))"
    using frun_chain_append [OF H B] by (simp add: molecule_bytes_def)
  fix s0 rest g rv s' c' g'
  assume i: "initial (Bytes cb) s0" and r: "snd (Bytes cb) sz s0 (molecule_bytes bs @ rest) g = Ok (rv, s', c') g'"
  have "s0 = Vec_st 0 0 mol_num_init_state"
    using i by (auto simp: initial_def Bytes_def MolReader_Bytes_init_state_def vec_init_def res_bind_eq_Ok)
  from run_body_trace [OF F cl this, of rest g rv s' c' g'] r
  show "verdict acc rest (rv, s', c') \<and> (rv = COMPLETE \<longrightarrow> T (e0 @ es @ ec) g g')"
    by (simp add: Bytes_def MolReader_Bytes_parse_def)
qed

text \<open>Vectors of items of any size. The \<open>index\<close> callback runs before every item and after the last.\<close>

lemma dynvec_count_eq:
  assumes "4 + 4 * n < (2 ^ 32 :: nat)"
  shows "dynvec_count (4 + 4 * of_nat n) = of_nat n"
proof -
  let ?d = "drop_bit 2 (of_nat (4 + 4 * n) :: u32)"
  have u: "unat (of_nat (4 + 4 * n) :: u32) = 4 + 4 * n" using assms by (rule unat_small)
  have d: "unat ?d = Suc n"
    unfolding unat_drop_bit_eq u by (simp add: drop_bit_eq_div)
  have "?d = of_nat (unat ?d)" by simp
  then have "?d = of_nat (Suc n)" unfolding d .
  then show ?thesis by (simp add: dynvec_count_def)
qed

lemma dynvec_header_trace:
  assumes "k + length os < 2 ^ 32" "dynvec_count first = of_nat (k + length os)"
  shows "dynvec_header 2 (of_nat k) tot first mol_num_init_state (concat (map u32_le os) @ rest) g =
    Ok (Fall, DynVec_st 2 (of_nat (k + length os)) tot first mol_num_init_state, rest) g"
  using assms
proof (induction os arbitrary: k)
  case Nil
  then show ?case by (simp add: dynvec_header.simps)
next
  case (Cons o' os)
  have lt: "of_nat k < (of_nat (k + length (o' # os)) :: u32)"
    using Cons.prems(1) by (simp add: word_less_nat_alt unat_small del: of_nat_add of_nat_Suc)
  have "dynvec_header 2 (of_nat (Suc k)) tot first mol_num_init_state (concat (map u32_le os) @ rest) g =
      Ok (Fall, DynVec_st 2 (of_nat (Suc k + length os)) tot first mol_num_init_state, rest) g"
    using Cons.prems by (intro Cons.IH) simp_all
  then show ?case
    using lt Cons.prems(2) by (subst dynvec_header.simps) (simp add: MOL_CALL_NUM_read ac_simps)
qed

lemma dynvec_loop_trace:
  assumes items: "\<And>j. j < length xs \<Longrightarrow> reads acc p (- 1) (xs ! j) (T (es ! j))"
    and inits: "does (T ei) any (fst p)"
    and index: "\<And>i. does_opt (T (ix i)) any (map_option (\<lambda>f. f (of_nat i)) icb)" "icb = None \<Longrightarrow> ix = (\<lambda>_. [])"
    and len: "length es = length xs" "k + length xs < 2 ^ 32" "dynvec_count first = of_nat (k + length xs)"
    and u: "initial p u"
    and r: "dynvec_loop icb p 3 (of_nat k) tot first u (concat xs @ rest) g = Ok (fl, s', c') g'"
  shows "fl = Fall \<and> c' = rest \<and> T (concat (map (\<lambda>j. es ! j @ ei @ ix (Suc (k + j))) [0..<length xs])) g g' \<or> fl_rej fl \<and> \<not> acc"
  using assms
proof (induction xs arbitrary: es k u g)
  case Nil
  then show ?case by (auto simp: dynvec_loop.simps T_nil)
next
  case (Cons x xs)
  obtain e es' where es: "es = e # es'" "length es' = length xs" using Cons.prems(5) by (cases es) auto
  have lt: "of_nat k < dynvec_count first"
    using Cons.prems(6,7) by (simp add: word_less_nat_alt unat_small del: of_nat_add of_nat_Suc)
  have split: "concat (map (\<lambda>j. es ! j @ ei @ ix (Suc (k + j))) [0..<length (x # xs)]) =
      (e @ ei @ ix (Suc k)) @ concat (map (\<lambda>j. es' ! j @ ei @ ix (Suc (Suc k + j))) [0..<length xs])"
    by (simp add: es upt_conv_Cons map_Suc_upt [symmetric] comp_def del: upt_Suc)
  let ?K = "\<lambda>(_ :: mol_state) c' g'. res_bind (fst p g') (\<lambda>u' g''. res_bind (call_index icb (of_nat k + 1) g'')
      (\<lambda>_ g3. dynvec_loop icb p 3 (of_nat k + 1) tot first u' c' g3))"
  have "MOL_CALL_SUBPARSER (snd p) (- 1) u (DynVec_st 3 (of_nat k) tot first) ?K (x @ concat xs @ rest) g = Ok (fl, s', c') g'"
    using Cons.prems(9) lt by (subst (asm) dynvec_loop.simps) simp
  from Cons.prems(1) [of 0, simplified es, simplified] Cons.prems(8) this show ?case
  proof (rule SUBPARSER_trace)
    fix u1 g1
    assume t: "T e g g1" and k: "?K u1 (concat xs @ rest) g1 = Ok (fl, s', c') g'"
    then obtain u2 g2 g3 where i: "fst p g1 = Ok u2 g2" "call_index icb (of_nat (Suc k)) g2 = Ok () g3"
      and l: "dynvec_loop icb p 3 (of_nat (Suc k)) tot first u2 (concat xs @ rest) g3 = Ok (fl, s', c') g'"
      by (auto simp: res_bind_eq_Ok add.commute)
    have t2: "T (e @ ei) g g2" "initial p u2" using init_trace [OF Cons.prems(2) i(1) t] by auto
    have "T (ix (Suc k)) g2 g3"
      using i(2) Cons.prems(3) [of "Suc k"] Cons.prems(4) T_nil
      by (cases icb) (auto simp: call_index_def does_opt_def does_def)
    then have t3: "T (e @ ei @ ix (Suc k)) g g3" using t2 T_app by fastforce
    have "fl = Fall \<and> c' = rest \<and> T (concat (map (\<lambda>j. es' ! j @ ei @ ix (Suc (Suc k + j))) [0..<length xs])) g3 g' \<or>
        fl_rej fl \<and> \<not> acc"
    proof (rule Cons.IH [OF _ Cons.prems(2,3,4) es(2) _ _ t2(2) l])
      show "reads acc p (- 1) (xs ! j) (T (es' ! j))" if "j < length xs" for j
        using Cons.prems(1) [of "Suc j"] that es by simp
    qed (use Cons.prems(6,7) in simp_all)
    then show ?thesis using t3 T_app unfolding split by fastforce
  qed simp
qed

lemma dynvec_total_trace:
  assumes sd: "size_does acc scb v es" and fit: "sz = v \<or> sz = MOL_NUM_MAX"
    and r: "dynvec_total scb sz (DynVec_st 0 0 0 0 mol_num_init_state) (u32_le v @ rest) g = Ok (fl, s', c') g'"
  shows "(fl = (if v = 4 then Finish else Fall) \<and> (v \<noteq> 4 \<longrightarrow> s' = DynVec_st 1 0 v 0 mol_num_init_state) \<and>
    c' = rest \<and> T es g g') \<or> fl_rej fl \<and> \<not> acc"
proof -
  let ?s = "\<lambda>n. DynVec_st n 0 v 0 mol_num_init_state"
  obtain ok where o': "(case scb of None \<Rightarrow> Ok True g | Some f \<Rightarrow> f v g) = Ok ok g'"
    and k: "(fl, s', c') = (if \<not> ok then (Bare REJECT, ?s 0, rest) else if v = 4 then (Finish, ?s 0, rest) else (Fall, ?s 1, rest))"
    using r fit by (auto simp: dynvec_total_def MOL_CALL_NUM_read res_bind_eq_Ok split: if_splits)
  have "T es g g' \<and> (acc \<longrightarrow> ok)"
    using o' sd by (cases scb) (auto simp: size_does_def does_def T_nil)
  then show ?thesis using k by (cases ok; cases "v = 4") (auto simp: fl_rej_def)
qed

lemma dynvec_offsets_trace:
  assumes "os \<noteq> []" "length os < 2 ^ 32" "dynvec_count (hd os) = of_nat (length os)"
  shows "frun acc (\<lambda>s. s = DynVec_st 1 0 tot 0 mol_num_init_state) (chain [dynvec_first, dynvec_offsets])
    (concat (map u32_le os)) (\<lambda>s. s = DynVec_st 2 (of_nat (length os)) tot (hd os) mol_num_init_state) (T [])"
proof -
  obtain o1 os' where os: "os = o1 # os'" using assms(1) by (cases os) auto
  have "frun acc (\<lambda>s. s = DynVec_st 1 0 tot 0 mol_num_init_state) (chain [dynvec_first]) (u32_le o1)
      (\<lambda>s. s = DynVec_st 2 1 tot o1 mol_num_init_state) (T [])"
    by (intro frun_one frunI) (auto simp: dynvec_first_def MOL_CALL_NUM_read T_nil)
  moreover have "dynvec_header 2 1 tot o1 mol_num_init_state (concat (map u32_le os') @ rest) g =
      Ok (Fall, DynVec_st 2 (of_nat (length os)) tot o1 mol_num_init_state, rest) g" for rest and g :: 'g
    using dynvec_header_trace [of 1 os' o1 tot rest g] assms(2,3) os by simp
  then have "frun acc (\<lambda>s. s = DynVec_st 2 1 tot o1 mol_num_init_state) (chain [dynvec_offsets])
      (concat (map u32_le os')) (\<lambda>s. s = DynVec_st 2 (of_nat (length os)) tot o1 mol_num_init_state) (T [])"
    by (intro frun_one frunI) (simp add: dynvec_offsets_def T_nil)
  ultimately show ?thesis using frun_chain_append os by fastforce
qed

lemma dynvec_start_trace:
  assumes inits: "does (T ei) any (fst p)" and lcb: "does_opt (T el) any (map_option (\<lambda>f. f (dynvec_count first)) lcb)"
    "lcb = None \<Longrightarrow> el = []"
    and icb: "does_opt (T e0) any (map_option (\<lambda>f. f 0) icb)" "icb = None \<Longrightarrow> e0 = []"
  shows "frun acc (\<lambda>s. \<exists>fi u. s = DynVec_st 2 fi tot first u) (dynvec_start_items lcb icb p) []
    (\<lambda>s. \<exists>u. initial p u \<and> s = DynVec_st 3 0 tot first u) (T (ei @ el @ e0))"
  unfolding frun_def
proof (intro allI impI)
  fix s g rest fl s' c' g'
  assume "\<exists>fi u. s = DynVec_st 2 fi tot first u" and r: "dynvec_start_items lcb icb p s ([] @ rest) g = Ok (fl, s', c') g'"
  then obtain fi u u2 g1 g2 where i: "fst p g = Ok u2 g1" "call_index lcb (dynvec_count first) g1 = Ok () g2"
    "call_index icb 0 g2 = Ok () g'" and f: "fl = Fall" "s' = DynVec_st 3 0 tot first u2" "c' = rest"
    by (auto simp: dynvec_start_items_def res_bind_eq_Ok)
  have "T ei g g1" "initial p u2" using init_trace [OF inits i(1) T_nil] by simp_all
  moreover have "T el g1 g2"
    using i(2) lcb T_nil by (cases lcb) (auto simp: call_index_def does_opt_def does_def)
  moreover have "T e0 g2 g'"
    using i(3) icb T_nil by (cases icb) (auto simp: call_index_def does_opt_def does_def)
  ultimately have "T (ei @ el @ e0) g g'" "initial p u2" using T_app [of ei] T_app [of el] by auto
  then show "fl = Fall \<and> (\<exists>u. initial p u \<and> s' = DynVec_st 3 0 tot first u) \<and> c' = rest \<and> T (ei @ el @ e0) g g' \<or>
      fl_rej fl \<and> \<not> acc"
    using f by auto
qed

lemma dynvec_body_trace:
  assumes items: "\<And>j. j < length xs \<Longrightarrow> reads acc p (- 1) (xs ! j) (T (es ! j))" and len: "length es = length xs"
    and ne: "xs \<noteq> []" and small: "length (molecule_table xs) < 2 ^ 32" and fit: "fits sz (molecule_table xs)"
    and sd: "size_does acc scb (of_nat (length (molecule_table xs))) e0"
    and inits: "does (T ei) any (fst p)"
    and lcb: "does_opt (T el) any (map_option (\<lambda>f. f (of_nat (length xs))) lcb)" "lcb = None \<Longrightarrow> el = []"
    and index: "\<And>i. does_opt (T (ix i)) any (map_option (\<lambda>f. f (of_nat i)) icb)" "icb = None \<Longrightarrow> ix = (\<lambda>_. [])"
  shows "frun acc (\<lambda>s. s = DynVec_st 0 0 0 0 mol_num_init_state) (chain (dynvec_frags scb lcb icb p sz))
    (molecule_table xs) any (T (e0 @ (ei @ el @ ix 0) @ concat (map (\<lambda>j. es ! j @ ei @ ix (Suc j)) [0..<length xs])))"
proof -
  define v where "v = (of_nat (length (molecule_table xs)) :: u32)"
  define os where "os = table_offsets (4 + 4 * of_nat (length xs)) (sizes_of xs)"
  let ?n = "length xs" and ?f = "hd os"
  have eq: "molecule_table xs = u32_le v @ concat (map u32_le os) @ concat xs"
    unfolding v_def os_def by (rule molecule_table_eq)
  have n: "4 + 4 * ?n < 2 ^ 32" "?n < 2 ^ 32" using small by (simp_all add: length_molecule_table)
  have "unat v = 4 + 4 * ?n + length (concat xs)"
    unfolding v_def using small by (simp only: unat_small length_molecule_table)
  then have v4: "v \<noteq> 4" using ne by auto
  have os: "os \<noteq> []" "hd os = 4 + 4 * of_nat ?n" "length os = ?n"
    using ne by (cases xs; simp add: os_def sizes_of_def)+
  have cnt: "dynvec_count ?f = of_nat ?n" unfolding os(2) using n(1) by (rule dynvec_count_eq)
  have "frun acc (\<lambda>s. s = DynVec_st 0 0 0 0 mol_num_init_state) (chain [dynvec_total scb sz]) (u32_le v)
      (\<lambda>s. s = DynVec_st 1 0 v 0 mol_num_init_state) (T e0)"
    using dynvec_total_trace [OF sd [folded v_def]] fit v4
    by (intro frun_one) (fastforce simp: frun_def fits_def v_def)
  moreover have "frun acc (\<lambda>s. s = DynVec_st 1 0 v 0 mol_num_init_state) (chain [dynvec_first, dynvec_offsets])
      (concat (map u32_le os)) (\<lambda>s. s = DynVec_st 2 (of_nat ?n) v ?f mol_num_init_state) (T [])"
    using dynvec_offsets_trace [OF os(1), of acc v] cnt n(2) os(3) by simp
  moreover have "frun acc (\<lambda>s. s = DynVec_st 2 (of_nat ?n) v ?f mol_num_init_state)
      (chain [dynvec_start_items lcb icb p]) [] (\<lambda>s. \<exists>u. initial p u \<and> s = DynVec_st 3 0 v ?f u) (T (ei @ el @ ix 0))"
  proof (rule frun_one, rule frun_weaken)
    show "frun acc (\<lambda>s. \<exists>fi u. s = DynVec_st 2 fi v ?f u) (dynvec_start_items lcb icb p) []
        (\<lambda>s. \<exists>u. initial p u \<and> s = DynVec_st 3 0 v ?f u) (T (ei @ el @ ix 0))"
      by (rule dynvec_start_trace) (use inits lcb index(1) [of 0] index(2) cnt in simp_all)
  qed auto
  moreover have "frun acc (\<lambda>s. \<exists>u. initial p u \<and> s = DynVec_st 3 0 v ?f u) (chain [dynvec_items icb p])
      (concat xs) any (T (concat (map (\<lambda>j. es ! j @ ei @ ix (Suc j)) [0..<?n])))"
  proof (rule frun_one, unfold frun_def, intro allI impI)
    fix s g rest fl s' c' g'
    assume "\<exists>u. initial p u \<and> s = DynVec_st 3 0 v ?f u" and r: "dynvec_items icb p s (concat xs @ rest) g = Ok (fl, s', c') g'"
    then obtain u where u: "initial p u" "s = DynVec_st 3 0 v ?f u" by auto
    from dynvec_loop_trace [OF items inits index len _ _ u(1), of 0 ?f v rest g fl s' c' g'] r n(2) cnt
    show "fl = Fall \<and> any s' \<and> c' = rest \<and> T (concat (map (\<lambda>j. es ! j @ ei @ ix (Suc j)) [0..<?n])) g g' \<or> fl_rej fl \<and> \<not> acc"
      by (simp add: dynvec_items_def u(2))
  qed
  ultimately have "frun acc (\<lambda>s. s = DynVec_st 0 0 0 0 mol_num_init_state)
      (chain ([dynvec_total scb sz] @ [dynvec_first, dynvec_offsets] @ [dynvec_start_items lcb icb p] @ [dynvec_items icb p]))
      (u32_le v @ concat (map u32_le os) @ [] @ concat xs) any
      (T (e0 @ [] @ (ei @ el @ ix 0) @ concat (map (\<lambda>j. es ! j @ ei @ ix (Suc j)) [0..<?n])))"
    by (intro frun_chain_append)
  then show ?thesis unfolding eq by simp
qed

lemma dynvec_empty_trace:
  assumes sd: "size_does acc scb 4 e0" and fit: "fits sz (molecule_table [])" and cl: "closes h (molecule_table []) ec"
    and r: "run_body h (chain (dynvec_frags scb lcb icb p sz)) (DynVec_st 0 0 0 0 mol_num_init_state)
      (molecule_table [] @ rest) g = Ok (rv, s', c') g'"
  shows "verdict acc rest (rv, s', c') \<and> (rv = COMPLETE \<longrightarrow> T (e0 @ ec) g g')"
proof -
  have eq: "molecule_table [] = u32_le 4" by (simp add: molecule_table_def table_header_def)
  have tot: "sz = 4 \<or> sz = MOL_NUM_MAX" using fit by (auto simp: fits_def eq)
  note T_total = dynvec_total_trace [OF sd tot, of rest g]
  obtain fl s1 c1 g1 where d: "dynvec_total scb sz (DynVec_st 0 0 0 0 mol_num_init_state) (u32_le 4 @ rest) g = Ok (fl, s1, c1) g1"
    and k: "(case fl of Fall \<Rightarrow> closing h (u32_le 4 @ rest) s1 c1 g1 | Finish \<Rightarrow> closing h (u32_le 4 @ rest) s1 c1 g1
      | Leave rv \<Rightarrow> res_bind (call_chunk (chunk_cb h) (u32_le 4 @ rest) c1 g1) (\<lambda>_. Ok (rv, s1, c1))
      | Bare rv \<Rightarrow> Ok (rv, s1, c1) g1) = Ok (rv, s', c') g'"
    using r T_total unfolding eq by (fastforce simp: run_body_def seq_def res_bind_eq_Ok fl_rej_def)
  from T_total [OF d] show ?thesis
  proof
    assume "(fl = (if (4 :: u32) = 4 then Finish else Fall) \<and> ((4 :: u32) \<noteq> 4 \<longrightarrow> s1 = DynVec_st 1 0 4 0 mol_num_init_state) \<and>
      c1 = rest \<and> T e0 g g1)"
    then have f: "fl = Finish" "c1 = rest" "T e0 g g1" by auto
    have "(rv, s', c') = (COMPLETE, s1, rest) \<and> T ec g1 g'"
      using closing_trace [OF cl [unfolded eq]] k f by simp
    then show ?thesis using f T_app by (auto simp: verdict_def)
  next
    assume "fl_rej fl \<and> \<not> acc"
    then show ?thesis using k by (auto simp: fl_rej_def verdict_def res_bind_eq_Ok)
  qed
qed

lemma dynvec_trace:
  assumes items: "\<And>j. j < length xs \<Longrightarrow> reads acc p (- 1) (xs ! j) (T (es ! j))" and len: "length es = length xs"
    and small: "length (molecule_table xs) < 2 ^ 32" and fit: "fits sz (molecule_table xs)"
    and sd: "size_does acc scb (of_nat (length (molecule_table xs))) e0"
    and inits: "does (T ei) any (fst p)"
    and lcb: "does_opt (T el) any (map_option (\<lambda>f. f (of_nat (length xs))) lcb)" "lcb = None \<Longrightarrow> el = []"
    and index: "\<And>i. does_opt (T (ix i)) any (map_option (\<lambda>f. f (of_nat i)) icb)" "icb = None \<Longrightarrow> ix = (\<lambda>_. [])"
    and cl: "closes h (molecule_table xs) ec"
  shows "reads acc (dynvec_of h scb lcb icb p) sz (molecule_table xs) (T (e0 @ (if xs = [] then [] else
    (ei @ el @ ix 0) @ concat (map (\<lambda>j. es ! j @ ei @ ix (Suc j)) [0..<length xs])) @ ec))"
proof (rule readsI)
  fix s0 rest g rv s' c' g'
  assume i: "initial (dynvec_of h scb lcb icb p) s0"
    and r: "snd (dynvec_of h scb lcb icb p) sz s0 (molecule_table xs @ rest) g = Ok (rv, s', c') g'"
  have s0: "s0 = DynVec_st 0 0 0 0 mol_num_init_state"
    using i by (auto simp: initial_def dynvec_of_def dynvec_init_def res_bind_eq_Ok)
  have body: "run_body h (chain (dynvec_frags scb lcb icb p sz)) s0 (molecule_table xs @ rest) g = Ok (rv, s', c') g'"
    using r by (simp add: dynvec_of_def dynvec_parse_def)
  show "verdict acc rest (rv, s', c') \<and> (rv = COMPLETE \<longrightarrow> T (e0 @ (if xs = [] then [] else
    (ei @ el @ ix 0) @ concat (map (\<lambda>j. es ! j @ ei @ ix (Suc j)) [0..<length xs])) @ ec) g g')"
  proof (cases "xs = []")
    case True
    have "size_does acc scb 4 e0" using sd True by (simp add: length_molecule_table)
    from dynvec_empty_trace [OF this fit [unfolded True] cl [unfolded True] body [unfolded True s0]]
    show ?thesis using True by simp
  next
    case False
    from run_body_trace [OF dynvec_body_trace [OF items len False small fit sd inits lcb index] cl s0 body]
    show ?thesis using False by simp
  qed
qed

text \<open>What \<open>_init_state\<close> does is what the \<open>start\<close> callback does.\<close>

definition starts :: "'g hooks \<Rightarrow> 'e list \<Rightarrow> bool" where
  "starts h es \<longleftrightarrow> does (T es) any (call_opt (start_cb h))"

lemma starts_none [simp]: "start_cb h = None \<Longrightarrow> starts h []"
  by (simp add: starts_def does_def T_nil)

lemma inits_trace:
  assumes "starts h es"
  shows "does (T es) any (fst (table h ocb ps))" "does (T es) any (fst (vec_of h scb icb isz p))"
    "does (T es) any (fst (dynvec_of h scb lcb icb p))"
    "does (T []) any (fst p) \<Longrightarrow> does (T es) any (fst (struct h tsz p sz1 p2 sz2))"
    "does (T []) any (fst p) \<Longrightarrow> does (T es) any (fst (option_of h p))"
  using assms T_app [of es _ _ "[]"] unfolding starts_def does_def
  by (auto simp: table_def table_init_def vec_of_def vec_init_def dynvec_of_def dynvec_init_def struct_def
      struct_init_def option_of_def option_init_def res_bind_eq_Ok) fastforce+

lemma array_inits:
  "does (T []) any (fst (Uint32 cb))" "does (T []) any (fst (Uint64 cb))" "does (T []) any (fst (Byte32 cb))"
  "does (T []) any (fst (byte_component bcb))" "starts (hooks_of bscb) [] \<Longrightarrow> does (T []) any (fst (Bytes bscb))"
  by (auto simp: does_def T_nil Uint32_def Uint64_def Byte32_def byte_component_def Bytes_def starts_def
      MolReader_Uint32_init_state_def MolReader_Uint64_init_state_def MolReader_Byte32_init_state_def
      MolReader_byte_init_state_def mol_bytes_init_state_def MolReader_Bytes_init_state_def vec_init_def res_bind_eq_Ok)

end

end
