(* ===== verification/Transaction_Format.thy ===== *)
theory Transaction_Format
  imports Molecule_Trace
begin

text \<open>
  The values the molecule schemas of the repository describe (\<open>doc/blockchain.mol\<close> and
  \<open>doc/annotated.mol\<close>), their serialisations, and that the generated readers accept them: with
  any callbacks a reader uses exactly the bytes of the value, and it rejects only when a \<open>size\<close>
  callback says so.
\<close>

section \<open>Values and their serialisation\<close>

record out_point =
  op_tx_hash :: "u8 list"
  op_index :: u32

record cell_input =
  in_since :: u64
  in_previous :: out_point

record cell_dep =
  dep_out_point :: out_point
  dep_type :: u8

record script =
  scr_code_hash :: "u8 list"
  scr_hash_type :: u8
  scr_args :: "u8 list"

record cell_output =
  co_capacity :: u64
  co_lock :: script
  co_type :: "script option"

text \<open>A raw transaction over plain or annotated inputs.\<close>

record 'i raw_tx =
  rt_version :: u32
  rt_cell_deps :: "cell_dep list"
  rt_header_deps :: "u8 list list"
  rt_inputs :: "'i list"
  rt_outputs :: "cell_output list"
  rt_outputs_data :: "u8 list list"

type_synonym plain_raw_tx = "cell_input raw_tx"

record annotated_input =
  ai_input :: cell_input
  ai_source :: plain_raw_tx

type_synonym annotated_raw_tx = "annotated_input raw_tx"

record annotated_tx =
  at_sign_path :: "u32 list"
  at_change_path :: "u32 list"
  at_input_count :: u32
  at_raw :: annotated_raw_tx
  at_witnesses :: "u8 list list"

definition enc_out_point :: "out_point \<Rightarrow> u8 list" where
  "enc_out_point x = op_tx_hash x @ u32_le (op_index x)"

definition enc_cell_input :: "cell_input \<Rightarrow> u8 list" where
  "enc_cell_input x = u64_le (in_since x) @ enc_out_point (in_previous x)"

definition enc_cell_dep :: "cell_dep \<Rightarrow> u8 list" where
  "enc_cell_dep x = enc_out_point (dep_out_point x) @ [dep_type x]"

definition enc_script :: "script \<Rightarrow> u8 list" where
  "enc_script x = molecule_table [scr_code_hash x, [scr_hash_type x], molecule_bytes (scr_args x)]"

definition enc_opt :: "('a \<Rightarrow> u8 list) \<Rightarrow> 'a option \<Rightarrow> u8 list" where
  "enc_opt e x = (case x of None \<Rightarrow> [] | Some y \<Rightarrow> e y)"

definition enc_cell_output :: "cell_output \<Rightarrow> u8 list" where
  "enc_cell_output x = molecule_table [u64_le (co_capacity x), enc_script (co_lock x), enc_opt enc_script (co_type x)]"

definition enc_raw :: "('i list \<Rightarrow> u8 list) \<Rightarrow> 'i raw_tx \<Rightarrow> u8 list" where
  "enc_raw e x = molecule_table
     [u32_le (rt_version x), molecule_fixvec (map enc_cell_dep (rt_cell_deps x)),
      molecule_fixvec (rt_header_deps x), e (rt_inputs x),
      molecule_table (map enc_cell_output (rt_outputs x)),
      molecule_table (map molecule_bytes (rt_outputs_data x))]"

definition enc_inputs :: "cell_input list \<Rightarrow> u8 list" where
  "enc_inputs xs = molecule_fixvec (map enc_cell_input xs)"

definition enc_raw_tx :: "plain_raw_tx \<Rightarrow> u8 list" where
  "enc_raw_tx = enc_raw enc_inputs"

definition enc_annotated_input :: "annotated_input \<Rightarrow> u8 list" where
  "enc_annotated_input x = molecule_table [enc_cell_input (ai_input x), enc_raw_tx (ai_source x)]"

definition enc_annotated_inputs :: "annotated_input list \<Rightarrow> u8 list" where
  "enc_annotated_inputs xs = molecule_table (map enc_annotated_input xs)"

definition enc_path :: "u32 list \<Rightarrow> u8 list" where
  "enc_path p = molecule_fixvec (map u32_le p)"

definition enc_annotated_tx :: "annotated_tx \<Rightarrow> u8 list" where
  "enc_annotated_tx x = molecule_table
     [enc_path (at_sign_path x), enc_path (at_change_path x), u32_le (at_input_count x),
      enc_raw enc_annotated_inputs (at_raw x), molecule_table (map molecule_bytes (at_witnesses x))]"

text \<open>Well-formed values: hashes have 32 bytes.\<close>

definition wf_out_point :: "out_point \<Rightarrow> bool" where
  "wf_out_point x \<longleftrightarrow> length (op_tx_hash x) = 32"

definition wf_output :: "cell_output \<Rightarrow> bool" where
  "wf_output x \<longleftrightarrow> length (scr_code_hash (co_lock x)) = 32 \<and>
     (case co_type x of None \<Rightarrow> True | Some s \<Rightarrow> length (scr_code_hash s) = 32)"

definition wf_raw :: "('i \<Rightarrow> bool) \<Rightarrow> 'i raw_tx \<Rightarrow> bool" where
  "wf_raw w x \<longleftrightarrow> (\<forall>d\<in>set (rt_cell_deps x). wf_out_point (dep_out_point d)) \<and>
     (\<forall>h\<in>set (rt_header_deps x). length h = 32) \<and> (\<forall>i\<in>set (rt_inputs x). w i) \<and>
     (\<forall>y\<in>set (rt_outputs x). wf_output y)"

definition wf_input :: "cell_input \<Rightarrow> bool" where
  "wf_input x \<longleftrightarrow> wf_out_point (in_previous x)"

definition wf_annotated_input :: "annotated_input \<Rightarrow> bool" where
  "wf_annotated_input x \<longleftrightarrow> wf_input (ai_input x) \<and> wf_raw wf_input (ai_source x)"

definition wf_annotated_tx :: "annotated_tx \<Rightarrow> bool" where
  "wf_annotated_tx x \<longleftrightarrow> wf_raw wf_annotated_input (at_raw x) \<and> length (enc_annotated_tx x) < 2 ^ 32"

lemma length_enc_out_point: "wf_out_point x \<Longrightarrow> length (enc_out_point x) = 36"
  by (simp add: enc_out_point_def wf_out_point_def)

lemma length_enc_cell_input: "wf_input x \<Longrightarrow> length (enc_cell_input x) = 44"
  by (simp add: enc_cell_input_def wf_input_def length_enc_out_point)

lemma length_enc_cell_dep: "wf_out_point (dep_out_point x) \<Longrightarrow> length (enc_cell_dep x) = 37"
  by (simp add: enc_cell_dep_def length_enc_out_point)

lemma field_small:
  assumes "length (molecule_table fs) < 2 ^ 32" "f \<in> set fs"
  shows "length f + 4 < 2 ^ 32"
proof -
  have "length f \<le> length (concat fs)"
    using assms(2) by (induction fs) auto
  then show ?thesis using assms(1) by (simp add: length_molecule_table)
qed

section \<open>The readers use exactly the bytes of a value\<close>

definition uses :: "bool \<Rightarrow> 'g component \<Rightarrow> u32 \<Rightarrow> u8 list \<Rightarrow> bool" where
  "uses acc p sz bs = reads acc p sz bs (\<lambda>_ _. True)"

interpretation free: trace "\<lambda>(_ :: unit list) _ _. True"
  by unfold_locales simp_all

lemma free_does [simp]:
  "does (\<lambda>_ _. True) any m" "does_opt (\<lambda>_ _. True) any cb" "free.closes h bs es"
  by (simp_all add: does_def does_opt_def free.closes_def split: option.splits)

lemma free_size [simp]: "(acc \<longrightarrow> scb = None) \<Longrightarrow> free.size_does acc scb n []"
  by (auto simp: free.size_does_def does_def split: option.splits)

lemma fits_more [simp]: "fits (4 + of_nat (length bs)) (molecule_bytes bs)"
  by (simp add: fits_def)

lemma table_nonempty [simp]: "0 < length (molecule_table fs)"
  by (simp add: length_molecule_table)

lemma uses_table:
  assumes "list_all2 (\<lambda>p f. uses acc p (of_nat (length f)) f) ps fs" "ps \<noteq> []" "length ps < 2 ^ 32"
    "fits sz (molecule_table fs)"
  shows "uses acc (table h ocb ps) sz (molecule_table fs)"
  unfolding uses_def
  by (rule free.table_trace [where es = "replicate (length ps) []" and eo = "[]"])
    (use assms in \<open>auto simp: uses_def list_all2_conv_all_nth\<close>)

lemma uses_struct:
  assumes "uses acc p1 sz1 b1" "uses acc p2 sz2 b2" "sz = tsz \<or> sz = MOL_NUM_MAX"
  shows "uses acc (struct h tsz p1 sz1 p2 sz2) sz (b1 @ b2)"
  unfolding uses_def
  by (rule free.struct_trace)
    (use assms in \<open>auto simp: uses_def\<close>)

lemma uses_vec:
  assumes "\<And>x. x \<in> set xs \<Longrightarrow> uses acc p (of_nat isz) x \<and> length x = isz" "0 < isz"
    "length (molecule_fixvec xs) < 2 ^ 32" "fits sz (molecule_fixvec xs)" "acc \<longrightarrow> scb = None"
  shows "uses acc (vec_of h scb icb isz p) sz (molecule_fixvec xs)"
  unfolding uses_def
  by (rule free.vec_trace [where es = "replicate (length xs) []" and ?e0.0 = "[]" and ec = "[]"])
    (use assms in \<open>auto simp: uses_def\<close>)

lemma uses_dynvec:
  assumes "\<And>x. x \<in> set xs \<Longrightarrow> uses acc p MOL_NUM_MAX x"
    "length (molecule_table xs) < 2 ^ 32" "fits sz (molecule_table xs)" "acc \<longrightarrow> scb = None"
  shows "uses acc (dynvec_of h scb lcb icb p) sz (molecule_table xs)"
proof -
  have "reads acc (dynvec_of h scb lcb icb p) sz (molecule_table xs) (\<lambda>_ _. True)"
    by (rule free.dynvec_trace [where es = "replicate (length xs) []" and ?e0.0 = "[]"])
      (use assms in \<open>auto simp: uses_def MOL_NUM_MAX_def\<close>)
  then show ?thesis by (simp add: uses_def)
qed

lemma uses_opt:
  assumes "\<And>y. x = Some y \<Longrightarrow> uses acc p (of_nat (length (e y))) (e y) \<and> 0 < length (e y) \<and> length (e y) < 2 ^ 32"
  shows "uses acc (option_of h p) (of_nat (length (enc_opt e x))) (enc_opt e x)"
proof (cases x)
  case None
  then show ?thesis
    using free.option_trace_None [of h "[]" acc p] by (simp add: uses_def enc_opt_def)
next
  case (Some y)
  have "unat (of_nat (length (e y)) :: u32) \<noteq> 0"
    using assms [OF Some] by (simp add: unat_small)
  then have "of_nat (length (e y)) \<noteq> (0 :: u32)" by (metis unat_0)
  then show ?thesis
    using free.option_trace_Some [of acc p "of_nat (length (e y))" "e y" h] assms [OF Some]
    by (simp add: uses_def enc_opt_def Some)
qed

lemma uses_array:
  "length bs = 4 \<Longrightarrow> uses acc (Uint32 cb) sz bs"
  "length bs = 8 \<Longrightarrow> uses acc (Uint64 cb) sz bs"
  "length bs = 32 \<Longrightarrow> uses acc (Byte32 cb) sz bs"
  "uses acc (byte_component bcb) 1 [b]"
  using free.array_trace [where es = "[]", of cb bs] free.byte_trace [where es = "[]", of bcb b acc]
  by (simp_all add: uses_def)

lemma uses_Bytes:
  assumes "length bs + 4 < 2 ^ 32" "fits sz (molecule_bytes bs)" "acc \<longrightarrow> cb = None"
  shows "uses acc (Bytes cb) sz (molecule_bytes bs)"
  unfolding uses_def
  by (rule free.Bytes_trace [where ?e0.0 = "[]" and es = "[]" and ec = "[]"]) (use assms in auto)

section \<open>Every type of the schemas\<close>

lemma uses_out_point: "wf_out_point x \<Longrightarrow> sz = 36 \<or> sz = MOL_NUM_MAX \<Longrightarrow> uses acc (OutPoint cb) sz (enc_out_point x)"
  unfolding OutPoint_eq enc_out_point_def
  by (rule uses_struct) (simp_all add: uses_array wf_out_point_def)

lemma uses_cell_input: "wf_input x \<Longrightarrow> sz = 44 \<or> sz = MOL_NUM_MAX \<Longrightarrow> uses acc (CellInput cb) sz (enc_cell_input x)"
  unfolding CellInput_eq enc_cell_input_def wf_input_def
  by (rule uses_struct) (simp_all add: uses_array uses_out_point)

lemma uses_cell_dep: "wf_out_point (dep_out_point x) \<Longrightarrow> uses acc (CellDep cb) 37 (enc_cell_dep x)"
  unfolding CellDep_eq enc_cell_dep_def
  by (rule uses_struct) (simp_all add: uses_array uses_out_point)

lemma uses_script:
  assumes "length (scr_code_hash x) = 32" "length (enc_script x) < 2 ^ 32" "fits sz (enc_script x)" "acc \<longrightarrow> cb = None"
  shows "uses acc (Script cb) sz (enc_script x)"
  using assms field_small [OF assms(2) [unfolded enc_script_def], of "molecule_bytes (scr_args x)"]
  unfolding Script_eq enc_script_def
  by (intro uses_table) (auto simp: Script_fields_def uses_array uses_Bytes)

lemma uses_cell_output:
  assumes "wf_output x" "length (enc_cell_output x) < 2 ^ 32" "fits sz (enc_cell_output x)" "acc \<longrightarrow> cb = None"
  shows "uses acc (CellOutput cb) sz (enc_cell_output x)"
proof -
  note small = field_small [OF assms(2) [unfolded enc_cell_output_def]]
  have l: "length (enc_script (co_lock x)) < 2 ^ 32" using small [of "enc_script (co_lock x)"] by simp
  have t: "length (enc_opt enc_script (co_type x)) < 2 ^ 32" using small [of "enc_opt enc_script (co_type x)"] by simp
  have "uses acc (ScriptOpt (cb_field celloutput_type cb)) (of_nat (length (enc_opt enc_script (co_type x))))
      (enc_opt enc_script (co_type x))"
    unfolding ScriptOpt_eq
  proof (rule uses_opt)
    fix y
    assume y: "co_type x = Some y"
    have "0 < length (enc_script y)" unfolding enc_script_def by (rule table_nonempty)
    then show "uses acc (Script (cb_field option_item_cb (cb_field celloutput_type cb))) (of_nat (length (enc_script y)))
        (enc_script y) \<and> 0 < length (enc_script y) \<and> length (enc_script y) < 2 ^ 32"
      using assms(1,4) t y by (auto simp: wf_output_def enc_opt_def intro!: uses_script)
  qed
  moreover have "uses acc (Script (cb_field celloutput_lock cb)) (of_nat (length (enc_script (co_lock x)))) (enc_script (co_lock x))"
    using assms(1,4) l by (intro uses_script) (auto simp: wf_output_def)
  ultimately show ?thesis
    using assms(3) unfolding CellOutput_eq enc_cell_output_def
    by (intro uses_table) (auto simp: CellOutput_fields_def uses_array)
qed

lemma item_small: "length (molecule_table xs) < 2 ^ 32 \<Longrightarrow> x \<in> set xs \<Longrightarrow> length x < 2 ^ 32"
  using field_small [of xs x] by simp

lemma uses_bytes_vec:
  assumes "length (molecule_table (map molecule_bytes xs)) < 2 ^ 32" "acc \<longrightarrow> cb = None"
  shows "uses acc (BytesVec cb) (of_nat (length (molecule_table (map molecule_bytes xs)))) (molecule_table (map molecule_bytes xs))"
  unfolding BytesVec_eq
proof (rule uses_dynvec)
  fix x
  assume x: "x \<in> set (map molecule_bytes xs)"
  then obtain b where b: "x = molecule_bytes b" by auto
  have l: "length b + 4 < 2 ^ 32" using item_small [OF assms(1) x] by (simp add: b)
  show "uses acc (Bytes (cb_field dynvec_item cb)) MOL_NUM_MAX x"
    unfolding b by (rule uses_Bytes [OF l]) (use assms(2) in auto)
qed (use assms in auto)

lemma uses_outputs:
  assumes "length (molecule_table (map enc_cell_output xs)) < 2 ^ 32" "\<And>x. x \<in> set xs \<Longrightarrow> wf_output x" "acc \<longrightarrow> cb = None"
  shows "uses acc (CellOutputVec cb) (of_nat (length (molecule_table (map enc_cell_output xs)))) (molecule_table (map enc_cell_output xs))"
  unfolding CellOutputVec_eq
  by (rule uses_dynvec) (use assms item_small [OF assms(1)] in \<open>auto intro!: uses_cell_output\<close>)

lemma uses_cell_deps:
  assumes "length (molecule_fixvec (map enc_cell_dep xs)) < 2 ^ 32" "\<And>x. x \<in> set xs \<Longrightarrow> wf_out_point (dep_out_point x)"
    "acc \<longrightarrow> cb = None"
  shows "uses acc (CellDepVec cb) (of_nat (length (molecule_fixvec (map enc_cell_dep xs)))) (molecule_fixvec (map enc_cell_dep xs))"
proof -
  have "uses acc (CellDep (cb_field fixvec_item cb)) (of_nat 37) (enc_cell_dep x)" if "x \<in> set xs" for x
    using uses_cell_dep [OF assms(2) [OF that]] by simp
  then show ?thesis
    unfolding CellDepVec_eq by (intro uses_vec) (use assms in \<open>auto simp: length_enc_cell_dep\<close>)
qed

lemma uses_header_deps:
  assumes "length (molecule_fixvec xs) < 2 ^ 32" "\<And>x. x \<in> set xs \<Longrightarrow> length x = 32" "acc \<longrightarrow> cb = None"
  shows "uses acc (Byte32Vec cb) (of_nat (length (molecule_fixvec xs))) (molecule_fixvec xs)"
  unfolding Byte32Vec_eq by (rule uses_vec) (use assms in \<open>auto simp: uses_array\<close>)

lemma uses_inputs:
  assumes "length (enc_inputs xs) < 2 ^ 32" "\<And>x. x \<in> set xs \<Longrightarrow> wf_input x" "acc \<longrightarrow> cb = None"
  shows "uses acc (CellInputVec cb) (of_nat (length (enc_inputs xs))) (enc_inputs xs)"
proof -
  have "uses acc (CellInput (cb_field fixvec_item cb)) (of_nat 44) (enc_cell_input x)" if "x \<in> set xs" for x
    using uses_cell_input [OF assms(2) [OF that], of 44] by simp
  then show ?thesis
    using assms unfolding CellInputVec_eq enc_inputs_def
    by (intro uses_vec) (auto simp: length_enc_cell_input)
qed

lemma uses_path:
  assumes "length (enc_path p) < 2 ^ 32" "acc \<longrightarrow> cb = None"
  shows "uses acc (Bip32 cb) (of_nat (length (enc_path p))) (enc_path p)"
  using assms unfolding Bip32_eq enc_path_def
  by (intro uses_vec) (auto simp: uses_array)

text \<open>The five fields that plain and annotated transactions share.\<close>

lemma raw_fields:
  assumes "wf_raw w x" "length (enc_raw e x) < 2 ^ 32"
  shows "length (molecule_fixvec (map enc_cell_dep (rt_cell_deps x))) < 2 ^ 32"
    "length (molecule_fixvec (rt_header_deps x)) < 2 ^ 32" "length (e (rt_inputs x)) < 2 ^ 32"
    "length (molecule_table (map enc_cell_output (rt_outputs x))) < 2 ^ 32"
    "length (molecule_table (map molecule_bytes (rt_outputs_data x))) < 2 ^ 32"
    "\<And>d. d \<in> set (rt_cell_deps x) \<Longrightarrow> wf_out_point (dep_out_point d)"
    "\<And>h. h \<in> set (rt_header_deps x) \<Longrightarrow> length h = 32" "\<And>i. i \<in> set (rt_inputs x) \<Longrightarrow> w i"
    "\<And>y. y \<in> set (rt_outputs x) \<Longrightarrow> wf_output y"
  using assms(1) item_small [OF assms(2) [unfolded enc_raw_def]]
  by (auto simp: wf_raw_def)

lemma uses_raw_tx:
  assumes "wf_raw wf_input x" "length (enc_raw_tx x) < 2 ^ 32" "fits sz (enc_raw_tx x)" "acc \<longrightarrow> cb = None"
  shows "uses acc (RawTransaction cb) sz (enc_raw_tx x)"
proof -
  note f = raw_fields [OF assms(1,2) [unfolded enc_raw_tx_def]]
  show ?thesis
    using assms(3,4) f unfolding RawTransaction_eq enc_raw_tx_def enc_raw_def
    by (intro uses_table) (auto simp: RawTransaction_fields_def intro!: uses_array uses_cell_deps
        uses_header_deps uses_inputs uses_outputs uses_bytes_vec)
qed

lemma uses_annotated_input:
  assumes "wf_annotated_input x" "length (enc_annotated_input x) < 2 ^ 32" "fits sz (enc_annotated_input x)" "acc \<longrightarrow> cb = None"
  shows "uses acc (AnnotatedCellInput cb) sz (enc_annotated_input x)"
  using assms item_small [OF assms(2) [unfolded enc_annotated_input_def]]
  unfolding AnnotatedCellInput_eq enc_annotated_input_def
  by (intro uses_table) (auto simp: AnnotatedCellInput_fields_def wf_annotated_input_def length_enc_cell_input
      intro!: uses_cell_input uses_raw_tx)

lemma uses_annotated_inputs:
  assumes "length (enc_annotated_inputs xs) < 2 ^ 32" "\<And>x. x \<in> set xs \<Longrightarrow> wf_annotated_input x" "acc \<longrightarrow> cb = None"
  shows "uses acc (AnnotatedCellInputVec cb) (of_nat (length (enc_annotated_inputs xs))) (enc_annotated_inputs xs)"
  using assms item_small [OF assms(1) [unfolded enc_annotated_inputs_def]]
  unfolding AnnotatedCellInputVec_eq enc_annotated_inputs_def
  by (intro uses_dynvec) (auto intro!: uses_annotated_input)

lemma uses_annotated_raw:
  assumes "wf_raw wf_annotated_input x" "length (enc_raw enc_annotated_inputs x) < 2 ^ 32"
    "fits sz (enc_raw enc_annotated_inputs x)" "acc \<longrightarrow> cb = None"
  shows "uses acc (AnnotatedRawTransaction cb) sz (enc_raw enc_annotated_inputs x)"
  using assms(3,4) raw_fields [OF assms(1,2)] unfolding AnnotatedRawTransaction_eq enc_raw_def
  by (intro uses_table) (auto simp: AnnotatedRawTransaction_fields_def intro!: uses_array uses_cell_deps
      uses_header_deps uses_annotated_inputs uses_outputs uses_bytes_vec)

lemma uses_annotated_tx:
  assumes "wf_annotated_tx x" "fits sz (enc_annotated_tx x)" "acc \<longrightarrow> cb = None"
  shows "uses acc (AnnotatedTransaction cb) sz (enc_annotated_tx x)"
  using assms item_small [of "[_, _, _, _, _]", folded enc_annotated_tx_def]
  unfolding AnnotatedTransaction_eq enc_annotated_tx_def wf_annotated_tx_def
  by (intro uses_table) (auto simp: AnnotatedTransaction_fields_def intro!: uses_array uses_path
      uses_annotated_raw uses_bytes_vec)

end
