(* ===== verification/Packets.thy ===== *)
theory Packets
  imports Molecule_Instances
begin

text \<open>
  The transaction reader as the APDU handler uses it: initialised once, then called with the
  data of every packet. The contract \<open>stream_parser\<close> is interpreted on the reader with
  lawful callbacks, and the two facts the handler relies on are stated: how the stream is cut
  into packets does not matter, and a decided verdict leaves exactly the unread bytes.
\<close>

section \<open>A reader that records what it is told\<close>

text \<open>
  Callbacks that write the path components and the witness bytes to a log; they show that
  the laws are satisfiable by callbacks that keep everything they see.
\<close>

definition log_bytes :: "u8 list \<Rightarrow> u8 list act" where
  "log_bytes b g = Ok () (g @ b)"

definition log_callbacks :: "u8 list AnnotatedTransaction_callbacks" where
  "log_callbacks =
     \<lparr>start_cb = None, chunk_cb = None, end_cb = None, annotatedtransaction_offsets = None,
      annotatedtransaction_signPath =
        Some \<lparr>start_cb = None, chunk_cb = None, end_cb = None, fixvec_size = None,
          fixvec_index = None, fixvec_item = Some \<lparr>bytes_end = Some log_bytes\<rparr>\<rparr>,
      annotatedtransaction_changePath = None,
      annotatedtransaction_inputCount = Some \<lparr>bytes_end = Some log_bytes\<rparr>,
      annotatedtransaction_raw = None,
      annotatedtransaction_witnesses =
        Some \<lparr>start_cb = None, chunk_cb = None, end_cb = None, dynvec_size = None,
          dynvec_length = None, dynvec_index = None,
          dynvec_item = Some \<lparr>start_cb = None, chunk_cb = None, end_cb = None, bytes_size = None,
            bytes_body_chunk = Some log_bytes\<rparr>\<rparr>\<rparr>"

lemma log_lawful: "AnnotatedTransaction_lawful (Some log_callbacks)"
  by (simp add: AnnotatedTransaction_lawful_def log_callbacks_def Bip32_lawful_def chunk_ok_def
      BytesVec_lawful_def Bytes_lawful_def additive_def log_bytes_def)

interpretation null_tx: stream_parser "AnnotatedTransaction None" AnnotatedTransaction_valid
  by (rule AnnotatedTransaction_law) simp

interpretation log_tx: stream_parser "AnnotatedTransaction (Some log_callbacks)" AnnotatedTransaction_valid
  by (rule AnnotatedTransaction_law) (rule log_lawful)

section \<open>Properties\<close>

text \<open>
  With lawful callbacks a transaction may be cut into packets anywhere, even inside numbers and
  with empty packets: two divisions of the same bytes give the same verdict, and unless the
  verdict is a rejection also the same callback effects, the same reader state and the same
  unread bytes. The callbacks of the signer are not lawful; what holds for them is in
  \<open>Signer_Packets\<close>.
\<close>

theorem lawful_packetisation:
  assumes "AnnotatedTransaction_lawful cb"
    "MolReader_AnnotatedTransaction_init_state cb g = Ok s g0"
    "cs \<noteq> []" "ds \<noteq> []" "concat cs = concat ds"
  shows "sim rv_rej (feed (MolReader_AnnotatedTransaction_parse cb) MOL_NUM_MAX s cs g0)
    (feed (MolReader_AnnotatedTransaction_parse cb) MOL_NUM_MAX s ds g0)"
  using stream_parser.packetisation [OF AnnotatedTransaction_law [OF assms(1)] _ assms(3-5)]
    stream_parser.init_valid [OF AnnotatedTransaction_law [OF assms(1)], of g s g0] assms(2)
  by (simp add: AnnotatedTransaction_def)

lemma log_init: "MolReader_AnnotatedTransaction_init_state (Some log_callbacks) [] =
    Ok (Table_st 0 0 0 (replicate 5 0) mol_num_init_state) []"
  by (simp add: MolReader_AnnotatedTransaction_init_state_def table_init_def log_callbacks_def)

lemma log_packetisation:
  "sim rv_rej
    (feed (MolReader_AnnotatedTransaction_parse (Some log_callbacks)) MOL_NUM_MAX
      (Table_st 0 0 0 (replicate 5 0) mol_num_init_state) [[24, 0], [], [0, 0, 24]] [])
    (feed (MolReader_AnnotatedTransaction_parse (Some log_callbacks)) MOL_NUM_MAX
      (Table_st 0 0 0 (replicate 5 0) mol_num_init_state) [[24, 0, 0, 0, 24]] [])"
  by (rule lawful_packetisation [OF log_lawful log_init]) simp_all

text \<open>
  A reader with lawful callbacks never runs past its input: after any packet in any state between
  two calls, what it leaves is a suffix of the packet, and it asks for more only when the packet
  is used up, in a state from which it can be resumed.
\<close>

theorem lawful_reader_leaves:
  assumes "AnnotatedTransaction_lawful cb" "AnnotatedTransaction_valid s"
    "MolReader_AnnotatedTransaction_parse cb MOL_NUM_MAX s c g = Ok (rv, s', c') g'"
  shows "suffix c' c \<and> (rv = INCOMPLETE \<longrightarrow> c' = [] \<and> AnnotatedTransaction_valid s')"
  using stream_parser.leaves [OF AnnotatedTransaction_law [OF assms(1)] assms(2), of c MOL_NUM_MAX g] assms(3)
  by (simp add: AnnotatedTransaction_def)

lemma log_reader_leaves:
  "suffix [] [24 :: u8] \<and>
    AnnotatedTransaction_valid (Table_st 0 0 0 (replicate 5 0) (Bytes_st 1 [24, 0, 0, 0]))"
proof -
  have "AnnotatedTransaction_valid (Table_st 0 0 0 (replicate 5 0) mol_num_init_state)"
    by (rule log_tx.init_valid [of "[]"]) (simp add: AnnotatedTransaction_def log_init)
  moreover have "MolReader_AnnotatedTransaction_parse (Some log_callbacks) MOL_NUM_MAX
      (Table_st 0 0 0 (replicate 5 0) mol_num_init_state) [24] [] =
    Ok (INCOMPLETE, Table_st 0 0 0 (replicate 5 0) (Bytes_st 1 [24, 0, 0, 0]), []) []"
    by code_simp
  ultimately show ?thesis
    using lawful_reader_leaves [OF log_lawful] by blast
qed

end
