(* ===== verification/To_String.thy ===== *)
theory To_String
  imports Prelude
begin

text \<open>
  \<open>src/src/to_string.c\<close>: the strings shown on the device. A function that fills a
  \<open>char *dest\<close> is an action whose state is the whole destination buffer; the position
  \<open>dest + off\<close> is the argument \<open>off\<close>. A write outside the buffer is \<open>Undef\<close>.
\<close>

type_synonym cbuf = "char list"

definition NUL :: char where
  "NUL = CHR 0x00"

text \<open>\<open>memcpy\<close> or assignment into the buffer.\<close>

definition cstore :: "nat \<Rightarrow> char list \<Rightarrow> cbuf act" where
  "cstore i s b = (if i + length s \<le> length b then Ok () (mem_write b i s) else Undef)"

text \<open>\<open>strcpy(dest + off, s)\<close>.\<close>

definition strcpy :: "nat \<Rightarrow> string \<Rightarrow> cbuf act" where
  "strcpy off s = cstore off (s @ [NUL])"

section \<open>Decimal numbers\<close>

definition MAX_INT_DIGITS :: nat where
  "MAX_INT_DIGITS = 20"

definition digit_char :: "u64 \<Rightarrow> char" where
  "digit_char d = char_of (48 + unat d)"

text \<open>The backwards loop of \<open>convert_number\<close>; \<open>Suc i\<close> is one past the current position.\<close>

fun convert_loop :: "nat \<Rightarrow> u64 \<Rightarrow> bool \<Rightarrow> char list \<Rightarrow> char list \<times> nat" where
  "convert_loop 0 number leading_zeroes dest = (dest, 0)"
| "convert_loop (Suc i) number leading_zeroes dest =
     (let dest' = dest[i := digit_char (number mod 10)]; number' = number div 10
      in if \<not> leading_zeroes \<and> number' = 0 then (dest', i)
         else convert_loop i number' leading_zeroes dest')"

definition convert_number :: "u64 \<Rightarrow> bool \<Rightarrow> char list \<times> nat" where
  "convert_number number leading_zeroes =
     convert_loop MAX_INT_DIGITS number leading_zeroes (replicate MAX_INT_DIGITS NUL)"

definition number_to_string :: "nat \<Rightarrow> u64 \<Rightarrow> cbuf \<Rightarrow> (nat, cbuf) res" where
  "number_to_string dest number b =
     (let (tmp, off) = convert_number number False; len = MAX_INT_DIGITS - off
      in res_bind (cstore dest (take len (drop off tmp)) b)
        (\<lambda>_ b1. res_bind (cstore (dest + len) [NUL] b1) (\<lambda>_. Ok len)))"

definition number_to_string_indirect64 :: "nat \<Rightarrow> nat \<Rightarrow> u64 \<Rightarrow> cbuf act" where
  "number_to_string_indirect64 dest buff_size number b =
     (if buff_size < MAX_INT_DIGITS + 1 then Throw EXC_WRONG_LENGTH b
      else res_bind (number_to_string dest number b) (\<lambda>_. Ok ()))"

definition number_to_string_indirect32 :: "nat \<Rightarrow> nat \<Rightarrow> u32 \<Rightarrow> cbuf act" where
  "number_to_string_indirect32 dest buff_size number b =
     (if buff_size < MAX_INT_DIGITS + 1 then Throw EXC_WRONG_LENGTH b
      else res_bind (number_to_string dest (ucast number) b) (\<lambda>_. Ok ()))"

section \<open>Amounts of CKB\<close>

definition CKB_SCALE :: u64 where
  "CKB_SCALE = 100000000"

definition DECIMAL_DIGITS :: nat where
  "DECIMAL_DIGITS = 8"

text \<open>
  The loop that drops trailing zeros: \<open>Suc e\<close> is one past the character under test. None:
  all characters down to \<open>start\<close> are zeros and \<open>end\<close> runs below \<open>start\<close>.
\<close>

fun scan_end :: "char list \<Rightarrow> nat \<Rightarrow> nat \<Rightarrow> nat option" where
  "scan_end tmp start 0 = None"
| "scan_end tmp start (Suc e) =
     (if e < start then None
      else if tmp ! e \<noteq> CHR ''0'' then Some (Suc e)
      else scan_end tmp start e)"

definition frac_ckb_to_string :: "nat \<Rightarrow> u64 \<Rightarrow> cbuf \<Rightarrow> (nat, cbuf) res" where
  "frac_ckb_to_string dest number b =
     (let whole_tez = number div CKB_SCALE; fractional = number mod CKB_SCALE
      in res_bind (number_to_string dest whole_tez b)
        (\<lambda>off b1.
           if fractional = 0 then Ok off b1
           else res_bind (cstore (dest + off) ''.'' b1)
             (\<lambda>_ b2. let (tmp, _) = convert_number number True;
                       start = MAX_INT_DIGITS - DECIMAL_DIGITS
                in case scan_end tmp start MAX_INT_DIGITS of
                     None \<Rightarrow> Undef
                   | Some e \<Rightarrow> let len = e - start in
                       res_bind (cstore (dest + off + 1) (take len (drop start tmp)) b2)
                         (\<lambda>_ b3. res_bind (cstore (dest + off + 1 + len) [NUL] b3)
                           (\<lambda>_. Ok (off + 1 + len))))))"

definition frac_ckb_to_string_indirect :: "nat \<Rightarrow> nat \<Rightarrow> u64 \<Rightarrow> cbuf act" where
  "frac_ckb_to_string_indirect dest buff_size number b =
     (if buff_size < MAX_INT_DIGITS + 1 then Throw EXC_WRONG_LENGTH b
      else res_bind (frac_ckb_to_string dest number b) (\<lambda>_. Ok ()))"

definition frac_ckb_tuple_to_string_indirect :: "nat \<Rightarrow> nat \<Rightarrow> u64 \<times> u64 \<Rightarrow> cbuf act" where
  "frac_ckb_tuple_to_string_indirect dest buff_size tuple b =
     (if buff_size < 2 * MAX_INT_DIGITS + 4 + 1 then Throw EXC_WRONG_LENGTH b
      else res_bind (frac_ckb_to_string dest (fst tuple) b)
        (\<lambda>n b1. res_bind (strcpy (dest + n) '' of '' b1)
          (\<lambda>_ b2. res_bind (frac_ckb_to_string (dest + n + 4) (snd tuple) b2) (\<lambda>_. Ok ()))))"

definition uint64_tuple_to_string :: "nat \<Rightarrow> nat \<Rightarrow> u64 \<times> u64 \<Rightarrow> cbuf act" where
  "uint64_tuple_to_string dest buff_size tuple b =
     res_bind (number_to_string dest (fst tuple) b)
        (\<lambda>n b1. res_bind (strcpy (dest + n) '' of '' b1)
          (\<lambda>_ b2. res_bind (number_to_string (dest + n + 4) (snd tuple) b2) (\<lambda>_. Ok ())))"

section \<open>Other strings\<close>

definition CONTRACT_NOT_PRESENT :: u8 where "CONTRACT_NOT_PRESENT = 0"
definition CONTRACT_UNKNOWN :: u8 where "CONTRACT_UNKNOWN = 1"

definition contract_type_to_string_indirect :: "nat \<Rightarrow> nat \<Rightarrow> u8 \<Rightarrow> cbuf act" where
  "contract_type_to_string_indirect dest buff_size contract_type b =
     (if contract_type \<noteq> CONTRACT_NOT_PRESENT
      then if buff_size \<le> 8 then Throw EXC_WRONG_LENGTH b else strcpy dest ''Present'' b
      else if buff_size \<le> 12 then Throw EXC_WRONG_LENGTH b else strcpy dest ''Not Present'' b)"

definition copy_string :: "nat \<Rightarrow> nat \<Rightarrow> string \<Rightarrow> cbuf act" where
  "copy_string dest buff_size src b =
     (if buff_size \<le> length src then Throw EXC_WRONG_LENGTH b else strcpy dest src b)"

definition hex_digit :: "u8 \<Rightarrow> char" where
  "hex_digit n = ''0123456789ABCDEF'' ! unat n"

text \<open>One round of the loop writes the two digits of byte \<open>i\<close>.\<close>

fun hex_loop :: "nat \<Rightarrow> u8 list \<Rightarrow> cbuf act" where
  "hex_loop out [] = Ok ()"
| "hex_loop out (x # xs) = (\<lambda>b.
     res_bind (cstore out [hex_digit (drop_bit 4 x)] b)
       (\<lambda>_ b1. res_bind (cstore (out + 1) [hex_digit (x AND 0x0F)] b1)
         (\<lambda>_. hex_loop (out + 2) xs)))"

definition bin_to_hex :: "nat \<Rightarrow> nat \<Rightarrow> u8 list \<Rightarrow> cbuf act" where
  "bin_to_hex out out_size src b =
     (let out_len = 2 * length src
      in if out_size < out_len + 1 then Throw EXC_MEMORY_ERROR b
         else res_bind (hex_loop out src b) (\<lambda>_. cstore (out + out_len) [NUL]))"

text \<open>
  \<open>buffer_t\<close>: \<open>size\<close> and \<open>length\<close> are always set alike; the bytes are those before \<open>length\<close>, or None
  when \<open>bytes\<close> is a null pointer, which \<open>check_null\<close> of \<open>bin_to_hex\<close> refuses.
\<close>

type_synonym buffer_t = "u8 list option"

definition buffer_to_hex :: "nat \<Rightarrow> nat \<Rightarrow> buffer_t \<Rightarrow> cbuf act" where
  "buffer_to_hex out out_size src b =
     (case src of
        None \<Rightarrow> Throw EXC_MEMORY_ERROR b
      | Some bytes \<Rightarrow> bin_to_hex out out_size bytes b)"

section \<open>Buffers\<close>

text \<open>The C string that starts at \<open>off\<close>.\<close>

definition cstring_at :: "nat \<Rightarrow> cbuf \<Rightarrow> string" where
  "cstring_at off b = takeWhile (\<lambda>c. c \<noteq> NUL) (drop off b)"

lemma cstore_Ok: "i + length s \<le> length b \<Longrightarrow> cstore i s b = Ok () (mem_write b i s)"
  by (simp add: cstore_def)

lemma cstore_cstore:
  assumes "i + length s + length t \<le> length b"
  shows "res_bind (cstore i s b) (\<lambda>_ b'. res_bind (cstore (i + length s) t b') k) =
     res_bind (cstore i (s @ t) b) k"
  using assms by (simp add: cstore_def mem_write_append)

lemma drop_mem_write:
  assumes "i + length s \<le> length b"
  shows "drop i (mem_write b i s) = s @ drop (i + length s) b"
  using assms by (simp add: mem_write_def)

lemma cstring_at_write:
  assumes "i + length s < length b" "NUL \<notin> set s"
  shows "cstring_at i (mem_write b i (s @ [NUL])) = s"
  using assms by (simp add: cstring_at_def drop_mem_write takeWhile_append)

lemma take_mem_write_below: "i + length s \<le> length b \<Longrightarrow> take i (mem_write b i s) = take i b"
  by (simp add: mem_write_def)

lemma mem_write_overlap:
  assumes "i + length s + length t \<le> length b" "length t \<le> length u"
    "i + length s + length u \<le> length b"
  shows "mem_write (mem_write b i (s @ t)) (i + length s) u = mem_write b i (s @ u)"
proof -
  have m: "min (length b) i = i" using assms by simp
  have e: "length u + (length s + i) = length s + (length u + i)" by simp
  have d: "length s + length u - (length s + length t) = length u - length t" by simp
  show ?thesis
    using assms m by (simp add: mem_write_def d ac_simps)
qed

section \<open>The decimal numerals are right\<close>

text \<open>The reference: decimal numerals without leading zeros, and their value.\<close>

definition nat_digit :: "nat \<Rightarrow> char" where
  "nat_digit d = char_of (48 + d)"

fun dec :: "nat \<Rightarrow> string" where
  "dec n = (if n < 10 then [nat_digit n] else dec (n div 10) @ [nat_digit (n mod 10)])"

definition undec :: "string \<Rightarrow> nat" where
  "undec s = foldl (\<lambda>a c. 10 * a + (of_char c - 48)) 0 s"

text \<open>The \<open>k\<close> low digits, zeros included.\<close>

fun padded :: "nat \<Rightarrow> nat \<Rightarrow> string" where
  "padded 0 n = []"
| "padded (Suc k) n = padded k (n div 10) @ [nat_digit (n mod 10)]"

declare dec.simps [simp del]

lemma of_char_nat_digit [simp]: "d < 10 \<Longrightarrow> of_char (nat_digit d) = 48 + d"
  by (simp add: nat_digit_def)

lemma nat_digit_not_NUL [simp]: "d < 10 \<Longrightarrow> nat_digit d \<noteq> NUL" "d < 10 \<Longrightarrow> NUL \<noteq> nat_digit d"
  and nat_digit_not_dot [simp]: "d < 10 \<Longrightarrow> nat_digit d \<noteq> CHR ''.''"
  by (auto simp: NUL_def dest!: arg_cong [where f = "of_char :: char \<Rightarrow> nat"])

lemma nat_digit_0 [simp]: "nat_digit 0 = CHR ''0''"
  by code_simp

lemma nat_digit_0_iff: "d < 10 \<Longrightarrow> nat_digit d = CHR ''0'' \<longleftrightarrow> d = 0"
proof
  assume "d < 10" "nat_digit d = CHR ''0''"
  then have "48 + d = (of_char (CHR ''0'') :: nat)" using of_char_nat_digit by metis
  then show "d = 0" by simp
qed simp

lemma undec_snoc: "undec (s @ [c]) = 10 * undec s + (of_char c - 48)"
  by (simp add: undec_def)

lemma undec_dec: "undec (dec n) = n"
proof (induction n rule: dec.induct)
  case (1 n)
  then show ?case
    by (subst dec.simps) (auto simp: undec_snoc undec_def)
qed

lemma dec_chars: "c \<in> set (dec n) \<Longrightarrow> \<exists>d<10. c = nat_digit d"
proof (induction n rule: dec.induct)
  case (1 n)
  then show ?case
    by (subst (asm) (2) dec.simps) (auto split: if_splits intro: exI [of _ "n mod 10"])
qed

lemma dec_not_NUL [simp]: "NUL \<notin> set (dec n)" and dec_not_dot: "CHR ''.'' \<notin> set (dec n)"
  using dec_chars nat_digit_not_NUL nat_digit_not_dot by metis+

lemma length_dec: "n < 10 ^ k \<Longrightarrow> 0 < k \<Longrightarrow> length (dec n) \<le> k"
proof (induction n arbitrary: k rule: dec.induct)
  case (1 n)
  show ?case
  proof (cases "n < 10")
    case True
    then show ?thesis using 1 by (subst dec.simps) simp
  next
    case False
    then obtain j where k: "k = Suc j" "0 < j"
      using 1(2,3) False by (cases k; cases "k - 1") auto
    have "n div 10 < 10 ^ j" using 1(2) k(1) by (simp add: div_less_iff_less_mult mult.commute)
    with 1(1) [OF False, of j] k False show ?thesis by (subst dec.simps) simp
  qed
qed

lemma dec_pos [simp]: "0 < length (dec n)"
  by (subst dec.simps) simp

text \<open>No leading zeros, except for zero itself.\<close>

lemma dec_no_leading_zero: "0 < n \<Longrightarrow> hd (dec n) \<noteq> CHR ''0''"
proof (induction n rule: dec.induct)
  case (1 n)
  show ?case
  proof (cases "n < 10")
    case True
    then show ?thesis using 1(2) by (subst dec.simps) (simp add: nat_digit_0_iff)
  next
    case False
    then have "hd (dec (n div 10)) \<noteq> CHR ''0''" using 1(1) by (simp add: div_greater_zero_iff)
    moreover have "dec (n div 10) \<noteq> []" using dec_pos [of "n div 10"] by (simp del: dec_pos)
    ultimately show ?thesis using False by (subst dec.simps) simp
  qed
qed

lemma digit_char_mod: "digit_char (n mod 10) = nat_digit (unat n mod 10)"
  by (simp add: digit_char_def nat_digit_def unat_mod_distrib)

lemma unat_div_10: "unat (n div 10 :: u64) = unat n div 10"
  by (simp add: unat_div_distrib)

lemma div_10_zero: "(n :: u64) div 10 = 0 \<longleftrightarrow> unat n < 10"
  by (metis unat_div_10 unat_eq_zero div_eq_0_iff zero_neq_numeral)

lemma convert_loop_plain:
  "unat n < 10 ^ i \<Longrightarrow> 0 < i \<Longrightarrow> i \<le> length t \<Longrightarrow>
   convert_loop i n False t = (take (i - length (dec (unat n))) t @ dec (unat n) @ drop i t,
     i - length (dec (unat n)))"
proof (induction i arbitrary: n t)
  case 0
  then show ?case by simp
next
  case (Suc i)
  let ?t = "t[i := nat_digit (unat n mod 10)]"
  have upd: "drop i ?t = nat_digit (unat n mod 10) # drop (Suc i) t"
    using Suc.prems by (simp add: drop_update_cancel Cons_nth_drop_Suc [symmetric])
  show ?case
  proof (cases "unat n < 10")
    case True
    then show ?thesis using Suc.prems
      by (simp add: digit_char_mod div_10_zero dec.simps [of "unat n"] upd_conv_take_nth_drop)
  next
    case False
    have i: "0 < i" using Suc.prems False by (cases i) auto
    have b: "unat (n div 10) < 10 ^ i"
      using Suc.prems by (simp add: unat_div_10 div_less_iff_less_mult mult.commute)
    have d: "dec (unat n) = dec (unat n div 10) @ [nat_digit (unat n mod 10)]"
      using False by (simp add: dec.simps [of "unat n"])
    show ?thesis using Suc.IH [OF b i, of ?t] Suc.prems False
      by (simp add: digit_char_mod div_10_zero unat_div_10 d upd take_update_cancel)
  qed
qed

lemma convert_loop_zeros:
  "i \<le> length t \<Longrightarrow> convert_loop i n True t = (padded i (unat n) @ drop i t, 0)"
proof (induction i arbitrary: n t)
  case (Suc i)
  have "drop i (t[i := c]) = c # drop (Suc i) t" for c
    using Suc.prems by (simp add: drop_update_cancel Cons_nth_drop_Suc [symmetric])
  then show ?case using Suc by (simp add: digit_char_mod unat_div_10)
qed simp

lemma u64_20_digits: "unat (n :: u64) < 10 ^ 20"
  using unat_bound [of n] by simp

lemma convert_number_eqs:
  "convert_number n True = (padded 20 (unat n), 0)"
  "convert_number n False =
     (replicate (20 - length (dec (unat n))) NUL @ dec (unat n), 20 - length (dec (unat n)))"
  using convert_loop_plain [OF u64_20_digits, of "replicate 20 NUL" n]
  by (simp_all add: convert_number_def MAX_INT_DIGITS_def convert_loop_zeros)

text \<open>\<open>number_to_string\<close> writes the numeral and a terminating null, and returns its length.\<close>

lemma number_to_string_eq:
  assumes "dest + length (dec (unat n)) < length b"
  shows "number_to_string dest n b =
    Ok (length (dec (unat n))) (mem_write b dest (dec (unat n) @ [NUL]))"
proof -
  have l: "length (dec (unat n)) \<le> 20" using u64_20_digits by (rule length_dec) simp
  then show ?thesis
    using assms
    by (simp add: number_to_string_def convert_number_eqs MAX_INT_DIGITS_def cstore_def
        mem_write_append)
qed

section \<open>The amounts are right\<close>

definition strip_zeros :: "string \<Rightarrow> string" where
  "strip_zeros s = rev (dropWhile (\<lambda>c. c = CHR ''0'') (rev s))"

definition ckb_string :: "nat \<Rightarrow> string" where
  "ckb_string n = dec (n div 10 ^ 8) @
     (if n mod 10 ^ 8 = 0 then [] else CHR ''.'' # strip_zeros (padded 8 n))"

text \<open>Reading an amount back, in units of a hundred-millionth of a CKB.\<close>

definition ckb_value :: "string \<Rightarrow> nat" where
  "ckb_value s = undec (takeWhile (\<lambda>c. c \<noteq> CHR ''.'') s) * 10 ^ 8 +
     undec (take 8 (drop 1 (dropWhile (\<lambda>c. c \<noteq> CHR ''.'') s) @ replicate 8 (CHR ''0'')))"

lemma length_padded [simp]: "length (padded k n) = k"
  by (induction k arbitrary: n) auto

lemma padded_chars: "c \<in> set (padded k n) \<Longrightarrow> \<exists>d<10. c = nat_digit d"
  by (induction k arbitrary: n) (auto intro: exI [of _ "n mod 10" for n])

lemma undec_padded: "undec (padded k n) = n mod 10 ^ k"
proof (induction k arbitrary: n)
  case 0
  then show ?case by (simp add: undec_def)
next
  case (Suc k)
  have "n mod (10 * 10 ^ k) = 10 * (n div 10 mod 10 ^ k) + n mod 10" by (rule mod_mult2_eq)
  then show ?case using Suc by (simp add: undec_snoc)
qed

lemma drop_padded: "j \<le> k \<Longrightarrow> drop (k - j) (padded k n) = padded j n"
proof (induction j arbitrary: k n)
  case (Suc j)
  then obtain k' where k: "k = Suc k'" "j \<le> k'" by (cases k) auto
  then have "k' - j \<le> k'" by simp
  with Suc.IH [OF k(2), of "n div 10"] k show ?case by simp
qed simp

lemma strip_zeros_append:
  "\<exists>j. s = strip_zeros s @ replicate j (CHR ''0'')"
proof -
  have "rev s = takeWhile (\<lambda>c. c = CHR ''0'') (rev s) @ dropWhile (\<lambda>c. c = CHR ''0'') (rev s)"
    by simp
  then have "s = strip_zeros s @ rev (takeWhile (\<lambda>c. c = CHR ''0'') (rev s))"
    unfolding strip_zeros_def by (metis rev_append rev_rev_ident)
  moreover have "rev (takeWhile (\<lambda>c. c = CHR ''0'') (rev s)) =
      replicate (length (takeWhile (\<lambda>c. c = CHR ''0'') (rev s))) (CHR ''0'')"
    by (rule replicate_eqI) (auto dest: set_takeWhileD)
  ultimately show ?thesis by metis
qed

lemma strip_zeros_pad:
  assumes "length s = k"
  shows "take k (strip_zeros s @ replicate k (CHR ''0'')) = s"
proof -
  obtain j where j: "s = strip_zeros s @ replicate j (CHR ''0'')"
    using strip_zeros_append by blast
  then have l: "length (strip_zeros s) + j = k" using assms by (metis length_append length_replicate)
  then have "take k (strip_zeros s @ replicate k (CHR ''0'')) =
      strip_zeros s @ replicate j (CHR ''0'')"
    by (simp add: min_def)
  with j show ?thesis by simp
qed

text \<open>What is displayed reads back as the amount; so different amounts look different.\<close>

lemma ckb_value_string: "ckb_value (ckb_string n) = n"
proof (cases "n mod 10 ^ 8 = 0")
  case True
  have dot: "takeWhile (\<lambda>c. c \<noteq> CHR ''.'') (dec m) = dec m"
    "dropWhile (\<lambda>c. c \<noteq> CHR ''.'') (dec m) = []" for m
    using dec_not_dot [of m] by (auto simp: takeWhile_eq_all_conv dropWhile_eq_Nil_conv)
  have "undec (replicate 8 (CHR ''0'')) = 0" by code_simp
  moreover have "n div 100000000 * 100000000 = n"
    using True div_mult_mod_eq [of n 100000000] by simp
  ultimately show ?thesis using True by (simp add: ckb_value_def ckb_string_def dot undec_dec)
next
  case False
  have "n div 10 ^ 8 * 10 ^ 8 + n mod 10 ^ 8 = n" by simp
  moreover have "c \<noteq> CHR ''.''" if "c \<in> set (dec m)" for c m
    using that dec_not_dot by metis
  ultimately show ?thesis
    using False strip_zeros_pad [of "padded 8 n" 8]
    by (simp add: ckb_value_def ckb_string_def takeWhile_append2 dropWhile_append2 undec_dec
        undec_padded)
qed

lemma strip_zeros_subset: "set (strip_zeros s) \<subseteq> set s"
  unfolding strip_zeros_def by (auto dest: set_dropWhileD)

lemma ckb_string_not_NUL: "NUL \<notin> set (ckb_string n)"
proof -
  have "NUL \<notin> set (padded 8 n)" using padded_chars [of NUL 8 n] by auto
  then show ?thesis using strip_zeros_subset [of "padded 8 n"]
    by (auto simp: ckb_string_def) (simp add: NUL_def)
qed

lemma length_ckb_string:
  assumes "n < 2 ^ 64"
  shows "length (ckb_string n) \<le> 21"
proof -
  obtain j where "padded 8 n = strip_zeros (padded 8 n) @ replicate j (CHR ''0'')"
    using strip_zeros_append by blast
  then have "length (strip_zeros (padded 8 n)) \<le> 8"
    by (metis length_padded length_append le_add1)
  moreover have "length (dec (n div 10 ^ 8)) \<le> 12"
    by (rule length_dec) (use assms in \<open>simp_all add: div_less_iff_less_mult\<close>)
  ultimately show ?thesis by (simp add: ckb_string_def)
qed

lemma scan_end_strip:
  assumes "start \<le> e" "e \<le> length tmp" "strip_zeros (drop start (take e tmp)) \<noteq> []"
  shows "scan_end tmp start e = Some (start + length (strip_zeros (drop start (take e tmp))))"
  using assms
proof (induction e)
  case 0
  then show ?case by (simp add: strip_zeros_def)
next
  case (Suc e)
  show ?case
  proof (cases "e < start")
    case True
    with Suc show ?thesis by (simp add: strip_zeros_def)
  next
    case False
    have "drop start (take (Suc e) tmp) = drop start (take e tmp) @ [tmp ! e]"
      using Suc.prems False by (simp add: take_Suc_conv_app_nth)
    then have "strip_zeros (drop start (take (Suc e) tmp)) =
        (if tmp ! e = CHR ''0'' then strip_zeros (drop start (take e tmp))
         else drop start (take e tmp) @ [tmp ! e])"
      by (simp add: strip_zeros_def)
    then show ?thesis
      using Suc.prems Suc.IH False by (cases "tmp ! e = CHR ''0''") simp_all
  qed
qed

lemma strip_zeros_prefix: "take (length (strip_zeros s)) s = strip_zeros s"
proof -
  obtain j where "s = strip_zeros s @ replicate j (CHR ''0'')" using strip_zeros_append by blast
  then show ?thesis by (metis append_eq_conv_conj)
qed

lemma strip_zeros_nonzero:
  assumes "n mod 10 ^ 8 \<noteq> 0"
  shows "strip_zeros (padded 8 n) \<noteq> []"
proof
  assume "strip_zeros (padded 8 n) = []"
  then have p: "padded 8 n = replicate 8 (CHR ''0'')"
    using strip_zeros_pad [of "padded 8 n" 8] by simp
  have "undec (replicate 8 (CHR ''0'')) = 0" by code_simp
  then have "undec (padded 8 n) = 0" unfolding p .
  with assms show False by (simp add: undec_padded)
qed

text \<open>\<open>frac_ckb_to_string\<close> writes the reference numeral and its terminating null.\<close>

lemma frac_ckb_to_string_eq:
  assumes "dest + length (ckb_string (unat n)) < length b"
  shows "frac_ckb_to_string dest n b =
    Ok (length (ckb_string (unat n))) (mem_write b dest (ckb_string (unat n) @ [NUL]))"
proof -
  let ?w = "dec (unat n div 10 ^ 8)" and ?f = "strip_zeros (padded 8 (unat n))"
  have w: "unat (n div CKB_SCALE) = unat n div 10 ^ 8"
    by (simp add: CKB_SCALE_def unat_div_distrib)
  have z: "n mod CKB_SCALE = 0 \<longleftrightarrow> unat n mod 10 ^ 8 = 0"
    by (simp add: CKB_SCALE_def unat_eq_zero [symmetric] unat_mod_distrib del: unat_eq_zero)
  have len: "length (ckb_string (unat n)) = length ?w +
      (if unat n mod 10 ^ 8 = 0 then 0 else Suc (length ?f))"
    by (simp add: ckb_string_def)
  have num: "number_to_string dest (n div CKB_SCALE) b = Ok (length ?w) (mem_write b dest (?w @ [NUL]))"
    using assms len by (subst number_to_string_eq) (simp_all add: w)
  show ?thesis
  proof (cases "unat n mod 10 ^ 8 = 0")
    case True
    then show ?thesis by (simp add: frac_ckb_to_string_def num z ckb_string_def)
  next
    case False
    have d: "drop 12 (padded 20 (unat n)) = padded 8 (unat n)"
      using drop_padded [of 8 20 "unat n"] by simp
    have sc: "scan_end (padded 20 (unat n)) 12 20 = Some (12 + length ?f)"
      using scan_end_strip [of 12 20 "padded 20 (unat n)"] strip_zeros_nonzero [OF False] d by simp
    have l: "dest + length ?w + Suc (length ?f) < length b" using assms len False by simp
    have w1: "cstore (dest + length ?w) ''.'' (mem_write b dest (?w @ [NUL])) =
        Ok () (mem_write b dest (?w @ ''.''))"
      using l by (simp add: cstore_def mem_write_overlap)
    have w2: "cstore (dest + length ?w + 1) ?f (mem_write b dest (?w @ ''.'')) =
        Ok () (mem_write b dest (?w @ ''.'' @ ?f))"
      using l mem_write_append [of dest "?w @ ''.''" ?f b] by (simp add: cstore_def)
    have w3: "cstore (dest + length ?w + 1 + length ?f) [NUL] (mem_write b dest (?w @ ''.'' @ ?f)) =
        Ok () (mem_write b dest (?w @ ''.'' @ ?f @ [NUL]))"
      using l mem_write_append [of dest "?w @ ''.'' @ ?f" "[NUL]" b]
      by (simp add: cstore_def add.assoc)
    show ?thesis
      using False w1 w2 w3
      by (simp add: frac_ckb_to_string_def num z convert_number_eqs MAX_INT_DIGITS_def
          DECIMAL_DIGITS_def sc d strip_zeros_prefix ckb_string_def Let_def)
  qed
qed

section \<open>Tuples and hexadecimal\<close>

lemma mem_write_snoc_NUL:
  assumes "i + length s + length t < length b"
  shows "mem_write (mem_write b i (s @ [NUL])) (i + length s) (t @ [NUL]) =
     mem_write b i ((s @ t) @ [NUL])"
  using assms mem_write_overlap [of i s "[NUL]" b "t @ [NUL]"] by simp

lemma plus_4: "(n :: nat) + 4 = Suc (Suc (Suc (Suc n)))"
  by simp

lemma uint64_tuple_to_string_eq:
  assumes "dest + length (dec (unat x)) + 4 + length (dec (unat y)) < length b"
  shows "uint64_tuple_to_string dest sz (x, y) b =
    Ok () (mem_write b dest ((dec (unat x) @ '' of '' @ dec (unat y)) @ [NUL]))"
proof -
  let ?x = "dec (unat x)" and ?y = "dec (unat y)"
  have 1: "number_to_string dest x b = Ok (length ?x) (mem_write b dest (?x @ [NUL]))"
    using assms by (intro number_to_string_eq) simp
  have 2: "strcpy (dest + length ?x) '' of '' (mem_write b dest (?x @ [NUL])) =
      Ok () (mem_write b dest ((?x @ '' of '') @ [NUL]))"
    using assms mem_write_snoc_NUL [of dest ?x "'' of ''" b] by (simp add: strcpy_def cstore_def)
  have 3: "number_to_string (dest + length ?x + 4) y (mem_write b dest ((?x @ '' of '') @ [NUL])) =
      Ok (length ?y) (mem_write b dest ((?x @ '' of '' @ ?y) @ [NUL]))"
    using assms mem_write_snoc_NUL [of dest "?x @ '' of ''" ?y b]
    by (subst number_to_string_eq) (simp_all add: plus_4)
  show ?thesis using 1 2 3 by (simp add: uint64_tuple_to_string_def)
qed

lemma frac_ckb_tuple_to_string_eq:
  assumes "dest + length (ckb_string (unat x)) + 4 + length (ckb_string (unat y)) < length b"
    "45 \<le> sz"
  shows "frac_ckb_tuple_to_string_indirect dest sz (x, y) b =
    Ok () (mem_write b dest ((ckb_string (unat x) @ '' of '' @ ckb_string (unat y)) @ [NUL]))"
proof -
  let ?x = "ckb_string (unat x)" and ?y = "ckb_string (unat y)"
  have 1: "frac_ckb_to_string dest x b = Ok (length ?x) (mem_write b dest (?x @ [NUL]))"
    using assms by (intro frac_ckb_to_string_eq) simp
  have 2: "strcpy (dest + length ?x) '' of '' (mem_write b dest (?x @ [NUL])) =
      Ok () (mem_write b dest ((?x @ '' of '') @ [NUL]))"
    using assms mem_write_snoc_NUL [of dest ?x "'' of ''" b] by (simp add: strcpy_def cstore_def)
  have 3: "frac_ckb_to_string (dest + length ?x + 4) y (mem_write b dest ((?x @ '' of '') @ [NUL])) =
      Ok (length ?y) (mem_write b dest ((?x @ '' of '' @ ?y) @ [NUL]))"
    using assms mem_write_snoc_NUL [of dest "?x @ '' of ''" ?y b]
    by (subst frac_ckb_to_string_eq) (simp_all add: plus_4)
  show ?thesis
    using 1 2 3 assms(2) by (simp add: frac_ckb_tuple_to_string_indirect_def MAX_INT_DIGITS_def)
qed

definition hex_string :: "u8 list \<Rightarrow> string" where
  "hex_string xs = concat (map (\<lambda>x. [hex_digit (drop_bit 4 x), hex_digit (x AND 0x0F)]) xs)"

text \<open>Reading hexadecimal back.\<close>

definition hex_value :: "char \<Rightarrow> u8" where
  "hex_value c = (if of_char c < (58 :: nat) then of_nat (of_char c - 48) else of_nat (of_char c - 55))"

fun unhex :: "string \<Rightarrow> u8 list" where
  "unhex (a # b # s) = (push_bit 4 (hex_value a) OR hex_value b) # unhex s"
| "unhex _ = []"

lemma hex_digit_props:
  assumes "unat n < 16"
  shows "hex_value (hex_digit n) = n" "hex_digit n \<noteq> NUL"
proof -
  have "\<forall>k \<in> set [0..<16]. hex_value (hex_digit (of_nat k)) = of_nat k \<and> hex_digit (of_nat k) \<noteq> NUL"
    by code_simp
  moreover have "unat n \<in> set [0..<16]" using assms by simp
  ultimately have "hex_value (hex_digit (of_nat (unat n))) = of_nat (unat n) \<and>
      hex_digit (of_nat (unat n)) \<noteq> NUL" by blast
  then show "hex_value (hex_digit n) = n" "hex_digit n \<noteq> NUL" by simp_all
qed

lemma nibbles:
  fixes x :: u8
  shows "unat (drop_bit 4 x) < 16" "unat (x AND 0x0F) < 16"
    "push_bit 4 (drop_bit 4 x) OR (x AND 0x0F) = x"
proof -
  have "unat x < 256" using unat_bound [of x] by simp
  then show "unat (drop_bit 4 x) < 16" by (simp add: drop_bit_eq_div unat_div_distrib)
  have m: "(0x0F :: u8) = mask 4" by (simp add: mask_eq_exp_minus_1)
  have "unat (x AND 0x0F) = unat x mod 16"
    unfolding m by (simp add: take_bit_eq_mask [symmetric] unsigned_take_bit_eq take_bit_eq_mod unat_mod_distrib)
  then show "unat (x AND 0x0F) < 16" by simp
  show "push_bit 4 (drop_bit 4 x) OR (x AND 0x0F) = x"
    unfolding m by (rule bit_word_eqI) (auto simp: bit_simps)
qed

lemma unhex_hex_string: "unhex (hex_string xs) = xs"
  by (induction xs) (simp_all add: hex_string_def hex_digit_props nibbles)

lemma length_hex_string [simp]: "length (hex_string xs) = 2 * length xs"
  by (induction xs) (simp_all add: hex_string_def)

lemma hex_string_not_NUL: "NUL \<notin> set (hex_string xs)"
  using hex_digit_props(2) [OF nibbles(1)] hex_digit_props(2) [OF nibbles(2)]
  by (auto simp: hex_string_def dest: sym)

lemma hex_loop_eq:
  "out + 2 * length xs \<le> length b \<Longrightarrow> hex_loop out xs b = Ok () (mem_write b out (hex_string xs))"
proof (induction xs arbitrary: out b)
  case Nil
  then show ?case by (simp add: hex_string_def mem_write_def)
next
  case (Cons x xs)
  let ?d = "[hex_digit (drop_bit 4 x), hex_digit (x AND 0x0F)]"
  have "mem_write (mem_write b out [hex_digit (drop_bit 4 x)]) (out + 1) [hex_digit (x AND 0x0F)] =
      mem_write b out ?d"
    using Cons.prems mem_write_append [of out "[hex_digit (drop_bit 4 x)]" "[hex_digit (x AND 0x0F)]" b]
    by simp
  moreover have "mem_write (mem_write b out ?d) (out + 2) (hex_string xs) =
      mem_write b out (?d @ hex_string xs)"
    using Cons.prems mem_write_append [of out ?d "hex_string xs" b] by simp
  ultimately show ?case
    using Cons.prems Cons.IH [of "out + 2" "mem_write b out ?d"]
    by (simp add: cstore_def hex_string_def)
qed

lemma bin_to_hex_eq:
  assumes "2 * length src < sz" "out + 2 * length src < length b"
  shows "bin_to_hex out sz src b = Ok () (mem_write b out (hex_string src @ [NUL]))"
  using assms mem_write_append [of out "hex_string src" "[NUL]" b]
  by (simp add: bin_to_hex_def hex_loop_eq cstore_def)

section \<open>Properties\<close>

text \<open>
  C18. Every amount can be shown in the 129-character value buffer, and what is shown is a
  null-terminated numeral of at most 21 characters that reads back as exactly that amount.
\<close>

theorem amount_display:
  assumes "length b = 129"
  shows "\<exists>b'. frac_ckb_to_string_indirect 0 129 n b = Ok () b' \<and> length b' = 129 \<and>
    ckb_value (cstring_at 0 b') = unat n \<and> length (cstring_at 0 b') \<le> 21"
proof -
  let ?s = "ckb_string (unat n)"
  have l: "length ?s \<le> 21" using unat_bound [of n] by (intro length_ckb_string) simp
  have nn: "NUL \<notin> set ?s" by (rule ckb_string_not_NUL)
  have "frac_ckb_to_string_indirect 0 129 n b = Ok () (mem_write b 0 (?s @ [NUL]))"
    using l assms
    by (simp add: frac_ckb_to_string_indirect_def MAX_INT_DIGITS_def frac_ckb_to_string_eq)
  moreover have "cstring_at 0 (mem_write b 0 (?s @ [NUL])) = ?s"
    using l assms nn by (intro cstring_at_write) auto
  ultimately show ?thesis using l assms by (simp add: ckb_value_string)
qed

lemma amount_display_witness:
  "\<exists>b'. frac_ckb_to_string_indirect 0 129 123400000000 (replicate 129 NUL) = Ok () b' \<and>
    length b' = 129 \<and> ckb_value (cstring_at 0 b') = unat (123400000000 :: u64) \<and>
    length (cstring_at 0 b') \<le> 21"
  by (rule amount_display) simp

text \<open>
  C27. The two-amount line of a multi-input transfer shows both amounts, in order, and fits.
\<close>

theorem amount_pair_display:
  assumes "length b = 129"
  shows "\<exists>b' s t. frac_ckb_tuple_to_string_indirect 0 129 (x, y) b = Ok () b' \<and> length b' = 129 \<and>
    cstring_at 0 b' = s @ '' of '' @ t \<and> ckb_value s = unat x \<and> ckb_value t = unat y"
proof -
  let ?s = "ckb_string (unat x)" and ?t = "ckb_string (unat y)"
  have l: "length ?s \<le> 21" "length ?t \<le> 21"
    using unat_bound [of x] unat_bound [of y] by (simp_all add: length_ckb_string)
  let ?u = "?s @ '' of '' @ ?t"
  have nn: "NUL \<notin> set ?u" using ckb_string_not_NUL by (simp add: NUL_def)
  have "frac_ckb_tuple_to_string_indirect 0 129 (x, y) b = Ok () (mem_write b 0 (?u @ [NUL]))"
    using l assms by (intro frac_ckb_tuple_to_string_eq) auto
  moreover have "cstring_at 0 (mem_write b 0 (?u @ [NUL])) = ?u"
    using l assms nn by (intro cstring_at_write) auto
  ultimately show ?thesis using l assms ckb_value_string by auto
qed

lemma amount_pair_display_witness:
  "\<exists>b' s t. frac_ckb_tuple_to_string_indirect 0 129 (5, 250000000) (replicate 129 NUL) = Ok () b' \<and>
    length b' = 129 \<and> cstring_at 0 b' = s @ '' of '' @ t \<and>
    ckb_value s = unat (5 :: u64) \<and> ckb_value t = unat (250000000 :: u64)"
  by (rule amount_pair_display) simp

text \<open>C28. A message or hash of up to 64 bytes is shown in full, in readable hexadecimal.\<close>

theorem hex_display:
  assumes "length b = 129" "length src \<le> 64"
  shows "\<exists>b'. buffer_to_hex 0 129 (Some src) b = Ok () b' \<and> length b' = 129 \<and>
    unhex (cstring_at 0 b') = src"
proof -
  have "buffer_to_hex 0 129 (Some src) b = Ok () (mem_write b 0 (hex_string src @ [NUL]))"
    using assms by (simp add: buffer_to_hex_def bin_to_hex_eq)
  moreover have "cstring_at 0 (mem_write b 0 (hex_string src @ [NUL])) = hex_string src"
    using assms hex_string_not_NUL by (intro cstring_at_write) auto
  ultimately show ?thesis using assms by (simp add: unhex_hex_string)
qed

lemma hex_display_witness:
  "\<exists>b'. buffer_to_hex 0 129 (Some [0xDE, 0xAD, 0x00]) (replicate 129 NUL) = Ok () b' \<and>
    length b' = 129 \<and> unhex (cstring_at 0 b') = [0xDE, 0xAD, 0x00]"
  by (rule hex_display) simp_all

end
