(* ===== verification/Segwit_Addr.thy ===== *)
theory Segwit_Addr
  imports To_String "HOL-Library.Char_ord"
begin

text \<open>
  \<open>src/src/segwit_addr.c\<close>: the bech32 checksum code and the regrouping of bits, used to
  render addresses. A C \<open>int\<close> result that is 0 or 1 is a boolean; output parameters are
  returned. The destination of \<open>bech32_encode\<close> is a position \<open>base\<close> of a buffer, and
  \<open>out_len\<close> is the size the caller claims from there on.
\<close>

section \<open>The checksum\<close>

definition bech32_polymod_step :: "u32 \<Rightarrow> u32" where
  "bech32_polymod_step pre =
     (let b = ucast (drop_bit 25 pre) :: u8; sel = (\<lambda>i. - ucast (drop_bit i b AND 1) :: u32)
      in push_bit 5 (pre AND 0x1FFFFFF) XOR (sel 0 AND 0x3b6a57b2) XOR (sel 1 AND 0x26508e6d) XOR
         (sel 2 AND 0x1ea119fa) XOR (sel 3 AND 0x3d4233dd) XOR (sel 4 AND 0x2a1462b3))"

definition charset :: string where
  "charset = ''qpzry9x8gf2tvdw0s3jn54khce6mua7l''"

definition charset_rev :: "int list" where
  "charset_rev =
    [-1, -1, -1, -1, -1, -1, -1, -1, -1, -1, -1, -1, -1, -1, -1, -1, -1, -1, -1, -1, -1, -1, -1, -1, -1, -1,
     -1, -1, -1, -1, -1, -1, -1, -1, -1, -1, -1, -1, -1, -1, -1, -1, -1, -1, -1, -1, -1, -1, 15, -1, 10, 17,
     21, 20, 26, 30, 7,  5,  -1, -1, -1, -1, -1, -1, -1, 29, -1, 24, 13, 25, 9,  8,  23, -1, 18, 22, 31, 27,
     19, -1, 1,  0,  3,  16, 11, 28, 12, 14, 6,  4,  2,  -1, -1, -1, -1, -1, -1, 29, -1, 24, 13, 25, 9,  8,
     23, -1, 18, 22, 31, 27, 19, -1, 1,  0,  3,  16, 11, 28, 12, 14, 6,  4,  2,  -1, -1, -1, -1, -1]"

section \<open>\<open>bech32_encode\<close>\<close>

text \<open>One guarded store \<open>output[out_off++] = c\<close>; None is \<open>return 0\<close>.\<close>

definition put_char :: "nat \<Rightarrow> nat \<Rightarrow> nat \<Rightarrow> char \<Rightarrow> cbuf \<Rightarrow> (nat option, cbuf) res" where
  "put_char base out_len off c b =
     (if out_len \<le> off then Ok None b
      else res_bind (cstore (base + off) [c] b) (\<lambda>_. Ok (Some (off + 1))))"

text \<open>The first pass over the prefix: None is \<open>return 0\<close>.\<close>

fun hrp_high :: "string \<Rightarrow> u32 \<Rightarrow> u32 option" where
  "hrp_high [] chk = Some chk"
| "hrp_high (c # cs) chk =
     (if CHR ''A'' \<le> c \<and> c \<le> CHR ''Z'' then None
      else if drop_bit 5 (of_char c :: u32) = 0 then None
      else hrp_high cs (bech32_polymod_step chk XOR drop_bit 5 (of_char c)))"

fun hrp_low :: "nat \<Rightarrow> nat \<Rightarrow> string \<Rightarrow> u32 \<Rightarrow> nat \<Rightarrow> cbuf \<Rightarrow> ((u32 \<times> nat) option, cbuf) res" where
  "hrp_low base out_len [] chk off b = Ok (Some (chk, off)) b"
| "hrp_low base out_len (c # cs) chk off b =
     (let chk' = bech32_polymod_step chk XOR (of_char c AND 0x1f)
      in res_bind (put_char base out_len off c b)
        (\<lambda>r. case r of None \<Rightarrow> Ok None | Some off' \<Rightarrow> hrp_low base out_len cs chk' off'))"

fun encode_data ::
    "nat \<Rightarrow> nat \<Rightarrow> u8 list \<Rightarrow> u32 \<Rightarrow> nat \<Rightarrow> cbuf \<Rightarrow> ((u32 \<times> nat) option, cbuf) res" where
  "encode_data base out_len [] chk off b = Ok (Some (chk, off)) b"
| "encode_data base out_len (d # ds) chk off b =
     (if drop_bit 5 d \<noteq> 0 then Ok None b
      else let chk' = bech32_polymod_step chk XOR ucast d
      in res_bind (put_char base out_len off (charset ! unat d) b)
        (\<lambda>r. case r of None \<Rightarrow> Ok None | Some off' \<Rightarrow> encode_data base out_len ds chk' off'))"

text \<open>The checksum characters, \<open>k\<close> of them still to write.\<close>

definition checksum_char :: "u32 \<Rightarrow> nat \<Rightarrow> char" where
  "checksum_char chk k = charset ! unat (drop_bit (k * 5) chk AND 0x1f)"

fun encode_checksum :: "nat \<Rightarrow> nat \<Rightarrow> nat \<Rightarrow> u32 \<Rightarrow> nat \<Rightarrow> cbuf \<Rightarrow> (nat option, cbuf) res" where
  "encode_checksum base out_len 0 chk off b = Ok (Some off) b"
| "encode_checksum base out_len (Suc k) chk off b =
     res_bind (put_char base out_len off (checksum_char chk k) b)
       (\<lambda>r. case r of None \<Rightarrow> Ok None | Some off' \<Rightarrow> encode_checksum base out_len k chk off')"

definition bech32_encode ::
    "nat \<Rightarrow> nat \<Rightarrow> string \<Rightarrow> u8 list \<Rightarrow> cbuf \<Rightarrow> (bool, cbuf) res" where
  "bech32_encode base out_len hrp data b =
     (case hrp_high hrp 1 of
        None \<Rightarrow> Ok False b
      | Some chk0 \<Rightarrow>
          if 108 < length hrp + 7 + length data then Ok False b
          else res_bind (hrp_low base out_len hrp (bech32_polymod_step chk0) 0 b)
            (\<lambda>r b1. case r of None \<Rightarrow> Ok False b1 | Some (chk1, off1) \<Rightarrow>
              res_bind (put_char base out_len off1 (CHR ''1'') b1)
                (\<lambda>r b2. case r of None \<Rightarrow> Ok False b2 | Some off2 \<Rightarrow>
                  res_bind (encode_data base out_len data chk1 off2 b2)
                    (\<lambda>r b3. case r of None \<Rightarrow> Ok False b3 | Some (chk3, off3) \<Rightarrow>
                      let chk = (bech32_polymod_step ^^ 6) chk3 XOR 1
                      in res_bind (encode_checksum base out_len 6 chk off3 b3)
                        (\<lambda>r b4. case r of None \<Rightarrow> Ok False b4 | Some off4 \<Rightarrow>
                          res_bind (cstore (base + off4) [NUL] b4) (\<lambda>_. Ok True))))))"

section \<open>\<open>bech32_decode\<close>\<close>

text \<open>
  Without a separator \<open>hrp_len\<close> wraps around and the first pass runs into the terminating
  null, which is no character of a prefix: the result is 0 as for an empty prefix.
  \<open>hrp_scan\<close> is the first pass: the lower-cased prefix, the checksum, the case flags.
\<close>

definition is_lower :: "char \<Rightarrow> bool" where "is_lower c \<longleftrightarrow> CHR ''a'' \<le> c \<and> c \<le> CHR ''z''"
definition is_upper :: "char \<Rightarrow> bool" where "is_upper c \<longleftrightarrow> CHR ''A'' \<le> c \<and> c \<le> CHR ''Z''"

fun hrp_scan :: "string \<Rightarrow> string \<Rightarrow> u32 \<Rightarrow> bool \<Rightarrow> bool \<Rightarrow> (string \<times> u32 \<times> bool \<times> bool) option" where
  "hrp_scan [] acc chk lo up = Some (acc, chk, lo, up)"
| "hrp_scan (c # cs) acc chk lo up =
     (if of_char c < (33 :: nat) \<or> (126 :: nat) < of_char c then None
      else let lo' = (lo \<or> is_lower c); up' = (up \<or> \<not> is_lower c \<and> is_upper c);
               ch = if \<not> is_lower c \<and> is_upper c then char_of (of_char c + 32 :: nat) else c
           in hrp_scan cs (acc @ [ch]) (bech32_polymod_step chk XOR drop_bit 5 (of_char ch)) lo' up')"

text \<open>The data pass: \<open>v\<close> of each character; the last six only enter the checksum.\<close>

fun data_scan :: "string \<Rightarrow> u8 list \<Rightarrow> u32 \<Rightarrow> bool \<Rightarrow> bool \<Rightarrow> (u8 list \<times> u32 \<times> bool \<times> bool) option" where
  "data_scan [] acc chk lo up = Some (acc, chk, lo, up)"
| "data_scan (c # cs) acc chk lo up =
     (let v = if (of_char c :: nat) \<ge> 128 then -1 else charset_rev ! of_char c;
          lo' = (lo \<or> is_lower c); up' = (up \<or> is_upper c)
      in if v = -1 then None
         else data_scan cs (if 6 \<le> length cs then acc @ [word_of_int v] else acc)
           (bech32_polymod_step chk XOR word_of_int v) lo' up')"

definition bech32_decode :: "nat \<Rightarrow> string \<Rightarrow> (string \<times> u8 list) option" where
  "bech32_decode data_max input =
     (let data_idx = length (takeWhile (\<lambda>c. c \<noteq> CHR ''1'') (rev input));
          hrp_part = take (length input - (1 + data_idx)) input;
          data_part = drop (length input - data_idx) input
      in if length input < 8 \<or> 90 < length input then None
         else if length input < 1 + data_idx + 1 \<or> data_idx < 6 then None
         else if data_max < data_idx then None
         else case hrp_scan hrp_part [] 1 False False of
             None \<Rightarrow> None
           | Some (hrp, chk, lo, up) \<Rightarrow>
               let chk' = foldl (\<lambda>k c. bech32_polymod_step k XOR (of_char c AND 0x1f))
                            (bech32_polymod_step chk) hrp_part
               in case data_scan data_part [] chk' lo up of
                    None \<Rightarrow> None
                  | Some (data, chk'', lo', up') \<Rightarrow>
                      if lo' \<and> up' then None else if chk'' = 1 then Some (hrp, data) else None)"

section \<open>\<open>convert_bits\<close>\<close>

text \<open>The inner loop; None is \<open>return 0\<close>. The value accumulator is 32 bits wide.\<close>

function take_groups :: "nat \<Rightarrow> nat \<Rightarrow> u32 \<Rightarrow> nat \<Rightarrow> u8 list \<Rightarrow> (nat \<times> u8 list) option" where
  "take_groups outlen_max outbits val bits out =
     (if bits < outbits then Some (bits, out)
      else if outlen_max \<le> length out then None
      else take_groups outlen_max outbits val (bits - outbits)
        (out @ [ucast (drop_bit (bits - outbits) val AND (push_bit outbits 1 - 1))]))"
  by pat_completeness auto
termination
  by (relation "measure (\<lambda>(m, _, _, _, out). m - length out)") auto

declare take_groups.simps [simp del]

fun convert_loop_bits ::
    "nat \<Rightarrow> nat \<Rightarrow> nat \<Rightarrow> u8 list \<Rightarrow> u32 \<Rightarrow> nat \<Rightarrow> u8 list \<Rightarrow> (u32 \<times> nat \<times> u8 list) option" where
  "convert_loop_bits outlen_max outbits inbits [] val bits out = Some (val, bits, out)"
| "convert_loop_bits outlen_max outbits inbits (x # xs) val bits out =
     (let val' = push_bit inbits val OR ucast x
      in case take_groups outlen_max outbits val' (bits + inbits) out of
           None \<Rightarrow> None
         | Some (bits', out') \<Rightarrow> convert_loop_bits outlen_max outbits inbits xs val' bits' out')"

definition convert_bits :: "nat \<Rightarrow> nat \<Rightarrow> u8 list \<Rightarrow> nat \<Rightarrow> bool \<Rightarrow> u8 list option" where
  "convert_bits outlen_max outbits data inbits pad =
     (case convert_loop_bits outlen_max outbits inbits data 0 0 [] of
        None \<Rightarrow> None
      | Some (val, bits, out) \<Rightarrow>
          let rest = push_bit (outbits - bits) val AND (push_bit outbits 1 - 1)
          in if pad then
               if bits \<noteq> 0 then
                 if outlen_max \<le> length out then None else Some (out @ [ucast rest])
               else Some out
             else if rest \<noteq> 0 \<or> inbits \<le> bits then None
             else Some out)"

section \<open>Witness programs\<close>

text \<open>
  The result of \<open>convert_bits\<close> is ignored: when it fails, \<open>datalen\<close> keeps its initial 0.
  It is told that 65 bytes are free after \<open>data + 1\<close>, one more than there are; at most 40
  program bytes give 64 groups.
\<close>

definition segwit_addr_encode ::
    "nat \<Rightarrow> nat \<Rightarrow> string \<Rightarrow> int \<Rightarrow> u8 list \<Rightarrow> cbuf \<Rightarrow> (bool, cbuf) res" where
  "segwit_addr_encode base out_len hrp witver witprog b =
     (if 16 < witver then Ok False b
      else if witver = 0 \<and> length witprog \<noteq> 20 \<and> length witprog \<noteq> 32 then Ok False b
      else if length witprog < 2 \<or> 40 < length witprog then Ok False b
      else bech32_encode base out_len hrp
        (word_of_int witver # (case convert_bits 65 5 witprog 8 True of None \<Rightarrow> [] | Some gs \<Rightarrow> gs)) b)"

definition segwit_addr_decode :: "nat \<Rightarrow> string \<Rightarrow> string \<Rightarrow> (u8 \<times> u8 list) option" where
  "segwit_addr_decode witdata_len_max hrp addr =
     (case bech32_decode 84 addr of
        None \<Rightarrow> None
      | Some (hrp_actual, data) \<Rightarrow>
          if length data = 0 \<or> 65 < length data then None
          else if hrp \<noteq> hrp_actual then None
          else if 16 < hd data then None
          else case convert_bits witdata_len_max 8 (tl data) 5 False of
              None \<Rightarrow> None
            | Some witdata \<Rightarrow>
                if length witdata < 2 \<or> 40 < length witdata then None
                else if hd data = 0 \<and> length witdata \<noteq> 20 \<and> length witdata \<noteq> 32 then None
                else Some (hd data, witdata))"

end
