(* ===== verification/Segwit_Laws.thy ===== *)
theory Segwit_Laws
  imports Segwit_Addr
begin

text \<open>
  What \<open>segwit_addr.c\<close> guarantees: the text \<open>bech32_encode\<close> writes is a valid bech32 string
  of its arguments, decoding it gives them back, and \<open>convert_bits\<close> regroups the bits of its
  input without losing any.
\<close>

section \<open>The checksum is linear\<close>

definition pick :: "bool \<Rightarrow> u32 \<Rightarrow> u32" where
  "pick p k = (if p then k else 0)"

lemma pick_xor: "pick (p = (\<not> q)) k = pick p k XOR pick q k"
  by (simp add: pick_def)

lemma sel_eq:
  fixes pre :: u32
  shows "(- ucast (drop_bit i (ucast (drop_bit 25 pre) :: u8) AND 1) AND k :: u32) =
     pick (i < 7 \<and> bit pre (25 + i)) k"
proof -
  have "drop_bit i (ucast (drop_bit 25 pre) :: u8) AND 1 = of_bool (i < 7 \<and> bit pre (25 + i))"
  proof (rule bit_word_eqI)
    fix n assume "n < LENGTH(8)"
    show "bit (drop_bit i (ucast (drop_bit 25 pre) :: u8) AND 1) n \<longleftrightarrow>
        bit (of_bool (i < 7 \<and> bit pre (25 + i)) :: u8) n"
      using bit_imp_le_length [of pre "25 + i"]
      by (auto simp: bit_simps ac_simps)
  qed
  then show ?thesis by (simp add: pick_def)
qed

lemma polymod_step_eq:
  "bech32_polymod_step pre =
     push_bit 5 (pre AND 0x1FFFFFF) XOR pick (bit pre 25) 0x3b6a57b2 XOR
     pick (bit pre 26) 0x26508e6d XOR pick (bit pre 27) 0x1ea119fa XOR
     pick (bit pre 28) 0x3d4233dd XOR pick (bit pre 29) 0x2a1462b3"
  unfolding bech32_polymod_step_def Let_def sel_eq by simp

lemma step_xor: "bech32_polymod_step (a XOR b) = bech32_polymod_step a XOR bech32_polymod_step b"
proof -
  have "(a XOR b) AND 0x1FFFFFF = (a AND 0x1FFFFFF) XOR (b AND 0x1FFFFFF)"
    by (rule bit_word_eqI) (simp add: bit_simps, blast)
  moreover have "push_bit 5 (x XOR y) = push_bit 5 x XOR push_bit 5 y" for x y :: u32
    by (rule bit_word_eqI) (auto simp: bit_simps)
  ultimately show ?thesis
    by (simp add: polymod_step_eq bit_xor_iff pick_xor ac_simps)
qed

lemma step_0 [simp]: "bech32_polymod_step 0 = 0"
  by (simp add: polymod_step_eq pick_def)

definition low30 :: "u32 \<Rightarrow> bool" where
  "low30 x \<longleftrightarrow> \<not> bit x 30 \<and> \<not> bit x 31"

lemma low30_xor: "low30 x \<Longrightarrow> low30 y \<Longrightarrow> low30 (x XOR y)"
  by (simp add: low30_def bit_simps)

lemma low30_pick: "low30 k \<Longrightarrow> low30 (pick p k)"
  by (simp add: low30_def pick_def)

lemma low30_step: "low30 (bech32_polymod_step x)"
proof -
  have "low30 (push_bit 5 (x AND 0x1FFFFFF))"
  proof -
    have m: "(0x1FFFFFF :: u32) = mask 25" by (simp add: mask_eq_exp_minus_1)
    show ?thesis unfolding m by (simp add: low30_def bit_simps)
  qed
  moreover have "low30 0x3b6a57b2" "low30 0x26508e6d" "low30 0x1ea119fa" "low30 0x3d4233dd"
    "low30 0x2a1462b3" unfolding low30_def by simp_all
  ultimately show ?thesis unfolding polymod_step_eq by (intro low30_xor low30_pick)
qed

definition polymod :: "u32 list \<Rightarrow> u32 \<Rightarrow> u32" where
  "polymod vs chk = foldl (\<lambda>k v. bech32_polymod_step k XOR v) chk vs"

lemma polymod_simps [simp]:
  "polymod [] k = k"
  "polymod (v # vs) k = polymod vs (bech32_polymod_step k XOR v)"
  "polymod (us @ vs) k = polymod vs (polymod us k)"
  by (simp_all add: polymod_def)

lemma polymod_zeros: "polymod (replicate n 0) k = (bech32_polymod_step ^^ n) k"
  by (induction n arbitrary: k) (simp_all add: funpow_swap1)

lemma polymod_split: "polymod vs (k XOR j) = (bech32_polymod_step ^^ length vs) k XOR polymod vs j"
proof (induction vs arbitrary: k j)
  case (Cons v vs)
  have "bech32_polymod_step (k XOR j) XOR v =
      bech32_polymod_step k XOR (bech32_polymod_step j XOR v)"
    by (simp add: step_xor xor.assoc)
  then show ?case using Cons by (simp add: funpow_swap1)
qed simp

text \<open>The six checksum digits, fed to a zero register, rebuild the checksum.\<close>

definition checksum_digits :: "u32 \<Rightarrow> u32 list" where
  "checksum_digits chk = map (\<lambda>k. drop_bit (k * 5) chk AND 0x1f) (rev [0..<6])"

lemma low30_bit: "low30 chk \<Longrightarrow> 30 \<le> n \<Longrightarrow> \<not> bit chk n"
  using bit_imp_le_length [of chk n]
  by (cases "n = 30"; cases "n = 31") (auto simp: low30_def)

lemma step_small:
  assumes "\<And>n. 25 \<le> n \<Longrightarrow> \<not> bit x n"
  shows "bech32_polymod_step x = push_bit 5 x"
proof -
  have m: "(0x1FFFFFF :: u32) = mask 25" by (simp add: mask_eq_exp_minus_1)
  have lt: "n < 25" if "bit x n" for n using that assms by (meson not_le)
  have "push_bit 5 (x AND 0x1FFFFFF) = push_bit 5 x"
    unfolding m by (rule bit_word_eqI) (auto simp: bit_simps dest: lt)
  then show ?thesis using assms by (simp add: polymod_step_eq pick_def)
qed

lemma digit_step:
  assumes "low30 chk" "k < 5"
  shows "bech32_polymod_step (drop_bit (Suc k * 5) chk) XOR (drop_bit (k * 5) chk AND 0x1f) =
    drop_bit (k * 5) chk"
proof -
  have "bech32_polymod_step (drop_bit (Suc k * 5) chk) = push_bit 5 (drop_bit (Suc k * 5) chk)"
    by (rule step_small) (use assms in \<open>simp add: bit_simps low30_bit\<close>)
  moreover have "push_bit 5 (drop_bit (Suc k * 5) chk) XOR (drop_bit (k * 5) chk AND 0x1f) =
      drop_bit (k * 5) chk"
  proof -
    have m: "(0x1f :: u32) = mask 5" by (simp add: mask_eq_exp_minus_1)
    show ?thesis unfolding m
      by (rule bit_word_eqI) (auto simp: bit_simps)
  qed
  ultimately show ?thesis by simp
qed

lemma polymod_digits:
  assumes "low30 chk"
  shows "polymod (checksum_digits chk) 0 = chk"
proof -
  have top: "drop_bit 25 chk AND 0x1f = drop_bit 25 chk"
  proof -
    have m: "(0x1f :: u32) = mask 5" by (simp add: mask_eq_exp_minus_1)
    have lt: "n < 5" if "bit chk (25 + n)" for n
      using that low30_bit [OF assms, of "25 + n"] by (cases "n < 5") simp_all
    show ?thesis unfolding m by (rule bit_word_eqI) (auto simp: bit_simps dest: lt)
  qed
  have ds: "checksum_digits chk = map (\<lambda>k. drop_bit (k * 5) chk AND 0x1f) [5, 4, 3, 2, 1, 0]"
    by (simp add: checksum_digits_def numeral_eq_Suc)
  show ?thesis
    unfolding ds
    using top digit_step [OF assms, of 4] digit_step [OF assms, of 3] digit_step [OF assms, of 2]
      digit_step [OF assms, of 1] digit_step [OF assms, of 0]
    by simp
qed

text \<open>The defining property of the checksum.\<close>

lemma checksum_verifies:
  assumes "chk = (bech32_polymod_step ^^ 6) k XOR 1"
  shows "polymod (checksum_digits chk) k = 1"
proof -
  have "low30 ((bech32_polymod_step ^^ 6) k)"
    using low30_step [of "(bech32_polymod_step ^^ 5) k"] by (simp add: numeral_eq_Suc)
  then have "low30 chk" unfolding assms by (rule low30_xor) (simp add: low30_def)
  moreover have "polymod (checksum_digits chk) (k XOR 0) =
      (bech32_polymod_step ^^ 6) k XOR polymod (checksum_digits chk) 0"
    by (subst polymod_split) (simp add: checksum_digits_def)
  ultimately show ?thesis by (simp add: polymod_digits assms flip: xor.assoc)
qed

section \<open>The encoder writes the bech32 string of its arguments\<close>

definition hrp_expand :: "string \<Rightarrow> u32 list" where
  "hrp_expand hrp = map (\<lambda>c. drop_bit 5 (of_char c)) hrp @ [0] @ map (\<lambda>c. of_char c AND 0x1f) hrp"

definition data_string :: "u8 list \<Rightarrow> string" where
  "data_string data = map (\<lambda>d. charset ! unat d) data"

definition bech32_checksum :: "string \<Rightarrow> u8 list \<Rightarrow> u32" where
  "bech32_checksum hrp data =
     (bech32_polymod_step ^^ 6) (polymod (hrp_expand hrp @ map ucast data) 1) XOR 1"

definition checksum_string :: "nat \<Rightarrow> u32 \<Rightarrow> string" where
  "checksum_string k chk = map (checksum_char chk) (rev [0..<k])"

definition bech32_string :: "string \<Rightarrow> u8 list \<Rightarrow> string" where
  "bech32_string hrp data = hrp @ ''1'' @ data_string data @
     checksum_string 6 (bech32_checksum hrp data)"

definition hrp_ok :: "string \<Rightarrow> bool" where
  "hrp_ok hrp \<longleftrightarrow> (\<forall>c\<in>set hrp. \<not> is_upper c \<and> drop_bit 5 (of_char c :: u32) \<noteq> 0)"

definition data_ok :: "u8 list \<Rightarrow> bool" where
  "data_ok data \<longleftrightarrow> (\<forall>d\<in>set data. unat d < 32)"

lemma length_checksum_string [simp]: "length (checksum_string k chk) = k"
  by (simp add: checksum_string_def)

lemma length_data_string [simp]: "length (data_string data) = length data"
  by (simp add: data_string_def)

lemma length_bech32_string [simp]: "length (bech32_string hrp data) = length hrp + 7 + length data"
  by (simp add: bech32_string_def)

lemma hrp_high_eq:
  "hrp_ok hrp \<Longrightarrow> hrp_high hrp k = Some (polymod (map (\<lambda>c. drop_bit 5 (of_char c)) hrp) k)"
  by (induction hrp arbitrary: k) (auto simp: hrp_ok_def is_upper_def)

text \<open>The loops append to what has been written at \<open>base\<close>, here \<open>s\<close>.\<close>

lemma put_char_eq:
  assumes "base + length s < length b" "length s < out_len"
  shows "put_char base out_len (length s) c (mem_write b base s) =
    Ok (Some (Suc (length s))) (mem_write b base (s @ [c]))"
  using assms mem_write_append [of base s "[c]" b] by (simp add: put_char_def cstore_def)

lemma hrp_low_eq:
  assumes "base + length s + length cs \<le> length b" "length s + length cs \<le> out_len"
  shows "hrp_low base out_len cs k (length s) (mem_write b base s) =
    Ok (Some (polymod (map (\<lambda>c. of_char c AND 0x1f) cs) k, length s + length cs))
      (mem_write b base (s @ cs))"
  using assms
proof (induction cs arbitrary: k s)
  case (Cons c cs)
  then show ?case
    using Cons.IH [of "s @ [c]"] put_char_eq [of base s b out_len c] by (simp add: Let_def)
qed simp

lemma word_small_5: "unat (d :: u8) < 32 \<longleftrightarrow> drop_bit 5 d = 0"
proof -
  have "drop_bit 5 d = 0 \<longleftrightarrow> unat (drop_bit 5 d) = 0" by (simp only: unat_eq_zero)
  also have "unat (drop_bit 5 d) = unat d div 32"
    by (simp add: drop_bit_eq_div unat_div_distrib)
  finally show ?thesis by auto
qed

lemma encode_data_eq:
  assumes "base + length s + length ds \<le> length b" "length s + length ds \<le> out_len" "data_ok ds"
  shows "encode_data base out_len ds k (length s) (mem_write b base s) =
    Ok (Some (polymod (map ucast ds) k, length s + length ds)) (mem_write b base (s @ data_string ds))"
  using assms
proof (induction ds arbitrary: k s)
  case (Cons d ds)
  then have d: "drop_bit 5 d = 0" "data_ok ds" by (simp_all add: data_ok_def word_small_5)
  show ?case
    using Cons.prems d Cons.IH [of "s @ [charset ! unat d]"]
      put_char_eq [of base s b out_len "charset ! unat d"]
    by (simp add: Let_def data_string_def)
qed (simp add: data_string_def)

lemma encode_checksum_eq:
  assumes "base + length s + k \<le> length b" "length s + k \<le> out_len"
  shows "encode_checksum base out_len k chk (length s) (mem_write b base s) =
    Ok (Some (length s + k)) (mem_write b base (s @ checksum_string k chk))"
  using assms
proof (induction k arbitrary: s)
  case (Suc k)
  then show ?case
    using Suc.IH [of "s @ [checksum_char chk k]"] put_char_eq [of base s b out_len "checksum_char chk k"]
    by (simp add: checksum_string_def)
qed (simp add: checksum_string_def)

lemma bech32_encode_eq:
  assumes "hrp_ok hrp" "data_ok data" "length hrp + 7 + length data \<le> 108"
    "length hrp + 7 + length data \<le> out_len" "base + length hrp + 7 + length data < length b"
  shows "bech32_encode base out_len hrp data b =
    Ok True (mem_write b base (bech32_string hrp data @ [NUL]))"
proof -
  let ?k0 = "polymod (map (\<lambda>c. drop_bit 5 (of_char c)) hrp) 1"
  let ?k1 = "polymod (map (\<lambda>c. of_char c AND 0x1f) hrp) (bech32_polymod_step ?k0)"
  let ?k2 = "polymod (map ucast data) ?k1"
  let ?chk = "bech32_checksum hrp data"
  let ?s1 = "hrp @ ''1''"
  let ?s2 = "hrp @ ''1'' @ data_string data"
  let ?s3 = "?s2 @ checksum_string 6 ?chk"
  have b0: "mem_write b base [] = b" by (simp add: mem_write_def)
  have 1: "hrp_low base out_len hrp (bech32_polymod_step ?k0) 0 b =
      Ok (Some (?k1, length hrp)) (mem_write b base hrp)"
    using hrp_low_eq [of base "[]" hrp b out_len] assms b0 by simp
  have 2: "put_char base out_len (length hrp) (CHR ''1'') (mem_write b base hrp) =
      Ok (Some (Suc (length hrp))) (mem_write b base ?s1)"
    using assms by (intro put_char_eq) auto
  have 3: "encode_data base out_len data ?k1 (Suc (length hrp)) (mem_write b base ?s1) =
      Ok (Some (?k2, Suc (length hrp) + length data)) (mem_write b base ?s2)"
    using encode_data_eq [of base ?s1 data b out_len ?k1] assms by simp
  have k: "(bech32_polymod_step ^^ 6) ?k2 XOR 1 = ?chk"
    by (simp add: bech32_checksum_def hrp_expand_def)
  have 4: "encode_checksum base out_len 6 ?chk (Suc (length hrp) + length data)
        (mem_write b base ?s2) =
      Ok (Some (length hrp + 7 + length data)) (mem_write b base ?s3)"
    using encode_checksum_eq [of base ?s2 6 b out_len ?chk] assms by simp
  have 5: "cstore (base + (length hrp + 7 + length data)) [NUL] (mem_write b base ?s3) =
      Ok () (mem_write b base (?s3 @ [NUL]))"
    using mem_write_append [of base ?s3 "[NUL]" b] assms by (simp add: cstore_def add.assoc)
  show ?thesis
    using assms 1 2 3 4 5 k
    by (simp add: bech32_encode_def hrp_high_eq Let_def bech32_string_def)
qed

section \<open>Decoding\<close>

lemma charset_digit:
  assumes "k < 32"
  shows "charset_rev ! of_char (charset ! k) = int k" "\<not> is_upper (charset ! k)"
    "of_char (charset ! k) < (128 :: nat)" "charset ! k \<noteq> CHR ''1''" "charset ! k \<noteq> NUL"
proof -
  have "\<forall>k\<in>set [0..<32]. charset_rev ! of_char (charset ! k) = int k \<and> \<not> is_upper (charset ! k) \<and>
      of_char (charset ! k) < (128 :: nat) \<and> charset ! k \<noteq> CHR ''1'' \<and> charset ! k \<noteq> NUL"
    by code_simp
  moreover have "k \<in> set [0..<32]" using assms by simp
  ultimately show "charset_rev ! of_char (charset ! k) = int k" "\<not> is_upper (charset ! k)"
    "of_char (charset ! k) < (128 :: nat)" "charset ! k \<noteq> CHR ''1''" "charset ! k \<noteq> NUL"
    by blast+
qed

definition hrp_printable :: "string \<Rightarrow> bool" where
  "hrp_printable hrp \<longleftrightarrow> hrp \<noteq> [] \<and>
     (\<forall>c\<in>set hrp. (33 :: nat) \<le> of_char c \<and> of_char c \<le> (126 :: nat) \<and> \<not> is_upper c)"

lemma hrp_scan_eq:
  assumes "\<forall>c\<in>set cs. (33 :: nat) \<le> of_char c \<and> of_char c \<le> (126 :: nat) \<and> \<not> is_upper c"
  shows "\<exists>lo'. hrp_scan cs acc k lo False =
    Some (acc @ cs, polymod (map (\<lambda>c. drop_bit 5 (of_char c)) cs) k, lo', False)"
  using assms
proof (induction cs arbitrary: acc k lo)
  case (Cons c cs)
  then have c: "\<not> of_char c < (33 :: nat)" "\<not> (126 :: nat) < of_char c" "\<not> is_upper c"
    by (simp_all add: not_less)
  show ?case
    using Cons.IH [of "acc @ [c]" "bech32_polymod_step k XOR drop_bit 5 (of_char c)"
        "lo \<or> is_lower c"] Cons.prems c by simp
qed simp

lemma data_scan_eq:
  assumes "\<forall>v\<in>set vs. v < 32"
  shows "\<exists>lo'. data_scan (map (\<lambda>v. charset ! v) vs) acc k lo False =
    Some (acc @ map of_nat (take (length vs - 6) vs), polymod (map of_nat vs) k, lo', False)"
  using assms
proof (induction vs arbitrary: acc k lo)
  case (Cons v vs)
  then have v: "v < 32" and vs: "\<forall>v\<in>set vs. v < 32" by simp_all
  note c = charset_digit [OF v]
  obtain lo' where IH: "data_scan (map (\<lambda>v. charset ! v) vs)
      (if 6 \<le> length vs then acc @ [of_nat v] else acc) (bech32_polymod_step k XOR of_nat v)
      (lo \<or> is_lower (charset ! v)) False =
    Some ((if 6 \<le> length vs then acc @ [of_nat v] else acc) @ map of_nat (take (length vs - 6) vs),
      polymod (map of_nat vs) (bech32_polymod_step k XOR of_nat v), lo', False)"
    using Cons.IH [OF vs] by blast
  have t: "take (length (v # vs) - 6) (v # vs) =
      (if 6 \<le> length vs then v # take (length vs - 6) vs else [])"
    by (auto simp: take_Cons' Suc_diff_le)
  have n: "\<not> (128 :: nat) \<le> of_char (charset ! v)" using c(3) by simp
  have "data_scan (map (\<lambda>v. charset ! v) (v # vs)) acc k lo False =
      data_scan (map (\<lambda>v. charset ! v) vs)
      (if 6 \<le> length vs then acc @ [of_nat v] else acc) (bech32_polymod_step k XOR of_nat v)
      (lo \<or> is_lower (charset ! v)) False"
    using c(1,2) n by simp
  then show ?case unfolding IH t by simp
qed simp

lemma bech32_decode_string:
  assumes h: "hrp_printable hrp" and d: "data_ok data"
    and l: "length hrp + 7 + length data \<le> 90" "length data + 6 \<le> data_max"
  shows "bech32_decode data_max (bech32_string hrp data) = Some (hrp, data)"
proof -
  let ?chk = "bech32_checksum hrp data"
  let ?vs = "map unat data @ map unat (checksum_digits ?chk)"
  let ?t = "data_string data @ checksum_string 6 ?chk"
  have lt: "\<forall>v\<in>set ?vs. v < 32"
  proof -
    have "unat (x AND 0x1f :: u32) < 32" for x :: u32
    proof -
      have m: "(0x1f :: u32) = mask 5" by (simp add: mask_eq_exp_minus_1)
      have "unat (x AND mask 5) = unat x mod 32"
        by (simp add: take_bit_eq_mask [symmetric] unsigned_take_bit_eq take_bit_eq_mod unat_mod_distrib)
      then show ?thesis unfolding m by simp
    qed
    then show ?thesis using d by (auto simp: data_ok_def checksum_digits_def)
  qed
  have len6: "length (checksum_digits ?chk) = 6" by (simp add: checksum_digits_def)
  have t: "?t = map (\<lambda>v. charset ! v) ?vs"
    by (simp add: data_string_def checksum_string_def checksum_char_def [abs_def] checksum_digits_def)
  have no1: "c \<noteq> CHR ''1''" if "c \<in> set ?t" for c
  proof -
    have "c \<in> (\<lambda>v. charset ! v) ` set ?vs" using that unfolding t set_map .
    then obtain v where v: "v \<in> set ?vs" "c = charset ! v" by (elim imageE)
    have "v < 32" using lt v(1) by (rule bspec)
    then show ?thesis unfolding v(2) by (rule charset_digit(4))
  qed
  have str: "bech32_string hrp data = hrp @ ''1'' @ ?t" by (simp add: bech32_string_def)
  have idx: "length (takeWhile (\<lambda>c. c \<noteq> CHR ''1'') (rev (bech32_string hrp data))) = length data + 6"
  proof -
    have "takeWhile (\<lambda>c. c \<noteq> CHR ''1'') (rev ?t @ CHR ''1'' # rev hrp) = rev ?t"
      using no1 by (subst takeWhile_append2) auto
    then show ?thesis by (simp add: str)
  qed
  obtain lo where hs: "hrp_scan hrp [] 1 False False =
      Some (hrp, polymod (map (\<lambda>c. drop_bit 5 (of_char c)) hrp) 1, lo, False)"
    using hrp_scan_eq [of hrp "[]" 1 False] h unfolding hrp_printable_def by auto
  let ?k = "polymod (hrp_expand hrp) 1"
  have k: "foldl (\<lambda>k c. bech32_polymod_step k XOR (of_char c AND 0x1f))
      (bech32_polymod_step (polymod (map (\<lambda>c. drop_bit 5 (of_char c)) hrp) 1)) hrp = ?k"
    by (simp add: hrp_expand_def polymod_def foldl_map)
  have dat: "map of_nat (take (length ?vs - 6) ?vs) = data"
    by (simp add: len6 map_idI)
  have chk1: "polymod (map of_nat ?vs) ?k = 1"
  proof -
    have m: "map of_nat ?vs = map ucast data @ checksum_digits ?chk"
      by (simp add: map_idI comp_def)
    have "polymod (checksum_digits ?chk) (polymod (map ucast data) ?k) = 1"
      by (rule checksum_verifies) (simp add: bech32_checksum_def)
    then show ?thesis unfolding m by simp
  qed
  obtain lo' where ds: "data_scan ?t [] ?k lo False = Some (data, 1, lo', False)"
    using data_scan_eq [OF lt, of "[]" ?k lo] unfolding t [symmetric] dat chk1 by auto
  have parts: "take (length (bech32_string hrp data) - (1 + (length data + 6))) (bech32_string hrp data) = hrp"
    "drop (length (bech32_string hrp data) - (length data + 6)) (bech32_string hrp data) = ?t"
    by (simp_all add: str)
  have ne: "0 < length hrp" using h by (simp add: hrp_printable_def)
  show ?thesis
    unfolding bech32_decode_def Let_def idx parts hs
    using l ne by (simp add: k ds [unfolded append.assoc])
qed

section \<open>Regrouping of bits\<close>

text \<open>The \<open>k\<close> low bits, most significant first, and the bit stream of a list of groups.\<close>

definition bits_of :: "nat \<Rightarrow> 'a::len word \<Rightarrow> bool list" where
  "bits_of k w = map (bit w) (rev [0..<k])"

definition stream_of :: "nat \<Rightarrow> u8 list \<Rightarrow> bool list" where
  "stream_of k ws = concat (map (bits_of k) ws)"

lemma length_bits_of [simp]: "length (bits_of k w) = k"
  by (simp add: bits_of_def)

lemma stream_of_simps [simp]:
  "stream_of k [] = []" "stream_of k (w # ws) = bits_of k w @ stream_of k ws"
  "stream_of k (us @ ws) = stream_of k us @ stream_of k ws"
  by (simp_all add: stream_of_def)

lemma length_stream_of [simp]: "length (stream_of k ws) = k * length ws"
  by (induction ws) simp_all

lemma bits_of_split: "bits_of (j + k) w = map (\<lambda>i. bit w (k + i)) (rev [0..<j]) @ bits_of k w"
proof -
  have "[0..<j + k] = [0..<k] @ map (\<lambda>i. k + i) [0..<j]"
    by (induction j) simp_all
  then show ?thesis by (simp add: bits_of_def rev_map comp_def)
qed

lemma group_bits:
  assumes "k \<le> 8"
  shows "bits_of k (ucast (drop_bit n val AND (push_bit k 1 - 1 :: u32)) :: u8) =
    map (\<lambda>i. bit val (n + i)) (rev [0..<k])"
proof -
  have m: "(push_bit k 1 - 1 :: u32) = mask k" by (simp add: mask_eq_exp_minus_1 push_bit_eq_mult)
  show ?thesis
    unfolding m bits_of_def using assms bit_imp_le_length [of val]
    by (auto simp: bit_simps)
qed

lemma group_small:
  assumes "k \<le> 8"
  shows "unat (ucast (x AND (push_bit k 1 - 1 :: u32)) :: u8) < 2 ^ k"
proof -
  have m: "(push_bit k 1 - 1 :: u32) = mask k" by (simp add: mask_eq_exp_minus_1 push_bit_eq_mult)
  have "unat (x AND mask k) < 2 ^ k"
    by (simp add: take_bit_eq_mask [symmetric] unsigned_take_bit_eq take_bit_nat_less_exp)
  moreover have "unat (ucast y :: u8) \<le> unat y" for y :: u32
    by (simp add: unsigned_ucast_eq take_bit_eq_mod)
  ultimately show ?thesis unfolding m by (meson le_less_trans)
qed

lemma take_groups_eq:
  assumes "0 < ob" "ob \<le> 8" "length out + bits div ob \<le> m"
  shows "\<exists>out'. take_groups m ob val bits out = Some (bits mod ob, out @ out') \<and>
    length out' = bits div ob \<and> (\<forall>x\<in>set out'. unat x < 2 ^ ob) \<and>
    stream_of ob out' @ bits_of (bits mod ob) val = bits_of bits val"
  using assms(3)
proof (induction bits arbitrary: out rule: less_induct)
  case (less bits)
  show ?case
  proof (cases "bits < ob")
    case True
    then show ?thesis by (simp add: take_groups.simps)
  next
    case False
    let ?g = "ucast (drop_bit (bits - ob) val AND (push_bit ob 1 - 1)) :: u8"
    have d: "bits div ob = Suc ((bits - ob) div ob)" "bits mod ob = (bits - ob) mod ob"
      using False assms(1) by (simp_all add: le_div_geq le_mod_geq)
    obtain out' where o': "take_groups m ob val (bits - ob) (out @ [?g]) =
          Some ((bits - ob) mod ob, (out @ [?g]) @ out')" "length out' = (bits - ob) div ob"
        "\<forall>x\<in>set out'. unat x < 2 ^ ob"
        "stream_of ob out' @ bits_of ((bits - ob) mod ob) val = bits_of (bits - ob) val"
      using less.IH [of "bits - ob" "out @ [?g]"] less.prems False assms(1) d by auto
    have "bits_of bits val = bits_of ob ?g @ bits_of (bits - ob) val"
      using bits_of_split [of ob "bits - ob" val] False
      unfolding group_bits [OF assms(2)] by simp
    moreover have "take_groups m ob val bits out = take_groups m ob val (bits - ob) (out @ [?g])"
      using False less.prems d by (subst take_groups.simps) simp
    ultimately show ?thesis
      using o' d group_small [OF assms(2)] by (intro exI [of _ "?g # out'"]) simp
  qed
qed

lemma shift_in_bits:
  fixes x :: u8
  assumes "unat x < 2 ^ ib" "bits + ib \<le> 32"
  shows "bits_of (bits + ib) (push_bit ib val OR ucast x :: u32) = bits_of bits val @ bits_of ib x"
proof -
  have hi: "\<not> bit x n" if "ib \<le> n" for n
  proof -
    have "unat x < 2 ^ n" using assms(1) that by (meson less_le_trans one_le_numeral power_increasing)
    then have "\<not> bit (unat x) n" by (simp add: bit_iff_odd)
    then show ?thesis by (auto simp: bit_unsigned_iff dest: bit_imp_le_length)
  qed
  show ?thesis
    unfolding bits_of_split using assms(2) hi
    by (auto simp: bits_of_def bit_simps)
qed

lemma convert_loop_bits_eq:
  assumes ob: "0 < ob" "ob \<le> 8" and ib: "ib \<le> 8"
  shows "\<forall>x\<in>set xs. unat x < 2 ^ ib \<Longrightarrow> bits < ob \<Longrightarrow>
    length out + (bits + ib * length xs) div ob \<le> m \<Longrightarrow>
    \<exists>val' out'. convert_loop_bits m ob ib xs val bits out =
        Some (val', (bits + ib * length xs) mod ob, out @ out') \<and>
      length out' = (bits + ib * length xs) div ob \<and> (\<forall>x\<in>set out'. unat x < 2 ^ ob) \<and>
      stream_of ob out' @ bits_of ((bits + ib * length xs) mod ob) val' =
        bits_of bits val @ stream_of ib xs"
proof (induction xs arbitrary: val bits out)
  case Nil
  then show ?case by simp
next
  case (Cons x xs)
  let ?val = "push_bit ib val OR ucast x :: u32" and ?b = "bits + ib"
  let ?n = "bits + ib * length (x # xs)"
  have n: "?n = ?b + ib * length xs" by simp
  have split: "?n div ob = ?b div ob + (?b mod ob + ib * length xs) div ob"
    "?n mod ob = (?b mod ob + ib * length xs) mod ob"
  proof -
    have "?n = ob * (?b div ob) + (?b mod ob + ib * length xs)"
      unfolding n using mult_div_mod_eq [of ob ?b] by linarith
    then show "?n div ob = ?b div ob + (?b mod ob + ib * length xs) div ob"
      using ob(1) by (metis div_mult_self2 less_not_refl add.commute)
    show "?n mod ob = (?b mod ob + ib * length xs) mod ob"
      unfolding n by (simp add: mod_add_left_eq)
  qed
  have "?b div ob \<le> ?n div ob" unfolding n by (simp add: div_le_mono)
  then have cap: "length out + ?b div ob \<le> m" using Cons.prems(3) by linarith
  obtain o1 where o1: "take_groups m ob ?val ?b out = Some (?b mod ob, out @ o1)"
      "length o1 = ?b div ob" "\<forall>x\<in>set o1. unat x < 2 ^ ob"
      "stream_of ob o1 @ bits_of (?b mod ob) ?val = bits_of ?b ?val"
    using take_groups_eq [OF ob cap, of ?val] by blast
  have in': "bits_of ?b ?val = bits_of bits val @ bits_of ib x"
    using Cons.prems ob ib by (intro shift_in_bits) auto
  have "length (out @ o1) + (?b mod ob + ib * length xs) div ob \<le> m"
    using Cons.prems(3) o1(2) split(1) by simp
  then obtain val' o2 where o2: "convert_loop_bits m ob ib xs ?val (?b mod ob) (out @ o1) =
        Some (val', (?b mod ob + ib * length xs) mod ob, (out @ o1) @ o2)"
      "length o2 = (?b mod ob + ib * length xs) div ob" "\<forall>x\<in>set o2. unat x < 2 ^ ob"
      "stream_of ob o2 @ bits_of ((?b mod ob + ib * length xs) mod ob) val' =
        bits_of (?b mod ob) ?val @ stream_of ib xs"
    using Cons.IH [of "?b mod ob" "out @ o1" ?val] Cons.prems(1) ob(1) by auto
  have "stream_of ob (o1 @ o2) @ bits_of (?n mod ob) val' =
      stream_of ob o1 @ (bits_of (?b mod ob) ?val @ stream_of ib xs)"
    unfolding split(2) by (simp add: o2(4))
  also have "\<dots> = (bits_of bits val @ bits_of ib x) @ stream_of ib xs"
    using o1(4) in' by (metis append.assoc)
  finally have st: "stream_of ob (o1 @ o2) @ bits_of (?n mod ob) val' =
      bits_of bits val @ stream_of ib (x # xs)" by simp
  have eq: "convert_loop_bits m ob ib (x # xs) val bits out = Some (val', ?n mod ob, out @ o1 @ o2)"
    using o1(1) o2(1) split(2) by (simp add: Let_def)
  show ?case
    using eq st o1(2,3) o2(2,3) split(1) by (intro exI [of _ val'] exI [of _ "o1 @ o2"]) auto
qed

lemma rest_bits:
  assumes "ob \<le> 8" "bits \<le> ob"
  shows "bits_of ob (ucast (push_bit (ob - bits) val AND (push_bit ob 1 - 1 :: u32)) :: u8) =
    bits_of bits val @ replicate (ob - bits) False"
proof -
  have "bits_of ob (ucast (drop_bit 0 (push_bit (ob - bits) val) AND (push_bit ob 1 - 1 :: u32)) :: u8) =
      map (\<lambda>i. bit (push_bit (ob - bits) val) (0 + i)) (rev [0..<ob])"
    by (rule group_bits [OF assms(1)])
  also have "\<dots> = bits_of (bits + (ob - bits)) (push_bit (ob - bits) val)"
    using assms(2) by (simp add: bits_of_def)
  also have "\<dots> = bits_of bits val @ replicate (ob - bits) False"
  proof -
    have "bits_of (ob - bits) (push_bit (ob - bits) val) = replicate (ob - bits) False"
      by (rule replicate_eqI) (auto simp: bits_of_def bit_simps)
    moreover have "map (\<lambda>i. bit (push_bit (ob - bits) val) (ob - bits + i)) (rev [0..<bits]) =
        bits_of bits val"
      using assms by (auto simp: bits_of_def bit_simps)
    ultimately show ?thesis unfolding bits_of_split by simp
  qed
  finally show ?thesis by simp
qed

text \<open>With padding, the bit stream of the output is that of the input and some zeros.\<close>

lemma convert_bits_pad:
  assumes ob: "0 < ob" "ob \<le> 8" and ib: "ib \<le> 8" and x: "\<forall>x\<in>set xs. unat x < 2 ^ ib"
    and m: "ib * length xs div ob + 1 \<le> m"
  shows "\<exists>out p. convert_bits m ob xs ib True = Some out \<and> p < ob \<and>
    stream_of ob out = stream_of ib xs @ replicate p False \<and> (\<forall>x\<in>set out. unat x < 2 ^ ob)"
proof -
  let ?n = "ib * length xs"
  obtain val out where o': "convert_loop_bits m ob ib xs 0 0 [] = Some (val, ?n mod ob, out)"
      "length out = ?n div ob" "\<forall>x\<in>set out. unat x < 2 ^ ob"
      "stream_of ob out @ bits_of (?n mod ob) val = stream_of ib xs"
    using convert_loop_bits_eq [OF ob ib x, of 0 "[]" m 0] ob m by (auto simp: bits_of_def)
  show ?thesis
  proof (cases "?n mod ob = 0")
    case True
    then show ?thesis using o' ob
      by (intro exI [of _ out] exI [of _ 0]) (simp add: convert_bits_def bits_of_def)
  next
    case False
    have le: "?n mod ob \<le> ob" using ob(1) by (simp add: less_imp_le)
    let ?r = "ucast (push_bit (ob - ?n mod ob) val AND (push_bit ob 1 - 1 :: u32)) :: u8"
    have "convert_bits m ob xs ib True = Some (out @ [?r])"
      using False o' m by (simp add: convert_bits_def Let_def)
    moreover have "stream_of ob (out @ [?r]) =
        stream_of ib xs @ replicate (ob - ?n mod ob) False"
      using o'(4) rest_bits [OF ob(2) le, of val]
      by (simp only: stream_of_simps append_Nil2) (metis append.assoc)
    moreover have "unat ?r < 2 ^ ob" using ob(2) by (rule group_small)
    ultimately show ?thesis using o'(3) False ob(1)
      by (intro exI [of _ "out @ [?r]"] exI [of _ "ob - ?n mod ob"]) auto
  qed
qed

lemma bits_of_8_inj: "bits_of 8 (x :: u8) = bits_of 8 y \<Longrightarrow> x = y"
  by (rule bit_word_eqI) (auto simp: bits_of_def dest: map_eq_conv [THEN iffD1])

lemma stream_of_8_inj: "stream_of 8 xs = stream_of 8 ys \<Longrightarrow> xs = ys"
proof (induction xs arbitrary: ys)
  case Nil
  then show ?case by (cases ys) (auto dest: arg_cong [where f = length])
next
  case (Cons x xs)
  then obtain y ys' where ys: "ys = y # ys'"
    by (cases ys) (auto dest: arg_cong [where f = length])
  with Cons.prems have "bits_of 8 x = bits_of 8 y" "stream_of 8 xs = stream_of 8 ys'"
    by (simp_all add: append_eq_append_conv)
  with Cons.IH ys bits_of_8_inj show ?case by blast
qed

text \<open>Regrouping bytes to five bits and back is the identity.\<close>

lemma convert_bits_back:
  assumes s: "stream_of 5 gs = stream_of 8 xs @ replicate p False" and p: "p < 5"
    and g: "\<forall>x\<in>set gs. unat x < 2 ^ 5" and m: "length xs \<le> m"
  shows "convert_bits m 8 gs 5 False = Some xs"
proof -
  let ?n = "5 * length gs"
  have "?n = 8 * length xs + p" using arg_cong [OF s, of length] by simp
  then have n: "?n div 8 = length xs" "?n mod 8 = p" using p by simp_all
  obtain val out where o': "convert_loop_bits m 8 5 gs 0 0 [] = Some (val, p, out)"
      "length out = length xs" "stream_of 8 out @ bits_of p val = stream_of 5 gs"
    using convert_loop_bits_eq [of 8 5 gs 0 "[]" m 0] g m n by (auto simp: bits_of_def)
  have "stream_of 8 out = stream_of 8 xs" "bits_of p val = replicate p False"
    using o'(2,3) s by simp_all
  then have out: "out = xs" by (intro stream_of_8_inj) simp
  have le: "p \<le> 8" using p by simp
  have "bits_of 8 (ucast (push_bit (8 - p) val AND (push_bit 8 1 - 1 :: u32)) :: u8) =
      replicate p False @ replicate (8 - p) False"
    using rest_bits [OF _ le, of val] \<open>bits_of p val = replicate p False\<close> by simp
  also have "\<dots> = replicate 8 False" using le by (simp flip: replicate_add)
  also have "\<dots> = bits_of 8 (0 :: u8)" by (rule sym, rule replicate_eqI) (auto simp: bits_of_def)
  finally have "ucast (push_bit (8 - p) val AND (push_bit 8 1 - 1 :: u32)) = (0 :: u8)"
    by (rule bits_of_8_inj)
  then have r: "push_bit (8 - p) val AND (push_bit 8 1 - 1 :: u32) = 0"
  proof -
    assume z: "ucast (push_bit (8 - p) val AND (push_bit 8 1 - 1 :: u32)) = (0 :: u8)"
    have m8: "(push_bit 8 1 - 1 :: u32) = mask 8" by (simp add: mask_eq_exp_minus_1 push_bit_eq_mult)
    show ?thesis
    proof (rule bit_word_eqI)
      fix i assume "i < LENGTH(32)"
      have "\<not> bit (ucast (push_bit (8 - p) val AND mask 8) :: u8) i"
        using z unfolding m8 by simp
      then show "bit (push_bit (8 - p) val AND (push_bit 8 1 - 1)) i = bit (0 :: u32) i"
        unfolding m8 by (auto simp: bit_simps)
    qed
  qed
  show ?thesis using o'(1) p r out by (simp add: convert_bits_def Let_def)
qed

section \<open>Properties\<close>

lemma hrp_printable_ok:
  assumes "hrp_printable hrp"
  shows "hrp_ok hrp" "NUL \<notin> set hrp"
proof -
  have "drop_bit 5 (of_char c :: u32) \<noteq> 0" if "(33 :: nat) \<le> of_char c" for c
  proof
    assume z: "drop_bit 5 (of_char c :: u32) = 0"
    have lt: "(of_char c :: nat) < 256"
      by simp
    have "(of_char c :: u32) = of_nat (of_char c)" by (simp add: of_nat_of_char)
    moreover have "of_char c mod 2 ^ 32 = (of_char c :: nat)" by (intro mod_less less_trans [OF lt]) simp
    ultimately have "unat (of_char c :: u32) = of_char c" by (simp add: unat_of_nat)
    moreover have "unat (drop_bit 5 (of_char c :: u32)) = unat (of_char c :: u32) div 32"
      by (simp add: drop_bit_eq_div unat_div_distrib)
    ultimately show False using z that by simp
  qed
  then show "hrp_ok hrp" using assms by (auto simp: hrp_ok_def hrp_printable_def)
  show "NUL \<notin> set hrp" using assms by (auto simp: hrp_printable_def NUL_def)
qed

lemma bech32_string_no_NUL:
  assumes "NUL \<notin> set hrp" "data_ok data"
  shows "NUL \<notin> set (bech32_string hrp data)"
proof -
  have "unat (x AND 0x1f :: u32) < 32" for x :: u32
  proof -
    have m: "(0x1f :: u32) = mask 5" by (simp add: mask_eq_exp_minus_1)
    have "unat (x AND mask 5) = unat x mod 32"
      by (simp add: take_bit_eq_mask [symmetric] unsigned_take_bit_eq take_bit_eq_mod unat_mod_distrib)
    then show ?thesis unfolding m by simp
  qed
  then have "NUL \<notin> set (checksum_string 6 k)" for k
    using charset_digit(5) by (auto simp: checksum_string_def checksum_char_def dest: sym)
  moreover have "NUL \<notin> set (data_string data)"
    using assms(2) charset_digit(5) by (auto simp: data_string_def data_ok_def dest: sym)
  ultimately show ?thesis using assms(1) by (auto simp: bech32_string_def NUL_def)
qed

text \<open>What has been encoded into a large enough buffer, as a C string.\<close>

lemma bech32_encode_cstring:
  assumes "hrp_printable hrp" "data_ok data" "length hrp + 7 + length data \<le> 108"
    "length hrp + 7 + length data \<le> out_len" "base + length hrp + 7 + length data < length b"
  shows "bech32_encode base out_len hrp data b =
      Ok True (mem_write b base (bech32_string hrp data @ [NUL]))"
    and "cstring_at base (mem_write b base (bech32_string hrp data @ [NUL])) = bech32_string hrp data"
proof -
  note h = hrp_printable_ok [OF assms(1)]
  show "bech32_encode base out_len hrp data b =
      Ok True (mem_write b base (bech32_string hrp data @ [NUL]))"
    by (rule bech32_encode_eq) (use assms h in auto)
  show "cstring_at base (mem_write b base (bech32_string hrp data @ [NUL])) = bech32_string hrp data"
    using assms bech32_string_no_NUL [OF h(2) assms(2)] by (intro cstring_at_write) auto
qed

lemma encode_decode:
  assumes "hrp_printable hrp" "data_ok data" "length hrp + 7 + length data \<le> 90" "length data \<le> 78"
    "length hrp + 7 + length data < length b"
  shows "\<exists>b'. bech32_encode 0 (length b) hrp data b = Ok True b' \<and>
    bech32_decode 84 (cstring_at 0 b') = Some (hrp, data)"
proof -
  have "bech32_encode 0 (length b) hrp data b =
      Ok True (mem_write b 0 (bech32_string hrp data @ [NUL]))"
    by (rule bech32_encode_cstring(1)) (use assms in auto)
  moreover have "cstring_at 0 (mem_write b 0 (bech32_string hrp data @ [NUL])) =
      bech32_string hrp data"
    by (rule bech32_encode_cstring(2)) (use assms in auto)
  moreover have "bech32_decode 84 (bech32_string hrp data) = Some (hrp, data)"
    by (rule bech32_decode_string) (use assms in auto)
  ultimately show ?thesis by simp
qed

lemma hrp_printable_nets: "hrp_printable ''ckb''" "hrp_printable ''ckt''"
  by code_simp+

text \<open>
  C22. A bech32 string of at most 90 characters with at most 78 data values that the encoder writes
  is accepted by the decoder, which returns exactly the prefix and the data. (The encoder also
  writes longer strings, the 108 characters of a time-locked multisig address among them, which
  the decoder refuses.)
\<close>

theorem bech32_round_trip:
  assumes "hrp_printable hrp" "\<forall>d\<in>set data. unat d < 32" "length hrp + 7 + length data \<le> 90"
    "length data \<le> 78" "length hrp + 7 + length data < length b"
  shows "\<exists>b'. bech32_encode 0 (length b) hrp data b = Ok True b' \<and>
    bech32_decode 84 (cstring_at 0 b') = Some (hrp, data)"
  by (rule encode_decode) (use assms in \<open>auto simp: data_ok_def\<close>)

lemma bech32_round_trip_witness:
  "\<exists>b'. bech32_encode 0 (length (replicate 129 NUL)) ''ckb'' [1, 31, 0] (replicate 129 NUL) = Ok True b' \<and>
    bech32_decode 84 (cstring_at 0 b') = Some (''ckb'', [1, 31, 0])"
  by (rule bech32_round_trip) (simp_all add: hrp_printable_nets)

text \<open>
  C29. \<open>segwit_addr_decode\<close> inverts \<open>segwit_addr_encode\<close> on every witness program the latter
  accepts (with a prefix that keeps the address within 90 characters).
\<close>

theorem segwit_round_trip:
  assumes "hrp_printable hrp" "length hrp \<le> 18" "0 \<le> witver" "witver \<le> 16"
    "witver = 0 \<longrightarrow> length prog = 20 \<or> length prog = 32" "2 \<le> length prog" "length prog \<le> 40"
    "90 < length b"
  shows "\<exists>b'. segwit_addr_encode 0 (length b) hrp witver prog b = Ok True b' \<and>
    segwit_addr_decode 40 hrp (cstring_at 0 b') = Some (word_of_int witver, prog)"
proof -
  have x: "\<forall>x\<in>set prog. unat x < 2 ^ 8" using unat_bound [where 'a = 8] by simp
  obtain gs p where gs: "convert_bits 65 5 prog 8 True = Some gs" "p < 5"
      "stream_of 5 gs = stream_of 8 prog @ replicate p False" "\<forall>x\<in>set gs. unat x < 2 ^ 5"
  proof -
    have "8 * length prog div 5 + 1 \<le> 65" using assms(7) by simp
    then show thesis using convert_bits_pad [of 5 8 prog 65] x that by auto
  qed
  have "5 * length gs = 8 * length prog + p" using arg_cong [OF gs(3), of length] by simp
  then have lg: "length gs \<le> 64" "2 \<le> length gs" using assms(6,7) gs(2) by linarith+
  have wv: "unat (word_of_int witver :: u8) = nat witver"
    using assms(3,4) by (simp add: unat_eq_nat_uint uint_word_of_int)
  have wv0: "(word_of_int witver :: u8) = 0 \<longleftrightarrow> witver = 0"
  proof
    assume "(word_of_int witver :: u8) = 0"
    then have "nat witver = 0" using wv by simp
    then show "witver = 0" using assms(3) by simp
  qed simp
  have wv16: "\<not> 16 < (word_of_int witver :: u8)"
    using wv assms(3,4) by (simp add: word_less_nat_alt)
  have d: "data_ok (word_of_int witver # gs)"
    using gs(4) wv assms(4) by (simp add: data_ok_def)
  have enc: "segwit_addr_encode 0 (length b) hrp witver prog b =
      bech32_encode 0 (length b) hrp (word_of_int witver # gs) b"
    using assms gs(1) by (auto simp: segwit_addr_encode_def)
  obtain b' where b': "bech32_encode 0 (length b) hrp (word_of_int witver # gs) b = Ok True b'"
      "bech32_decode 84 (cstring_at 0 b') = Some (hrp, word_of_int witver # gs)"
    using encode_decode [OF assms(1) d, of b] assms(2,8) lg by auto
  have inv: "convert_bits 40 8 gs 5 False = Some prog"
    by (rule convert_bits_back [OF gs(3,2,4) assms(7)])
  show ?thesis
    using b' inv lg assms(5-7) wv0 wv16 by (auto simp: enc segwit_addr_decode_def)
qed

lemma segwit_round_trip_witness:
  "\<exists>b'. segwit_addr_encode 0 (length (replicate 129 NUL)) ''ckt'' 1 [5, 255] (replicate 129 NUL) = Ok True b' \<and>
    segwit_addr_decode 40 ''ckt'' (cstring_at 0 b') = Some (word_of_int 1, [5, 255])"
  by (rule segwit_round_trip) (simp_all add: hrp_printable_nets)

end
