(* ===== verification/Settings.thy ===== *)
theory Settings
  imports To_String
begin

text \<open>
  The settings kept in NVRAM (\<open>nvram_data\<close> of \<open>src/src/types.h\<close>), the switches of
  \<open>src/src/globals.c\<close> and the first-start initialisation of \<open>src/src/main.c\<close>. The
  \<open>char[10]\<close> prompts are the C strings they hold; \<open>nvm_write\<close> of the copy is the returned
  record.
\<close>

datatype address_type_t = ADDRESS_MAINNET | ADDRESS_TESTNET
datatype sign_hash_type_t = SIGN_HASH_OFF | SIGN_HASH_ON
datatype contract_data_type_t = DISALLOW_CONTRACT_DATA | ALLOW_CONTRACT_DATA

record nvram_data =
  initialized :: bool
  address_type :: address_type_t
  network_prompt :: string
  sign_hash_type :: sign_hash_type_t
  sign_hash_prompt :: string
  contract_data_type :: contract_data_type_t
  contract_data_prompt :: string

definition switch_network :: "nvram_data \<Rightarrow> nvram_data" where
  "switch_network data =
     (let isMain = address_type data = ADDRESS_MAINNET;
          data1 = data\<lparr>address_type := if isMain then ADDRESS_TESTNET else ADDRESS_MAINNET\<rparr>
      in if isMain then data1\<lparr>network_prompt := ''testnet''\<rparr>
         else data1\<lparr>network_prompt := ''mainnet''\<rparr>)"

definition switch_sign_hash :: "nvram_data \<Rightarrow> nvram_data" where
  "switch_sign_hash data =
     (let isOn = sign_hash_type data = SIGN_HASH_ON;
          data1 = data\<lparr>sign_hash_type := if isOn then SIGN_HASH_OFF else SIGN_HASH_ON\<rparr>
      in if isOn then data1\<lparr>sign_hash_prompt := ''Off''\<rparr>
         else data1\<lparr>sign_hash_prompt := ''On''\<rparr>)"

definition switch_contract_data :: "nvram_data \<Rightarrow> nvram_data" where
  "switch_contract_data data =
     (let isOn = contract_data_type data = ALLOW_CONTRACT_DATA;
          data1 = data\<lparr>contract_data_type := if isOn then DISALLOW_CONTRACT_DATA else ALLOW_CONTRACT_DATA\<rparr>
      in if isOn then data1\<lparr>contract_data_prompt := ''Off''\<rparr>
         else data1\<lparr>contract_data_prompt := ''On''\<rparr>)"

text \<open>The block of \<open>app_main\<close> that runs when the NVRAM has never been written.\<close>

definition app_main_init_nvram :: "nvram_data \<Rightarrow> nvram_data" where
  "app_main_init_nvram data =
     (if initialized data then data
      else \<lparr>initialized = True, address_type = ADDRESS_MAINNET, network_prompt = ''mainnet'',
            sign_hash_type = SIGN_HASH_OFF, sign_hash_prompt = ''Off'',
            contract_data_type = DISALLOW_CONTRACT_DATA, contract_data_prompt = ''Off''\<rparr>)"

text \<open>The menu never lies: each prompt names the setting in force.\<close>

definition settings_shown :: "nvram_data \<Rightarrow> bool" where
  "settings_shown data \<longleftrightarrow> initialized data \<and>
     network_prompt data = (if address_type data = ADDRESS_MAINNET then ''mainnet'' else ''testnet'') \<and>
     sign_hash_prompt data = (if sign_hash_type data = SIGN_HASH_ON then ''On'' else ''Off'') \<and>
     contract_data_prompt data = (if contract_data_type data = ALLOW_CONTRACT_DATA then ''On'' else ''Off'')"

lemma switches_shown:
  assumes "settings_shown data"
  shows "settings_shown (switch_network data)" "settings_shown (switch_sign_hash data)"
    "settings_shown (switch_contract_data data)"
  using assms
  by (auto simp: settings_shown_def switch_network_def switch_sign_hash_def
      switch_contract_data_def Let_def)

lemma init_shown: "initialized data \<longrightarrow> settings_shown data \<Longrightarrow>
    settings_shown (app_main_init_nvram data)"
  by (auto simp: settings_shown_def app_main_init_nvram_def)

text \<open>The setting changes of the menu as a step relation.\<close>

inductive settings_step :: "nvram_data \<Rightarrow> nvram_data \<Rightarrow> bool" where
  network: "settings_step d (switch_network d)"
| sign_hash: "settings_step d (switch_sign_hash d)"
| contract: "settings_step d (switch_contract_data d)"

text \<open>
  C30. From the first start on, whatever settings the user switches, the configuration menu
  shows the settings in force.
\<close>

theorem menu_truthful:
  assumes "\<not> initialized d0" "settings_step\<^sup>*\<^sup>* (app_main_init_nvram d0) d"
  shows "settings_shown d"
  using assms(2)
proof (induction rule: rtranclp_induct)
  case base
  then show ?case using assms(1) by (simp add: init_shown)
next
  case (step d d')
  from step(2,3) show ?case by cases (simp_all add: switches_shown)
qed

definition blank_nvram :: nvram_data where
  "blank_nvram = \<lparr>initialized = False, address_type = ADDRESS_MAINNET, network_prompt = '''',
     sign_hash_type = SIGN_HASH_OFF, sign_hash_prompt = '''',
     contract_data_type = DISALLOW_CONTRACT_DATA, contract_data_prompt = ''''\<rparr>"

lemma menu_truthful_witness:
  "settings_shown (switch_network (switch_contract_data (app_main_init_nvram blank_nvram)))"
proof (rule menu_truthful)
  show "\<not> initialized blank_nvram" by (simp add: blank_nvram_def)
  show "settings_step\<^sup>*\<^sup>* (app_main_init_nvram blank_nvram)
      (switch_network (switch_contract_data (app_main_init_nvram blank_nvram)))"
    using settings_step.network settings_step.contract
    by (meson rtranclp.rtrancl_into_rtrancl rtranclp.rtrancl_refl)
qed

end
