(* ===== verification/Keys.thy ===== *)
theory Keys
  imports Prelude
begin

text \<open>
  \<open>src/src/keys.c\<close> and \<open>src/src/key_macros.h\<close>: BIP-32 paths, key pairs, signatures and
  lock arguments. The cryptographic functions of the Ledger SDK are a parameter of the
  model, the record \<open>sdk\<close>; the type of BLAKE2b contexts is \<open>'h\<close>.
\<close>

section \<open>The SDK\<close>

text \<open>
  \<open>sdk_blake2b_init2 bits perso\<close>: a fresh personalised context. \<open>sdk_hash\<close>: \<open>cx_hash\<close>
  without \<open>CX_LAST\<close>; \<open>sdk_hash_last\<close>: with it, the digest and the context left behind.
  \<open>sdk_derive_node\<close>: \<open>os_perso_derive_node_bip32\<close>, a 32-byte private key and the chain code,
  or an exception. \<open>sdk_generate_pair\<close>: the point of a private key, or an exception.
  \<open>sdk_ecdsa_sign\<close>: the 100-byte output block and the \<open>info\<close> flags, or an exception.
  \<open>sdk_rethrow_finally\<close>: whether the exception macros of the SDK run the \<open>FINALLY\<close> block
  of a \<open>BEGIN_TRY\<close> when its \<open>CATCH_OTHER\<close> block throws; the versions differ, and in those
  that close the context on entry to the \<open>CATCH_OTHER\<close> block the throw skips \<open>FINALLY\<close>.
\<close>

record 'h sdk =
  sdk_blake2b_init2 :: "nat \<Rightarrow> u8 list \<Rightarrow> 'h"
  sdk_blake2b_init :: "nat \<Rightarrow> 'h"
  sdk_hash :: "'h \<Rightarrow> u8 list \<Rightarrow> 'h"
  sdk_hash_last :: "'h \<Rightarrow> u8 list \<Rightarrow> u8 list \<times> 'h"
  sdk_derive_node :: "u32 list \<Rightarrow> u16 + (u8 list \<times> u8 list)"
  sdk_generate_pair :: "u8 list \<Rightarrow> u16 + u8 list"
  sdk_ecdsa_sign :: "u8 list \<Rightarrow> u8 list \<Rightarrow> u16 + (u8 list \<times> u32)"
  sdk_rethrow_finally :: bool

text \<open>What the code relies on: hashing in pieces is hashing the concatenation.\<close>

definition hash_lawful :: "'h sdk \<Rightarrow> bool" where
  "hash_lawful sdk \<longleftrightarrow>
     (\<forall>h a b. sdk_hash sdk (sdk_hash sdk h a) b = sdk_hash sdk h (a @ b)) \<and>
     (\<forall>h. sdk_hash sdk h [] = h) \<and>
     (\<forall>h a. sdk_hash_last sdk h a = sdk_hash_last sdk (sdk_hash sdk h a) [])"

text \<open>\<open>blake2b_personalization\<close> without its terminating null.\<close>

definition blake2b_personalization :: "u8 list" where
  "blake2b_personalization = map of_char ''ckb-default-hash''"

section \<open>Paths\<close>

definition MAX_BIP32_PATH :: nat where
  "MAX_BIP32_PATH = 5"

record bip32_path =
  path_length :: u8
  path_components :: "u32 list"

definition zero_path :: bip32_path where
  "zero_path = \<lparr>path_length = 0, path_components = replicate 5 0\<rparr>"

text \<open>The loop over \<open>out->components[i]\<close>, from index \<open>i\<close> on.\<close>

fun read_components :: "nat \<Rightarrow> nat \<Rightarrow> u8 list \<Rightarrow> u32 list \<Rightarrow> u32 list" where
  "read_components 0 i data cs = cs"
| "read_components (Suc n) i data cs =
     read_components n (Suc i) data (cs[i := be_word (take 4 (drop (1 + 4 * i) data))])"

text \<open>\<open>data\<close> is the \<open>in_size\<close> bytes at \<open>in\<close>; the result is the number of bytes consumed.\<close>

definition read_bip32_path :: "u8 list \<Rightarrow> bip32_path \<Rightarrow> (nat, bip32_path) res" where
  "read_bip32_path data out =
     (if length data < 1 then Throw EXC_WRONG_LENGTH_FOR_INS out
      else let out1 = out\<lparr>path_length := hd data\<rparr>; n = unat (hd data)
      in if length data - 1 < n * 4 then Throw EXC_WRONG_LENGTH_FOR_INS out1
         else if n = 0 \<or> MAX_BIP32_PATH < n then Throw EXC_WRONG_VALUES out1
         else Ok (1 + 4 * n) (out1\<lparr>path_components := read_components n 0 data (path_components out1)\<rparr>))"

section \<open>Key pairs\<close>

text \<open>
  \<open>struct priv_generate_key_pair\<close>, the only place where private keys live: the derived
  bytes and the pair. Zeroed blocks are lists of zeros; the public key is its point \<open>W\<close>.
\<close>

record key_mem =
  private_key_data :: "u8 list"
  pair_public :: "u8 list"
  pair_private :: "u8 list"

definition zeros :: "nat \<Rightarrow> u8 list" where
  "zeros n = replicate n 0"

definition zero_key_mem :: key_mem where
  "zero_key_mem = \<lparr>private_key_data = zeros 32, pair_public = zeros 65, pair_private = zeros 32\<rparr>"

text \<open>The result is the chain code; the pair is left in the global memory.\<close>

definition generate_extended_key_pair_return_global ::
    "'h sdk \<Rightarrow> bip32_path \<Rightarrow> key_mem \<Rightarrow> (u8 list, key_mem) res" where
  "generate_extended_key_pair_return_global sdk path k =
     (if length (path_components path) < unat (path_length path) then Undef
      else case sdk_derive_node sdk (take (unat (path_length path)) (path_components path)) of
        Inl e \<Rightarrow> Throw e k
      | Inr (d, chain_code) \<Rightarrow>
          let k1 = k\<lparr>private_key_data := d\<rparr>; k2 = k1\<lparr>pair_private := d\<rparr>
          in case sdk_generate_pair sdk d of
               Inl e \<Rightarrow> Throw e (k2\<lparr>private_key_data := zeros 32\<rparr>)
             | Inr w \<Rightarrow> Ok chain_code (k2\<lparr>pair_public := w, private_key_data := zeros 32\<rparr>))"

definition wipe_pair :: "key_mem \<Rightarrow> key_mem" where
  "wipe_pair k = k\<lparr>pair_public := zeros 65, pair_private := zeros 32\<rparr>"

text \<open>The public key is copied out and the pair wiped.\<close>

definition generate_extended_public_key ::
    "'h sdk \<Rightarrow> bip32_path \<Rightarrow> key_mem \<Rightarrow> (u8 list \<times> u8 list, key_mem) res" where
  "generate_extended_public_key sdk path k =
     res_bind (generate_extended_key_pair_return_global sdk path k)
       (\<lambda>chain_code k1. Ok (pair_public k1, chain_code) (wipe_pair k1))"

definition generate_public_key :: "'h sdk \<Rightarrow> bip32_path \<Rightarrow> key_mem \<Rightarrow> (u8 list, key_mem) res" where
  "generate_public_key sdk path k =
     res_bind (generate_extended_key_pair_return_global sdk path k)
       (\<lambda>_ k1. Ok (pair_public k1) (wipe_pair k1))"

text \<open>
  \<open>WITH_KEY_PAIR\<close>: the body sees the pair (public, private). \<open>FINALLY\<close> wipes the pair when
  the body returns; when it throws, \<open>CATCH_OTHER\<close> throws again, and whether the pair is wiped
  on the way out is up to the SDK.
\<close>

definition WITH_KEY_PAIR ::
    "'h sdk \<Rightarrow> bip32_path \<Rightarrow> (u8 list \<Rightarrow> u8 list \<Rightarrow> u16 + 'a) \<Rightarrow> key_mem \<Rightarrow> ('a, key_mem) res" where
  "WITH_KEY_PAIR sdk path body k =
     res_bind (generate_extended_key_pair_return_global sdk path k)
       (\<lambda>_ k1. case body (pair_public k1) (pair_private k1) of
          Inl e \<Rightarrow> Throw e (if sdk_rethrow_finally sdk then wipe_pair k1 else k1)
        | Inr a \<Rightarrow> Ok a (wipe_pair k1))"

section \<open>Signatures\<close>

definition CX_ECCINFO_PARITY_ODD :: u32 where "CX_ECCINFO_PARITY_ODD = 1"
definition CX_ECCINFO_xGTn :: u32 where "CX_ECCINFO_xGTn = 2"

text \<open>
  The conversion of a DER signature block to \<open>r || s || v\<close>. None: the sizes point outside
  the 100-byte block.
\<close>

definition der_to_compact :: "u8 list \<Rightarrow> u32 \<Rightarrow> u8 list option" where
  "der_to_compact sig info =
     (let r_size = unat (sig ! 3);
          r_size_sat = min r_size 32;
          r = 4 + (if 32 < r_size then 1 else 0)
      in if length sig \<le> 3 + r_size + 2 \<or> length sig < r + r_size_sat then None
         else let s_size = unat (sig ! (3 + r_size + 2));
                  s_size_sat = min s_size 32;
                  s = 4 + r_size + 2 + (if 32 < s_size then 1 else 0)
              in if length sig < s + s_size_sat then None
                 else let out0 = zeros 65;
                          out1 = mem_write out0 (32 - r_size_sat) (take r_size_sat (drop r sig));
                          out2 = mem_write out1 (64 - s_size_sat) (take s_size_sat (drop s sig));
                          v = (if info AND CX_ECCINFO_PARITY_ODD \<noteq> 0 then 1 else 0) OR
                              (if info AND CX_ECCINFO_xGTn \<noteq> 0 then 2 else 0)
                      in Some (out2[64 := v]))"

text \<open>
  \<open>sign\<close> with the private key \<open>priv\<close>: the 65 bytes written at \<open>out\<close>, an exception, or
  None for undefined behaviour.
\<close>

definition sign :: "'h sdk \<Rightarrow> nat \<Rightarrow> u8 list \<Rightarrow> u8 list \<Rightarrow> u16 + u8 list option" where
  "sign sdk out_size priv data =
     (if out_size < 65 then Inl EXC_WRONG_LENGTH
      else case sdk_ecdsa_sign sdk priv data of
        Inl e \<Rightarrow> Inl e
      | Inr (sig, info) \<Rightarrow> Inr (der_to_compact sig info))"

section \<open>Lock arguments\<close>

definition generate_lock_arg_for_pubkey :: "'h sdk \<Rightarrow> u8 list \<Rightarrow> u8 list" where
  "generate_lock_arg_for_pubkey sdk w =
     (let tag_byte = if w ! 64 AND 1 \<noteq> 0 then 0x03 else 0x02;
          h0 = sdk_blake2b_init2 sdk (32 * 8) blake2b_personalization;
          h1 = sdk_hash sdk h0 [tag_byte];
          h2 = sdk_hash sdk h1 (take 32 (drop 1 w));
          temp_hash = fst (sdk_hash_last sdk h2 [])
      in take 20 temp_hash)"

section \<open>Laws\<close>

lemma length_zeros [simp]: "length (zeros n) = n"
  by (simp add: zeros_def)

text \<open>Big-endian numbers, as on the wire.\<close>

definition u32_be :: "u32 \<Rightarrow> u8 list" where
  "u32_be w = rev (u32_le w)"

lemma be_word_u32_be [simp]: "be_word (u32_be w) = w"
  by (simp add: be_word_def u32_be_def)

lemma length_u32_be [simp]: "length (u32_be w) = 4"
  by (simp add: u32_be_def)

definition path_wire :: "u32 list \<Rightarrow> u8 list" where
  "path_wire cs = of_nat (length cs) # concat (map u32_be cs)"

lemma length_concat_be [simp]: "length (concat (map u32_be cs)) = 4 * length cs"
  by (induction cs) simp_all

lemma component_at:
  "i < length cs \<Longrightarrow> take 4 (drop (4 * i) (concat (map u32_be cs) @ rest)) = u32_be (cs ! i)"
proof (induction cs arbitrary: i)
  case (Cons c cs)
  then show ?case by (cases i) simp_all
qed simp

lemma read_components_eq:
  assumes "i + n = length cs" "length cs \<le> length out"
    "\<And>j. j < length cs \<Longrightarrow> be_word (take 4 (drop (1 + 4 * j) data)) = cs ! j"
  shows "read_components n i data (take i cs @ drop i out) = cs @ drop (length cs) out"
  using assms
proof (induction n arbitrary: i)
  case (Suc n)
  have i: "i < length cs" "i < length out" using Suc.prems(1,2) by simp_all
  have "(take i cs @ drop i out)[i := cs ! i] = take (Suc i) cs @ drop (Suc i) out"
    using i by (simp add: list_update_append take_Suc_conv_app_nth Cons_nth_drop_Suc [symmetric])
  with Suc i show ?case by simp
qed simp

lemmas component_at_end = component_at [where rest = "[]", simplified]

lemma wire_path:
  assumes "0 < length cs" "length cs \<le> 5" "length (path_components p) = 5"
  shows "read_bip32_path (path_wire cs @ rest) p =
    Ok (1 + 4 * length cs)
      (p\<lparr>path_length := of_nat (length cs),
         path_components := cs @ drop (length cs) (path_components p)\<rparr>)"
proof -
  have n: "unat (of_nat (length cs) :: u8) = length cs"
    using assms(2) by (simp add: unat_of_nat)
  have "read_components (length cs) 0 (path_wire cs @ rest)
      (take 0 cs @ drop 0 (path_components p)) = cs @ drop (length cs) (path_components p)"
    by (rule read_components_eq) (use assms in \<open>simp_all add: path_wire_def component_at component_at_end\<close>)
  then show ?thesis
    using assms n by (simp add: read_bip32_path_def path_wire_def MAX_BIP32_PATH_def Let_def)
qed

text \<open>
  C31. A path of one to five components is read back exactly from its wire form, whatever
  follows it, and the consumed size is right.
\<close>

theorem read_bip32_path_wire:
  assumes "0 < length cs" "length cs \<le> 5" "length (path_components p) = 5"
  shows "read_bip32_path (path_wire cs @ rest) p =
    Ok (1 + 4 * length cs)
      (p\<lparr>path_length := of_nat (length cs),
         path_components := cs @ drop (length cs) (path_components p)\<rparr>)"
  by (rule wire_path [OF assms])

lemma read_bip32_path_wire_witness:
  "read_bip32_path (path_wire [0x8000002C, 0x80000135, 0x80000000] @ [7]) zero_path =
    Ok (1 + 4 * length [0x8000002C, 0x80000135, 0x80000000 :: u32])
      (zero_path\<lparr>path_length := of_nat (length [0x8000002C, 0x80000135, 0x80000000 :: u32]),
         path_components := [0x8000002C, 0x80000135, 0x80000000] @
           drop (length [0x8000002C, 0x80000135, 0x80000000 :: u32]) (path_components zero_path)\<rparr>)"
  by (rule read_bip32_path_wire) (simp_all add: zero_path_def)

text \<open>
  C32. Whatever the packet, \<open>read_bip32_path\<close> stays inside its input and the five-element
  array: it throws, or it accepts a path of one to five components.
\<close>

theorem read_bip32_path_safe:
  assumes "length (path_components p) = 5"
  shows "(\<exists>e p'. read_bip32_path data p = Throw e p' \<and>
      e \<in> {EXC_WRONG_LENGTH_FOR_INS, EXC_WRONG_VALUES}) \<or>
    (\<exists>ix p'. read_bip32_path data p = Ok ix p' \<and> ix \<le> length data \<and>
      length (path_components p') = 5 \<and> 1 \<le> unat (path_length p') \<and> unat (path_length p') \<le> 5)"
proof -
  have l: "length (read_components n i data cs) = length cs" for n i cs
    by (induction n arbitrary: i cs) simp_all
  show ?thesis using assms
    by (auto simp: read_bip32_path_def Let_def l MAX_BIP32_PATH_def)
qed

lemma read_bip32_path_safe_witness:
  "(\<exists>e p'. read_bip32_path [1, 2] zero_path = Throw e p' \<and>
      e \<in> {EXC_WRONG_LENGTH_FOR_INS, EXC_WRONG_VALUES}) \<or>
    (\<exists>ix p'. read_bip32_path [1, 2] zero_path = Ok ix p' \<and> ix \<le> length [1, 2 :: u8] \<and>
      length (path_components p') = 5 \<and> 1 \<le> unat (path_length p') \<and> unat (path_length p') \<le> 5)"
  by (rule read_bip32_path_safe) (simp add: zero_path_def)

section \<open>Key material is wiped\<close>

definition no_secrets :: "key_mem \<Rightarrow> bool" where
  "no_secrets k \<longleftrightarrow> private_key_data k = zeros 32 \<and> pair_private k = zeros 32"

lemma generate_wipes_seed:
  "generate_extended_key_pair_return_global sdk path k = Ok a k' \<Longrightarrow> private_key_data k' = zeros 32"
  by (auto simp: generate_extended_key_pair_return_global_def Let_def split: if_splits sum.splits prod.splits)

lemma generate_public_wipes:
  "generate_extended_public_key sdk path k = Ok a k' \<Longrightarrow> no_secrets k'"
  "generate_public_key sdk path k = Ok w k' \<Longrightarrow> no_secrets k'"
  unfolding generate_extended_public_key_def generate_public_key_def res_bind_eq_Ok
  by (auto simp: wipe_pair_def no_secrets_def dest: generate_wipes_seed)

text \<open>
  C33. \<open>WITH_KEY_PAIR\<close> leaves no private key in memory when its body returns. When the body
  throws, the seed bytes are wiped, and the private key of the pair is gone exactly if the SDK
  runs \<open>FINALLY\<close> behind a throwing \<open>CATCH_OTHER\<close> (or the key was zero). When the key
  generation itself throws, either nothing was derived and nothing is touched, or the derived
  bytes are wiped and the key stays in the pair; what an exception leaves there is wiped by
  \<open>clear_apdu_globals\<close> before the next command.
\<close>

theorem with_key_pair_wipes:
  "case WITH_KEY_PAIR sdk path body k of
     Ok a k' \<Rightarrow> no_secrets k'
   | Throw e k' \<Rightarrow>
       (case generate_extended_key_pair_return_global sdk path k of
          Ok cc kp \<Rightarrow> body (pair_public kp) (pair_private kp) = Inl e \<and> private_key_data k' = zeros 32 \<and>
            (no_secrets k' \<longleftrightarrow> sdk_rethrow_finally sdk \<or> pair_private kp = zeros 32)
        | Throw e' kp \<Rightarrow> e' = e \<and> k' = kp \<and>
            (case sdk_derive_node sdk (take (unat (path_length path)) (path_components path)) of
               Inl e'' \<Rightarrow> k' = k
             | Inr (d, cc) \<Rightarrow> private_key_data k' = zeros 32 \<and> pair_private k' = d)
        | Undef \<Rightarrow> False)
   | Undef \<Rightarrow> length (path_components path) < unat (path_length path)"
proof (cases "generate_extended_key_pair_return_global sdk path k")
  case (Ok cc kp)
  then show ?thesis
    using generate_wipes_seed [OF Ok] by (auto simp: WITH_KEY_PAIR_def wipe_pair_def no_secrets_def split: sum.split)
next
  case (Throw e kp)
  then show ?thesis
    by (auto simp: WITH_KEY_PAIR_def generate_extended_key_pair_return_global_def Let_def
        split: if_splits sum.splits prod.splits)
next
  case Undef
  then show ?thesis
    by (auto simp: WITH_KEY_PAIR_def generate_extended_key_pair_return_global_def Let_def
        split: if_splits sum.splits prod.splits)
qed

definition demo_sdk :: "u8 list sdk" where
  "demo_sdk = \<lparr>sdk_blake2b_init2 = \<lambda>n p. p, sdk_blake2b_init = \<lambda>n. [], sdk_hash = (@),
     sdk_hash_last = \<lambda>h x. (take 32 (h @ x @ zeros 32), h @ x),
     sdk_derive_node = \<lambda>cs. Inr (replicate 32 7, replicate 32 9),
     sdk_generate_pair = \<lambda>d. Inr (replicate 65 4),
     sdk_ecdsa_sign = \<lambda>d x. Inr (zeros 100, 0), sdk_rethrow_finally = False\<rparr>"

section \<open>Signatures are \<open>r || s || v\<close>\<close>

text \<open>The reference: the DER encoding of a pair of 32-byte big-endian numbers.\<close>

definition der_int :: "u8 list \<Rightarrow> u8 list" where
  "der_int r = (let z = dropWhile (\<lambda>b. b = 0) r
     in if z = [] then [0] else if 0x80 \<le> hd z then 0 # z else z)"

definition der_sig :: "u8 list \<Rightarrow> u8 list \<Rightarrow> u8 list" where
  "der_sig r s = (let ri = der_int r; si = der_int s;
       body = [2, of_nat (length ri)] @ ri @ [2, of_nat (length si)] @ si
     in 0x30 # of_nat (length body) # body)"

definition recovery_id :: "u32 \<Rightarrow> u8" where
  "recovery_id info = (if info AND CX_ECCINFO_PARITY_ODD \<noteq> 0 then 1 else 0) OR
     (if info AND CX_ECCINFO_xGTn \<noteq> 0 then 2 else 0)"

lemma leading_zeros:
  "zeros (length r - length (dropWhile (\<lambda>b. b = 0) r)) @ dropWhile (\<lambda>b. b = 0) r = r"
proof -
  have "takeWhile (\<lambda>b. b = 0) r = zeros (length (takeWhile (\<lambda>b. b = 0) r))"
    unfolding zeros_def by (rule replicate_eqI) (auto dest: set_takeWhileD)
  moreover have "length (takeWhile (\<lambda>b. b = 0) r) = length r - length (dropWhile (\<lambda>b. b = 0) r)"
    by (metis add_diff_cancel_right' length_append takeWhile_dropWhile_id)
  ultimately show ?thesis by (metis takeWhile_dropWhile_id)
qed

lemma zeros_Suc: "zeros (Suc n) = zeros n @ [0]"
  by (simp add: zeros_def replicate_append_same)

text \<open>The bytes copied are the number without the sign byte; filled up they are the number.\<close>

lemma der_int_pad:
  assumes "length r = 32"
  shows "length (der_int r) \<le> 33" "0 < length (der_int r)"
    and "zeros (32 - min (length (der_int r)) 32) @
      take (min (length (der_int r)) 32) (drop (if 32 < length (der_int r) then 1 else 0) (der_int r)) = r"
proof -
  define z where "z = dropWhile (\<lambda>b. b = 0) r"
  have lz: "length z \<le> 32" using assms length_dropWhile_le [of "\<lambda>b. b = 0" r] by (simp add: z_def)
  have r: "zeros (32 - length z) @ z = r" using leading_zeros [of r] assms by (simp add: z_def)
  have d: "der_int r = (if z = [] then [0] else if 0x80 \<le> hd z then 0 # z else z)"
    by (simp add: der_int_def z_def Let_def)
  show "length (der_int r) \<le> 33" "0 < length (der_int r)" using lz by (auto simp: d)
  show "zeros (32 - min (length (der_int r)) 32) @
      take (min (length (der_int r)) 32) (drop (if 32 < length (der_int r) then 1 else 0) (der_int r)) = r"
  proof (cases "length z = 32")
    case True
    then show ?thesis using r by (auto simp: d zeros_def)
  next
    case False
    then have "length z < 32" using lz by simp
    moreover have "zeros (32 - Suc (length z)) @ 0 # z = r"
    proof -
      have "32 - length z = Suc (32 - Suc (length z))" using \<open>length z < 32\<close> by simp
      then show ?thesis using r by (simp add: zeros_Suc)
    qed
    ultimately show ?thesis using r by (auto simp: d)
  qed
qed

text \<open>
  C34. From every DER signature of a pair \<open>(r, s)\<close> the device returns the 32 bytes of \<open>r\<close>,
  the 32 bytes of \<open>s\<close> and the recovery id, at whatever length the numbers were encoded.
\<close>

theorem signature_compact:
  assumes "length r = 32" "length s = 32" "length (der_sig r s @ pad) = 100"
  shows "der_to_compact (der_sig r s @ pad) info = Some (r @ s @ [recovery_id info])"
proof -
  let ?ri = "der_int r" and ?si = "der_int s" and ?sig = "der_sig r s @ pad"
  let ?nr = "min (length ?ri) 32" and ?ns = "min (length ?si) 32"
  note ri = der_int_pad [OF assms(1)] and si = der_int_pad [OF assms(2)]
  have len: "unat (of_nat (length ?ri) :: u8) = length ?ri" "unat (of_nat (length ?si) :: u8) = length ?si"
    using ri(1) si(1) by (simp_all add: unat_of_nat)
  have sig: "?sig = [0x30, of_nat (4 + length ?ri + length ?si), 2, of_nat (length ?ri)] @ ?ri @
      [2, of_nat (length ?si)] @ ?si @ pad"
    by (simp add: der_sig_def Let_def)
  have s3: "?sig ! 3 = of_nat (length ?ri)" unfolding sig by (simp add: numeral_eq_Suc)
  have s5: "?sig ! (3 + length ?ri + 2) = of_nat (length ?si)"
    unfolding sig by (simp add: nth_append numeral_eq_Suc)
  have dr: "drop (4 + k) ?sig = drop k ?ri @ [2, of_nat (length ?si)] @ ?si @ pad"
    if "k \<le> length ?ri" for k
    using that unfolding sig by (simp add: numeral_eq_Suc)
  have ds: "drop (4 + length ?ri + 2 + k) ?sig = drop k ?si @ pad" if "k \<le> length ?si" for k
    using that unfolding sig by (simp add: numeral_eq_Suc)
  have l: "6 + length ?ri + length ?si + length pad = 100"
    using assms(3) unfolding sig by simp
  have tr: "take ?nr (drop (4 + (if 32 < length ?ri then 1 else 0)) ?sig) =
      take ?nr (drop (if 32 < length ?ri then 1 else 0) ?ri)"
    using ri(1) by (subst dr) auto
  have ts: "take ?ns (drop (4 + length ?ri + 2 + (if 32 < length ?si then 1 else 0)) ?sig) =
      take ?ns (drop (if 32 < length ?si then 1 else 0) ?si)"
    using si(1) by (subst ds) auto
  let ?xr = "take ?nr (drop (if 32 < length ?ri then 1 else 0) ?ri)"
  let ?xs = "take ?ns (drop (if 32 < length ?si then 1 else 0) ?si)"
  have lx: "length ?xr = ?nr" "length ?xs = ?ns" using ri(1) si(1) by auto
  have z: "zeros 65 = zeros (32 - ?nr) @ zeros ?nr @ zeros 33"
    by (simp add: zeros_def flip: replicate_add)
  have w1: "mem_write (zeros 65) (32 - ?nr) ?xr = r @ zeros 33"
    using ri(3) lx(1) unfolding z by (simp add: mem_write_def zeros_def)
  have z2: "r @ zeros 33 = (r @ zeros (32 - ?ns)) @ zeros ?ns @ zeros 1"
    by (simp add: zeros_def flip: replicate_add replicate_Suc)
  have w2: "mem_write (r @ zeros 33) (64 - ?ns) ?xs = r @ s @ zeros 1"
    using si(3) lx(2) assms(1) unfolding z2 by (simp add: mem_write_def)
  have v: "(r @ s @ zeros 1)[64 := x] = r @ s @ [x]" for x
    using assms(1,2) by (simp add: list_update_append zeros_def)
  show ?thesis
    unfolding der_to_compact_def Let_def s3 len s5 tr ts w1 w2 v
    using ri(1) si(1) l assms(3) by (auto simp: recovery_id_def)
qed

lemma signature_compact_witness:
  "der_to_compact (der_sig (replicate 32 0x90) (0 # replicate 31 0x11) @ zeros 30) 1 =
    Some (replicate 32 0x90 @ (0 # replicate 31 0x11) @ [recovery_id 1])"
  by (rule signature_compact) (simp_all add: der_sig_def der_int_def Let_def)

text \<open>
  C35. A lock argument is the first 20 bytes of the BLAKE2b hash of the compressed public
  key, for every SDK whose hash may be fed in pieces.
\<close>

theorem lock_arg_is_blake160:
  assumes "hash_lawful sdk" "length w = 65"
  shows "generate_lock_arg_for_pubkey sdk w =
    take 20 (fst (sdk_hash_last sdk (sdk_blake2b_init2 sdk 256 blake2b_personalization)
      ((if odd (unat (last w)) then 3 else 2) # take 32 (tl w))))"
proof -
  have l: "w ! 64 = last w" using assms(2) by (cases w rule: rev_cases) (simp_all add: nth_append)
  have t: "drop (Suc 0) w = tl w" by (simp add: drop_Suc)
  have o': "w ! 64 AND 1 \<noteq> 0 \<longleftrightarrow> odd (unat (last w))"
  proof -
    have "w ! 64 AND 1 \<noteq> 0 \<longleftrightarrow> unat (last w mod 2) \<noteq> 0"
      unfolding l and_one_eq by (simp only: unat_eq_zero)
    also have "unat (last w mod 2) = unat (last w) mod 2" by (simp add: unat_mod_distrib)
    finally show ?thesis by (simp add: odd_iff_mod_2_eq_one)
  qed
  have H: "sdk_hash_last sdk (sdk_hash sdk (sdk_hash sdk h [a]) b) [] = sdk_hash_last sdk h (a # b)" for h a b
    using assms(1) unfolding hash_lawful_def by (metis append_Cons append_Nil)
  show ?thesis
    by (simp add: generate_lock_arg_for_pubkey_def Let_def o' t H)
qed

lemma lock_arg_is_blake160_witness:
  "generate_lock_arg_for_pubkey demo_sdk (replicate 65 4) =
    take 20 (fst (sdk_hash_last demo_sdk (sdk_blake2b_init2 demo_sdk 256 blake2b_personalization)
      ((if odd (unat (last (replicate 65 (4 :: u8)))) then 3 else 2) # take 32 (tl (replicate 65 4)))))"
  by (rule lock_arg_is_blake160) (auto simp: hash_lawful_def demo_sdk_def)

end
