(* ===== verification/Address.thy ===== *)
theory Address
  imports Segwit_Laws Settings Keys
begin

text \<open>
  Rendering addresses and paths for the display: \<open>render_pkh\<close> and \<open>bip32_path_to_string\<close> of
  \<open>src/src/apdu_pubkey.c\<close>, the two \<open>lock_arg_to_*_address\<close> functions of
  \<open>src/src/to_string.c\<close>, and the lock script constants of \<open>src/src/apdu_sign.c\<close>. As in
  \<open>To_String\<close> a function that fills \<open>char *out\<close> works on the whole buffer from an offset on.
\<close>

section \<open>Constants\<close>

definition defaultLockScript :: "u8 list" where
  "defaultLockScript =
    [0x9b, 0xd7, 0xe0, 0x6f, 0x3e, 0xcf, 0x4b, 0xe0, 0xf2, 0xfc, 0xd2,
     0x18, 0x8b, 0x23, 0xf1, 0xb9, 0xfc, 0xc8, 0x8e, 0x5d, 0x4b, 0x65,
     0xa8, 0x63, 0x7b, 0x17, 0x72, 0x3b, 0xbd, 0xa3, 0xcc, 0xe8]"

definition multisigLockScript :: "u8 list" where
  "multisigLockScript =
    [0x5c, 0x50, 0x69, 0xeb, 0x08, 0x57, 0xef, 0xc6, 0x5e, 0x1b, 0xca,
     0x0c, 0x07, 0xdf, 0x34, 0xc3, 0x16, 0x63, 0xb3, 0x62, 0x2f, 0xd3,
     0x87, 0x6c, 0x87, 0x63, 0x20, 0xfc, 0x96, 0x34, 0xe2, 0xa8]"

definition dao_type_script_hash :: "u8 list" where
  "dao_type_script_hash =
    [0x82, 0xd7, 0x6d, 0x1b, 0x75, 0xfe, 0x2f, 0xd9, 0xa2, 0x7d, 0xfb,
     0xaa, 0x65, 0xa0, 0x39, 0x22, 0x1a, 0x38, 0x0d, 0x76, 0xc9, 0x26,
     0xf3, 0x78, 0xd3, 0xf8, 0x1c, 0xf3, 0xe7, 0xe1, 0x3f, 0x2e]"

definition ADDRESS_FORMAT_TYPE_SHORT :: u8 where "ADDRESS_FORMAT_TYPE_SHORT = 0x01"
definition ADDRESS_FORMAT_TYPE_FULL_TYPE :: u8 where "ADDRESS_FORMAT_TYPE_FULL_TYPE = 0x04"
definition ADDRESS_CODE_HASH_TYPE_SIGHASH :: u8 where "ADDRESS_CODE_HASH_TYPE_SIGHASH = 0x00"
definition ADDRESS_CODE_HASH_TYPE_MULTISIG :: u8 where "ADDRESS_CODE_HASH_TYPE_MULTISIG = 0x01"

section \<open>Addresses\<close>

text \<open>
  \<open>render_address_payload_t\<close>: the member \<open>s\<close> (format, code hash index, 20-byte hash) or
  \<open>f\<close> (format, 32-byte code hash, 28-byte lock argument); the format comes first in both.
\<close>

datatype render_address_payload_t =
    Payload_s u8 u8 "u8 list"
  | Payload_f u8 "u8 list" "u8 list"

fun payload_memory :: "render_address_payload_t \<Rightarrow> u8 list" where
  "payload_memory (Payload_s fmt idx h) = fmt # idx # h"
| "payload_memory (Payload_f fmt code_hash lock_arg) = fmt # code_hash @ lock_arg"

definition hrp_of :: "address_type_t \<Rightarrow> string" where
  "hrp_of net = (case net of ADDRESS_MAINNET \<Rightarrow> ''ckb'' | ADDRESS_TESTNET \<Rightarrow> ''ckt'')"

definition render_pkh :: "address_type_t \<Rightarrow> nat \<Rightarrow> nat \<Rightarrow> render_address_payload_t \<Rightarrow> cbuf act" where
  "render_pkh net out out_size payload b =
     (let mem = payload_memory payload;
          payload_len = if hd mem = ADDRESS_FORMAT_TYPE_SHORT then 22 else 61
      in if length mem < payload_len then Undef
         else case convert_bits 256 5 (take payload_len mem) 8 True of
             None \<Rightarrow> Throw EXC_MEMORY_ERROR b
           | Some base32 \<Rightarrow>
               res_bind (bech32_encode out out_size (hrp_of net) base32 b)
                 (\<lambda>ok b1. if ok then Ok () b1 else Throw EXC_MEMORY_ERROR b1))"

definition lock_arg_to_sighash_address :: "address_type_t \<Rightarrow> nat \<Rightarrow> nat \<Rightarrow> u8 list \<Rightarrow> cbuf act" where
  "lock_arg_to_sighash_address net dest buff_size lock_arg b =
     (if length lock_arg < 20 then Undef
      else render_pkh net dest buff_size
        (Payload_s ADDRESS_FORMAT_TYPE_SHORT ADDRESS_CODE_HASH_TYPE_SIGHASH (take 20 lock_arg)) b)"

definition has_timelock :: "u8 list \<Rightarrow> bool" where
  "has_timelock lock_arg \<longleftrightarrow> (\<exists>x\<in>set (take 8 (drop 20 lock_arg)). x \<noteq> 0)"

definition lock_arg_to_multisig_address :: "address_type_t \<Rightarrow> nat \<Rightarrow> nat \<Rightarrow> u8 list \<Rightarrow> cbuf act" where
  "lock_arg_to_multisig_address net dest buff_size lock_arg b =
     (if length lock_arg < 28 then Undef
      else if has_timelock lock_arg
      then render_pkh net dest buff_size
        (Payload_f ADDRESS_FORMAT_TYPE_FULL_TYPE multisigLockScript (take 28 lock_arg)) b
      else render_pkh net dest buff_size
        (Payload_s ADDRESS_FORMAT_TYPE_SHORT ADDRESS_CODE_HASH_TYPE_MULTISIG (take 20 lock_arg)) b)"

section \<open>Derivation paths\<close>

definition BIP32_HARDENED_PATH_BIT :: u32 where "BIP32_HARDENED_PATH_BIT = 0x80000000"

definition bound_check_buffer :: "nat \<Rightarrow> nat \<Rightarrow> 'g act" where
  "bound_check_buffer counter bound g = (if bound \<le> counter then Throw EXC_MEMORY_ERROR g else Ok () g)"

definition strlen :: "nat \<Rightarrow> cbuf \<Rightarrow> (nat, cbuf) res" where
  "strlen out b = (if NUL \<in> set (drop out b) then Ok (length (cstring_at out b)) b else Undef)"

text \<open>One guarded character at the current offset.\<close>

definition push_checked :: "nat \<Rightarrow> nat \<Rightarrow> char \<Rightarrow> nat \<Rightarrow> cbuf \<Rightarrow> (nat, cbuf) res" where
  "push_checked out out_size c off b =
     res_bind (bound_check_buffer off out_size b)
       (\<lambda>_ b1. res_bind (cstore (out + off) [c] b1) (\<lambda>_. Ok (off + 1)))"

text \<open>The loop from component \<open>i\<close> on; \<open>n\<close> rounds are left.\<close>

fun path_loop :: "nat \<Rightarrow> nat \<Rightarrow> bip32_path \<Rightarrow> nat \<Rightarrow> nat \<Rightarrow> nat \<Rightarrow> cbuf act" where
  "path_loop out out_size key 0 i off b = Ok () b"
| "path_loop out out_size key (Suc n) i off b =
     (let c = path_components key ! i;
          is_hardened = c AND BIP32_HARDENED_PATH_BIT \<noteq> 0;
          component = c AND NOT BIP32_HARDENED_PATH_BIT
      in if length (path_components key) \<le> i then Undef
         else res_bind (number_to_string_indirect32 (out + off) (out_size - off) component b)
           (\<lambda>_ b1. res_bind (strlen out b1)
             (\<lambda>off1 b2. res_bind (if is_hardened then push_checked out out_size (CHR 0x27) off1 b2 else Ok off1 b2)
               (\<lambda>off2 b3. res_bind (if Suc i < unat (path_length key) then push_checked out out_size (CHR ''/'') off2 b3
                                    else Ok off2 b3)
                 (\<lambda>off3 b4. res_bind (bound_check_buffer off3 out_size b4)
                   (\<lambda>_ b5. res_bind (cstore (out + off3) [NUL] b5)
                     (\<lambda>_. path_loop out out_size key n (Suc i) off3)))))))"

definition bip32_path_to_string :: "nat \<Rightarrow> nat \<Rightarrow> bip32_path \<Rightarrow> cbuf act" where
  "bip32_path_to_string out out_size key =
     path_loop out out_size key (min MAX_BIP32_PATH (unat (path_length key))) 0 0"

section \<open>What the addresses say\<close>

text \<open>The payload an output's address stands for, and the address as a string.\<close>

definition address_payload :: "bool \<Rightarrow> u8 list \<Rightarrow> u8 list" where
  "address_payload is_multisig lock_arg =
     (if is_multisig then
        if has_timelock lock_arg then 0x04 # multisigLockScript @ take 28 lock_arg
        else 0x01 # 0x01 # take 20 lock_arg
      else 0x01 # 0x00 # take 20 lock_arg)"

definition ckb_address :: "address_type_t \<Rightarrow> u8 list \<Rightarrow> string" where
  "ckb_address net payload = bech32_string (hrp_of net) (the (convert_bits 256 5 payload 8 True))"

text \<open>Both kinds of destination go through one renderer.\<close>

definition render_destination :: "address_type_t \<Rightarrow> nat \<Rightarrow> nat \<Rightarrow> bool \<Rightarrow> u8 list \<Rightarrow> cbuf act" where
  "render_destination net dest buff_size is_multisig lock_arg =
     (if is_multisig then lock_arg_to_multisig_address net dest buff_size lock_arg
      else lock_arg_to_sighash_address net dest buff_size lock_arg)"

lemma hrp_of_props [simp]: "hrp_printable (hrp_of net)" "length (hrp_of net) = 3"
  by (cases net; simp add: hrp_of_def hrp_printable_nets)+

lemma length_multisigLockScript [simp]: "length multisigLockScript = 32"
  by (simp add: multisigLockScript_def)

lemma payload_groups:
  assumes "length payload \<le> 61"
  obtains gs p where "convert_bits 256 5 payload 8 True = Some gs" "data_ok gs" "p < 5"
    "5 * length gs = 8 * length payload + p" "stream_of 5 gs = stream_of 8 payload @ replicate p False"
proof -
  have x: "\<forall>x\<in>set payload. unat x < 2 ^ 8" using unat_bound [where 'a = 8] by simp
  have "8 * length payload div 5 + 1 \<le> 256" using assms by simp
  then obtain gs p where g: "convert_bits 256 5 payload 8 True = Some gs" "p < 5"
      "stream_of 5 gs = stream_of 8 payload @ replicate p False" "\<forall>x\<in>set gs. unat x < 2 ^ 5"
    using convert_bits_pad [of 5 8 payload 256] x by auto
  have "5 * length gs = 8 * length payload + p" using arg_cong [OF g(3), of length] by simp
  with g that show thesis by (simp add: data_ok_def)
qed

text \<open>Where the address fits, it is written, and it is the C string that follows.\<close>

lemma encode_payload:
  assumes "length payload = 22 \<and> n = 46 \<or> length payload = 61 \<and> n = 108"
    "n \<le> sz" "dest + n < length b" "convert_bits 256 5 payload 8 True = Some gs"
  shows "bech32_encode dest sz (hrp_of net) gs b =
      Ok True (mem_write b dest (ckb_address net payload @ [NUL]))"
    "cstring_at dest (mem_write b dest (ckb_address net payload @ [NUL])) = ckb_address net payload"
    "length (ckb_address net payload) = n"
proof -
  have "length payload \<le> 61" using assms(1) by auto
  then obtain gs' p where g: "convert_bits 256 5 payload 8 True = Some gs'" "data_ok gs'" "p < 5"
    "5 * length gs' = 8 * length payload + p" by (rule payload_groups)
  with assms(1) have l: "length gs' + 10 = n" by auto
  have gs: "gs = gs'" using g(1) assms(4) by simp
  show "bech32_encode dest sz (hrp_of net) gs b =
      Ok True (mem_write b dest (ckb_address net payload @ [NUL]))"
    unfolding ckb_address_def g(1) option.sel gs
    by (rule bech32_encode_cstring(1)) (use assms g(2) l in auto)
  show "cstring_at dest (mem_write b dest (ckb_address net payload @ [NUL])) = ckb_address net payload"
    unfolding ckb_address_def g(1) option.sel
    by (rule bech32_encode_cstring(2)) (use assms g(2) l in auto)
  show "length (ckb_address net payload) = n" using g(1) l by (simp add: ckb_address_def)
qed

lemma length_address_payload:
  "length lock_arg = 28 \<Longrightarrow> length (address_payload m lock_arg) =
     (if m \<and> has_timelock lock_arg then 61 else 22)"
  by (simp add: address_payload_def)

definition address_width :: "bool \<Rightarrow> u8 list \<Rightarrow> nat" where
  "address_width m lock_arg = (if m \<and> has_timelock lock_arg then 108 else 46)"

lemma render_pkh_eq:
  assumes "payload_memory pl = p" "length p = (if hd p = 1 then 22 else 61)"
    "n = (if hd p = 1 then 46 else 108)" "n \<le> sz" "dest + n < length b"
  shows "render_pkh net dest sz pl b = Ok () (mem_write b dest (ckb_address net p @ [NUL]))"
proof -
  have l: "length p \<le> 61" and w: "length p = 22 \<and> n = 46 \<or> length p = 61 \<and> n = 108"
    using assms(2,3) by (auto split: if_splits)
  obtain gs where g: "convert_bits 256 5 p 8 True = Some gs" using l by (rule payload_groups)
  have t: "take (if hd p = 1 then 22 else 61) p = p"
    unfolding assms(2) [symmetric] by simp
  show ?thesis
    using encode_payload(1) [OF w assms(4,5) g] assms(2)
    unfolding render_pkh_def assms(1) Let_def ADDRESS_FORMAT_TYPE_SHORT_def t g by simp
qed

lemma render_destination_eq:
  assumes "length lock_arg = 28" "address_width m lock_arg \<le> sz"
    "dest + address_width m lock_arg < length b"
  shows "render_destination net dest sz m lock_arg b =
    Ok () (mem_write b dest (ckb_address net (address_payload m lock_arg) @ [NUL]))"
proof -
  have r: "render_pkh net dest sz pl b =
      Ok () (mem_write b dest (ckb_address net (address_payload m lock_arg) @ [NUL]))"
    if "payload_memory pl = address_payload m lock_arg" for pl
    by (rule render_pkh_eq [OF that _ _ assms(2,3)])
      (use assms(1) in \<open>simp_all add: address_payload_def address_width_def\<close>)
  show ?thesis
    using assms(1)
    by (auto simp: render_destination_def lock_arg_to_multisig_address_def
        lock_arg_to_sighash_address_def address_payload_def ADDRESS_FORMAT_TYPE_SHORT_def
        ADDRESS_FORMAT_TYPE_FULL_TYPE_def ADDRESS_CODE_HASH_TYPE_SIGHASH_def
        ADDRESS_CODE_HASH_TYPE_MULTISIG_def r)
qed

lemma data_string_inj:
  assumes "data_ok xs" "data_ok ys" "data_string xs = data_string ys"
  shows "xs = ys"
proof -
  have inj: "x = y" if "unat (x :: u8) < 32" "unat y < 32" "charset ! unat x = charset ! unat y" for x y
  proof -
    have "int (unat x) = int (unat y)"
      using charset_digit(1) [OF that(1)] charset_digit(1) [OF that(2)] that(3) by simp
    then show ?thesis by (simp only: word_unat_eq_iff of_nat_eq_iff)
  qed
  from assms show ?thesis
    unfolding data_string_def data_ok_def
    by (intro list.inj_map_strong [of xs ys]) (auto intro: inj)
qed

text \<open>An address determines its payload.\<close>

lemma ckb_address_inj:
  assumes "length p = 22 \<or> length p = 61" "length q = 22 \<or> length q = 61"
    "ckb_address net p = ckb_address net q"
  shows "p = q"
proof -
  have l: "length p \<le> 61" "length q \<le> 61" using assms(1,2) by auto
  obtain gs k where g: "convert_bits 256 5 p 8 True = Some gs" "data_ok gs" "k < 5"
    "5 * length gs = 8 * length p + k" "stream_of 5 gs = stream_of 8 p @ replicate k False"
    using l(1) by (rule payload_groups)
  obtain hs j where h: "convert_bits 256 5 q 8 True = Some hs" "data_ok hs" "j < 5"
    "5 * length hs = 8 * length q + j" "stream_of 5 hs = stream_of 8 q @ replicate j False"
    using l(2) by (rule payload_groups)
  have e: "bech32_string (hrp_of net) gs = bech32_string (hrp_of net) hs"
    using assms(3) g(1) h(1) by (simp add: ckb_address_def)
  have lg: "length gs = length hs" using arg_cong [OF e, of length] by simp
  have "data_string gs = data_string hs" using e lg by (simp add: bech32_string_def)
  then have "gs = hs" using g(2) h(2) by (intro data_string_inj)
  moreover have "convert_bits 61 8 gs 5 False = Some p"
    by (rule convert_bits_back [OF g(5,3)]) (use g(2) l in \<open>auto simp: data_ok_def\<close>)
  moreover have "convert_bits 61 8 hs 5 False = Some q"
    by (rule convert_bits_back [OF h(5,3)]) (use h(2) l in \<open>auto simp: data_ok_def\<close>)
  ultimately show ?thesis by simp
qed

lemma address_payload_inj:
  assumes "length a = 28" "length b = 28" "address_payload m a = address_payload n b"
  shows "m = n \<and> take 20 a = take 20 b \<and> (m \<longrightarrow> a = b)"
proof -
  have zero: "drop 20 x = replicate 8 0" if "length x = 28" "\<not> has_timelock x" for x :: "u8 list"
    using that by (intro replicate_eqI) (auto simp: has_timelock_def)
  have split: "x = y" if "take 20 x = take 20 y" "drop 20 x = drop 20 y" for x y :: "u8 list"
    using that by (metis append_take_drop_id)
  show ?thesis
    using assms zero [of a] zero [of b] split [of a b]
    by (auto simp: address_payload_def split: if_splits)
qed

section \<open>What the paths say\<close>

definition component_string :: "u32 \<Rightarrow> string" where
  "component_string c = dec (unat c mod 2 ^ 31) @ (if 2 ^ 31 \<le> unat c then [CHR 0x27] else [])"

fun path_string :: "u32 list \<Rightarrow> string" where
  "path_string [] = []"
| "path_string [c] = component_string c"
| "path_string (c # cs) = component_string c @ ''/'' @ path_string cs"

lemma hardened_bit:
  fixes c :: u32
  shows "c AND BIP32_HARDENED_PATH_BIT \<noteq> 0 \<longleftrightarrow> 2 ^ 31 \<le> unat c"
    "unat (c AND NOT BIP32_HARDENED_PATH_BIT) = unat c mod 2 ^ 31"
proof -
  have p: "BIP32_HARDENED_PATH_BIT = push_bit 31 1" by (simp add: BIP32_HARDENED_PATH_BIT_def)
  have b: "bit BIP32_HARDENED_PATH_BIT n \<longleftrightarrow> n = 31" for n
    unfolding p by (simp only: bit_push_bit_iff bit_1_iff) auto
  have "c AND NOT BIP32_HARDENED_PATH_BIT = take_bit 31 c"
    by (rule bit_word_eqI) (auto simp: bit_simps b)
  then show "unat (c AND NOT BIP32_HARDENED_PATH_BIT) = unat c mod 2 ^ 31"
    by (simp add: unsigned_take_bit_eq take_bit_eq_mod unat_mod_distrib)
  have "c AND BIP32_HARDENED_PATH_BIT \<noteq> 0 \<longleftrightarrow> bit c 31"
    unfolding bit_eq_iff by (auto simp: bit_simps b)
  also have "\<dots> \<longleftrightarrow> odd (unat c div 2 ^ 31)"
  proof -
    have "bit c 31 = bit (unat c) 31" by (simp add: bit_unsigned_iff)
    then show ?thesis by (simp only: bit_iff_odd)
  qed
  also have "\<dots> \<longleftrightarrow> 2 ^ 31 \<le> unat c"
  proof -
    have "unat c < 2 * 2 ^ 31" using unat_bound [of c] by simp
    then have "unat c div 2 ^ 31 = (if 2 ^ 31 \<le> unat c then 1 else 0)"
      by (auto simp: div_nat_eqI)
    then show ?thesis by simp
  qed
  finally show "c AND BIP32_HARDENED_PATH_BIT \<noteq> 0 \<longleftrightarrow> 2 ^ 31 \<le> unat c" .
qed

lemma component_string_props:
  "NUL \<notin> set (component_string c)" "length (component_string c) \<le> 11"
proof -
  show "NUL \<notin> set (component_string c)"
    by (auto simp: component_string_def NUL_def dest: subsetD [OF equalityD1 [OF refl]])
      (metis NUL_def dec_not_NUL)
  have "length (dec (unat c mod 2 ^ 31)) \<le> 10"
    by (rule length_dec) (simp_all add: less_trans [OF mod_less_divisor])
  moreover have "length (if 2 ^ 31 \<le> unat c then [CHR 0x27] else []) \<le> 1" by simp
  ultimately show "length (component_string c) \<le> 11"
    unfolding component_string_def length_append by linarith
qed

lemma path_string_Cons:
  "path_string (c # cs) = component_string c @ (if cs = [] then [] else CHR ''/'' # path_string cs)"
  by (cases cs) simp_all

text \<open>One round: the component replaces the terminator left by the round before.\<close>

lemma path_round:
  assumes "i < length (path_components key)" "c = path_components key ! i"
    "lst = (Suc i < unat (path_length key))" "t = component_string c @ (if lst then ''/'' else [])"
    "NUL \<notin> set s" "length u \<le> 1"
    "length s + 33 \<le> sz" "out + length s + 33 < length b0"
  shows "path_loop out sz key (Suc n) i (length s) (mem_write b0 out (s @ u)) =
    path_loop out sz key n (Suc i) (length (s @ t)) (mem_write b0 out ((s @ t) @ [NUL]))"
proof -
  let ?d = "dec (unat c mod 2 ^ 31)"
  let ?h = "if 2 ^ 31 \<le> unat c then [CHR 0x27] else []"
  have d: "length ?d \<le> 10" by (rule length_dec) (simp_all add: less_trans [OF mod_less_divisor])
  have len: "length (mem_write b0 out v) = length b0" if "length v \<le> length s + 33" for v
    using that assms(8) by simp
  have n: "number_to_string_indirect32 (out + length s) (sz - length s) (c AND NOT BIP32_HARDENED_PATH_BIT)
      (mem_write b0 out (s @ u)) = Ok () (mem_write b0 out ((s @ ?d) @ [NUL]))"
  proof -
    have x: "unat (ucast (c AND NOT BIP32_HARDENED_PATH_BIT) :: u64) = unat c mod 2 ^ 31"
      using hardened_bit(2) [of c] unat_bound [of "c AND NOT BIP32_HARDENED_PATH_BIT"]
      by (simp add: unsigned_ucast_eq take_bit_nat_eq_self)
    have "number_to_string (out + length s) (ucast (c AND NOT BIP32_HARDENED_PATH_BIT)) (mem_write b0 out (s @ u)) =
        Ok (length ?d) (mem_write (mem_write b0 out (s @ u)) (out + length s) (?d @ [NUL]))"
      using number_to_string_eq [of "out + length s" "ucast (c AND NOT BIP32_HARDENED_PATH_BIT)" "mem_write b0 out (s @ u)"]
        d assms(6,8) len [of "s @ u"] unfolding x by simp
    moreover have "mem_write (mem_write b0 out (s @ u)) (out + length s) (?d @ [NUL]) =
        mem_write b0 out (s @ ?d @ [NUL])"
      by (rule mem_write_overlap) (use d assms(6,8) in simp_all)
    ultimately show ?thesis
      using assms(7) by (simp add: number_to_string_indirect32_def MAX_INT_DIGITS_def)
  qed
  have sl: "strlen out (mem_write b0 out ((s @ ?d) @ [NUL])) =
      Ok (length (s @ ?d)) (mem_write b0 out ((s @ ?d) @ [NUL]))"
  proof -
    have "cstring_at out (mem_write b0 out ((s @ ?d) @ [NUL])) = s @ ?d"
      by (rule cstring_at_write) (use assms(5,8) d in auto)
    moreover have "NUL \<in> set (drop out (mem_write b0 out ((s @ ?d) @ [NUL])))"
      using d assms(8) by (subst drop_mem_write) auto
    ultimately show ?thesis by (simp add: strlen_def)
  qed
  have push: "push_checked out sz ch (length v) (mem_write b0 out (v @ w)) =
      Ok (length (v @ [ch])) (mem_write b0 out (v @ [ch]))"
    if "length v \<le> length s + 20" "length w \<le> 1" for ch v w
  proof -
    have "mem_write (mem_write b0 out (v @ w)) (out + length v) [ch] = mem_write b0 out (v @ [ch])"
      by (rule mem_write_overlap) (use that assms(8) in simp_all)
    then show ?thesis
      using that assms(7,8) len [of "v @ w"]
      by (simp add: push_checked_def bound_check_buffer_def cstore_def)
  qed
  have h: "(if 2 ^ 31 \<le> unat c then push_checked out sz (CHR 0x27) (length (s @ ?d)) (mem_write b0 out ((s @ ?d) @ [NUL]))
        else Ok (length (s @ ?d)) (mem_write b0 out ((s @ ?d) @ [NUL]))) =
      Ok (length (s @ ?d @ ?h)) (mem_write b0 out ((s @ ?d @ ?h) @ (if 2 ^ 31 \<le> unat c then [] else [NUL])))"
    using push [of "s @ ?d" "[NUL]" "CHR 0x27"] d by simp
  have sep: "(if lst then push_checked out sz (CHR ''/'') (length (s @ ?d @ ?h))
          (mem_write b0 out ((s @ ?d @ ?h) @ (if 2 ^ 31 \<le> unat c then [] else [NUL])))
        else Ok (length (s @ ?d @ ?h)) (mem_write b0 out ((s @ ?d @ ?h) @ (if 2 ^ 31 \<le> unat c then [] else [NUL])))) =
      Ok (length (s @ t)) (mem_write b0 out ((s @ t) @ (if lst \<or> 2 ^ 31 \<le> unat c then [] else [NUL])))"
    using push [of "s @ ?d @ ?h" "if 2 ^ 31 \<le> unat c then [] else [NUL]" "CHR ''/''"] d
    unfolding assms(4) component_string_def by (cases "2 ^ 31 \<le> unat c"; cases lst; simp)
  have lt: "length t \<le> 12" using component_string_props(2) [of c] unfolding assms(4) by simp
  have fin: "mem_write (mem_write b0 out ((s @ t) @ v)) (out + length (s @ t)) [NUL] =
      mem_write b0 out ((s @ t) @ [NUL])" if "length v \<le> 1" for v
    by (rule mem_write_overlap) (use that lt assms(8) in simp_all)
  show ?thesis
    using assms(1,7,8) lt fin len [of "(s @ t) @ (if lst \<or> 2 ^ 31 \<le> unat c then [] else [NUL])"]
    unfolding path_loop.simps Let_def assms(2) [symmetric] assms(3) [symmetric] hardened_bit(1) n
      res_bind_simps sl h sep
    by (simp add: bound_check_buffer_def cstore_def)
qed

lemma path_loop_eq:
  assumes "unat (path_length key) = length cs" "take (length cs) (path_components key) = cs"
    "n = length (drop i cs)" "NUL \<notin> set s" "length u \<le> 1" "0 < n"
    "length s + 12 * n + 33 \<le> sz" "out + length s + 12 * n + 33 < length b0"
  shows "path_loop out sz key n i (length s) (mem_write b0 out (s @ u)) =
    Ok () (mem_write b0 out ((s @ path_string (drop i cs)) @ [NUL]))"
  using assms(3-)
proof (induction n arbitrary: i s u)
  case (Suc n)
  have i: "i < length cs" using Suc.prems(1) by simp
  have comp: "path_components key ! i = cs ! i" "i < length (path_components key)"
    using assms(2) i by (metis nth_take, metis length_take min_less_iff_conj)
  define t where "t = component_string (cs ! i) @ (if Suc i < length cs then ''/'' else [])"
  have dr: "drop i cs = cs ! i # drop (Suc i) cs" using i by (simp add: Cons_nth_drop_Suc)
  have round: "path_loop out sz key (Suc n) i (length s) (mem_write b0 out (s @ u)) =
      path_loop out sz key n (Suc i) (length (s @ t)) (mem_write b0 out ((s @ t) @ [NUL]))"
    by (rule path_round [OF comp(2) refl refl])
      (use Suc.prems comp(1) assms(1) in \<open>simp_all add: t_def\<close>)
  have t: "length t \<le> 12" "NUL \<notin> set t"
    using component_string_props [of "cs ! i"] by (auto simp: t_def NUL_def)
  show ?case
  proof (cases "n = 0")
    case True
    then have l: "Suc i = length cs" using Suc.prems(1) i by simp
    then have "drop i cs = [cs ! i]" using dr by simp
    with l True show ?thesis unfolding round by (simp add: t_def)
  next
    case False
    then have l: "Suc i < length cs" using Suc.prems(1) by simp
    have "path_loop out sz key n (Suc i) (length (s @ t)) (mem_write b0 out ((s @ t) @ [NUL])) =
        Ok () (mem_write b0 out (((s @ t) @ path_string (drop (Suc i) cs)) @ [NUL]))"
      by (rule Suc.IH) (use Suc.prems t False in auto)
    then show ?thesis
      using l unfolding round dr path_string_Cons t_def by simp
  qed
qed simp

section \<open>Properties\<close>

text \<open>
  C17. Every output shown to the user is identified by its address: the renderers succeed
  wherever 109 characters are free, and two outputs are shown with the same string only if
  they have the same kind and the same lock hash, and in the multisig case also the same lock
  period.
\<close>

theorem address_identifies_output:
  assumes "length a = 28" "length c = 28" "108 \<le> buff_size" "dest + 108 < length b"
  shows "\<exists>b1 b2. render_destination net dest buff_size m a b = Ok () b1 \<and>
    render_destination net dest buff_size n c b = Ok () b2 \<and>
    (cstring_at dest b1 = cstring_at dest b2 \<longrightarrow>
      m = n \<and> take 20 a = take 20 c \<and> (m \<longrightarrow> a = c))"
proof -
  have w: "address_width k x \<le> buff_size" "dest + address_width k x < length b" for k x
    using assms(3,4) by (simp_all add: address_width_def)
  have s: "cstring_at dest (mem_write b dest (ckb_address net (address_payload k x) @ [NUL])) =
      ckb_address net (address_payload k x)" if x: "length x = 28" for k x
  proof -
    have p: "length (address_payload k x) = 22 \<and> address_width k x = 46 \<or>
        length (address_payload k x) = 61 \<and> address_width k x = 108"
      using x by (simp add: length_address_payload address_width_def)
    then have "length (address_payload k x) \<le> 61" by auto
    then obtain gs where "convert_bits 256 5 (address_payload k x) 8 True = Some gs"
      by (rule payload_groups)
    then show ?thesis using encode_payload(2) [OF p w] by blast
  qed
  have "address_payload m a = address_payload n c"
    if "ckb_address net (address_payload m a) = ckb_address net (address_payload n c)"
    by (rule ckb_address_inj [OF _ _ that]) (use assms in \<open>simp_all add: length_address_payload\<close>)
  then show ?thesis
    using render_destination_eq [OF assms(1) w, where m = m and net = net]
      render_destination_eq [OF assms(2) w, where m = n and net = net]
      s [OF assms(1)] s [OF assms(2)] address_payload_inj [OF assms(1,2)] by fastforce
qed

lemma address_identifies_output_witness:
  "\<exists>b1 b2. render_destination ADDRESS_MAINNET 0 129 True (replicate 20 7 @ replicate 8 1) (replicate 129 NUL) = Ok () b1 \<and>
    render_destination ADDRESS_MAINNET 0 129 True (replicate 20 7 @ replicate 8 0) (replicate 129 NUL) = Ok () b2 \<and>
    cstring_at 0 b1 \<noteq> cstring_at 0 b2"
proof -
  have "replicate 20 (7 :: u8) @ replicate 8 1 \<noteq> replicate 20 7 @ replicate 8 0"
    by (simp add: replicate_eq_replicate)
  then show ?thesis
    using address_identifies_output [of "replicate 20 7 @ replicate 8 1" "replicate 20 7 @ replicate 8 0"
        129 0 "replicate 129 NUL" ADDRESS_MAINNET True True] by fastforce
qed

text \<open>
  C36. A derivation path of up to five components is shown in the usual notation (decimal
  components, hardened ones with a prime, separated by slashes) and always fits the value
  field of 129 characters.
\<close>

theorem path_display:
  assumes "0 < unat (path_length key)" "unat (path_length key) \<le> 5" "length (path_components key) = 5"
    "length b = 129"
  shows "\<exists>b'. bip32_path_to_string 0 129 key b = Ok () b' \<and> length b' = 129 \<and>
    cstring_at 0 b' = path_string (take (unat (path_length key)) (path_components key))"
proof -
  let ?n = "unat (path_length key)"
  let ?cs = "take ?n (path_components key)"
  have l: "length ?cs = ?n" using assms(2,3) by simp
  have bound: "length (path_string cs) \<le> 12 * length cs \<and> NUL \<notin> set (path_string cs)" for cs
  proof (induction cs)
    case (Cons c cs)
    then show ?case using component_string_props [of c] by (auto simp: path_string_Cons NUL_def)
  qed simp
  have "path_loop 0 129 key ?n 0 (length ([] :: string)) (mem_write b 0 ([] @ [])) =
      Ok () (mem_write b 0 (([] @ path_string (drop 0 ?cs)) @ [NUL]))"
    by (rule path_loop_eq) (use assms l in simp_all)
  moreover have "mem_write b 0 ([] @ []) = b" by (simp add: mem_write_def)
  moreover have "min MAX_BIP32_PATH ?n = ?n" using assms(2) by (simp add: MAX_BIP32_PATH_def)
  ultimately have r: "bip32_path_to_string 0 129 key b = Ok () (mem_write b 0 (path_string ?cs @ [NUL]))"
    by (simp add: bip32_path_to_string_def)
  have "length (path_string ?cs) \<le> 60" using bound [of ?cs] l assms(2) by linarith
  then show ?thesis
    using r bound [of ?cs] assms(4) by (simp add: cstring_at_write)
qed

lemma path_display_witness:
  "\<exists>b'. bip32_path_to_string 0 129
      \<lparr>path_length = 3, path_components = [0x8000002C, 0x80000135, 0x80000000, 0, 0]\<rparr> (replicate 129 NUL) = Ok () b' \<and>
    length b' = 129 \<and> cstring_at 0 b' = path_string [0x8000002C, 0x80000135, 0x80000000]"
  using path_display [of "\<lparr>path_length = 3, path_components = [0x8000002C, 0x80000135, 0x80000000, 0, 0]\<rparr>"
      "replicate 129 NUL"] by simp

end
