(* ===== verification/Sign_State.thy ===== *)
theory Sign_State
  imports Annotated Address
begin

text \<open>
  The state of the transaction signer: \<open>apdu_sign_state_t\<close> and its parts, from
  \<open>src/src/globals.h\<close> and \<open>src/src/types.h\<close>. \<open>G\<close> of \<open>src/src/apdu_sign.c\<close> is this record;
  the record \<open>ctx\<close> extends it by the two other globals its callbacks use, the settings
  \<open>N_data\<close> and the key memory. One-bit fields are booleans.
\<close>

section \<open>Parsed transactions\<close>

datatype operation_tag =
    OPERATION_TAG_NONE
  | OPERATION_TAG_NOT_SET
  | OPERATION_TAG_PLAIN_TRANSFER
  | OPERATION_TAG_MULTI_OUTPUT_TRANSFER
  | OPERATION_TAG_SELF_TRANSFER
  | OPERATION_TAG_MULTI_INPUT_TRANSFER
  | OPERATION_TAG_DAO_DEPOSIT
  | OPERATION_TAG_DAO_PREPARE
  | OPERATION_TAG_DAO_WITHDRAW

definition HAS_DESTINATION_ADDRESS :: u8 where "HAS_DESTINATION_ADDRESS = 0x01"
definition HAS_CHANGE_ADDRESS :: u8 where "HAS_CHANGE_ADDRESS = 0x02"
definition MAX_OUTPUTS :: nat where "MAX_OUTPUTS = 5"

text \<open>\<open>dao_output_amount\<close> and \<open>group_input_count\<close> of the structure are never used.\<close>

record parsed_transaction =
  total_fee :: u64
  amount_fst :: u64
  amount_snd :: u64
  dao_amount :: u64
  input_count_fst :: u64
  input_count_snd :: u64
  tag :: operation_tag
  flags :: u8
  contract_type :: u8

definition zero_parsed :: parsed_transaction where
  "zero_parsed = \<lparr>total_fee = 0, amount_fst = 0, amount_snd = 0, dao_amount = 0,
     input_count_fst = 0, input_count_snd = 0, tag = OPERATION_TAG_NOT_SET, flags = 0,
     contract_type = 0\<rparr>"

section \<open>The parts of the signer's state\<close>

text \<open>\<open>lock_arg_index\<close> (5 bits) and \<open>data_size\<close> (4 bits) are only assigned what they can hold.\<close>

record cell_state_t =
  capacity :: u64
  dao_data_is_nonzero :: u8
  lock_arg_index :: nat
  data_size :: nat
  active :: bool
  is_dao :: bool
  is_multisig :: bool
  lock_arg_nonequal :: bool

definition zero_cell :: cell_state_t where
  "zero_cell = \<lparr>capacity = 0, dao_data_is_nonzero = 0, lock_arg_index = 0, data_size = 0,
     active = False, is_dao = False, is_multisig = False, lock_arg_nonequal = False\<rparr>"

text \<open>\<open>blake2b_hash_state_t\<close> is an option: \<open>None\<close> is the zeroed state, not initialised.\<close>

record 'h input_state_t =
  input_index :: u32
  input_hash_state :: "'h option"

definition zero_input :: "'h input_state_t" where
  "zero_input = \<lparr>input_index = 0, input_hash_state = None\<rparr>"

text \<open>
  The union member \<open>inp\<close>. \<open>inputs_start\<close> initialises only \<open>last_input_lock_arg\<close>; until
  \<open>input_start\<close> zeroes it, \<open>input_state\<close> holds bytes of another member (None).
\<close>

record 'h sign_inp =
  input_state :: "'h input_state_t option"
  last_input_lock_arg :: "u8 list"

record output_t =
  out_capacity :: u64
  destination :: "u8 list"
  out_is_multisig :: bool

definition zero_output :: output_t where
  "zero_output = \<lparr>out_capacity = 0, destination = zeros 28, out_is_multisig = False\<rparr>"

text \<open>\<open>witness_stack\<close> holds the state of the \<open>WitnessArgs\<close> reader; \<open>zero_table n\<close> is n zeroed fields.\<close>

definition zero_table :: "nat \<Rightarrow> mol_state" where
  "zero_table n = Table_st 0 0 0 (replicate n 0) mol_num_init_state"

record sign_tx =
  witness_multisig_lock_arg_consumed :: u32
  witness_stack :: mol_state
  current_output_index :: u32
  transaction_hash :: "u8 list"
  final_hash :: "u8 list"
  outputs :: "output_t list"
  dao_bitmask :: u64
  change_amount :: u64
  plain_output_amount :: u64
  dao_output_amount :: u64
  witness_multisig_threshold :: u8
  witness_multisig_pubkeys_cnt :: u8
  output_count :: u8
  is_first_witness :: bool
  hash_only :: bool
  first_witness_done :: bool
  is_self_transfer :: bool

definition zero_tx :: sign_tx where
  "zero_tx = \<lparr>witness_multisig_lock_arg_consumed = 0, witness_stack = zero_table 3,
     current_output_index = 0, transaction_hash = zeros 32, final_hash = zeros 32,
     outputs = replicate MAX_OUTPUTS zero_output, dao_bitmask = 0, change_amount = 0,
     plain_output_amount = 0, dao_output_amount = 0, witness_multisig_threshold = 0,
     witness_multisig_pubkeys_cnt = 0, output_count = 0, is_first_witness = False,
     hash_only = False, first_witness_done = False, is_self_transfer = False\<rparr>"

text \<open>
  The union \<open>G.u\<close>: the constructor is the member written last; all members of the zeroed
  union read as zero.
\<close>

datatype 'h sign_union =
    U_zero
  | U_temp_key bip32_path
  | U_inp "'h sign_inp"
  | U_tx sign_tx

text \<open>The pointer \<open>lock_arg_cmp\<close> is NULL or points to one of two lock arguments.\<close>

datatype lock_arg_ptr = Ptr_null | Ptr_current | Ptr_change

record 'h apdu_sign_state_t =
  su :: "'h sign_union"
  current_lock_arg :: "u8 list"
  change_lock_arg :: "u8 list"
  dao_cell_owner :: "u8 list"
  is_valid :: bool
  unsafe :: bool
  hard_reject :: bool
  parsed :: parsed_transaction
  hash_state :: "'h option"
  input_count :: u32
  distinct_input_sources :: u32
  cell_state :: cell_state_t
  transaction_stack :: mol_state
  dao_input_amount :: u64
  input_amount_fst :: u64
  input_amount_snd :: u64
  lock_arg_cmp :: lock_arg_ptr
  lock_arg_tmp :: "u8 list"
  key_path_components :: "u32 list"
  key_length :: u8
  signing_multisig_input :: bool

definition zero_sign_state :: "'h apdu_sign_state_t" where
  "zero_sign_state = \<lparr>su = U_zero, current_lock_arg = zeros 20, change_lock_arg = zeros 20,
     dao_cell_owner = zeros 20, is_valid = False, unsafe = False, hard_reject = False,
     parsed = zero_parsed, hash_state = None, input_count = 0, distinct_input_sources = 0,
     cell_state = zero_cell, transaction_stack = zero_table 5, dao_input_amount = 0,
     input_amount_fst = 0, input_amount_snd = 0, lock_arg_cmp = Ptr_null,
     lock_arg_tmp = zeros 28, key_path_components = replicate 3 0, key_length = 0,
     signing_multisig_input = False\<rparr>"

record 'h ctx = "'h apdu_sign_state_t" +
  nvram :: nvram_data
  keymem :: key_mem

section \<open>Access to the union\<close>

text \<open>Using a member that is not the live one is undefined.\<close>

definition live_temp_key :: "'h ctx \<Rightarrow> bip32_path option" where
  "live_temp_key g = (case su g of U_zero \<Rightarrow> Some zero_path | U_temp_key p \<Rightarrow> Some p | _ \<Rightarrow> None)"

definition live_inp :: "'h ctx \<Rightarrow> 'h sign_inp option" where
  "live_inp g = (case su g of
     U_zero \<Rightarrow> Some \<lparr>input_state = Some zero_input, last_input_lock_arg = zeros 20\<rparr>
   | U_inp i \<Rightarrow> Some i | _ \<Rightarrow> None)"

definition live_tx :: "'h ctx \<Rightarrow> sign_tx option" where
  "live_tx g = (case su g of U_zero \<Rightarrow> Some zero_tx | U_tx t \<Rightarrow> Some t | _ \<Rightarrow> None)"

definition on_temp_key :: "(bip32_path \<Rightarrow> 'h ctx \<Rightarrow> ('a, 'h ctx) res) \<Rightarrow> 'h ctx \<Rightarrow> ('a, 'h ctx) res" where
  "on_temp_key f g = (case live_temp_key g of None \<Rightarrow> Undef | Some p \<Rightarrow> f p g)"

definition on_inp :: "('h sign_inp \<Rightarrow> 'h ctx \<Rightarrow> ('a, 'h ctx) res) \<Rightarrow> 'h ctx \<Rightarrow> ('a, 'h ctx) res" where
  "on_inp f g = (case live_inp g of None \<Rightarrow> Undef | Some i \<Rightarrow> f i g)"

definition on_input_state ::
    "('h sign_inp \<Rightarrow> 'h input_state_t \<Rightarrow> 'h ctx \<Rightarrow> ('a, 'h ctx) res) \<Rightarrow> 'h ctx \<Rightarrow> ('a, 'h ctx) res" where
  "on_input_state f = on_inp (\<lambda>i g. case input_state i of None \<Rightarrow> Undef | Some s \<Rightarrow> f i s g)"

definition on_tx :: "(sign_tx \<Rightarrow> 'h ctx \<Rightarrow> ('a, 'h ctx) res) \<Rightarrow> 'h ctx \<Rightarrow> ('a, 'h ctx) res" where
  "on_tx f g = (case live_tx g of None \<Rightarrow> Undef | Some t \<Rightarrow> f t g)"

text \<open>\<open>memset(&G, 0, sizeof(G))\<close>.\<close>

definition clear_data :: "'h ctx \<Rightarrow> 'h ctx" where
  "clear_data g = apdu_sign_state_t.extend zero_sign_state (apdu_sign_state_t.more g)"

end
