(* ===== verification/Sign_Callbacks.thy ===== *)
theory Sign_Callbacks
  imports Sign_State
begin

text \<open>
  The parser callbacks of \<open>src/src/apdu_sign.c\<close> and the callback tables handed to the
  annotated-transaction reader, in the order of the file. A callback is an action on \<open>ctx\<close>;
  \<open>buf\<close> and its length are one list. The SDK is the parameter \<open>sdk\<close>.
\<close>

section \<open>Rejecting and hashing\<close>

text \<open>\<open>REJECT\<close> and \<open>REJECT_HARD\<close> set their flag and return from the callback.\<close>

definition REJECT_soft :: "'h ctx act" where
  "REJECT_soft g = Ok () (g\<lparr>unsafe := True\<rparr>)"

definition REJECT_HARD :: "'h ctx act" where
  "REJECT_HARD g = Ok () (g\<lparr>hard_reject := True\<rparr>)"

definition SIGN_HASH_SIZE :: nat where "SIGN_HASH_SIZE = 32"

definition conditional_init_hash_state :: "'h sdk \<Rightarrow> 'h option \<Rightarrow> 'h" where
  "conditional_init_hash_state sdk st =
     (case st of None \<Rightarrow> sdk_blake2b_init2 sdk (SIGN_HASH_SIZE * 8) blake2b_personalization
      | Some h \<Rightarrow> h)"

definition blake2b_incremental_hash :: "'h sdk \<Rightarrow> u8 list \<Rightarrow> 'h option \<Rightarrow> 'h option" where
  "blake2b_incremental_hash sdk buf st = Some (sdk_hash sdk (conditional_init_hash_state sdk st) buf)"

definition blake2b_finish_hash :: "'h sdk \<Rightarrow> 'h option \<Rightarrow> u8 list \<times> 'h option" where
  "blake2b_finish_hash sdk st =
     (let (digest, h) = sdk_hash_last sdk (conditional_init_hash_state sdk st) [] in (digest, Some h))"

definition prep_lock_arg :: "'h sdk \<Rightarrow> bip32_path \<Rightarrow> 'h ctx \<Rightarrow> (u8 list, 'h ctx) res" where
  "prep_lock_arg sdk key g =
     res_bind (zoom keymem (\<lambda>k g. g\<lparr>keymem := k\<rparr>) (generate_public_key sdk key) g)
       (\<lambda>w. Ok (generate_lock_arg_for_pubkey sdk w))"

definition contract_data_disallowed :: "'h ctx \<Rightarrow> bool" where
  "contract_data_disallowed g \<longleftrightarrow> contract_data_type (nvram g) = DISALLOW_CONTRACT_DATA"

section \<open>Inputs\<close>

definition blake2b_chunk :: "'h sdk \<Rightarrow> u8 list \<Rightarrow> 'h ctx act" where
  "blake2b_chunk sdk buf g = Ok () (g\<lparr>hash_state := blake2b_incremental_hash sdk buf (hash_state g)\<rparr>)"

definition inputs_start :: "'h ctx act" where
  "inputs_start g =
     (case live_inp g of
        Some i \<Rightarrow> Ok () (g\<lparr>su := U_inp (i\<lparr>last_input_lock_arg := zeros 20\<rparr>)\<rparr>)
      | None \<Rightarrow> Ok () (g\<lparr>su := U_inp \<lparr>input_state = None, last_input_lock_arg = zeros 20\<rparr>\<rparr>))"

definition input_start :: "'h ctx act" where
  "input_start = on_inp (\<lambda>i g. Ok ()
     (g\<lparr>cell_state := zero_cell, lock_arg_tmp := zeros 28,
        su := U_inp (i\<lparr>input_state := Some zero_input\<rparr>)\<rparr>))"

definition input_save_index :: "u8 list \<Rightarrow> 'h ctx act" where
  "input_save_index buf = on_input_state (\<lambda>i s g. Ok ()
     (g\<lparr>su := U_inp (i\<lparr>input_state := Some (s\<lparr>input_index := le_word (take 4 buf)\<rparr>)\<rparr>)\<rparr>))"

definition context_blake2b_chunk :: "'h sdk \<Rightarrow> u8 list \<Rightarrow> 'h ctx act" where
  "context_blake2b_chunk sdk buf = on_input_state (\<lambda>i s g. Ok ()
     (g\<lparr>su := U_inp (i\<lparr>input_state :=
        Some (s\<lparr>input_hash_state := blake2b_incremental_hash sdk buf (input_hash_state s)\<rparr>)\<rparr>)\<rparr>))"

definition finish_context_txn :: "'h sdk \<Rightarrow> 'h ctx act" where
  "finish_context_txn sdk = on_input_state (\<lambda>i s g.
     let (tx_hash, _) = blake2b_finish_hash sdk (input_hash_state s)
     in res_bind (blake2b_chunk sdk tx_hash g)
       (\<lambda>_ g1. res_bind (blake2b_chunk sdk (u32_le (input_index s)) g1)
         (\<lambda>_ g2. Ok () (g2\<lparr>su := U_inp (i\<lparr>input_state := Some zero_input\<rparr>)\<rparr>))))"

definition finish_inputs :: "'h ctx act" where
  "finish_inputs g = Ok () (g\<lparr>su := U_zero\<rparr>)"

definition input_context_start_idx :: "u32 \<Rightarrow> 'h ctx act" where
  "input_context_start_idx idx = on_input_state (\<lambda>i s g. Ok ()
     (g\<lparr>cell_state := (cell_state g)\<lparr>active := (idx = input_index s)\<rparr>\<rparr>))"

section \<open>Cells\<close>

definition cell_capacity :: "u8 list \<Rightarrow> 'h ctx act" where
  "cell_capacity buf g =
     (if \<not> active (cell_state g) then Ok () g
      else Ok () (g\<lparr>cell_state := (cell_state g)\<lparr>capacity := le_word (take 8 buf)\<rparr>\<rparr>))"

definition cell_lock_code_hash :: "u8 list \<Rightarrow> 'h ctx act" where
  "cell_lock_code_hash buf g =
     (if \<not> active (cell_state g) then Ok () g
      else if take 32 buf = defaultLockScript
      then Ok () (g\<lparr>cell_state := (cell_state g)\<lparr>is_multisig := False\<rparr>\<rparr>)
      else if take 32 buf = multisigLockScript
      then Ok () (g\<lparr>cell_state := (cell_state g)\<lparr>is_multisig := True\<rparr>\<rparr>)
      else if contract_data_disallowed g then REJECT_soft g
      else Ok () g)"

definition cell_script_hash_type :: "u8 \<Rightarrow> 'h ctx act" where
  "cell_script_hash_type hash_type g =
     (if \<not> active (cell_state g) then Ok () g
      else if hash_type \<noteq> 1 \<and> contract_data_disallowed g then REJECT_soft g
      else Ok () g)"

definition script_arg_start_input :: "'h ctx act" where
  "script_arg_start_input g =
     (if \<not> active (cell_state g) then Ok () g
      else Ok () (g\<lparr>cell_state := (cell_state g)\<lparr>lock_arg_index := 0, lock_arg_nonequal := False\<rparr>,
             lock_arg_cmp := Ptr_current\<rparr>))"

text \<open>
  The bytes from \<open>lock_arg_cmp\<close> on: the lock argument it points to and, as \<open>current_lock_arg\<close>,
  \<open>change_lock_arg\<close> and \<open>dao_cell_owner\<close> are consecutive members, the one after it.
\<close>

definition lock_arg_cmp_memory :: "'h ctx \<Rightarrow> u8 list" where
  "lock_arg_cmp_memory g = (case lock_arg_cmp g of
     Ptr_null \<Rightarrow> []
   | Ptr_current \<Rightarrow> current_lock_arg g @ change_lock_arg g
   | Ptr_change \<Rightarrow> change_lock_arg g @ dao_cell_owner g)"

text \<open>The loop that compares the new bytes with those at \<open>lock_arg_cmp\<close>, with its early return.\<close>

fun lock_arg_differs :: "u8 list \<Rightarrow> u8 list \<Rightarrow> bool \<Rightarrow> bool" where
  "lock_arg_differs (c # cs) (b # bs) ne =
     (let ne' = (ne \<or> c \<noteq> b) in if ne' then True else lock_arg_differs cs bs ne')"
| "lock_arg_differs cs bs ne = ne"

definition script_arg_chunk :: "u8 list \<Rightarrow> 'h ctx act" where
  "script_arg_chunk buf g =
     (let c = cell_state g; current_offset = lock_arg_index c
      in if \<not> active c then Ok () g
         else if 28 < lock_arg_index c + length buf
         then Ok () (g\<lparr>cell_state := c\<lparr>lock_arg_nonequal := True\<rparr>\<rparr>)
         else let g1 = g\<lparr>lock_arg_tmp := mem_write (lock_arg_tmp g) current_offset buf\<rparr>;
                  c1 = c\<lparr>lock_arg_index := lock_arg_index c + length buf\<rparr>
              in if lock_arg_cmp g = Ptr_null
                 then Ok () (g1\<lparr>cell_state := c1\<lparr>lock_arg_nonequal := True\<rparr>\<rparr>)
                 else Ok () (g1\<lparr>cell_state := c1\<lparr>lock_arg_nonequal :=
                        lock_arg_differs (drop current_offset (lock_arg_cmp_memory g)) buf (lock_arg_nonequal c)\<rparr>\<rparr>))"

definition input_lock_arg_end :: "'h ctx act" where
  "input_lock_arg_end g =
     (if \<not> active (cell_state g) then Ok () g
      else on_inp (\<lambda>i g.
        let hash = take 20 (lock_arg_tmp g);
            done = \<lambda>g. Ok () (g\<lparr>su := U_inp (i\<lparr>last_input_lock_arg := hash\<rparr>)\<rparr>)
        in if last_input_lock_arg i \<noteq> hash
           then let g1 = g\<lparr>distinct_input_sources := distinct_input_sources g + 1\<rparr>
                in if \<not> lock_arg_nonequal (cell_state g1)
                   then if input_count_fst (parsed g1) \<noteq> 0 then REJECT_soft g1
                        else done (g1\<lparr>parsed := (parsed g1)\<lparr>input_count_fst := ucast (distinct_input_sources g1)\<rparr>\<rparr>)
                   else done g1
           else done g) g)"

definition cell_type_code_hash :: "u8 list \<Rightarrow> 'h ctx act" where
  "cell_type_code_hash buf g =
     (if \<not> active (cell_state g) then Ok () g
      else if take 32 buf = dao_type_script_hash
      then Ok () (g\<lparr>cell_state := (cell_state g)\<lparr>is_dao := True\<rparr>\<rparr>)
      else if contract_data_disallowed g then REJECT_soft g
      else Ok () g)"

text \<open>\<open>REJECT_RETURN(true, ...)\<close> and \<open>REJECT_HARD_RETURN(false, ...)\<close>.\<close>

definition cell_type_arg_length :: "u32 \<Rightarrow> 'h ctx \<Rightarrow> (bool, 'h ctx) res" where
  "cell_type_arg_length len g =
     (if \<not> active (cell_state g) then Ok True g
      else if len \<noteq> 4 \<and> is_dao (cell_state g) then res_bind (REJECT_soft g) (\<lambda>_. Ok True)
      else if len \<noteq> 4 \<and> contract_data_disallowed g then res_bind (REJECT_soft g) (\<lambda>_. Ok True)
      else Ok True g)"

text \<open>
  The first statement, \<open>if (!G.cell_state.active) true;\<close>, has no effect: the size of inactive
  cells is recorded too.
\<close>

definition set_cell_data_size :: "u32 \<Rightarrow> 'h ctx \<Rightarrow> (bool, 'h ctx) res" where
  "set_cell_data_size sz g =
     (if sz < 4 then res_bind (REJECT_HARD g) (\<lambda>_. Ok False)
      else Ok True (g\<lparr>cell_state := (cell_state g)\<lparr>data_size := min 15 (unat (sz - 4))\<rparr>\<rparr>))"

definition check_cell_data_data_chunk :: "u8 list \<Rightarrow> 'h ctx act" where
  "check_cell_data_data_chunk buf g =
     (if \<not> active (cell_state g) then Ok () g
      else Ok () (g\<lparr>cell_state := (cell_state g)\<lparr>dao_data_is_nonzero :=
             foldl (\<lambda>a b. a OR b) (dao_data_is_nonzero (cell_state g)) buf\<rparr>\<rparr>))"

definition set_tag :: "operation_tag \<Rightarrow> 'h ctx \<Rightarrow> 'h ctx" where
  "set_tag t g = g\<lparr>parsed := (parsed g)\<lparr>tag := t\<rparr>\<rparr>"

text \<open>Both \<open>if\<close>s on an operation: the tag must be unset or the same.\<close>

definition require_tag :: "operation_tag \<Rightarrow> 'h ctx act" where
  "require_tag t g =
     (if tag (parsed g) \<noteq> t \<and> tag (parsed g) \<noteq> OPERATION_TAG_NOT_SET then REJECT_soft g
      else Ok () (set_tag t g))"

definition finish_input_cell_data :: "'h ctx act" where
  "finish_input_cell_data g =
     (let c = cell_state g
      in if \<not> active c then Ok () g
         else if is_dao c then
           let g1 = g\<lparr>dao_cell_owner := take 20 (lock_arg_tmp g)\<rparr>
           in if data_size c \<noteq> 8 then REJECT_soft g1
              else let g2 = g1\<lparr>dao_input_amount := dao_input_amount g1 + capacity c\<rparr>
                   in if dao_data_is_nonzero c \<noteq> 0 then require_tag OPERATION_TAG_DAO_WITHDRAW g2
                      else require_tag OPERATION_TAG_DAO_PREPARE g2
         else if data_size c \<noteq> 0 \<and> contract_data_disallowed g then REJECT_soft g
         else let g1 = if 0 < data_size c then g\<lparr>parsed := (parsed g)\<lparr>contract_type := CONTRACT_UNKNOWN\<rparr>\<rparr> else g;
                  g2 = g1\<lparr>input_amount_snd := input_amount_snd g1 + capacity c\<rparr>;
                  g3 = if \<not> lock_arg_nonequal c then g2\<lparr>input_amount_fst := input_amount_fst g2 + capacity c\<rparr> else g2
              in Ok () (g3\<lparr>signing_multisig_input := (signing_multisig_input g3 \<or> is_multisig c)\<rparr>))"

definition hash_type_cb :: "'h ctx byte_callbacks" where
  "hash_type_cb = \<lparr>byte_end = Some cell_script_hash_type\<rparr>"

definition annotatedCellInput_callbacks :: "'h sdk \<Rightarrow> 'h ctx AnnotatedCellInput_callbacks" where
  "annotatedCellInput_callbacks sdk =
    \<lparr>start_cb = Some input_start, chunk_cb = None, end_cb = None,
     annotatedcellinput_offsets = None,
     annotatedcellinput_input = Some \<lparr>start_cb = None, chunk_cb = None, end_cb = None,
       cellinput_since = Some \<lparr>bytes_end = Some (blake2b_chunk sdk)\<rparr>,
       cellinput_previous_output = Some \<lparr>start_cb = None, chunk_cb = None, end_cb = None,
         outpoint_tx_hash = None,
         outpoint_index = Some \<lparr>bytes_end = Some input_save_index\<rparr>\<rparr>\<rparr>,
     annotatedcellinput_source = Some \<lparr>start_cb = None,
       chunk_cb = Some (context_blake2b_chunk sdk), end_cb = Some (finish_context_txn sdk),
       rawtransaction_offsets = None, rawtransaction_version = None, rawtransaction_cell_deps = None,
       rawtransaction_header_deps = None, rawtransaction_inputs = None,
       rawtransaction_outputs = Some \<lparr>start_cb = None, chunk_cb = None, end_cb = None,
         dynvec_size = None, dynvec_length = None, dynvec_index = Some input_context_start_idx,
         dynvec_item = Some \<lparr>start_cb = None, chunk_cb = None, end_cb = None, celloutput_offsets = None,
           celloutput_capacity = Some \<lparr>bytes_end = Some cell_capacity\<rparr>,
           celloutput_lock = Some \<lparr>start_cb = None, chunk_cb = None, end_cb = Some input_lock_arg_end,
             script_offsets = None,
             script_code_hash = Some \<lparr>bytes_end = Some cell_lock_code_hash\<rparr>,
             script_hash_type = Some hash_type_cb,
             script_args = Some \<lparr>start_cb = Some script_arg_start_input, chunk_cb = None, end_cb = None,
               bytes_size = None, bytes_body_chunk = Some script_arg_chunk\<rparr>\<rparr>,
           celloutput_type = Some \<lparr>start_cb = None, chunk_cb = None, end_cb = None,
             option_item_cb = Some \<lparr>start_cb = None, chunk_cb = None, end_cb = None, script_offsets = None,
               script_code_hash = Some \<lparr>bytes_end = Some cell_type_code_hash\<rparr>,
               script_hash_type = Some hash_type_cb,
               script_args = Some \<lparr>start_cb = None, chunk_cb = None, end_cb = None,
                 bytes_size = Some cell_type_arg_length, bytes_body_chunk = None\<rparr>\<rparr>\<rparr>\<rparr>\<rparr>,
       rawtransaction_outputs_data = Some \<lparr>start_cb = None, chunk_cb = None, end_cb = None,
         dynvec_size = None, dynvec_length = None, dynvec_index = Some input_context_start_idx,
         dynvec_item = Some \<lparr>start_cb = None, chunk_cb = None, end_cb = Some finish_input_cell_data,
           bytes_size = Some set_cell_data_size, bytes_body_chunk = Some check_cell_data_data_chunk\<rparr>\<rparr>\<rparr>\<rparr>"

section \<open>The raw transaction\<close>

definition blake2b_input_count :: "'h sdk \<Rightarrow> u32 \<Rightarrow> 'h ctx act" where
  "blake2b_input_count sdk len g =
     (if len \<noteq> input_count g then REJECT_HARD g
      else blake2b_chunk sdk (u32_le (input_count g)) g)"

text \<open>
  The header of the plain \<open>RawTransaction\<close> that the annotated one stands for. \<open>offs\<close>: the
  offsets of version, cell_deps, header_deps, inputs, outputs and outputs_data.
\<close>

definition computeNewOffsetsToHash :: "'h sdk \<Rightarrow> u32 \<Rightarrow> u32 list \<Rightarrow> 'h ctx act" where
  "computeNewOffsetsToHash sdk total_size offs g =
     (let to_subtract = offs ! 4 - offs ! 3 - (44 * input_count g + 4)
      in res_bind (blake2b_chunk sdk (u32_le (total_size - to_subtract)) g)
        (\<lambda>_ g. res_bind (blake2b_chunk sdk (u32_le (offs ! 0)) g)
          (\<lambda>_ g. res_bind (blake2b_chunk sdk (u32_le (offs ! 1)) g)
            (\<lambda>_ g. res_bind (blake2b_chunk sdk (u32_le (offs ! 2)) g)
              (\<lambda>_ g. res_bind (blake2b_chunk sdk (u32_le (offs ! 3)) g)
                (\<lambda>_ g. res_bind (blake2b_chunk sdk (u32_le (offs ! 4 - to_subtract)) g)
                  (\<lambda>_ g. blake2b_chunk sdk (u32_le (offs ! 5 - to_subtract)) g)))))))"

definition output_start :: "u32 \<Rightarrow> 'h ctx act" where
  "output_start index = on_tx (\<lambda>t g. Ok ()
     (g\<lparr>su := U_tx (t\<lparr>current_output_index := index\<rparr>),
        cell_state := zero_cell\<lparr>active := True\<rparr>, lock_arg_tmp := zeros 28, lock_arg_cmp := Ptr_change\<rparr>))"

definition set_flag :: "u8 \<Rightarrow> 'h ctx \<Rightarrow> 'h ctx" where
  "set_flag f g = g\<lparr>parsed := (parsed g)\<lparr>flags := flags (parsed g) OR f\<rparr>\<rparr>"

definition has_flag :: "u8 \<Rightarrow> 'h ctx \<Rightarrow> bool" where
  "has_flag f g \<longleftrightarrow> flags (parsed g) AND f \<noteq> 0"

text \<open>
  The end of every branch for a destination: the amount goes to the last output entry.
\<close>

definition add_to_last_output :: "sign_tx \<Rightarrow> 'h ctx act" where
  "add_to_last_output t g =
     (let n = unat (output_count t); cap = capacity (cell_state g)
      in if n = 0 \<or> length (outputs t) < n then Undef
         else let t1 = t\<lparr>plain_output_amount := plain_output_amount t + cap\<rparr>;
                  o1 = outputs t1 ! (n - 1);
                  t2 = t1\<lparr>outputs := (outputs t1)[n - 1 := o1\<lparr>out_capacity := out_capacity o1 + cap\<rparr>]\<rparr>
              in Ok () (set_flag HAS_DESTINATION_ADDRESS (g\<lparr>su := U_tx t2\<rparr>)))"

text \<open>Entry \<open>k\<close> takes kind and lock argument of the current cell.\<close>

definition set_output :: "nat \<Rightarrow> 'h ctx \<Rightarrow> sign_tx \<Rightarrow> sign_tx" where
  "set_output k g t = t\<lparr>outputs := (outputs t)[k := (outputs t ! k)
     \<lparr>out_is_multisig := is_multisig (cell_state g), destination := lock_arg_tmp g\<rparr>],
     output_count := output_count t + 1\<rparr>"

definition output_end :: "'h ctx act" where
  "output_end = on_tx (\<lambda>t g.
     let c = cell_state g; n = unat (output_count t)
     in if is_dao c then
          if 31 \<le> current_output_index t then Undef
          else let t1 = t\<lparr>dao_output_amount := dao_output_amount t + capacity c,
                          dao_bitmask := dao_bitmask t OR push_bit (unat (current_output_index t)) 1\<rparr>;
                   g1 = g\<lparr>dao_cell_owner := take 20 (lock_arg_tmp g), su := U_tx t1\<rparr>
               in if lock_arg_nonequal c \<or> is_multisig c then REJECT_soft g1
                  else Ok () (set_flag HAS_CHANGE_ADDRESS g1)
        else if lock_arg_nonequal c \<or> is_multisig c then
          if \<not> has_flag HAS_DESTINATION_ADDRESS g then
            if output_count t \<noteq> 0 then Throw EXC_MEMORY_ERROR g
            else add_to_last_output (set_output 0 g t) g
          else if n = 0 \<or> length (outputs t) < n then Undef
          else if take 20 (destination (outputs t ! (n - 1))) \<noteq> take 20 (lock_arg_tmp g) \<or>
                  out_is_multisig (outputs t ! (n - 1)) \<noteq> is_multisig c then
            if tag (parsed g) \<noteq> OPERATION_TAG_NOT_SET \<and> tag (parsed g) \<noteq> OPERATION_TAG_MULTI_OUTPUT_TRANSFER
            then REJECT_soft g
            else let g1 = set_tag OPERATION_TAG_MULTI_OUTPUT_TRANSFER g
                 in if MAX_OUTPUTS \<le> n then REJECT_soft g1
                    else add_to_last_output (set_output n g1 t) g1
          else add_to_last_output t g
        else Ok () (set_flag HAS_CHANGE_ADDRESS
               (g\<lparr>su := U_tx (t\<lparr>change_amount := change_amount t + capacity c\<rparr>)\<rparr>)))"

text \<open>
  \<open>flags &= !HAS_CHANGE_ADDRESS\<close> is \<open>flags &= 0\<close>: it clears every flag.
\<close>

definition outputs_end :: "'h ctx act" where
  "outputs_end = on_tx (\<lambda>t g.
     if dao_bitmask t \<noteq> 0 \<or> tag (parsed g) = OPERATION_TAG_DAO_PREPARE
        \<or> tag (parsed g) = OPERATION_TAG_DAO_WITHDRAW then Ok () g
     else let t1 = t\<lparr>is_self_transfer :=
                (\<not> has_flag HAS_DESTINATION_ADDRESS g \<and> has_flag HAS_CHANGE_ADDRESS g)\<rparr>;
              g1 = g\<lparr>su := U_tx t1\<rparr>
          in if \<not> is_self_transfer t1 then Ok () g1
             else if plain_output_amount t1 \<noteq> 0 then Throw EXC_WRONG_PARAM g1
             else if output_count t1 \<noteq> 0 then Throw EXC_MEMORY_ERROR g1
             else let t2 = t1\<lparr>plain_output_amount := change_amount t1, change_amount := 0, output_count := 1,
                         outputs := (outputs t1)[0 := (outputs t1 ! 0)
                           \<lparr>destination := mem_write (destination (outputs t1 ! 0)) 0 (take 20 (change_lock_arg g1))\<rparr>]\<rparr>;
                      g2 = set_flag HAS_DESTINATION_ADDRESS g1
                  in Ok () (g2\<lparr>parsed := (parsed g2)\<lparr>flags := flags (parsed g2) AND 0\<rparr>, su := U_tx t2\<rparr>))"

definition validate_output_data_start :: "u32 \<Rightarrow> 'h ctx act" where
  "validate_output_data_start idx = on_tx (\<lambda>t g.
     if 64 \<le> idx then Undef
     else Ok () (g\<lparr>cell_state := (cell_state g)
       \<lparr>is_dao := (dao_bitmask t AND push_bit (unat idx) 1 \<noteq> 0)\<rparr>\<rparr>))"

definition finish_output_cell_data :: "'h ctx act" where
  "finish_output_cell_data g =
     (let c = cell_state g
      in if is_dao c then
           if data_size c \<noteq> 8 then REJECT_soft g
           else if dao_data_is_nonzero c \<noteq> 0 then require_tag OPERATION_TAG_DAO_PREPARE g
           else require_tag OPERATION_TAG_DAO_DEPOSIT g
         else if data_size c \<noteq> 0 \<and> contract_data_disallowed g then REJECT_soft g
         else if 0 < data_size c then Ok () (g\<lparr>parsed := (parsed g)\<lparr>contract_type := CONTRACT_UNKNOWN\<rparr>\<rparr>)
         else Ok () g)"

text \<open>
  The \<open>switch\<close> of \<open>finalize_raw_transaction\<close>: None is the \<open>return\<close> inside \<open>REJECT\<close>.
\<close>

definition finalize_tag :: "sign_tx \<Rightarrow> 'h ctx \<Rightarrow> 'h ctx option" where
  "finalize_tag t g =
     (let p = parsed g; put = \<lambda>p. Some (g\<lparr>parsed := p\<rparr>)
      in case tag p of
           OPERATION_TAG_NONE \<Rightarrow> Some g
         | OPERATION_TAG_MULTI_INPUT_TRANSFER \<Rightarrow> None
         | OPERATION_TAG_SELF_TRANSFER \<Rightarrow> put (p\<lparr>amount_snd := plain_output_amount t\<rparr>)
         | OPERATION_TAG_MULTI_OUTPUT_TRANSFER \<Rightarrow>
             if 1 < distinct_input_sources g then None else put (p\<lparr>amount_snd := plain_output_amount t\<rparr>)
         | OPERATION_TAG_DAO_DEPOSIT \<Rightarrow> put (p\<lparr>dao_amount := dao_output_amount t\<rparr>)
         | OPERATION_TAG_DAO_PREPARE \<Rightarrow>
             if dao_output_amount t \<noteq> dao_input_amount g then None
             else put (p\<lparr>dao_amount := dao_output_amount t\<rparr>)
         | OPERATION_TAG_DAO_WITHDRAW \<Rightarrow>
             if dao_output_amount t \<noteq> 0 \<or> plain_output_amount t \<noteq> 0 then None
             else put (p\<lparr>dao_amount := dao_input_amount g\<rparr>)
         | _ \<Rightarrow>
             if 1 < distinct_input_sources g then
               if signing_multisig_input g \<or> input_count_fst p = 0 then None
               else put (p\<lparr>tag := OPERATION_TAG_MULTI_INPUT_TRANSFER,
                      input_count_snd := ucast (distinct_input_sources g),
                      amount_fst := input_amount_fst g, amount_snd := plain_output_amount t\<rparr>)
             else put (p\<lparr>tag := if is_self_transfer t then OPERATION_TAG_SELF_TRANSFER
                                else OPERATION_TAG_PLAIN_TRANSFER,
                      amount_snd := plain_output_amount t\<rparr>))"

text \<open>What the rejecting branches have assigned before they return.\<close>

definition finalize_rejected :: "sign_tx \<Rightarrow> 'h ctx \<Rightarrow> 'h ctx" where
  "finalize_rejected t g =
     (let p = parsed g
      in case tag p of
           OPERATION_TAG_DAO_PREPARE \<Rightarrow> g\<lparr>parsed := p\<lparr>dao_amount := dao_output_amount t\<rparr>\<rparr>
         | OPERATION_TAG_DAO_WITHDRAW \<Rightarrow> g\<lparr>parsed := p\<lparr>dao_amount := dao_input_amount g\<rparr>\<rparr>
         | OPERATION_TAG_NOT_SET \<Rightarrow>
             if signing_multisig_input g then g
             else g\<lparr>parsed := p\<lparr>tag := OPERATION_TAG_MULTI_INPUT_TRANSFER\<rparr>\<rparr>
         | OPERATION_TAG_PLAIN_TRANSFER \<Rightarrow>
             if signing_multisig_input g then g
             else g\<lparr>parsed := p\<lparr>tag := OPERATION_TAG_MULTI_INPUT_TRANSFER\<rparr>\<rparr>
         | _ \<Rightarrow> g)"

definition finalize_raw_transaction :: "'h sdk \<Rightarrow> 'h ctx act" where
  "finalize_raw_transaction sdk = on_tx (\<lambda>t g.
     case finalize_tag t g of
       None \<Rightarrow> REJECT_soft (finalize_rejected t g)
     | Some g1 \<Rightarrow>
         let fee = (input_amount_snd g1 + dao_input_amount g1) -
               (plain_output_amount t + dao_output_amount t + change_amount t);
             fee' = if tag (parsed g1) = OPERATION_TAG_DAO_WITHDRAW then - fee else fee;
             (digest, h) = blake2b_finish_hash sdk (hash_state g1)
         in Ok () (g1\<lparr>parsed := (parsed g1)\<lparr>total_fee := fee'\<rparr>, hash_state := h,
                su := U_tx (t\<lparr>transaction_hash := digest\<rparr>)\<rparr>))"

definition AnnotatedRawTransaction_sign_callbacks :: "'h sdk \<Rightarrow> 'h ctx AnnotatedRawTransaction_callbacks" where
  "AnnotatedRawTransaction_sign_callbacks sdk =
    \<lparr>start_cb = None, chunk_cb = None, end_cb = Some (finalize_raw_transaction sdk),
     annotatedrawtransaction_offsets = Some (computeNewOffsetsToHash sdk),
     annotatedrawtransaction_version = Some \<lparr>bytes_end = Some (blake2b_chunk sdk)\<rparr>,
     annotatedrawtransaction_cell_deps = Some \<lparr>start_cb = None, chunk_cb = Some (blake2b_chunk sdk),
       end_cb = None, fixvec_size = None, fixvec_index = None, fixvec_item = None\<rparr>,
     annotatedrawtransaction_header_deps = Some \<lparr>start_cb = None, chunk_cb = Some (blake2b_chunk sdk),
       end_cb = None, fixvec_size = None, fixvec_index = None, fixvec_item = None\<rparr>,
     annotatedrawtransaction_inputs = Some \<lparr>start_cb = Some inputs_start, chunk_cb = None,
       end_cb = Some finish_inputs, dynvec_size = None,
       dynvec_length = Some (blake2b_input_count sdk), dynvec_index = None,
       dynvec_item = Some (annotatedCellInput_callbacks sdk)\<rparr>,
     annotatedrawtransaction_outputs = Some \<lparr>start_cb = None, chunk_cb = Some (blake2b_chunk sdk),
       end_cb = Some outputs_end, dynvec_size = None, dynvec_length = None,
       dynvec_index = Some output_start,
       dynvec_item = Some \<lparr>start_cb = None, chunk_cb = None, end_cb = Some output_end,
         celloutput_offsets = None,
         celloutput_capacity = Some \<lparr>bytes_end = Some cell_capacity\<rparr>,
         celloutput_lock = Some \<lparr>start_cb = None, chunk_cb = None, end_cb = None, script_offsets = None,
           script_code_hash = Some \<lparr>bytes_end = Some cell_lock_code_hash\<rparr>,
           script_hash_type = Some hash_type_cb,
           script_args = Some \<lparr>start_cb = None, chunk_cb = None, end_cb = None, bytes_size = None,
             bytes_body_chunk = Some script_arg_chunk\<rparr>\<rparr>,
         celloutput_type = Some \<lparr>start_cb = None, chunk_cb = None, end_cb = None,
           option_item_cb = Some \<lparr>start_cb = None, chunk_cb = None, end_cb = None, script_offsets = None,
             script_code_hash = Some \<lparr>bytes_end = Some cell_type_code_hash\<rparr>,
             script_hash_type = Some hash_type_cb,
             script_args = Some \<lparr>start_cb = None, chunk_cb = None, end_cb = None,
               bytes_size = Some cell_type_arg_length, bytes_body_chunk = None\<rparr>\<rparr>\<rparr>\<rparr>\<rparr>,
     annotatedrawtransaction_outputs_data = Some \<lparr>start_cb = None, chunk_cb = Some (blake2b_chunk sdk),
       end_cb = None, dynvec_size = None, dynvec_length = None,
       dynvec_index = Some validate_output_data_start,
       dynvec_item = Some \<lparr>start_cb = None, chunk_cb = None, end_cb = Some finish_output_cell_data,
         bytes_size = Some set_cell_data_size, bytes_body_chunk = Some check_cell_data_data_chunk\<rparr>\<rparr>\<rparr>"

section \<open>Signing and change path\<close>

definition init_bip32 :: "u32 \<Rightarrow> 'h ctx \<Rightarrow> (bool, 'h ctx) res" where
  "init_bip32 sz g =
     (if sz < 4 then res_bind (REJECT_HARD g) (\<lambda>_. Ok False)
      else if 20 < sz - 4 then res_bind (REJECT_HARD g) (\<lambda>_. Ok False)
      else on_temp_key (\<lambda>p g. Ok True (g\<lparr>su := U_temp_key (p\<lparr>path_length := 0\<rparr>)\<rparr>)) g)"

definition bip32_component :: "u8 list \<Rightarrow> 'h ctx act" where
  "bip32_component buf = on_temp_key (\<lambda>p g.
     let n = unat (path_length p)
     in if length (path_components p) \<le> n then Undef
        else Ok () (g\<lparr>su := U_temp_key (p\<lparr>path_length := path_length p + 1,
               path_components := (path_components p)[n := le_word (take 4 buf)]\<rparr>)\<rparr>))"

definition set_sign_path :: "'h sdk \<Rightarrow> 'h ctx act" where
  "set_sign_path sdk = on_temp_key (\<lambda>key g.
     res_bind (prep_lock_arg sdk key g)
       (\<lambda>lock_arg g1. Ok () (g1\<lparr>current_lock_arg := lock_arg,
          key_path_components := take 3 (drop 2 (path_components key)), key_length := path_length key,
          change_lock_arg := lock_arg\<rparr>)))"

definition set_change_path :: "'h sdk \<Rightarrow> 'h ctx act" where
  "set_change_path sdk = on_temp_key (\<lambda>key g.
     res_bind (prep_lock_arg sdk key g) (\<lambda>lock_arg g1. Ok () (g1\<lparr>change_lock_arg := lock_arg\<rparr>)))"

section \<open>Witnesses\<close>

text \<open>\<open>offs\<close>: the offsets of lock, input_type and output_type. The \<open>int\<close> subtraction may overflow.\<close>

definition witness_offsets :: "'h sdk \<Rightarrow> u32 \<Rightarrow> u32 list \<Rightarrow> 'h ctx act" where
  "witness_offsets sdk total_size offs g =
     (if signing_multisig_input g then
        let header = [total_size, offs ! 0, offs ! 1, offs ! 2]
        in res_bind (blake2b_chunk sdk (u64_le (ucast total_size)) g)
          (\<lambda>_. blake2b_chunk sdk (concat (map u32_le header)))
      else
        let lock_wit_len = sint (offs ! 1 - offs ! 0)
        in if 69 - lock_wit_len > 2 ^ 31 - 1 then Undef
           else let shift = word_of_int (69 - lock_wit_len) :: u32;
                    new_header = [total_size + shift, offs ! 0, offs ! 1 + shift, offs ! 2 + shift]
                in res_bind (blake2b_chunk sdk (u64_le (ucast (total_size + shift))) g)
                  (\<lambda>_ g1. res_bind (blake2b_chunk sdk (concat (map u32_le new_header)) g1)
                    (\<lambda>_. blake2b_chunk sdk (0x41 # zeros 68))))"

definition witness_lock_arg_size :: "'h sdk \<Rightarrow> u32 \<Rightarrow> 'h ctx \<Rightarrow> (bool, 'h ctx) res" where
  "witness_lock_arg_size sdk sz g =
     (if \<not> signing_multisig_input g then Ok True g
      else if sz < 4 then res_bind (REJECT_HARD g) (\<lambda>_. Ok False)
      else res_bind (blake2b_chunk sdk (u32_le (sz - 4)) g) (\<lambda>_. Ok True))"

text \<open>
  A read of \<open>buf\<close> behind the bytes of this call is \<open>Undef\<close>: the code then uses whatever
  follows in the packet buffer. The zeroing of the signatures happens in place, but no one
  reads the buffer again.
\<close>

definition witness_lock_arg_body_chunk :: "'h sdk \<Rightarrow> u8 list \<Rightarrow> 'h ctx act" where
  "witness_lock_arg_body_chunk sdk buf g =
     (if \<not> signing_multisig_input g then Ok () g
      else on_tx (\<lambda>t g.
        let consumed = unat (witness_multisig_lock_arg_consumed t)
        in if consumed = 0 \<and> buf = [] then Undef
           else if consumed = 0 \<and> hd buf \<noteq> 0 then REJECT_soft g
           else if consumed < 4 \<and> length buf \<le> 3 - consumed then Undef
           else
             let t1 = if consumed < 3 then t\<lparr>witness_multisig_threshold := buf ! (2 - consumed)\<rparr> else t;
                 t2 = if consumed < 4 then t1\<lparr>witness_multisig_pubkeys_cnt := buf ! (3 - consumed)\<rparr> else t1;
                 cnt = unat (witness_multisig_pubkeys_cnt t2);
                 signatures_start = (of_nat (4 + 20 * cnt) - witness_multisig_lock_arg_consumed t2 :: u32);
                 k = unat signatures_start;
                 buf1 = if 0 < cnt \<and> 0 < k \<and> k < length buf then take k buf @ zeros (length buf - k) else buf
             in res_bind (blake2b_chunk sdk buf1 (g\<lparr>su := U_tx t2\<rparr>))
               (\<lambda>_ g1. Ok () (g1\<lparr>su := U_tx (t2\<lparr>witness_multisig_lock_arg_consumed :=
                  witness_multisig_lock_arg_consumed t2 + of_nat (length buf)\<rparr>)\<rparr>))) g)"

definition WitnessArgs_rewrite_callbacks :: "'h sdk \<Rightarrow> 'h ctx WitnessArgs_callbacks" where
  "WitnessArgs_rewrite_callbacks sdk =
    \<lparr>start_cb = None, chunk_cb = None, end_cb = None,
     witnessargs_offsets = Some (witness_offsets sdk),
     witnessargs_lock = Some \<lparr>start_cb = None, chunk_cb = None, end_cb = None,
       option_item_cb = Some \<lparr>start_cb = None, chunk_cb = None, end_cb = None,
         bytes_size = Some (witness_lock_arg_size sdk),
         bytes_body_chunk = Some (witness_lock_arg_body_chunk sdk)\<rparr>\<rparr>,
     witnessargs_input_type = Some \<lparr>start_cb = None, chunk_cb = Some (blake2b_chunk sdk), end_cb = None,
       option_item_cb = None\<rparr>,
     witnessargs_output_type = Some \<lparr>start_cb = None, chunk_cb = Some (blake2b_chunk sdk), end_cb = None,
       option_item_cb = None\<rparr>\<rparr>"

text \<open>A fresh hash over the transaction hash, as the first witness starts it.\<close>

definition restart_hash :: "'h sdk \<Rightarrow> sign_tx \<Rightarrow> 'h ctx \<Rightarrow> 'h ctx" where
  "restart_hash sdk t g =
     g\<lparr>hash_state := blake2b_incremental_hash sdk (take SIGN_HASH_SIZE (transaction_hash t)) None\<rparr>"

definition begin_witness :: "'h sdk \<Rightarrow> u32 \<Rightarrow> 'h ctx act" where
  "begin_witness sdk index = on_tx (\<lambda>t g.
     let t1 = t\<lparr>is_first_witness := (index = 0)\<rparr>
     in if is_first_witness t1 then
          let t2 = t1\<lparr>witness_multisig_threshold := 0, witness_multisig_pubkeys_cnt := 0,
                witness_multisig_lock_arg_consumed := 0\<rparr>
          in res_bind (MolReader_WitnessArgs_init_state (Some (WitnessArgs_rewrite_callbacks sdk))
                 (restart_hash sdk t2 (g\<lparr>su := U_tx t2\<rparr>)))
               (\<lambda>ws g1. Ok () (g1\<lparr>su := U_tx (t2\<lparr>witness_stack := ws\<rparr>)\<rparr>))
        else Ok () (g\<lparr>su := U_tx t1\<rparr>))"

definition hash_witness_length :: "'h sdk \<Rightarrow> u32 \<Rightarrow> 'h ctx \<Rightarrow> (bool, 'h ctx) res" where
  "hash_witness_length sdk sz g =
     (if sz < 4 then Ok False g
      else on_tx (\<lambda>t g. if is_first_witness t then Ok True g
        else res_bind (blake2b_chunk sdk (u64_le (ucast (sz - 4))) g) (\<lambda>_. Ok True)) g)"

text \<open>
  The reader's verdict is used only to notice completion; its callbacks may write the other
  members of \<open>tx\<close>, never \<open>witness_stack\<close>.
\<close>

definition process_witness :: "'h sdk \<Rightarrow> u8 list \<Rightarrow> 'h ctx act" where
  "process_witness sdk buff = on_tx (\<lambda>t g.
     if is_first_witness t then
       res_bind (MolReader_WitnessArgs_parse (Some (WitnessArgs_rewrite_callbacks sdk)) MOL_NUM_MAX
           (witness_stack t) buff g)
         (\<lambda>(rv, ws, _). on_tx (\<lambda>t1 g1.
            let t2 = t1\<lparr>witness_stack := ws\<rparr>
            in Ok () (g1\<lparr>su := U_tx (if rv = COMPLETE then t2\<lparr>first_witness_done := True\<rparr> else t2)\<rparr>)))
     else blake2b_chunk sdk buff g)"

text \<open>\<open>self_witness\<close>: the length of a \<open>WitnessArgs\<close> with an empty 65-byte lock, and its bytes.\<close>

definition self_witness :: "u8 list" where
  "self_witness = [0x55, 0, 0, 0, 0, 0, 0, 0] @
     [0x55, 0, 0, 0, 0x10, 0, 0, 0, 0x55, 0, 0, 0, 0x55, 0, 0, 0] @ [0x41, 0, 0, 0] @ zeros 65"

definition process_witness_end :: "'h sdk \<Rightarrow> 'h ctx act" where
  "process_witness_end sdk = on_tx (\<lambda>t g.
     if is_first_witness t \<and> \<not> first_witness_done t then
       let t1 = t\<lparr>first_witness_done := True\<rparr>
       in blake2b_chunk sdk self_witness (restart_hash sdk t1 (g\<lparr>su := U_tx t1\<rparr>))
     else Ok () g)"

definition finalize_witnesses :: "'h sdk \<Rightarrow> 'h ctx act" where
  "finalize_witnesses sdk = on_tx (\<lambda>t g.
     let (digest, h) = blake2b_finish_hash sdk (hash_state g)
     in Ok () (g\<lparr>hash_state := h, su := U_tx (t\<lparr>final_hash := digest\<rparr>)\<rparr>))"

definition set_input_count :: "u8 list \<Rightarrow> 'h ctx act" where
  "set_input_count buf g = Ok () (g\<lparr>input_count := le_word (take 4 buf)\<rparr>)"

definition path_callbacks :: "'h ctx act \<Rightarrow> 'h ctx Bip32_callbacks" where
  "path_callbacks finish = \<lparr>start_cb = None, chunk_cb = None, end_cb = Some finish,
     fixvec_size = Some init_bip32, fixvec_index = None,
     fixvec_item = Some \<lparr>bytes_end = Some bip32_component\<rparr>\<rparr>"

definition annotatedTransaction_callbacks :: "'h sdk \<Rightarrow> 'h ctx AnnotatedTransaction_callbacks" where
  "annotatedTransaction_callbacks sdk =
    \<lparr>start_cb = None, chunk_cb = None, end_cb = None, annotatedtransaction_offsets = None,
     annotatedtransaction_signPath = Some (path_callbacks (set_sign_path sdk)),
     annotatedtransaction_changePath = Some (path_callbacks (set_change_path sdk)),
     annotatedtransaction_inputCount = Some \<lparr>bytes_end = Some set_input_count\<rparr>,
     annotatedtransaction_raw = Some (AnnotatedRawTransaction_sign_callbacks sdk),
     annotatedtransaction_witnesses = Some \<lparr>start_cb = None, chunk_cb = None,
       end_cb = Some (finalize_witnesses sdk), dynvec_size = None, dynvec_length = None,
       dynvec_index = Some (begin_witness sdk),
       dynvec_item = Some \<lparr>start_cb = None, chunk_cb = None, end_cb = Some (process_witness_end sdk),
         bytes_size = Some (hash_witness_length sdk),
         bytes_body_chunk = Some (process_witness sdk)\<rparr>\<rparr>\<rparr>"

end
