(* ===== verification/Sign_Effects.thy ===== *)
theory Sign_Effects
  imports Molecule_Effects Sign_Callbacks
begin

text \<open>
  What parsing a transaction may do to the signer's state. The contract \<open>effects\<close> of the
  reader is interpreted on the callbacks of \<open>Sign_Callbacks\<close> with two relations: the
  rejection flags are never taken back and the settings are not touched; and the table of
  outputs stays well formed, its amounts adding up to the amount shown.
\<close>

section \<open>Relations\<close>

definition sdk_exception :: "'h sdk \<Rightarrow> u16 \<Rightarrow> bool" where
  "sdk_exception sdk e \<longleftrightarrow>
     (\<exists>p. sdk_derive_node sdk p = Inl e) \<or> (\<exists>d. sdk_generate_pair sdk d = Inl e)"

definition sign_exception :: "'h sdk \<Rightarrow> u16 \<Rightarrow> bool" where
  "sign_exception sdk e \<longleftrightarrow> e = EXC_MEMORY_ERROR \<or> e = EXC_WRONG_PARAM \<or> sdk_exception sdk e"

abbreviation throws :: "'h sdk \<Rightarrow> ('g \<Rightarrow> 'g \<Rightarrow> bool) \<Rightarrow> u16 \<Rightarrow> 'g \<Rightarrow> 'g \<Rightarrow> bool" where
  "throws sdk R e g g' \<equiv> sign_exception sdk e \<and> R g g'"

definition flags_kept :: "'h ctx \<Rightarrow> 'h ctx \<Rightarrow> bool" where
  "flags_kept g g' \<longleftrightarrow> (unsafe g \<longrightarrow> unsafe g') \<and> (hard_reject g \<longrightarrow> hard_reject g') \<and>
     is_valid g' = is_valid g \<and> nvram g' = nvram g"

text \<open>
  A well-formed table of outputs: at most five entries are in use and the others hold no amount.
\<close>

definition tx_ok :: "sign_tx \<Rightarrow> bool" where
  "tx_ok t \<longleftrightarrow> length (outputs t) = MAX_OUTPUTS \<and> unat (output_count t) \<le> MAX_OUTPUTS \<and>
     (\<forall>x\<in>set (outputs t). length (destination x) = 28) \<and>
     (\<forall>x\<in>set (drop (unat (output_count t)) (outputs t)). out_capacity x = 0)"

definition outputs_total :: "sign_tx \<Rightarrow> u64" where
  "outputs_total t = sum_list (map out_capacity (outputs t))"

text \<open>
  The invariant of a parse. Unless a self-transfer has been recognised (an entry without the
  flag of destinations), the amounts of the entries add up to \<open>plain_output_amount\<close>; more than
  one entry is in use only in a multi-output transfer (or a transaction whose tag has been
  overridden), and such a transfer has destinations.
\<close>

definition tx_at :: "'h ctx \<Rightarrow> sign_tx \<Rightarrow> bool" where
  "tx_at g t \<longleftrightarrow> tx_ok t \<and>
     (plain_output_amount t = outputs_total t \<or> output_count t \<noteq> 0 \<and> \<not> has_flag HAS_DESTINATION_ADDRESS g) \<and>
     (unat (output_count t) \<le> 1 \<or> tag (parsed g) = OPERATION_TAG_MULTI_OUTPUT_TRANSFER \<or>
      tag (parsed g) = OPERATION_TAG_NONE)"

definition tx_inv :: "'h ctx \<Rightarrow> bool" where
  "tx_inv g \<longleftrightarrow> length (lock_arg_tmp g) = 28 \<and>
     (tag (parsed g) = OPERATION_TAG_MULTI_OUTPUT_TRANSFER \<longrightarrow> has_flag HAS_DESTINATION_ADDRESS g) \<and>
     (\<forall>t. live_tx g = Some t \<longrightarrow> tx_at g t)"

definition tx_kept :: "'h ctx \<Rightarrow> 'h ctx \<Rightarrow> bool" where
  "tx_kept g g' \<longleftrightarrow> (tx_inv g \<longrightarrow> tx_inv g')"

interpretation flags_eff: effects flags_kept "throws sdk flags_kept" for sdk :: "'h sdk"
  by unfold_locales (auto simp: flags_kept_def)

interpretation tx_eff: effects tx_kept "\<lambda>_. tx_kept"
  by unfold_locales (auto simp: tx_kept_def)

section \<open>The flags\<close>

named_theorems cb_defs \<open>definitions of the callbacks\<close>

lemmas [cb_defs] = REJECT_soft_def REJECT_HARD_def blake2b_chunk_def inputs_start_def input_start_def
  input_save_index_def context_blake2b_chunk_def finish_inputs_def input_context_start_idx_def
  cell_capacity_def cell_lock_code_hash_def cell_script_hash_type_def script_arg_start_input_def
  script_arg_chunk_def input_lock_arg_end_def cell_type_code_hash_def cell_type_arg_length_def
  set_cell_data_size_def check_cell_data_data_chunk_def set_tag_def require_tag_def
  finish_input_cell_data_def blake2b_input_count_def computeNewOffsetsToHash_def output_start_def
  set_flag_def validate_output_data_start_def finish_output_cell_data_def
  init_bip32_def bip32_component_def witness_offsets_def witness_lock_arg_size_def
  hash_witness_length_def process_witness_end_def finalize_witnesses_def set_input_count_def
  restart_hash_def finish_context_txn_def blake2b_finish_hash_def
  on_tx_def on_inp_def on_input_state_def on_temp_key_def Let_def

lemmas small_callbacks = REJECT_soft_def

lemma flags_simple [keeps_intros]:
  "keeps flags_kept E (blake2b_chunk sdk buf)" "keeps flags_kept E inputs_start"
  "keeps flags_kept E input_start" "keeps flags_kept E (input_save_index buf)"
  "keeps flags_kept E (context_blake2b_chunk sdk buf)" "keeps flags_kept E finish_inputs"
  "keeps flags_kept E (input_context_start_idx idx)" "keeps flags_kept E (cell_capacity buf)"
  "keeps flags_kept E (cell_lock_code_hash buf)" "keeps flags_kept E (cell_script_hash_type ht)"
  "keeps flags_kept E script_arg_start_input" "keeps flags_kept E (script_arg_chunk buf)"
  "keeps flags_kept E (cell_type_code_hash buf)" "keeps flags_kept E (cell_type_arg_length len)"
  "keeps flags_kept E (set_cell_data_size len)" "keeps flags_kept E (check_cell_data_data_chunk buf)"
  "keeps flags_kept E (blake2b_input_count sdk len)" "keeps flags_kept E (output_start idx)"
  "keeps flags_kept E (validate_output_data_start idx)" "keeps flags_kept E finish_output_cell_data"
  "keeps flags_kept E (init_bip32 len)" "keeps flags_kept E (bip32_component buf)"
  "keeps flags_kept E (set_input_count buf)" "keeps flags_kept E (hash_witness_length sdk len)"
  "keeps flags_kept E (process_witness_end sdk)" "keeps flags_kept E (finalize_witnesses sdk)"
  "keeps flags_kept E (witness_lock_arg_size sdk len)" "keeps flags_kept E (finish_context_txn sdk)"
  "keeps flags_kept E (computeNewOffsetsToHash sdk len offs)" "keeps flags_kept E (witness_offsets sdk len offs)"
  "keeps flags_kept E finish_input_cell_data"
  by (auto simp: keeps_def cb_defs flags_kept_def split: option.split prod.split)

lemma flags_input_lock_arg_end [keeps_intros]: "keeps flags_kept E input_lock_arg_end"
  by (auto simp: keeps_def cb_defs flags_kept_def split: option.split)

lemma flags_add_to_last [keeps_intros]: "eff flags_kept E g (add_to_last_output t g)"
  by (simp add: add_to_last_output_def set_flag_def flags_kept_def Let_def)

lemma flags_kept_trans: "flags_kept g1 g2 \<Longrightarrow> flags_kept g2 g3 \<Longrightarrow> flags_kept g1 g3"
  by (auto simp: flags_kept_def)

lemma flags_kept_refl [simp]: "flags_kept g g"
  by (simp add: flags_kept_def)

lemma flags_output_end [keeps_intros]: "keeps flags_kept (throws sdk flags_kept) output_end"
  by (auto simp: keeps_def output_end_def on_tx_def Let_def REJECT_soft_def set_flag_def set_tag_def
      add_to_last_output_def flags_kept_def sign_exception_def split: option.split)

lemma flags_outputs_end [keeps_intros]: "keeps flags_kept (throws sdk flags_kept) outputs_end"
  by (auto simp: keeps_def outputs_end_def on_tx_def Let_def set_flag_def flags_kept_def
      sign_exception_def split: option.split)

lemma finalize_tag_frame:
  "finalize_tag t g = Some g1 \<Longrightarrow> unsafe g1 = unsafe g \<and> hard_reject g1 = hard_reject g \<and>
     is_valid g1 = is_valid g \<and> nvram g1 = nvram g \<and> su g1 = su g \<and> lock_arg_tmp g1 = lock_arg_tmp g"
  by (auto simp: finalize_tag_def Let_def split: operation_tag.splits if_splits)

lemma finalize_rejected_frame [simp]:
  "hard_reject (finalize_rejected t g) = hard_reject g" "is_valid (finalize_rejected t g) = is_valid g"
  "nvram (finalize_rejected t g) = nvram g" "su (finalize_rejected t g) = su g"
  "lock_arg_tmp (finalize_rejected t g) = lock_arg_tmp g"
  by (auto simp: finalize_rejected_def Let_def split: operation_tag.split)

lemma flags_finalize_raw [keeps_intros]: "keeps flags_kept E (finalize_raw_transaction sdk)"
  by (auto simp: keeps_def finalize_raw_transaction_def on_tx_def REJECT_soft_def Let_def flags_kept_def
      dest!: finalize_tag_frame split: option.split prod.split)

lemma prep_lock_arg_frame:
  "eff (\<lambda>g g'. \<exists>k. g' = g\<lparr>keymem := k\<rparr>) (\<lambda>e g g'. sdk_exception sdk e \<and> (\<exists>k. g' = g\<lparr>keymem := k\<rparr>)) g
    (prep_lock_arg sdk key g)"
  by (auto simp: prep_lock_arg_def zoom_def generate_public_key_def
      generate_extended_key_pair_return_global_def sdk_exception_def Let_def
      intro: exI [where x = "keymem g"] split: res.split sum.split prod.split)

lemma flags_prep_lock_arg [keeps_intros]: "keeps flags_kept (throws sdk flags_kept) (prep_lock_arg sdk key)"
proof (rule keepsI)
  fix g
  show "eff flags_kept (throws sdk flags_kept) g (prep_lock_arg sdk key g)"
    using prep_lock_arg_frame [of sdk g key]
    by (cases "prep_lock_arg sdk key g") (auto simp: flags_kept_def sign_exception_def)
qed

lemma flags_paths [keeps_intros]:
  "keeps flags_kept (throws sdk flags_kept) (set_sign_path sdk)"
  "keeps flags_kept (throws sdk flags_kept) (set_change_path sdk)"
proof -
  have "keeps flags_kept (throws sdk flags_kept) (\<lambda>g. res_bind (prep_lock_arg sdk key g)
      (\<lambda>l g1. Ok () (g1\<lparr>current_lock_arg := l, key_path_components := ks, key_length := n, change_lock_arg := l\<rparr>)))" for key ks n
    by (intro keeps_intros) (simp add: keeps_def flags_kept_def)
  moreover have "keeps flags_kept (throws sdk flags_kept) (\<lambda>g. res_bind (prep_lock_arg sdk key g)
      (\<lambda>l g1. Ok () (g1\<lparr>change_lock_arg := l\<rparr>)))" for key
    by (intro keeps_intros) (simp add: keeps_def flags_kept_def)
  ultimately show "keeps flags_kept (throws sdk flags_kept) (set_sign_path sdk)"
    "keeps flags_kept (throws sdk flags_kept) (set_change_path sdk)"
    by (auto simp: keeps_def set_sign_path_def set_change_path_def on_temp_key_def split: option.split)
qed

lemma WitnessArgs_init [simp]:
  "MolReader_WitnessArgs_init_state (Some (WitnessArgs_rewrite_callbacks sdk)) g = Ok (zero_table 3) g"
  by (simp add: MolReader_WitnessArgs_init_state_def table_init_def WitnessArgs_rewrite_callbacks_def
      zero_table_def)

lemma flags_begin_witness [keeps_intros]: "keeps flags_kept E (begin_witness sdk idx)"
  by (auto simp: keeps_def begin_witness_def restart_hash_def on_tx_def Let_def flags_kept_def
      split: option.split)

lemma flags_witness_lock_arg [keeps_intros]: "keeps flags_kept E (witness_lock_arg_body_chunk sdk buf)"
  by (auto simp: keeps_def witness_lock_arg_body_chunk_def blake2b_chunk_def REJECT_soft_def on_tx_def
      Let_def flags_kept_def split: option.split)

text \<open>Callback tables, by the laws of the reader.\<close>

lemma keeps_someI:
  "(\<And>x. keeps R E (h x)) \<Longrightarrow> keeps_cb R E (Some h)"
  "(\<And>a b. keeps R E (h' a b)) \<Longrightarrow> keeps_offsets R E (Some h')"
  by (simp_all add: keeps_cb_def keeps_offsets_def)

lemma keeps_hooksI:
  "keeps_hooks R E (hooks_of None)"
  "(\<And>m. start_cb h = Some m \<Longrightarrow> keeps R E m) \<Longrightarrow> keeps_cb R E (chunk_cb h) \<Longrightarrow>
   (\<And>m. end_cb h = Some m \<Longrightarrow> keeps R E m) \<Longrightarrow> keeps_hooks R E (hooks_of (Some h))"
  by (simp_all add: keeps_hooks_def)

lemma flags_WitnessArgs:
  "keeps_component flags_kept (throws sdk flags_kept) (WitnessArgs (Some (WitnessArgs_rewrite_callbacks sdk)))"
  unfolding WitnessArgs_rewrite_callbacks_def
  by (intro flags_eff.reader_keeps keeps_hooksI) (auto intro!: keeps_intros keeps_someI flags_eff.reader_keeps keeps_hooksI)

lemma WitnessArgs_parse_eff:
  "keeps_component R E (WitnessArgs cb) \<Longrightarrow> eff R E g (MolReader_WitnessArgs_parse cb sz s c g)"
  by (simp add: keeps_component_def WitnessArgs_def keeps_def)

lemma flags_process_witness [keeps_intros]: "keeps flags_kept (throws sdk flags_kept) (process_witness sdk buf)"
proof (rule keepsI)
  fix g :: "'a ctx"
  show "eff flags_kept (throws sdk flags_kept) g (process_witness sdk buf g)"
  proof (cases "live_tx g")
    case (Some t)
    have "eff flags_kept (throws sdk flags_kept) g
      (res_bind (MolReader_WitnessArgs_parse (Some (WitnessArgs_rewrite_callbacks sdk)) MOL_NUM_MAX
           (witness_stack t) buf g)
         (\<lambda>(rv, ws, _). on_tx (\<lambda>t1 g1. let t2 = t1\<lparr>witness_stack := ws\<rparr>
            in Ok () (g1\<lparr>su := U_tx (if rv = COMPLETE then t2\<lparr>first_witness_done := True\<rparr> else t2)\<rparr>))))"
      by (rule flags_eff.eff_bind [OF WitnessArgs_parse_eff [OF flags_WitnessArgs]])
        (auto simp: on_tx_def flags_kept_def Let_def split: option.split)
    moreover have "eff flags_kept (throws sdk flags_kept) g (blake2b_chunk sdk buf g)"
      by (rule keepsD [OF flags_simple(1)])
    ultimately show ?thesis using Some by (simp add: process_witness_def on_tx_def)
  qed (simp add: process_witness_def on_tx_def)
qed

lemma flags_AnnotatedTransaction:
  "keeps_component flags_kept (throws sdk flags_kept) (AnnotatedTransaction (Some (annotatedTransaction_callbacks sdk)))"
  unfolding annotatedTransaction_callbacks_def path_callbacks_def AnnotatedRawTransaction_sign_callbacks_def
    annotatedCellInput_callbacks_def hash_type_cb_def
  by (auto intro!: keeps_intros keeps_someI flags_eff.reader_keeps keeps_hooksI)

section \<open>The table of outputs\<close>

lemma tx_ok_zero [simp]: "tx_ok zero_tx"
  by (simp add: tx_ok_def zero_tx_def zero_output_def MAX_OUTPUTS_def numeral_eq_Suc zeros_def)

lemma live_tx_frame [simp]:
  "live_tx (g\<lparr>unsafe := x0\<rparr>) = live_tx g" "live_tx (g\<lparr>hard_reject := x1\<rparr>) = live_tx g"
  "live_tx (g\<lparr>parsed := x2\<rparr>) = live_tx g" "live_tx (g\<lparr>hash_state := x3\<rparr>) = live_tx g"
  "live_tx (g\<lparr>input_count := x4\<rparr>) = live_tx g" "live_tx (g\<lparr>distinct_input_sources := x5\<rparr>) = live_tx g"
  "live_tx (g\<lparr>cell_state := x6\<rparr>) = live_tx g" "live_tx (g\<lparr>dao_cell_owner := x7\<rparr>) = live_tx g"
  "live_tx (g\<lparr>dao_input_amount := x8\<rparr>) = live_tx g" "live_tx (g\<lparr>input_amount_fst := x9\<rparr>) = live_tx g"
  "live_tx (g\<lparr>input_amount_snd := x10\<rparr>) = live_tx g" "live_tx (g\<lparr>lock_arg_cmp := x11\<rparr>) = live_tx g"
  "live_tx (g\<lparr>lock_arg_tmp := x12\<rparr>) = live_tx g" "live_tx (g\<lparr>current_lock_arg := x13\<rparr>) = live_tx g"
  "live_tx (g\<lparr>change_lock_arg := x14\<rparr>) = live_tx g" "live_tx (g\<lparr>key_path_components := x15\<rparr>) = live_tx g"
  "live_tx (g\<lparr>key_length := x16\<rparr>) = live_tx g" "live_tx (g\<lparr>signing_multisig_input := x17\<rparr>) = live_tx g"
  "live_tx (g\<lparr>keymem := x18\<rparr>) = live_tx g"
  by (simp_all add: live_tx_def)

lemma live_tx_put [simp]: "live_tx (g\<lparr>su := U_tx t\<rparr>) = Some t" "live_tx (g\<lparr>su := U_zero\<rparr>) = Some zero_tx"
  "live_tx (g\<lparr>su := U_inp i\<rparr>) = None" "live_tx (g\<lparr>su := U_temp_key p\<rparr>) = None"
  by (simp_all add: live_tx_def)

text \<open>The other members of \<open>tx\<close> do not matter.\<close>

lemma tx_ok_frame [simp]:
  "tx_ok (t\<lparr>witness_multisig_lock_arg_consumed := x0\<rparr>) = tx_ok t" "tx_ok (t\<lparr>witness_stack := x1\<rparr>) = tx_ok t"
  "tx_ok (t\<lparr>current_output_index := x2\<rparr>) = tx_ok t" "tx_ok (t\<lparr>transaction_hash := x3\<rparr>) = tx_ok t"
  "tx_ok (t\<lparr>final_hash := x4\<rparr>) = tx_ok t" "tx_ok (t\<lparr>dao_bitmask := x5\<rparr>) = tx_ok t"
  "tx_ok (t\<lparr>change_amount := x6\<rparr>) = tx_ok t" "tx_ok (t\<lparr>dao_output_amount := x7\<rparr>) = tx_ok t"
  "tx_ok (t\<lparr>witness_multisig_threshold := x8\<rparr>) = tx_ok t" "tx_ok (t\<lparr>witness_multisig_pubkeys_cnt := x9\<rparr>) = tx_ok t"
  "tx_ok (t\<lparr>is_first_witness := x10\<rparr>) = tx_ok t" "tx_ok (t\<lparr>first_witness_done := x11\<rparr>) = tx_ok t"
  "tx_ok (t\<lparr>is_self_transfer := x12\<rparr>) = tx_ok t"
  by (simp_all add: tx_ok_def)

lemma outputs_total_frame [simp]:
  "outputs_total (t\<lparr>witness_multisig_lock_arg_consumed := x0\<rparr>) = outputs_total t"
  "outputs_total (t\<lparr>witness_stack := x1\<rparr>) = outputs_total t"
  "outputs_total (t\<lparr>current_output_index := x2\<rparr>) = outputs_total t"
  "outputs_total (t\<lparr>transaction_hash := x3\<rparr>) = outputs_total t"
  "outputs_total (t\<lparr>final_hash := x4\<rparr>) = outputs_total t"
  "outputs_total (t\<lparr>dao_bitmask := x5\<rparr>) = outputs_total t"
  "outputs_total (t\<lparr>change_amount := x6\<rparr>) = outputs_total t"
  "outputs_total (t\<lparr>dao_output_amount := x7\<rparr>) = outputs_total t"
  "outputs_total (t\<lparr>witness_multisig_threshold := x8\<rparr>) = outputs_total t"
  "outputs_total (t\<lparr>witness_multisig_pubkeys_cnt := x9\<rparr>) = outputs_total t"
  "outputs_total (t\<lparr>is_first_witness := x10\<rparr>) = outputs_total t"
  "outputs_total (t\<lparr>first_witness_done := x11\<rparr>) = outputs_total t"
  "outputs_total (t\<lparr>is_self_transfer := x12\<rparr>) = outputs_total t"
  "outputs_total (t\<lparr>plain_output_amount := x13\<rparr>) = outputs_total t"
  "outputs_total (t\<lparr>output_count := x14\<rparr>) = outputs_total t"
  by (simp_all add: outputs_total_def)

lemma outputs_total_zero [simp]: "outputs_total zero_tx = 0"
  by (simp add: outputs_total_def zero_tx_def zero_output_def sum_list_replicate)

lemma zero_tx_counts [simp]: "output_count zero_tx = 0" "plain_output_amount zero_tx = 0"
  by (simp_all add: zero_tx_def)

lemma has_flag_set [simp]:
  "has_flag HAS_DESTINATION_ADDRESS (set_flag HAS_DESTINATION_ADDRESS g)"
  "has_flag HAS_DESTINATION_ADDRESS (set_flag HAS_CHANGE_ADDRESS g) = has_flag HAS_DESTINATION_ADDRESS g"
  by (simp_all add: has_flag_def set_flag_def HAS_DESTINATION_ADDRESS_def HAS_CHANGE_ADDRESS_def
      bit.conj_disj_distrib2 word_ao_dist)

lemma live_tx_cong: "su g' = su g \<Longrightarrow> live_tx g' = live_tx g"
  by (simp add: live_tx_def)

text \<open>Only the flags and the tag of the parsed transaction matter.\<close>

lemma tx_inv_cong:
  "lock_arg_tmp g' = lock_arg_tmp g \<Longrightarrow> live_tx g' = live_tx g \<Longrightarrow> tag (parsed g') = tag (parsed g) \<Longrightarrow>
   flags (parsed g') = flags (parsed g) \<Longrightarrow> tx_inv g' = tx_inv g"
  by (simp add: tx_inv_def tx_at_def has_flag_def)

lemma tx_simple [keeps_intros]:
  "keeps tx_kept E (blake2b_chunk sdk buf)" "keeps tx_kept E inputs_start"
  "keeps tx_kept E input_start" "keeps tx_kept E (input_save_index buf)"
  "keeps tx_kept E (context_blake2b_chunk sdk buf)" "keeps tx_kept E finish_inputs"
  "keeps tx_kept E (input_context_start_idx idx)" "keeps tx_kept E (cell_capacity buf)"
  "keeps tx_kept E (cell_lock_code_hash buf)" "keeps tx_kept E (cell_script_hash_type ht)"
  "keeps tx_kept E script_arg_start_input" "keeps tx_kept E (script_arg_chunk buf)"
  "keeps tx_kept E (cell_type_code_hash buf)" "keeps tx_kept E (cell_type_arg_length len)"
  "keeps tx_kept E (set_cell_data_size len)" "keeps tx_kept E (check_cell_data_data_chunk buf)"
  "keeps tx_kept E (blake2b_input_count sdk len)"
  "keeps tx_kept E (validate_output_data_start idx)" "keeps tx_kept E finish_output_cell_data"
  "keeps tx_kept E (init_bip32 len)" "keeps tx_kept E (bip32_component buf)"
  "keeps tx_kept E (set_input_count buf)" "keeps tx_kept E (hash_witness_length sdk len)"
  "keeps tx_kept E (witness_lock_arg_size sdk len)" "keeps tx_kept E (finish_context_txn sdk)"
  "keeps tx_kept E (computeNewOffsetsToHash sdk len offs)" "keeps tx_kept E (witness_offsets sdk len offs)"
  "keeps tx_kept E finish_input_cell_data" "keeps tx_kept E input_lock_arg_end"
  "keeps tx_kept E (output_start idx)" "keeps tx_kept E (process_witness_end sdk)"
  "keeps tx_kept E (finalize_witnesses sdk)" "keeps tx_kept E (begin_witness sdk index)"
  "keeps tx_kept E (witness_lock_arg_body_chunk sdk buf)"
  by (auto simp: keeps_def cb_defs begin_witness_def witness_lock_arg_body_chunk_def tx_kept_def tx_inv_def
      tx_at_def has_flag_def split: option.split prod.split)

lemma finalize_tag_tx:
  "finalize_tag t g = Some g1 \<Longrightarrow> tx_inv g \<Longrightarrow> tx_inv g1"
  by (auto simp: finalize_tag_def Let_def tx_inv_def tx_at_def has_flag_def
      split: operation_tag.splits if_splits)

lemma tx_finalize [keeps_intros]: "keeps tx_kept E (finalize_raw_transaction sdk)"
proof -
  have r: "tx_inv (finalize_rejected t g\<lparr>unsafe := True\<rparr>)" if "tx_inv g" for t and g :: "'a ctx"
    using that by (auto simp: finalize_rejected_def Let_def tx_inv_def tx_at_def has_flag_def
        split: operation_tag.splits)
  have f: "tx_inv (g1\<lparr>parsed := (parsed g1)\<lparr>total_fee := fee\<rparr>, hash_state := h, su := U_tx (t\<lparr>transaction_hash := d\<rparr>)\<rparr>)"
    if "finalize_tag t g = Some g1" "tx_inv g" "live_tx g = Some t" for t fee h d and g g1 :: "'a ctx"
    using finalize_tag_tx [OF that(1,2)] finalize_tag_frame [OF that(1)] that(3)
    by (auto simp: tx_inv_def tx_at_def has_flag_def live_tx_cong [of g1 g])
  show ?thesis
    by (auto simp: keeps_def finalize_raw_transaction_def on_tx_def REJECT_soft_def Let_def tx_kept_def
        intro: r f split: option.split prod.split)
qed

text \<open>The last entry receives the amount of the cell.\<close>

lemma sum_list_add_at:
  fixes c :: "'a::comm_monoid_add"
  shows "i < length xs \<Longrightarrow> sum_list (xs[i := xs ! i + c]) = sum_list xs + c"
proof (induction xs arbitrary: i)
  case (Cons x xs)
  then show ?case by (cases i) (simp_all add: ac_simps)
qed simp

lemma tx_ok_add:
  assumes "tx_ok t" "n = unat (output_count t)" "0 < n"
  shows "tx_ok (t\<lparr>plain_output_amount := plain_output_amount t + cap,
    outputs := (outputs t)[n - 1 := (outputs t ! (n - 1))\<lparr>out_capacity := out_capacity (outputs t ! (n - 1)) + cap\<rparr>]\<rparr>)"
proof -
  let ?xs = "outputs t" and ?x = "outputs t ! (n - 1)"
  have l: "n - 1 < length ?xs" using assms by (auto simp: tx_ok_def)
  have s: "sum_list (map out_capacity (?xs[n - 1 := ?x\<lparr>out_capacity := out_capacity ?x + cap\<rparr>])) =
      sum_list (map out_capacity ?xs) + cap"
    using l sum_list_add_at [of "n - 1" "map out_capacity ?xs" cap] by (simp add: map_update)
  have d: "drop n (?xs[n - 1 := y]) = drop n ?xs" for y
    using assms(3) by (simp add: drop_update_cancel)
  have "length (destination ?x) = 28" using assms(1) l by (simp add: tx_ok_def)
  then show ?thesis
    using assms(1) s d unfolding tx_ok_def
    by (auto simp: assms(2) [symmetric] dest!: set_update_subset_insert [THEN subsetD])
qed

lemma tx_ok_set_output:
  assumes "tx_ok t" "unat (output_count t) = n" "n < MAX_OUTPUTS" "length (lock_arg_tmp g) = 28"
  shows "tx_ok (set_output n g t)" "unat (output_count (set_output n g t)) = Suc n"
proof -
  have l: "n < length (outputs t)" using assms by (simp add: tx_ok_def)
  have c: "unat (output_count t + 1) = Suc n"
    using assms(2,3) by (simp add: unat_word_ariths MAX_OUTPUTS_def)
  then show "unat (output_count (set_output n g t)) = Suc n" by (simp add: set_output_def)
  let ?x = "(outputs t ! n)\<lparr>out_is_multisig := is_multisig (cell_state g), destination := lock_arg_tmp g\<rparr>"
  have s: "map out_capacity ((outputs t)[n := ?x]) = map out_capacity (outputs t)"
    using l by (simp add: map_update list_update_same_conv)
  have "drop (Suc n) ((outputs t)[n := ?x]) = drop (Suc n) (outputs t)" by (simp add: drop_update_cancel)
  moreover have "set (drop (Suc n) (outputs t)) \<subseteq> set (drop n (outputs t))"
    by (rule set_drop_subset_set_drop) simp
  ultimately show "tx_ok (set_output n g t)"
    using assms l s c unfolding tx_ok_def set_output_def
    by (auto dest!: set_update_subset_insert [THEN subsetD])
qed

lemma outputs_total_add:
  "0 < n \<Longrightarrow> n \<le> length (outputs t) \<Longrightarrow>
   outputs_total (t\<lparr>outputs := (outputs t)[n - 1 := (outputs t ! (n - 1))
     \<lparr>out_capacity := out_capacity (outputs t ! (n - 1)) + cap\<rparr>]\<rparr>) = outputs_total t + cap"
  using sum_list_add_at [of "n - 1" "map out_capacity (outputs t)" cap]
  by (simp add: outputs_total_def map_update)

definition balanced :: "'h ctx \<Rightarrow> sign_tx \<Rightarrow> bool" where
  "balanced g t \<longleftrightarrow> length (lock_arg_tmp g) = 28 \<and> tx_ok t \<and> plain_output_amount t = outputs_total t \<and>
     (unat (output_count t) \<le> 1 \<or> tag (parsed g) = OPERATION_TAG_MULTI_OUTPUT_TRANSFER \<or>
      tag (parsed g) = OPERATION_TAG_NONE)"

lemma tx_add_to_last:
  assumes "balanced g t"
  shows "eff (\<lambda>_ g'. tx_inv g') E g0 (add_to_last_output t g)"
proof -
  let ?n = "unat (output_count t)" and ?cap = "capacity (cell_state g)"
  let ?t = "t\<lparr>plain_output_amount := plain_output_amount t + ?cap, outputs := (outputs t)[?n - 1 :=
    (outputs t ! (?n - 1))\<lparr>out_capacity := out_capacity (outputs t ! (?n - 1)) + ?cap\<rparr>]\<rparr>"
  have "tx_at (set_flag HAS_DESTINATION_ADDRESS (g\<lparr>su := U_tx ?t\<rparr>)) ?t" if "0 < ?n"
    using assms tx_ok_add [of t ?n ?cap] outputs_total_add [of ?n t ?cap] that
    by (auto simp: balanced_def tx_at_def tx_ok_def set_flag_def outputs_total_def)
  then show ?thesis using assms
    by (auto simp: add_to_last_output_def Let_def balanced_def tx_inv_def) (auto simp: set_flag_def)
qed

lemma set_tag_frame [simp]:
  "lock_arg_tmp (set_tag tg g) = lock_arg_tmp g" "live_tx (set_tag tg g) = live_tx g"
  "cell_state (set_tag tg g) = cell_state g" "set_output n (set_tag tg g) t = set_output n g t"
  by (simp_all add: set_tag_def set_output_def)

lemma map_update_same: "(map f xs)[n := f (xs ! n)] = map f xs"
  by (metis list_update_id map_update)

lemma set_output_frame [simp]:
  "outputs_total (set_output n g t) = outputs_total t"
  "plain_output_amount (set_output n g t) = plain_output_amount t"
  by (simp_all add: outputs_total_def set_output_def map_update map_update_same)

lemma tx_inv_set_flag:
  "tx_inv g \<Longrightarrow> tx_inv (set_flag HAS_CHANGE_ADDRESS g)"
  by (auto simp: tx_inv_def tx_at_def) (auto simp: set_flag_def)

lemma tx_keptI:
  "(tx_inv g \<Longrightarrow> eff (\<lambda>_ g'. tx_inv g') (\<lambda>_ _ g'. tx_inv g') g r) \<Longrightarrow> eff tx_kept (\<lambda>_. tx_kept) g r"
  by (cases r) (auto simp: tx_kept_def)

lemma tx_output_end [keeps_intros]: "keeps tx_kept (\<lambda>_. tx_kept) output_end"
proof (intro keepsI tx_keptI)
  fix g :: "'a ctx"
  assume inv: "tx_inv g"
  show "eff (\<lambda>_ g'. tx_inv g') (\<lambda>_ _ g'. tx_inv g') g (output_end g)"
  proof (cases "live_tx g")
    case (Some t)
    then have t: "tx_at g t" "length (lock_arg_tmp g) = 28" "tx_ok t" using inv by (auto simp: tx_inv_def tx_at_def)
    have s: "balanced g' (set_output n g t)"
      if "unat (output_count t) = n" "n < MAX_OUTPUTS" "lock_arg_tmp g' = lock_arg_tmp g"
        "plain_output_amount t = outputs_total t"
        "n = 0 \<or> tag (parsed g') = OPERATION_TAG_MULTI_OUTPUT_TRANSFER" for n and g' :: "'a ctx"
      using tx_ok_set_output [OF t(3) that(1,2) t(2)] that t by (auto simp: balanced_def)
    have same: "tx_inv (g\<lparr>dao_cell_owner := a, su := U_tx (t\<lparr>dao_output_amount := b, dao_bitmask := c\<rparr>)\<rparr>)"
      "tx_inv (g\<lparr>dao_cell_owner := a, su := U_tx (t\<lparr>dao_output_amount := b, dao_bitmask := c\<rparr>), unsafe := True\<rparr>)"
      "tx_inv (g\<lparr>su := U_tx (t\<lparr>change_amount := d\<rparr>)\<rparr>)" "tx_inv (g\<lparr>unsafe := True\<rparr>)" for a b c d
      using inv Some by (auto simp: tx_inv_def tx_at_def has_flag_def)
    have tagged: "tx_inv (set_tag OPERATION_TAG_MULTI_OUTPUT_TRANSFER g\<lparr>unsafe := True\<rparr>)"
      if "has_flag HAS_DESTINATION_ADDRESS g"
      using inv that by (auto simp: tx_inv_def tx_at_def has_flag_def set_tag_def)
    have b: "plain_output_amount t = outputs_total t" if "has_flag HAS_DESTINATION_ADDRESS g \<or> output_count t = 0"
      using that t(1) by (auto simp: tx_at_def)
    have last_ok: "balanced g t" if "has_flag HAS_DESTINATION_ADDRESS g"
      using t that by (auto simp: balanced_def tx_at_def)
    let ?c = "cell_state g"
    show ?thesis
    proof (cases "\<not> is_dao ?c \<and> (lock_arg_nonequal ?c \<or> is_multisig ?c)")
      case True
      show ?thesis
      proof (cases "has_flag HAS_DESTINATION_ADDRESS g")
        case dest: True
        show ?thesis using True Some dest inv
          by (simp add: output_end_def on_tx_def REJECT_soft_def MAX_OUTPUTS_def Let_def)
            (intro conjI impI; (rule same tagged tx_add_to_last s last_ok | simp add: b dest MAX_OUTPUTS_def set_tag_def)+)
      next
        case nodest: False
        then show ?thesis using True Some inv
          by (simp add: output_end_def on_tx_def Let_def)
            (intro impI tx_add_to_last s; simp add: b MAX_OUTPUTS_def)
      qed
    next
      case False
      then show ?thesis using Some
        by (auto simp: output_end_def on_tx_def Let_def REJECT_soft_def intro!: same tx_inv_set_flag)
    qed
  qed (simp add: output_end_def on_tx_def)
qed

text \<open>A self-transfer turns the change into the only destination.\<close>

lemma tx_ok_self_transfer:
  assumes "tx_ok t" "output_count t = 0" "length x \<le> 28"
  shows "tx_ok (t\<lparr>is_self_transfer := True, plain_output_amount := p, change_amount := 0, output_count := 1,
    outputs := (outputs t)[0 := (outputs t ! 0)\<lparr>destination := mem_write (destination (outputs t ! 0)) 0 x\<rparr>]\<rparr>)"
proof -
  have "0 < length (outputs t)" using assms(1) by (simp add: tx_ok_def MAX_OUTPUTS_def)
  then have "outputs t ! 0 \<in> set (outputs t)" by (rule nth_mem)
  moreover have "set (drop (Suc 0) (outputs t)) \<subseteq> set (outputs t)" by (rule set_drop_subset)
  ultimately show ?thesis
    using assms unfolding tx_ok_def
    by (auto simp: MAX_OUTPUTS_def dest!: set_update_subset_insert [THEN subsetD])
qed

lemma tx_ok_is_self: "tx_ok t \<Longrightarrow> output_count t = 0 \<or> \<not> b \<longrightarrow> \<not> is_self_transfer t \<Longrightarrow> tx_ok (t\<lparr>is_self_transfer := b\<rparr>)"
  by (auto simp: tx_ok_def)

lemma tx_outputs_end [keeps_intros]: "keeps tx_kept (\<lambda>_. tx_kept) outputs_end"
proof (intro keepsI tx_keptI)
  fix g :: "'a ctx"
  assume inv: "tx_inv g"
  show "eff (\<lambda>_ g'. tx_inv g') (\<lambda>_ _ g'. tx_inv g') g (outputs_end g)"
  proof (cases "live_tx g")
    case (Some t)
    then have t: "tx_at g t" "tx_ok t" using inv by (auto simp: tx_inv_def tx_at_def)
    have same: "tx_inv (g\<lparr>su := U_tx (t\<lparr>is_self_transfer := b\<rparr>)\<rparr>)" for b
      using inv Some by (auto simp: tx_inv_def tx_at_def has_flag_def)
    show ?thesis
      using Some inv t(1) tx_ok_self_transfer [OF t(2), of "take 20 (change_lock_arg g)"]
      by (auto simp: outputs_end_def on_tx_def Let_def intro!: same)
        (auto simp: tx_inv_def tx_at_def set_flag_def has_flag_def)
  qed (simp add: outputs_end_def on_tx_def)
qed

lemma eff_prep_lock_arg:
  assumes "\<And>l k. eff R (\<lambda>_. R) g (f l (g\<lparr>keymem := k\<rparr>))" "\<And>k. R g (g\<lparr>keymem := k\<rparr>)"
  shows "eff R (\<lambda>_. R) g (res_bind (prep_lock_arg sdk key g) f)"
  using prep_lock_arg_frame [of sdk g key] assms
  by (cases "prep_lock_arg sdk key g") auto

lemma tx_paths [keeps_intros]:
  "keeps tx_kept (\<lambda>_. tx_kept) (set_sign_path sdk)" "keeps tx_kept (\<lambda>_. tx_kept) (set_change_path sdk)"
  by (auto simp: keeps_def set_sign_path_def set_change_path_def on_temp_key_def tx_kept_def tx_inv_def
      tx_at_def has_flag_def intro!: eff_prep_lock_arg split: option.split)

lemma tx_WitnessArgs:
  "keeps_component tx_kept (\<lambda>_. tx_kept) (WitnessArgs (Some (WitnessArgs_rewrite_callbacks sdk)))"
  unfolding WitnessArgs_rewrite_callbacks_def
  by (intro tx_eff.reader_keeps keeps_hooksI) (auto intro!: keeps_intros keeps_someI tx_eff.reader_keeps keeps_hooksI)

lemma tx_process_witness [keeps_intros]: "keeps tx_kept (\<lambda>_. tx_kept) (process_witness sdk buf)"
proof (rule keepsI)
  fix g :: "'a ctx"
  show "eff tx_kept (\<lambda>_. tx_kept) g (process_witness sdk buf g)"
  proof (cases "live_tx g")
    case (Some t)
    have "eff tx_kept (\<lambda>_. tx_kept) g
      (res_bind (MolReader_WitnessArgs_parse (Some (WitnessArgs_rewrite_callbacks sdk)) MOL_NUM_MAX
           (witness_stack t) buf g)
         (\<lambda>(rv, ws, _). on_tx (\<lambda>t1 g1. let t2 = t1\<lparr>witness_stack := ws\<rparr>
            in Ok () (g1\<lparr>su := U_tx (if rv = COMPLETE then t2\<lparr>first_witness_done := True\<rparr> else t2)\<rparr>))))"
      by (rule tx_eff.eff_bind [OF WitnessArgs_parse_eff [OF tx_WitnessArgs]])
        (auto simp: on_tx_def tx_kept_def tx_inv_def tx_at_def has_flag_def Let_def split: option.split)
    moreover have "eff tx_kept (\<lambda>_. tx_kept) g (blake2b_chunk sdk buf g)"
      by (rule keepsD [OF tx_simple(1)])
    ultimately show ?thesis using Some by (simp add: process_witness_def on_tx_def)
  qed (simp add: process_witness_def on_tx_def)
qed

lemma tx_AnnotatedTransaction:
  "keeps_component tx_kept (\<lambda>_. tx_kept) (AnnotatedTransaction (Some (annotatedTransaction_callbacks sdk)))"
  unfolding annotatedTransaction_callbacks_def path_callbacks_def AnnotatedRawTransaction_sign_callbacks_def
    annotatedCellInput_callbacks_def hash_type_cb_def
  by (auto intro!: keeps_intros keeps_someI tx_eff.reader_keeps keeps_hooksI)

section \<open>Keys and exceptions\<close>

text \<open>An action that returns leaves no secret in the key memory; one that throws may.\<close>

definition keys_kept :: "'h ctx \<Rightarrow> 'h ctx \<Rightarrow> bool" where
  "keys_kept g g' \<longleftrightarrow> (no_secrets (keymem g) \<longrightarrow> no_secrets (keymem g'))"

interpretation keys_eff: effects keys_kept "\<lambda>e _ _. sign_exception sdk e" for sdk :: "'h sdk"
  by unfold_locales (auto simp: keys_kept_def)

lemma keys_simple [keeps_intros]:
  "keeps keys_kept E (blake2b_chunk sdk buf)" "keeps keys_kept E inputs_start"
  "keeps keys_kept E input_start" "keeps keys_kept E (input_save_index buf)"
  "keeps keys_kept E (context_blake2b_chunk sdk buf)" "keeps keys_kept E finish_inputs"
  "keeps keys_kept E (input_context_start_idx idx)" "keeps keys_kept E (cell_capacity buf)"
  "keeps keys_kept E (cell_lock_code_hash buf)" "keeps keys_kept E (cell_script_hash_type ht)"
  "keeps keys_kept E script_arg_start_input" "keeps keys_kept E (script_arg_chunk buf)"
  "keeps keys_kept E (cell_type_code_hash buf)" "keeps keys_kept E (cell_type_arg_length len)"
  "keeps keys_kept E (set_cell_data_size len)" "keeps keys_kept E (check_cell_data_data_chunk buf)"
  "keeps keys_kept E (blake2b_input_count sdk len)"
  "keeps keys_kept E (validate_output_data_start idx)" "keeps keys_kept E finish_output_cell_data"
  "keeps keys_kept E (init_bip32 len)" "keeps keys_kept E (bip32_component buf)"
  "keeps keys_kept E (set_input_count buf)" "keeps keys_kept E (hash_witness_length sdk len)"
  "keeps keys_kept E (witness_lock_arg_size sdk len)" "keeps keys_kept E (finish_context_txn sdk)"
  "keeps keys_kept E (computeNewOffsetsToHash sdk len offs)" "keeps keys_kept E (witness_offsets sdk len offs)"
  "keeps keys_kept E finish_input_cell_data" "keeps keys_kept E input_lock_arg_end"
  "keeps keys_kept E (output_start idx)" "keeps keys_kept E (process_witness_end sdk)"
  "keeps keys_kept E (finalize_witnesses sdk)" "keeps keys_kept E (begin_witness sdk index)"
  "keeps keys_kept E (witness_lock_arg_body_chunk sdk buf)"
  by (auto simp: keeps_def cb_defs begin_witness_def witness_lock_arg_body_chunk_def keys_kept_def
      split: option.split prod.split)

lemma finalize_keys:
  "finalize_tag t g = Some g1 \<Longrightarrow> keymem g1 = keymem g" "keymem (finalize_rejected t g) = keymem g"
  by (auto simp: finalize_tag_def finalize_rejected_def Let_def split: operation_tag.splits if_splits)

lemma keys_output_end [keeps_intros]: "keeps keys_kept (\<lambda>e _ _. sign_exception sdk e) output_end"
  by (auto simp: keeps_def output_end_def on_tx_def Let_def REJECT_soft_def set_flag_def set_tag_def
      add_to_last_output_def keys_kept_def sign_exception_def split: option.split)

lemma keys_outputs_end [keeps_intros]: "keeps keys_kept (\<lambda>e _ _. sign_exception sdk e) outputs_end"
  by (auto simp: keeps_def outputs_end_def on_tx_def Let_def set_flag_def keys_kept_def
      sign_exception_def split: option.split)

lemma keys_finalize_raw [keeps_intros]: "keeps keys_kept E (finalize_raw_transaction sdk)"
  by (auto simp: keeps_def finalize_raw_transaction_def on_tx_def REJECT_soft_def Let_def keys_kept_def
      finalize_keys split: option.split prod.split)

lemma keys_paths [keeps_intros]:
  "keeps keys_kept (\<lambda>e _ _. sign_exception sdk e) (set_sign_path sdk)"
  "keeps keys_kept (\<lambda>e _ _. sign_exception sdk e) (set_change_path sdk)"
proof -
  have p: "eff (\<lambda>_ g'. no_secrets (keymem g')) (\<lambda>e _ _. sign_exception sdk e) g (prep_lock_arg sdk key g)"
    for key and g :: "'a ctx"
  proof (cases "generate_public_key sdk key (keymem g)")
    case (Ok w k)
    then show ?thesis using generate_public_wipes(2) [OF Ok] by (simp add: prep_lock_arg_def zoom_def)
  next
    case (Throw e k)
    then show ?thesis using prep_lock_arg_frame [of sdk g key]
      by (simp add: prep_lock_arg_def zoom_def sign_exception_def)
  qed (simp add: prep_lock_arg_def zoom_def)
  have q: "eff keys_kept (\<lambda>e _ _. sign_exception sdk e) g (res_bind (prep_lock_arg sdk key g) (\<lambda>l g1. Ok () (h l g1)))"
    if "\<And>l g1. keymem (h l g1) = keymem g1" for key h and g :: "'a ctx"
    using p [of g key] that by (cases "prep_lock_arg sdk key g") (simp_all add: keys_kept_def)
  show "keeps keys_kept (\<lambda>e _ _. sign_exception sdk e) (set_sign_path sdk)"
    "keeps keys_kept (\<lambda>e _ _. sign_exception sdk e) (set_change_path sdk)"
    by (auto simp: keeps_def set_sign_path_def set_change_path_def on_temp_key_def intro!: q split: option.split)
qed

lemma keys_WitnessArgs:
  "keeps_component keys_kept (\<lambda>e _ _. sign_exception sdk e) (WitnessArgs (Some (WitnessArgs_rewrite_callbacks sdk)))"
  unfolding WitnessArgs_rewrite_callbacks_def
  by (intro keys_eff.reader_keeps keeps_hooksI) (auto intro!: keeps_intros keeps_someI keys_eff.reader_keeps keeps_hooksI)

lemma keys_process_witness [keeps_intros]:
  "keeps keys_kept (\<lambda>e _ _. sign_exception sdk e) (process_witness sdk buf)"
proof (rule keepsI)
  fix g :: "'a ctx"
  show "eff keys_kept (\<lambda>e _ _. sign_exception sdk e) g (process_witness sdk buf g)"
  proof (cases "live_tx g")
    case (Some t)
    have "eff keys_kept (\<lambda>e _ _. sign_exception sdk e) g
      (res_bind (MolReader_WitnessArgs_parse (Some (WitnessArgs_rewrite_callbacks sdk)) MOL_NUM_MAX
           (witness_stack t) buf g)
         (\<lambda>(rv, ws, _). on_tx (\<lambda>t1 g1. let t2 = t1\<lparr>witness_stack := ws\<rparr>
            in Ok () (g1\<lparr>su := U_tx (if rv = COMPLETE then t2\<lparr>first_witness_done := True\<rparr> else t2)\<rparr>))))"
      by (rule keys_eff.eff_bind [OF WitnessArgs_parse_eff [OF keys_WitnessArgs]])
        (auto simp: on_tx_def keys_kept_def Let_def split: option.split)
    moreover have "eff keys_kept (\<lambda>e _ _. sign_exception sdk e) g (blake2b_chunk sdk buf g)"
      by (rule keepsD [OF keys_simple(1)])
    ultimately show ?thesis using Some by (simp add: process_witness_def on_tx_def)
  qed (simp add: process_witness_def on_tx_def)
qed

lemma keys_AnnotatedTransaction:
  "keeps_component keys_kept (\<lambda>e _ _. sign_exception sdk e)
     (AnnotatedTransaction (Some (annotatedTransaction_callbacks sdk)))"
  unfolding annotatedTransaction_callbacks_def path_callbacks_def AnnotatedRawTransaction_sign_callbacks_def
    annotatedCellInput_callbacks_def hash_type_cb_def
  by (auto intro!: keeps_intros keeps_someI keys_eff.reader_keeps keeps_hooksI)

end
