(* ===== verification/Sign_Laws.thy ===== *)
theory Sign_Laws
  imports Sign_Effects Molecule_Encode "HOL-Library.Sublist"
begin

text \<open>
  What the callbacks compute: the header of the plain transaction, the witness that is hashed,
  the comparison of lock arguments, the fee and the amounts, and the exact conditions of a
  rejection.
\<close>

definition demo_blank :: "u8 list ctx" where
  "demo_blank = apdu_sign_state_t.extend zero_sign_state \<lparr>nvram = blank_nvram, keymem = zero_key_mem\<rparr>"

lemma hash_append:
  assumes "hash_lawful sdk"
  shows "res_bind (blake2b_chunk sdk a g) (\<lambda>_. blake2b_chunk sdk b) = blake2b_chunk sdk (a @ b) g"
  using assms
  by (simp add: blake2b_chunk_def blake2b_incremental_hash_def conditional_init_hash_state_def hash_lawful_def)

lemma hash_append_more:
  assumes "hash_lawful sdk"
  shows "res_bind (blake2b_chunk sdk a g) (\<lambda>_ g. res_bind (blake2b_chunk sdk b g) k) =
     res_bind (blake2b_chunk sdk (a @ b) g) k"
  using hash_append [OF assms, of a g b] by (simp flip: res_bind_assoc)

text \<open>The header for given sizes of the fields, whatever the annotated inputs take.\<close>

lemma rewritten_header:
  assumes "hash_lawful sdk"
    "offs = table_offsets 28 [4, deps, headers, annotated_inputs, outs, datas]"
    "tot = 28 + (4 + deps + headers + annotated_inputs + outs + datas)"
  shows "computeNewOffsetsToHash sdk tot offs g =
    blake2b_chunk sdk (table_header [4, deps, headers, 4 + 44 * input_count g, outs, datas]) g"
  unfolding computeNewOffsetsToHash_def Let_def
  by (simp add: hash_append_more [OF assms(1)] hash_append [OF assms(1)] table_header_def assms(2,3) Let_def
      algebra_simps numeral_eq_Suc)

text \<open>
  C40. The header that is hashed for an annotated transaction is the header of the plain
  transaction it stands for: the annotated inputs of any size count as \<open>input_count\<close> inputs of
  44 bytes, and every offset behind them moves accordingly.
\<close>

theorem header_of_plain_transaction:
  assumes "hash_lawful sdk"
    "offs = table_offsets 28 [4, deps, headers, annotated_inputs, outs, datas]"
    "tot = 28 + (4 + deps + headers + annotated_inputs + outs + datas)"
  shows "computeNewOffsetsToHash sdk tot offs g =
    blake2b_chunk sdk (table_header [4, deps, headers, 4 + 44 * input_count g, outs, datas]) g"
  using assms by (rule rewritten_header)

lemma header_of_plain_transaction_witness:
  "computeNewOffsetsToHash demo_sdk 600 [28, 32, 36, 40, 400, 500] (demo_blank\<lparr>input_count := 2\<rparr>) =
    blake2b_chunk demo_sdk (table_header [4, 4, 4, 4 + 44 * input_count (demo_blank\<lparr>input_count := 2\<rparr>), 100, 100])
      (demo_blank\<lparr>input_count := 2\<rparr>)"
  by (rule header_of_plain_transaction [where annotated_inputs = 360])
    (auto simp: hash_lawful_def demo_sdk_def)

section \<open>The witness that is hashed\<close>

lemma shift_lock:
  assumes "l < 2 ^ 31"
  shows "sint (l :: u32) = int (unat l)" "word_of_int (69 - sint l) = 69 - l"
proof -
  have "(0 :: int) \<le> uint l" by simp
  then have u: "- (2 ^ 31) \<le> uint l" by (rule order_trans [rotated]) simp
  have u': "uint l < 2 ^ 31" using assms by (simp add: word_less_def)
  show s: "sint l = int (unat l)"
    using signed_take_bit_int_eq_self [OF u u'] by (simp add: sint_uint)
  show "word_of_int (69 - sint l) = 69 - l"
    by (simp add: s)
qed

lemma molecule_bytes_65: "molecule_bytes (zeros 65) = 65 # zeros 68"
  by code_simp

text \<open>The header for given sizes of the fields, where the signature goes into a plain lock.\<close>

lemma plain_witness_header:
  assumes "hash_lawful sdk" "\<not> signing_multisig_input g" "lock < 2 ^ 31"
    "offs = table_offsets 16 [lock, input_type, output_type]" "tot = 16 + (lock + input_type + output_type)"
  shows "witness_offsets sdk tot offs g =
    blake2b_chunk sdk (u64_le (ucast (16 + (69 + input_type + output_type))) @
      table_header [69, input_type, output_type] @ molecule_bytes (zeros 65)) g"
proof -
  have o': "offs ! 1 - offs ! 0 = lock" and h: "offs ! 0 = 16" "offs ! 1 + (69 - lock) = 85"
    "offs ! 2 + (69 - lock) = 85 + input_type"
    by (simp_all add: assms(4))
  have nu: "\<not> 2 ^ 31 - 1 < 69 - sint lock"
  proof -
    have "0 \<le> sint lock" by (simp only: shift_lock(1) [OF assms(3)] of_nat_0_le_iff)
    then show ?thesis by simp
  qed
  let ?t = "16 + (69 + input_type + output_type)"
  have t: "tot + (69 - lock) = ?t" by (simp add: assms(5))
  have "witness_offsets sdk tot offs g =
      res_bind (blake2b_chunk sdk (u64_le (ucast ?t)) g)
        (\<lambda>_ g1. res_bind (blake2b_chunk sdk (concat (map u32_le [?t, 16, 85, 85 + input_type])) g1)
          (\<lambda>_. blake2b_chunk sdk (0x41 # zeros 68)))"
    by (simp only: witness_offsets_def assms(2) if_False Let_def o' nu shift_lock(2) [OF assms(3)] t)
      (simp only: h)
  also have "\<dots> = blake2b_chunk sdk (u64_le (ucast ?t) @
      concat (map u32_le [?t, 16, 85, 85 + input_type]) @ 0x41 # zeros 68) g"
    by (simp only: hash_append_more [OF assms(1)] hash_append [OF assms(1)] append_assoc)
  finally show ?thesis
    by (simp add: table_header_def Let_def molecule_bytes_65)
qed

text \<open>
  C15. For a plain signature the first witness is hashed, with its length, as a \<open>WitnessArgs\<close>
  table whose lock is 65 zero bytes: whatever lock of less than 2^31 bytes the host sent, its
  length is replaced in the header and the other fields move with it. For a multisig input the
  length and the header are hashed as they came, and the lock itself follows.
\<close>

theorem witness_header_rewritten:
  assumes "hash_lawful sdk" "lock < 2 ^ 31"
    "offs = table_offsets 16 [lock, input_type, output_type]" "tot = 16 + (lock + input_type + output_type)"
  shows "witness_offsets sdk tot offs g =
    blake2b_chunk sdk
      (if signing_multisig_input g
       then u64_le (ucast tot) @ table_header [lock, input_type, output_type]
       else u64_le (ucast (16 + (69 + input_type + output_type))) @
         table_header [69, input_type, output_type] @ molecule_bytes (zeros 65)) g"
proof (cases "signing_multisig_input g")
  case True
  then show ?thesis
    by (simp add: witness_offsets_def hash_append [OF assms(1)] table_header_def assms(3,4) Let_def add.assoc)
qed (simp add: plain_witness_header [OF assms(1) _ assms(2-4)])

lemma witness_header_rewritten_witness:
  "witness_offsets demo_sdk 21 [16, 21, 21] demo_blank =
    blake2b_chunk demo_sdk (u64_le (ucast (16 + (69 + 0 + 0 :: u32))) @
      table_header [69, 0, 0] @ molecule_bytes (zeros 65)) demo_blank \<and>
   witness_offsets demo_sdk 21 [16, 21, 21] (demo_blank\<lparr>signing_multisig_input := True\<rparr>) =
    blake2b_chunk demo_sdk (u64_le 21 @ table_header [5, 0, 0]) (demo_blank\<lparr>signing_multisig_input := True\<rparr>)"
proof -
  have h: "hash_lawful demo_sdk" by (auto simp: hash_lawful_def demo_sdk_def)
  have n: "\<not> signing_multisig_input demo_blank" by (simp add: demo_blank_def zero_sign_state_def apdu_sign_state_t.defs)
  have w: "witness_offsets demo_sdk 21 [16, 21, 21] g =
      blake2b_chunk demo_sdk
        (if signing_multisig_input g then u64_le (ucast (21 :: u32)) @ table_header [5, 0, 0]
         else u64_le (ucast (16 + (69 + 0 + 0 :: u32))) @ table_header [69, 0, 0] @ molecule_bytes (zeros 65)) g" for g
    by (rule witness_header_rewritten [OF h]) (simp_all add: word_less_nat_alt)
  show ?thesis using w [of demo_blank] w [of "demo_blank\<lparr>signing_multisig_input := True\<rparr>"] n by simp
qed

section \<open>Comparing lock arguments\<close>

text \<open>A lock argument arrives in pieces, one call of \<open>script_arg_chunk\<close> for each.\<close>

fun script_arg_chunks :: "u8 list list \<Rightarrow> 'h ctx act" where
  "script_arg_chunks [] g = Ok () g"
| "script_arg_chunks (c # cs) g = res_bind (script_arg_chunk c g) (\<lambda>_. script_arg_chunks cs)"

lemma lock_arg_differs_eq:
  "length bs \<le> length cs \<Longrightarrow> lock_arg_differs cs bs ne \<longleftrightarrow> ne \<or> bs \<noteq> take (length bs) cs"
  by (induction cs bs ne rule: lock_arg_differs.induct) (auto simp: Let_def)

lemma lock_arg_cmp_memory_frame [simp]:
  "lock_arg_cmp_memory (g\<lparr>lock_arg_tmp := x\<rparr>) = lock_arg_cmp_memory g"
  "lock_arg_cmp_memory (g\<lparr>cell_state := y\<rparr>) = lock_arg_cmp_memory g"
  by (simp_all add: lock_arg_cmp_memory_def split: lock_arg_ptr.split)

lemma script_arg_chunks_eq:
  assumes "active (cell_state g)" "lock_arg_cmp g \<noteq> Ptr_null" "length (lock_arg_tmp g) = 28"
    "28 \<le> length (lock_arg_cmp_memory g)" "lock_arg_index (cell_state g) + length (concat cs) \<le> 28"
  shows "script_arg_chunks cs g = Ok ()
    (g\<lparr>lock_arg_tmp := mem_write (lock_arg_tmp g) (lock_arg_index (cell_state g)) (concat cs),
       cell_state := (cell_state g)\<lparr>lock_arg_index := lock_arg_index (cell_state g) + length (concat cs),
         lock_arg_nonequal := (lock_arg_nonequal (cell_state g) \<or>
           concat cs \<noteq> take (length (concat cs)) (drop (lock_arg_index (cell_state g)) (lock_arg_cmp_memory g)))\<rparr>\<rparr>)"
  using assms
proof (induction cs arbitrary: g)
  case Nil
  then show ?case by (simp add: mem_write_def)
next
  case (Cons c cs)
  let ?i = "lock_arg_index (cell_state g)" and ?m = "lock_arg_cmp_memory g"
  let ?d = "lock_arg_nonequal (cell_state g)"
  let ?g = "g\<lparr>lock_arg_tmp := mem_write (lock_arg_tmp g) ?i c,
      cell_state := (cell_state g)\<lparr>lock_arg_index := ?i + length c, lock_arg_nonequal :=
        lock_arg_differs (drop ?i ?m) c ?d\<rparr>\<rparr>"
  have step: "script_arg_chunk c g = Ok () ?g"
    using Cons.prems by (simp add: script_arg_chunk_def Let_def)
  have IH: "script_arg_chunks cs ?g = Ok ()
      (?g\<lparr>lock_arg_tmp := mem_write (lock_arg_tmp ?g) (lock_arg_index (cell_state ?g)) (concat cs),
       cell_state := (cell_state ?g)\<lparr>lock_arg_index := lock_arg_index (cell_state ?g) + length (concat cs),
         lock_arg_nonequal := (lock_arg_nonequal (cell_state ?g) \<or>
           concat cs \<noteq> take (length (concat cs)) (drop (lock_arg_index (cell_state ?g)) (lock_arg_cmp_memory ?g)))\<rparr>\<rparr>)"
    using Cons.prems by (intro Cons.IH) simp_all
  have d: "lock_arg_differs (drop ?i ?m) c ?d \<or>
      concat cs \<noteq> take (length (concat cs)) (drop (?i + length c) ?m) \<longleftrightarrow>
      ?d \<or> c @ concat cs \<noteq> take (length c + length (concat cs)) (drop ?i ?m)"
    using Cons.prems(4,5) by (auto simp: lock_arg_differs_eq take_add add.commute)
  have w: "mem_write (mem_write (lock_arg_tmp g) ?i c) (?i + length c) (concat cs) =
      mem_write (lock_arg_tmp g) ?i (c @ concat cs)"
    using Cons.prems(3,5) by (intro mem_write_append) simp
  show ?case
    using d by (simp add: step IH w add.assoc del: length_concat)
qed

text \<open>
  C25. In whatever pieces a lock argument of at most 28 bytes arrives in an active cell that has
  something to compare with, it is recorded whole for display, and it counts as different
  exactly when it is not a prefix of the memory it is compared with: the lock argument of the
  sign or change path and what follows it. (Of a longer argument the record depends on the
  pieces.)
\<close>

theorem lock_arg_comparison:
  assumes "active (cell_state g)" "lock_arg_cmp g \<noteq> Ptr_null" "length (lock_arg_tmp g) = 28"
    "28 \<le> length (lock_arg_cmp_memory g)" "lock_arg_index (cell_state g) = 0"
    "\<not> lock_arg_nonequal (cell_state g)" "length (concat cs) \<le> 28"
  shows "\<exists>g'. script_arg_chunks cs g = Ok () g' \<and>
    take (length (concat cs)) (lock_arg_tmp g') = concat cs \<and>
    drop (length (concat cs)) (lock_arg_tmp g') = drop (length (concat cs)) (lock_arg_tmp g) \<and>
    (lock_arg_nonequal (cell_state g') \<longleftrightarrow> \<not> prefix (concat cs) (lock_arg_cmp_memory g))"
proof -
  have "concat cs = take (length (concat cs)) (lock_arg_cmp_memory g) \<longleftrightarrow> prefix (concat cs) (lock_arg_cmp_memory g)"
    by (metis prefix_def append_eq_conv_conj take_is_prefix)
  then show ?thesis
    using script_arg_chunks_eq [OF assms(1-4), of cs] assms by (simp add: mem_write_def)
qed

definition demo_cell :: "u8 list ctx" where
  "demo_cell = apdu_sign_state_t.extend (zero_sign_state\<lparr>cell_state := zero_cell\<lparr>active := True\<rparr>,
     change_lock_arg := replicate 20 7, lock_arg_cmp := Ptr_change\<rparr>)
     \<lparr>nvram = blank_nvram, keymem = zero_key_mem\<rparr>"

definition demo_arg :: "u8 list list" where
  "demo_arg = [[7, 7], replicate 18 7]"

lemma lock_arg_comparison_witness:
  "\<exists>g'. script_arg_chunks demo_arg demo_cell = Ok () g' \<and>
    take (length (concat demo_arg)) (lock_arg_tmp g') = concat demo_arg \<and>
    drop (length (concat demo_arg)) (lock_arg_tmp g') = drop (length (concat demo_arg)) (lock_arg_tmp demo_cell) \<and>
    (lock_arg_nonequal (cell_state g') \<longleftrightarrow> \<not> prefix (concat demo_arg) (lock_arg_cmp_memory demo_cell))"
  by (rule lock_arg_comparison)
    (simp_all add: demo_cell_def demo_arg_def zero_sign_state_def zero_cell_def lock_arg_cmp_memory_def
      apdu_sign_state_t.defs)

section \<open>What is shown for a transaction\<close>

text \<open>
  C7. A transaction that is not rejected at its end shows the amounts the parse collected: the
  total sent to others (or to oneself in a self-transfer), or the amount in the DAO, which is
  unchanged by a preparation; and the fee is what the inputs exceed the outputs by, for a
  withdrawal the other way round, the compensation.
\<close>

theorem amounts_and_fee:
  assumes "finalize_raw_transaction sdk g = Ok () g'" "\<not> unsafe g'" "live_tx g = Some t"
  shows "total_fee (parsed g') =
      (let ins = input_amount_snd g + dao_input_amount g;
           outs = plain_output_amount t + dao_output_amount t + change_amount t
       in if tag (parsed g') = OPERATION_TAG_DAO_WITHDRAW then outs - ins else ins - outs) \<and>
    (case tag (parsed g') of
       OPERATION_TAG_NONE \<Rightarrow> tag (parsed g) = OPERATION_TAG_NONE
     | OPERATION_TAG_NOT_SET \<Rightarrow> False
     | OPERATION_TAG_DAO_DEPOSIT \<Rightarrow> dao_amount (parsed g') = dao_output_amount t
     | OPERATION_TAG_DAO_PREPARE \<Rightarrow>
         dao_amount (parsed g') = dao_output_amount t \<and> dao_output_amount t = dao_input_amount g
     | OPERATION_TAG_DAO_WITHDRAW \<Rightarrow>
         dao_amount (parsed g') = dao_input_amount g \<and> dao_output_amount t = 0 \<and> plain_output_amount t = 0
     | OPERATION_TAG_MULTI_INPUT_TRANSFER \<Rightarrow> amount_snd (parsed g') = plain_output_amount t \<and>
         amount_fst (parsed g') = input_amount_fst g \<and> \<not> signing_multisig_input g \<and>
         input_count_snd (parsed g') = ucast (distinct_input_sources g)
     | _ \<Rightarrow> amount_snd (parsed g') = plain_output_amount t)"
proof (cases "finalize_tag t g")
  case None
  then have "unsafe g'"
    using assms(1,3) by (auto simp: finalize_raw_transaction_def on_tx_def REJECT_soft_def)
  with assms(2) show ?thesis by simp
next
  case (Some g1)
  then have f: "input_amount_snd g1 = input_amount_snd g" "dao_input_amount g1 = dao_input_amount g"
    and c: "case tag (parsed g1) of
       OPERATION_TAG_NONE \<Rightarrow> tag (parsed g) = OPERATION_TAG_NONE
     | OPERATION_TAG_NOT_SET \<Rightarrow> False
     | OPERATION_TAG_DAO_DEPOSIT \<Rightarrow> dao_amount (parsed g1) = dao_output_amount t
     | OPERATION_TAG_DAO_PREPARE \<Rightarrow>
         dao_amount (parsed g1) = dao_output_amount t \<and> dao_output_amount t = dao_input_amount g
     | OPERATION_TAG_DAO_WITHDRAW \<Rightarrow>
         dao_amount (parsed g1) = dao_input_amount g \<and> dao_output_amount t = 0 \<and> plain_output_amount t = 0
     | OPERATION_TAG_MULTI_INPUT_TRANSFER \<Rightarrow> amount_snd (parsed g1) = plain_output_amount t \<and>
         amount_fst (parsed g1) = input_amount_fst g \<and> \<not> signing_multisig_input g \<and>
         input_count_snd (parsed g1) = ucast (distinct_input_sources g)
     | _ \<Rightarrow> amount_snd (parsed g1) = plain_output_amount t"
    by (auto simp: finalize_tag_def Let_def split: operation_tag.splits if_splits)
  have g': "parsed g' = (parsed g1)\<lparr>total_fee := (let fee = (input_amount_snd g1 + dao_input_amount g1) -
        (plain_output_amount t + dao_output_amount t + change_amount t)
      in if tag (parsed g1) = OPERATION_TAG_DAO_WITHDRAW then - fee else fee)\<rparr>"
    using Some assms(1,3) by (auto simp: finalize_raw_transaction_def on_tx_def Let_def split: prod.splits)
  show ?thesis using c f by (simp add: g' Let_def cong: operation_tag.case_cong)
qed

definition demo_final :: "u8 list ctx" where
  "demo_final = apdu_sign_state_t.extend (zero_sign_state\<lparr>su := U_tx (zero_tx\<lparr>plain_output_amount := 300,
     change_amount := 600, output_count := 1\<rparr>), input_amount_snd := 1000, distinct_input_sources := 1\<rparr>)
     \<lparr>nvram = blank_nvram, keymem = zero_key_mem\<rparr>"

lemma amounts_and_fee_witness:
  "\<exists>g'. finalize_raw_transaction demo_sdk demo_final = Ok () g' \<and> total_fee (parsed g') = 100 \<and>
     amount_snd (parsed g') = 300"
proof -
  obtain g' where g': "finalize_raw_transaction demo_sdk demo_final = Ok () g'" "\<not> unsafe g'"
    "tag (parsed g') = OPERATION_TAG_PLAIN_TRANSFER"
    by (simp add: finalize_raw_transaction_def demo_final_def on_tx_def live_tx_def apdu_sign_state_t.defs
        finalize_tag_def zero_sign_state_def zero_parsed_def Let_def zero_tx_def blake2b_finish_hash_def
        demo_sdk_def split: prod.split)
  have "live_tx demo_final = Some (zero_tx\<lparr>plain_output_amount := 300, change_amount := 600, output_count := 1\<rparr>)"
    "input_amount_snd demo_final = 1000" "dao_input_amount demo_final = 0"
    by (simp_all add: demo_final_def live_tx_def apdu_sign_state_t.defs zero_sign_state_def)
  with amounts_and_fee [OF g'(1,2)] g' show ?thesis
    by (simp add: zero_tx_def)
qed

text \<open>
  C38. The prompts of a deposit into the DAO do not tell change from payments: two transactions
  whose deposits agree and whose other outputs have the same sum show the same amount, fee and
  owner, and neither is rejected, even if in one of them everything else goes to a stranger.
\<close>

theorem dao_deposit_hides_payments:
  assumes "tag (parsed g) = OPERATION_TAG_DAO_DEPOSIT" "live_tx g = Some t"
    "dao_output_amount t' = dao_output_amount t"
    "plain_output_amount t' + change_amount t' = plain_output_amount t + change_amount t"
  shows "\<exists>h h'. finalize_raw_transaction sdk g = Ok () h \<and>
    finalize_raw_transaction sdk (g\<lparr>su := U_tx t'\<rparr>) = Ok () h' \<and>
    parsed h' = parsed h \<and> dao_cell_owner h' = dao_cell_owner h \<and> unsafe h' = unsafe g \<and> unsafe h = unsafe g"
proof -
  have "(plain_output_amount t' + change_amount t') + dao_output_amount t =
      (plain_output_amount t + change_amount t) + dao_output_amount t"
    using assms(4) by simp
  then have total: "plain_output_amount t' + dao_output_amount t + change_amount t' =
      plain_output_amount t + dao_output_amount t + change_amount t"
    by (simp only: add.assoc add.commute add.left_commute)
  show ?thesis using assms(1-3)
    by (simp add: finalize_raw_transaction_def on_tx_def finalize_tag_def Let_def total split: prod.split)
qed

lemma dao_deposit_hides_payments_witness:
  "\<exists>h h'. finalize_raw_transaction demo_sdk (set_tag OPERATION_TAG_DAO_DEPOSIT demo_final) = Ok () h \<and>
    finalize_raw_transaction demo_sdk (set_tag OPERATION_TAG_DAO_DEPOSIT demo_final
      \<lparr>su := U_tx (zero_tx\<lparr>plain_output_amount := 900, output_count := 1\<rparr>)\<rparr>) = Ok () h' \<and>
    parsed h' = parsed h \<and> dao_cell_owner h' = dao_cell_owner h \<and>
    unsafe h' = unsafe (set_tag OPERATION_TAG_DAO_DEPOSIT demo_final) \<and>
    unsafe h = unsafe (set_tag OPERATION_TAG_DAO_DEPOSIT demo_final)"
  by (rule dao_deposit_hides_payments [where t = "zero_tx\<lparr>plain_output_amount := 300,
     change_amount := 600, output_count := 1\<rparr>"])
    (simp_all add: demo_final_def set_tag_def live_tx_def apdu_sign_state_t.defs zero_sign_state_def zero_tx_def)

end
