(* ===== verification/Transcriber.thy ===== *)
theory Transcriber
  imports Transaction_Format Packets Sign_Laws
begin

text \<open>
  The plain transaction an annotated one stands for, and a reader that writes it down. The
  transcriber has the callbacks of the signer that hash, acting on a record of what has been
  hashed: it copies the parts a plain transaction has, replaces every source transaction by its
  hash, and then writes the message that is signed. Its callbacks are lawful, so what it writes
  does not depend on the packets, and on the serialisation of a well-formed annotated
  transaction it writes the serialisation of the plain one.
\<close>

section \<open>Plain transactions and the signed message\<close>

text \<open>\<open>dig\<close> is the hash function. The input without its source, referring to it by its hash.\<close>

definition plain_input :: "(u8 list \<Rightarrow> u8 list) \<Rightarrow> annotated_input \<Rightarrow> cell_input" where
  "plain_input dig x = (ai_input x)\<lparr>in_previous := (in_previous (ai_input x))
     \<lparr>op_tx_hash := dig (enc_raw_tx (ai_source x))\<rparr>\<rparr>"

definition plain_raw :: "(u8 list \<Rightarrow> u8 list) \<Rightarrow> annotated_raw_tx \<Rightarrow> plain_raw_tx" where
  "plain_raw dig x = \<lparr>rt_version = rt_version x, rt_cell_deps = rt_cell_deps x,
     rt_header_deps = rt_header_deps x, rt_inputs = map (plain_input dig) (rt_inputs x),
     rt_outputs = rt_outputs x, rt_outputs_data = rt_outputs_data x\<rparr>"

definition transaction_id :: "(u8 list \<Rightarrow> u8 list) \<Rightarrow> annotated_tx \<Rightarrow> u8 list" where
  "transaction_id dig x = dig (enc_raw_tx (plain_raw dig (at_raw x)))"

record witness_args =
  wa_lock :: "u8 list option"
  wa_input_type :: "u8 list option"
  wa_output_type :: "u8 list option"

definition enc_witness_args :: "witness_args \<Rightarrow> u8 list" where
  "enc_witness_args x = molecule_table [enc_opt molecule_bytes (wa_lock x),
     enc_opt molecule_bytes (wa_input_type x), enc_opt molecule_bytes (wa_output_type x)]"

text \<open>The first witness is empty or a \<open>WitnessArgs\<close>; the signature goes into its lock.\<close>

definition enc_first :: "witness_args option \<Rightarrow> u8 list" where
  "enc_first x = (case x of None \<Rightarrow> [] | Some a \<Rightarrow> enc_witness_args a)"

definition placeholder :: "witness_args option \<Rightarrow> witness_args" where
  "placeholder x = (case x of
     None \<Rightarrow> \<lparr>wa_lock = Some (zeros 65), wa_input_type = None, wa_output_type = None\<rparr>
   | Some a \<Rightarrow> a\<lparr>wa_lock := Some (zeros 65)\<rparr>)"

definition hashed_witness :: "u8 list \<Rightarrow> u8 list" where
  "hashed_witness w = u64_le (of_nat (length w)) @ w"

text \<open>
  The message of a plain signature: the transaction hash and the witnesses with their lengths,
  with 65 zero bytes where the signature will be.
\<close>

definition sighash_message :: "u8 list \<Rightarrow> witness_args option \<Rightarrow> u8 list list \<Rightarrow> u8 list" where
  "sighash_message h x ws = h @ hashed_witness (enc_witness_args (placeholder x)) @ concat (map hashed_witness ws)"

section \<open>The transcriber\<close>

text \<open>
  \<open>t_fed\<close> is what has been hashed, as long as \<open>t_live\<close>; \<open>t_index\<close> and \<open>t_source\<close> belong to the
  current input, \<open>t_id\<close> is the transaction hash, \<open>t_wit\<close> the first witness as far as it has
  arrived and \<open>t_message\<close> the message.
\<close>

record transcript =
  t_count :: u32
  t_fed :: "u8 list"
  t_live :: bool
  t_index :: u32
  t_source :: "u8 list"
  t_id :: "u8 list option"
  t_first :: bool
  t_begun :: bool
  t_wit :: "u8 list option"
  t_message :: "u8 list option"

definition blank_transcript :: transcript where
  "blank_transcript = \<lparr>t_count = 0, t_fed = [], t_live = True, t_index = 0, t_source = [], t_id = None,
     t_first = False, t_begun = False, t_wit = None, t_message = None\<rparr>"

definition t_feed :: "u8 list \<Rightarrow> transcript \<Rightarrow> transcript" where
  "t_feed b l = l\<lparr>t_fed := t_fed l @ b, t_wit := None\<rparr>"

definition t_header :: "u32 \<Rightarrow> u32 list \<Rightarrow> transcript \<Rightarrow> transcript" where
  "t_header tot offs l =
     (let k = offs ! 4 - offs ! 3 - (44 * t_count l + 4)
      in t_feed (concat (map u32_le [tot - k, offs ! 0, offs ! 1, offs ! 2, offs ! 3, offs ! 4 - k, offs ! 5 - k])) l)"

definition t_inputs :: "u32 \<Rightarrow> transcript \<Rightarrow> transcript" where
  "t_inputs n l = (if n = t_count l then t_feed (u32_le n) l else l)"

definition t_input :: "transcript \<Rightarrow> transcript" where
  "t_input l = l\<lparr>t_index := 0, t_source := []\<rparr>"

definition t_set_index :: "u8 list \<Rightarrow> transcript \<Rightarrow> transcript" where
  "t_set_index b l = l\<lparr>t_index := le_word (take 4 b)\<rparr>"

definition t_add_source :: "u8 list \<Rightarrow> transcript \<Rightarrow> transcript" where
  "t_add_source b l = l\<lparr>t_source := t_source l @ b\<rparr>"

definition t_source_end :: "(u8 list \<Rightarrow> u8 list) \<Rightarrow> transcript \<Rightarrow> transcript" where
  "t_source_end dig l = t_input (t_feed (dig (t_source l) @ u32_le (t_index l)) l)"

definition t_inputs_end :: "transcript \<Rightarrow> transcript" where
  "t_inputs_end l = t_input (l\<lparr>t_live := (t_live l \<and> \<not> t_begun l), t_id := None, t_first := False, t_begun := False, t_wit := None, t_message := None\<rparr>)"

definition t_raw_end :: "(u8 list \<Rightarrow> u8 list) \<Rightarrow> transcript \<Rightarrow> transcript" where
  "t_raw_end dig l = l\<lparr>t_id := if t_live l \<and> \<not> t_begun l then Some (dig (t_fed l)) else None, t_live := False, t_wit := None\<rparr>"

definition t_set_count :: "u8 list \<Rightarrow> transcript \<Rightarrow> transcript" where
  "t_set_count b l = l\<lparr>t_count := le_word (take 4 b)\<rparr>"

definition t_witness :: "u32 \<Rightarrow> transcript \<Rightarrow> transcript" where
  "t_witness i l =
     (if i = 0 then l\<lparr>t_first := True, t_begun := True, t_wit := if t_begun l then None else Some [], t_live := False\<rparr>
      else l\<lparr>t_first := False, t_wit := None\<rparr>)"

definition t_witness_size :: "u32 \<Rightarrow> transcript \<Rightarrow> transcript" where
  "t_witness_size n l = (if n < 4 \<or> t_first l then l else t_feed (u64_le (ucast (n - 4))) l)"

definition t_witness_chunk :: "u8 list \<Rightarrow> transcript \<Rightarrow> transcript" where
  "t_witness_chunk b l =
     (if t_first l then l\<lparr>t_live := False, t_wit := map_option (\<lambda>w. w @ b) (t_wit l)\<rparr> else t_feed b l)"

text \<open>The transcriber knows the first witness it is going to get.\<close>

definition t_witness_end :: "witness_args option \<Rightarrow> transcript \<Rightarrow> transcript" where
  "t_witness_end x l =
     (if \<not> t_first l then l
      else case t_id l of
        None \<Rightarrow> l\<lparr>t_live := False, t_wit := None\<rparr>
      | Some h \<Rightarrow>
          if t_wit l = Some (enc_first x)
          then l\<lparr>t_fed := h @ hashed_witness (enc_witness_args (placeholder x)), t_live := True, t_wit := None\<rparr>
          else l\<lparr>t_live := False, t_wit := None\<rparr>)"

definition t_witnesses_end :: "transcript \<Rightarrow> transcript" where
  "t_witnesses_end l = l\<lparr>t_message := if t_live l then Some (t_fed l) else None, t_live := False, t_wit := None\<rparr>"

definition t_upd :: "(transcript \<Rightarrow> transcript) \<Rightarrow> transcript act" where
  "t_upd f l = Ok () (f l)"

definition upd_size :: "(u32 \<Rightarrow> transcript \<Rightarrow> transcript) \<Rightarrow> u32 \<Rightarrow> transcript \<Rightarrow> (bool, transcript) res" where
  "upd_size f n l = Ok (4 \<le> n) (f n l)"

definition path_size :: "u32 \<Rightarrow> transcript \<Rightarrow> (bool, transcript) res" where
  "path_size n l = Ok (4 \<le> n \<and> n - 4 \<le> 20) l"

definition transcribe_input :: "(u8 list \<Rightarrow> u8 list) \<Rightarrow> transcript AnnotatedCellInput_callbacks" where
  "transcribe_input dig =
    \<lparr>start_cb = Some (t_upd t_input), chunk_cb = None, end_cb = None, annotatedcellinput_offsets = None,
     annotatedcellinput_input = Some \<lparr>start_cb = None, chunk_cb = None, end_cb = None,
       cellinput_since = Some \<lparr>bytes_end = Some (\<lambda>b. t_upd (t_feed b))\<rparr>,
       cellinput_previous_output = Some \<lparr>start_cb = None, chunk_cb = None, end_cb = None,
         outpoint_tx_hash = None, outpoint_index = Some \<lparr>bytes_end = Some (\<lambda>b. t_upd (t_set_index b))\<rparr>\<rparr>\<rparr>,
     annotatedcellinput_source = Some \<lparr>start_cb = None, chunk_cb = Some (\<lambda>b. t_upd (t_add_source b)),
       end_cb = Some (t_upd (t_source_end dig)),
       rawtransaction_offsets = None, rawtransaction_version = None, rawtransaction_cell_deps = None,
       rawtransaction_header_deps = None, rawtransaction_inputs = None, rawtransaction_outputs = None,
       rawtransaction_outputs_data = Some \<lparr>start_cb = None, chunk_cb = None, end_cb = None,
         dynvec_size = None, dynvec_length = None, dynvec_index = None,
         dynvec_item = Some \<lparr>start_cb = None, chunk_cb = None, end_cb = None,
           bytes_size = Some (upd_size (\<lambda>_ l. l)), bytes_body_chunk = None\<rparr>\<rparr>\<rparr>\<rparr>"

definition transcribe_raw :: "(u8 list \<Rightarrow> u8 list) \<Rightarrow> transcript AnnotatedRawTransaction_callbacks" where
  "transcribe_raw dig =
    \<lparr>start_cb = None, chunk_cb = None, end_cb = Some (t_upd (t_raw_end dig)),
     annotatedrawtransaction_offsets = Some (\<lambda>tot offs. t_upd (t_header tot offs)),
     annotatedrawtransaction_version = Some \<lparr>bytes_end = Some (\<lambda>b. t_upd (t_feed b))\<rparr>,
     annotatedrawtransaction_cell_deps = Some \<lparr>start_cb = None, chunk_cb = Some (\<lambda>b. t_upd (t_feed b)),
       end_cb = None, fixvec_size = None, fixvec_index = None, fixvec_item = None\<rparr>,
     annotatedrawtransaction_header_deps = Some \<lparr>start_cb = None, chunk_cb = Some (\<lambda>b. t_upd (t_feed b)),
       end_cb = None, fixvec_size = None, fixvec_index = None, fixvec_item = None\<rparr>,
     annotatedrawtransaction_inputs = Some \<lparr>start_cb = None, chunk_cb = None,
       end_cb = Some (t_upd t_inputs_end), dynvec_size = None, dynvec_length = Some (\<lambda>n. t_upd (t_inputs n)),
       dynvec_index = None, dynvec_item = Some (transcribe_input dig)\<rparr>,
     annotatedrawtransaction_outputs = Some \<lparr>start_cb = None, chunk_cb = Some (\<lambda>b. t_upd (t_feed b)),
       end_cb = None, dynvec_size = None, dynvec_length = None, dynvec_index = None, dynvec_item = None\<rparr>,
     annotatedrawtransaction_outputs_data = Some \<lparr>start_cb = None, chunk_cb = Some (\<lambda>b. t_upd (t_feed b)),
       end_cb = None, dynvec_size = None, dynvec_length = None, dynvec_index = None,
       dynvec_item = Some \<lparr>start_cb = None, chunk_cb = None, end_cb = None,
         bytes_size = Some (upd_size (\<lambda>_ l. l)), bytes_body_chunk = None\<rparr>\<rparr>\<rparr>"

definition transcribe_path :: "transcript Bip32_callbacks" where
  "transcribe_path = \<lparr>start_cb = None, chunk_cb = None, end_cb = None, fixvec_size = Some path_size,
     fixvec_index = None, fixvec_item = None\<rparr>"

definition transcribe_witnesses :: "witness_args option \<Rightarrow> transcript BytesVec_callbacks" where
  "transcribe_witnesses x = \<lparr>start_cb = None, chunk_cb = None, end_cb = Some (t_upd t_witnesses_end),
     dynvec_size = None, dynvec_length = None, dynvec_index = Some (\<lambda>i. t_upd (t_witness i)),
     dynvec_item = Some \<lparr>start_cb = None, chunk_cb = None, end_cb = Some (t_upd (t_witness_end x)),
       bytes_size = Some (upd_size t_witness_size), bytes_body_chunk = Some (\<lambda>b. t_upd (t_witness_chunk b))\<rparr>\<rparr>"

definition transcriber :: "(u8 list \<Rightarrow> u8 list) \<Rightarrow> witness_args option \<Rightarrow> transcript AnnotatedTransaction_callbacks" where
  "transcriber dig x =
    \<lparr>start_cb = None, chunk_cb = None, end_cb = None, annotatedtransaction_offsets = None,
     annotatedtransaction_signPath = Some transcribe_path,
     annotatedtransaction_changePath = Some transcribe_path,
     annotatedtransaction_inputCount = Some \<lparr>bytes_end = Some (\<lambda>b. t_upd (t_set_count b))\<rparr>,
     annotatedtransaction_raw = Some (transcribe_raw dig),
     annotatedtransaction_witnesses = Some (transcribe_witnesses x)\<rparr>"

section \<open>Its laws\<close>

lemma upd_additive:
  "additive (Some (\<lambda>b. t_upd (t_feed b)))" "additive (Some (\<lambda>b. t_upd (t_add_source b)))"
  "additive (Some (\<lambda>b. t_upd (t_witness_chunk b)))"
  by (auto simp: additive_def t_upd_def t_feed_def t_add_source_def t_witness_chunk_def option.map_comp comp_def
      intro!: transcript.equality)

lemma upd_chunk_ok:
  assumes "\<And>a b l. u b (u a l) = u (a @ b) l" "\<And>b. C (u b)" "cb_field chunk_cb cb = Some (\<lambda>b. t_upd (u b))"
  shows "chunk_ok cb C"
  unfolding chunk_ok_def assms(3) by (auto simp: t_upd_def [abs_def] assms(1,2) intro!: exI [of _ u])

lemma chunk_ok_no [simp]: "chunk_cb h = None \<Longrightarrow> chunk_ok (Some h) C"
  by (simp add: chunk_ok_def)

lemma t_feed_append [simp]: "t_feed b (t_feed a l) = t_feed (a @ b) l"
  by (simp add: t_feed_def)

lemma t_add_source_append [simp]: "t_add_source b (t_add_source a l) = t_add_source (a @ b) l"
  by (simp add: t_add_source_def)

lemma size_comm: "comm f (upd_size (\<lambda>_ l. l) n)"
  by (simp add: comm_def upd_size_def)

lemmas comm_defs = CellDepVec_inner_def Byte32Vec_inner_def CellOutputVec_inner_def
  BytesVec_inner_def Bytes_comm_def Bytes_inner_def RawTransaction_inner_def BytesVec_comm_def
  comm_hooks_def comm_cb_def size_comm

lemmas lawful_defs = AnnotatedTransaction_lawful_def Bip32_lawful_def AnnotatedRawTransaction_lawful_def
  CellDepVec_lawful_def Byte32Vec_lawful_def AnnotatedCellInputVec_lawful_def AnnotatedCellInput_lawful_def
  CellInput_lawful_def OutPoint_lawful_def RawTransaction_lawful_def CellOutputVec_lawful_def BytesVec_lawful_def
  Bytes_lawful_def

lemma transcriber_lawful: "AnnotatedTransaction_lawful (Some (transcriber dig x))"
proof -
  have "AnnotatedCellInputVec_lawful (annotatedrawtransaction_inputs (transcribe_raw dig))"
    by (auto simp: lawful_defs transcribe_raw_def transcribe_input_def comm_defs
        intro!: upd_chunk_ok [of t_add_source])
  moreover have "BytesVec_lawful (Some (transcribe_witnesses x))" "Bip32_lawful (Some transcribe_path)"
    by (auto simp: lawful_defs transcribe_witnesses_def transcribe_path_def upd_additive)
  moreover have "CellDepVec_lawful (annotatedrawtransaction_cell_deps (transcribe_raw dig))"
    "Byte32Vec_lawful (annotatedrawtransaction_header_deps (transcribe_raw dig))"
    "CellOutputVec_lawful (annotatedrawtransaction_outputs (transcribe_raw dig))"
    "BytesVec_lawful (annotatedrawtransaction_outputs_data (transcribe_raw dig))"
    by (auto simp: lawful_defs transcribe_raw_def comm_defs intro!: upd_chunk_ok [of t_feed])
  moreover have "chunk_cb (transcribe_raw dig) = None" by (simp add: transcribe_raw_def)
  ultimately show ?thesis
    by (simp add: AnnotatedTransaction_lawful_def AnnotatedRawTransaction_lawful_def transcriber_def)
qed

end
