(* ===== verification/Molecule_Simulation.thy ===== *)
theory Molecule_Simulation
  imports Molecule_Effects
begin

text \<open>
  Two readers of the same type that differ in their callbacks and in the state these act on. A
  simulation is a relation between the two states; when every callback of the first reader
  that returns is matched by the callback of the second, with the same result and into
  related states, then the two readers return the same verdict, parser state and unread bytes.
  The locale \<open>simulation\<close> lifts the matching of callbacks to every template and every type.
\<close>

section \<open>Matching\<close>

definition matches :: "('g \<Rightarrow> 'h \<Rightarrow> bool) \<Rightarrow> ('g \<Rightarrow> ('a, 'g) res) \<Rightarrow> ('h \<Rightarrow> ('a, 'h) res) \<Rightarrow> bool" where
  "matches R m n \<longleftrightarrow> (\<forall>g h a g'. R g h \<longrightarrow> m g = Ok a g' \<longrightarrow> (\<exists>h'. n h = Ok a h' \<and> R g' h'))"

named_theorems matches_intros \<open>introduction rules for matching\<close>

lemma matchesI:
  "(\<And>g h a g'. R g h \<Longrightarrow> m g = Ok a g' \<Longrightarrow> \<exists>h'. n h = Ok a h' \<and> R g' h') \<Longrightarrow> matches R m n"
  by (simp add: matches_def)

lemma matchesD: "matches R m n \<Longrightarrow> R g h \<Longrightarrow> m g = Ok a g' \<Longrightarrow> \<exists>h'. n h = Ok a h' \<and> R g' h'"
  by (simp add: matches_def)

text \<open>Optional callbacks; one that is missing on one side returns \<open>d\<close>.\<close>

definition matches_cb :: "('g \<Rightarrow> 'h \<Rightarrow> bool) \<Rightarrow> 'a \<Rightarrow> ('x \<Rightarrow> 'g \<Rightarrow> ('a, 'g) res) option \<Rightarrow>
    ('x \<Rightarrow> 'h \<Rightarrow> ('a, 'h) res) option \<Rightarrow> bool" where
  "matches_cb R d cb cb' \<longleftrightarrow> (\<forall>x. matches R (\<lambda>g. case cb of None \<Rightarrow> Ok d g | Some f \<Rightarrow> f x g)
     (\<lambda>h. case cb' of None \<Rightarrow> Ok d h | Some f \<Rightarrow> f x h))"

definition matches_offsets :: "('g \<Rightarrow> 'h \<Rightarrow> bool) \<Rightarrow> (u32 \<Rightarrow> u32 list \<Rightarrow> 'g act) option \<Rightarrow>
    (u32 \<Rightarrow> u32 list \<Rightarrow> 'h act) option \<Rightarrow> bool" where
  "matches_offsets R cb cb' \<longleftrightarrow> (\<forall>t os. matches R (\<lambda>g. case cb of None \<Rightarrow> Ok () g | Some f \<Rightarrow> f t os g)
     (\<lambda>h. case cb' of None \<Rightarrow> Ok () h | Some f \<Rightarrow> f t os h))"

definition matches_hooks :: "('g \<Rightarrow> 'h \<Rightarrow> bool) \<Rightarrow> 'g hooks \<Rightarrow> 'h hooks \<Rightarrow> bool" where
  "matches_hooks R h h' \<longleftrightarrow> matches R (call_opt (start_cb h)) (call_opt (start_cb h')) \<and>
     matches_cb R () (chunk_cb h) (chunk_cb h') \<and> matches R (call_opt (end_cb h)) (call_opt (end_cb h'))"

definition matches_frag :: "('g \<Rightarrow> 'h \<Rightarrow> bool) \<Rightarrow> 'g frag \<Rightarrow> 'h frag \<Rightarrow> bool" where
  "matches_frag R F F' \<longleftrightarrow> (\<forall>s c. matches R (F s c) (F' s c))"

definition matches_component :: "('g \<Rightarrow> 'h \<Rightarrow> bool) \<Rightarrow> 'g component \<Rightarrow> 'h component \<Rightarrow> bool" where
  "matches_component R p q \<longleftrightarrow> matches R (fst p) (fst q) \<and> (\<forall>sz s c. matches R (snd p sz s c) (snd q sz s c))"

lemma matches_componentD [matches_intros]:
  "matches_component R p q \<Longrightarrow> matches R (fst p) (fst q)"
  "matches_component R p q \<Longrightarrow> matches R (snd p sz s c) (snd q sz s c)"
  by (simp_all add: matches_component_def)

lemma matches_fragD: "matches_frag R F F' \<Longrightarrow> matches R (F s c) (F' s c)"
  by (simp add: matches_frag_def)

lemma matches_Ok [matches_intros]: "matches R (\<lambda>g. Ok a g) (\<lambda>h. Ok a h)"
  by (simp add: matches_def)

lemma matches_Undef [matches_intros]: "matches R (\<lambda>g. Undef) n"
  by (simp add: matches_def)

lemma matches_cb_case [matches_intros]:
  "matches_cb R d cb cb' \<Longrightarrow> matches R (\<lambda>g. case cb of None \<Rightarrow> Ok d g | Some f \<Rightarrow> f x g)
     (\<lambda>h. case cb' of None \<Rightarrow> Ok d h | Some f \<Rightarrow> f x h)"
  by (simp add: matches_cb_def)

lemma matches_offsets_case [matches_intros]:
  "matches_offsets R cb cb' \<Longrightarrow> matches R (\<lambda>g. case cb of None \<Rightarrow> Ok () g | Some f \<Rightarrow> f t os g)
     (\<lambda>h. case cb' of None \<Rightarrow> Ok () h | Some f \<Rightarrow> f t os h)"
  by (simp add: matches_offsets_def)

lemma matches_bind [matches_intros]:
  "matches R m n \<Longrightarrow> (\<And>a. matches R (k a) (l a)) \<Longrightarrow>
    matches R (\<lambda>g. res_bind (m g) k) (\<lambda>h. res_bind (n h) l)"
  unfolding matches_def res_bind_eq_Ok by blast

lemma matches_if [matches_intros]:
  "(b \<Longrightarrow> matches R m1 n1) \<Longrightarrow> (\<not> b \<Longrightarrow> matches R m2 n2) \<Longrightarrow>
    matches R (\<lambda>g. if b then m1 g else m2 g) (\<lambda>h. if b then n1 h else n2 h)"
  by (cases b) simp_all

lemma matches_if_fun [matches_intros]:
  "(b \<Longrightarrow> matches R m1 n1) \<Longrightarrow> (\<not> b \<Longrightarrow> matches R m2 n2) \<Longrightarrow>
    matches R (if b then m1 else m2) (if b then n1 else n2)"
  by simp

lemma matches_option [matches_intros]:
  "(o' = None \<Longrightarrow> matches R m n) \<Longrightarrow> (\<And>a. o' = Some a \<Longrightarrow> matches R (m' a) (n' a)) \<Longrightarrow>
    matches R (\<lambda>g. case o' of None \<Rightarrow> m g | Some a \<Rightarrow> m' a g) (\<lambda>h. case o' of None \<Rightarrow> n h | Some a \<Rightarrow> n' a h)"
  by (cases o') simp_all

text \<open>Callback tables of the same shape.\<close>

lemma matches_cb_simps [simp]:
  "matches_cb R d None None"
  "matches_cb R d (Some f) (Some f') \<longleftrightarrow> (\<forall>x. matches R (f x) (f' x))"
  "matches_cb R d (Some f) None \<longleftrightarrow> (\<forall>x. matches R (f x) (\<lambda>h. Ok d h))"
  by (simp_all add: matches_cb_def matches_Ok)

lemma matches_offsets_simps [simp]:
  "matches_offsets R None None"
  "matches_offsets R (Some o1) (Some o2) \<longleftrightarrow> (\<forall>t os. matches R (o1 t os) (o2 t os))"
  by (simp_all add: matches_offsets_def matches_Ok)

lemma matches_call_opt [simp]:
  "matches R (call_opt None) (call_opt None)"
  "matches R (call_opt (Some m)) (call_opt (Some n)) \<longleftrightarrow> matches R m n"
  "matches R (call_opt (Some m)) (call_opt None) \<longleftrightarrow> matches R m (\<lambda>h. Ok () h)"
  by (simp_all add: call_opt_def [abs_def] matches_Ok)

lemma matches_hooks_none [simp]: "matches_hooks R no_hooks no_hooks"
  by (simp add: matches_hooks_def no_hooks_def)

lemma matches_mono_chunks:
  assumes "matches_component R p q" "R g h" "feed (snd p) sz s cs g = Ok a g'"
  shows "\<exists>h'. feed (snd q) sz s cs h = Ok a h' \<and> R g' h'"
  using assms(2,3)
proof (induction cs arbitrary: s g h)
  case (Cons c cs)
  have m: "matches R (snd p sz s c) (snd q sz s c)" by (rule matches_componentD [OF assms(1)])
  from Cons.prems(2) obtain b g1 where "snd p sz s c g = Ok b g1"
    and k: "(case b of (rv, s', c') \<Rightarrow> if rv = INCOMPLETE \<and> cs \<noteq> [] then feed (snd p) sz s' cs
      else Ok (rv, s', c' @ concat cs)) g1 = Ok a g'"
    by (auto simp: res_bind_eq_Ok)
  then obtain rv s' c' where p: "snd p sz s c g = Ok (rv, s', c') g1"
    and r: "(if rv = INCOMPLETE \<and> cs \<noteq> [] then feed (snd p) sz s' cs else Ok (rv, s', c' @ concat cs)) g1 = Ok a g'"
    by (cases b) auto
  obtain h1 where q: "snd q sz s c h = Ok (rv, s', c') h1" "R g1 h1"
    using matchesD [OF m Cons.prems(1) p] by blast
  show ?case
  proof (cases "rv = INCOMPLETE \<and> cs \<noteq> []")
    case True
    then show ?thesis using Cons.IH [OF q(2), of s'] r q(1) by simp
  next
    case False
    then show ?thesis using r q by auto
  qed
qed simp

section \<open>The templates\<close>

lemma vec_loop_unfold:
  "vec_loop icb p n sn len u c = (if sn - 1 < len
     then MOL_CALL_SUBPARSER (snd p) n u (Vec_st sn len)
       (\<lambda>_ c' g'. res_bind (fst p g') (\<lambda>u' g''. res_bind (call_index icb (sn + 1 - 1) g'')
         (\<lambda>_. vec_loop icb p n (sn + 1) len u' c'))) c
     else Ok (Fall, Vec_st sn len u, c))"
  by (rule ext) (subst vec_loop.simps, simp)

lemma dynvec_header_unfold:
  "dynvec_header sn fi tot first u c = (if fi < dynvec_count first
     then MOL_CALL_NUM u (DynVec_st sn fi tot first)
       (\<lambda>_ _ c'. dynvec_header sn (fi + 1) tot first mol_num_init_state c') c
     else Ok (Fall, DynVec_st sn fi tot first u, c))"
  by (rule ext) (subst dynvec_header.simps, simp)

lemma dynvec_loop_unfold:
  "dynvec_loop icb p sn fi tot first u c = (if fi < dynvec_count first
     then MOL_CALL_SUBPARSER (snd p) (- 1) u (DynVec_st sn fi tot first)
       (\<lambda>_ c' g'. res_bind (fst p g') (\<lambda>u' g''. res_bind (call_index icb (fi + 1) g'')
         (\<lambda>_. dynvec_loop icb p sn (fi + 1) tot first u' c'))) c
     else Ok (Fall, DynVec_st sn fi tot first u, c))"
  by (rule ext) (subst dynvec_loop.simps, simp)

locale simulation =
  fixes R :: "'g \<Rightarrow> 'h \<Rightarrow> bool"
begin

lemma matches_call_index [matches_intros]:
  "matches_cb R () cb cb' \<Longrightarrow> matches R (call_index cb i) (call_index cb' i)"
  unfolding call_index_def [abs_def] by (intro matches_intros)

lemma matches_call_chunk:
  "matches_cb R () cb cb' \<Longrightarrow> matches R (call_chunk cb s c) (call_chunk cb' s c)"
  unfolding call_chunk_def [abs_def] by (intro matches_intros)

lemma matches_seq: "matches_frag R F1 G1 \<Longrightarrow> matches_frag R F2 G2 \<Longrightarrow> matches_frag R (seq F1 F2) (seq G1 G2)"
  unfolding matches_frag_def seq_def [abs_def]
  by (auto intro!: matches_intros split: prod.splits)

lemma matches_chain: "list_all2 (matches_frag R) Fs Gs \<Longrightarrow> matches_frag R (chain Fs) (chain Gs)"
proof (induction rule: list_all2_induct)
  case Nil
  then show ?case by (simp add: matches_frag_def skip_frag_def [abs_def] matches_Ok)
next
  case (Cons F Fs G Gs)
  then show ?case by (simp add: matches_seq)
qed

lemma matches_run_body:
  assumes h: "matches_hooks R h h'" and F: "matches_frag R F G"
  shows "matches R (run_body h F s c) (run_body h' G s c)"
proof -
  have ch: "matches R (call_chunk (chunk_cb h) a b) (call_chunk (chunk_cb h') a b)" for a b
    using h by (intro matches_call_chunk) (simp add: matches_hooks_def)
  then have cl: "matches R (closing h a b d) (closing h' a b d)" for a b d
    using h unfolding closing_def [abs_def] by (intro matches_intros) (simp_all add: matches_hooks_def)
  show ?thesis
    unfolding run_body_def [abs_def]
  proof (intro matches_intros matches_fragD [OF F], clarsimp)
    fix fl s' c'
    show "matches R (\<lambda>g'. case fl of Fall \<Rightarrow> closing h c s' c' g'
        | Leave rv \<Rightarrow> res_bind (call_chunk (chunk_cb h) c c' g') (\<lambda>_. Ok (rv, s', c'))
        | Bare rv \<Rightarrow> Ok (rv, s', c') g' | Finish \<Rightarrow> closing h c s' c' g')
      (\<lambda>g'. case fl of Fall \<Rightarrow> closing h' c s' c' g'
        | Leave rv \<Rightarrow> res_bind (call_chunk (chunk_cb h') c c' g') (\<lambda>_. Ok (rv, s', c'))
        | Bare rv \<Rightarrow> Ok (rv, s', c') g' | Finish \<Rightarrow> closing h' c s' c' g')"
      by (cases fl) (simp_all add: cl ch matches_intros)
  qed
qed

lemma matches_mol_parse_bytes:
  "matches_cb R () (cb_field bytes_end cb) (cb_field bytes_end cb') \<Longrightarrow>
    matches R (mol_parse_bytes cb n s c) (mol_parse_bytes cb' n s c)"
  by (cases s) (auto simp: mol_parse_bytes_def [abs_def] Let_def intro!: matches_intros)

lemma matches_MOL_CALL_NUM [matches_intros]:
  "(\<And>v u c. matches R (k v u c) (l v u c)) \<Longrightarrow> matches R (MOL_CALL_NUM u put k c) (MOL_CALL_NUM u put l c)"
  unfolding MOL_CALL_NUM_def [abs_def] mol_parse_num_def [abs_def]
  by (auto intro!: matches_intros matches_mol_parse_bytes split: prod.splits)

lemma matches_MOL_CALL_SUBPARSER [matches_intros]:
  "matches_component R p q \<Longrightarrow> (\<And>u c. matches R (k u c) (l u c)) \<Longrightarrow>
    matches R (MOL_CALL_SUBPARSER (snd p) sz u put k c) (MOL_CALL_SUBPARSER (snd q) sz u put l c)"
  unfolding MOL_CALL_SUBPARSER_def [abs_def]
  by (auto intro!: matches_intros split: prod.splits)

lemma matches_check_vec_size [matches_intros]:
  "matches_cb R True scb scb' \<Longrightarrow> matches R k k' \<Longrightarrow>
    matches R (check_vec_size scb n sz len s c k) (check_vec_size scb' n sz len s c k')"
  unfolding check_vec_size_def [abs_def] by (intro matches_intros)

lemma matches_case_state [matches_intros]:
  "(\<And>sn fi tot offs u. s = Table_st sn fi tot offs u \<Longrightarrow> matches R (mt sn fi tot offs u) (nt sn fi tot offs u)) \<Longrightarrow>
    matches R (\<lambda>g. case s of Table_st sn fi tot offs u \<Rightarrow> mt sn fi tot offs u g | _ \<Rightarrow> Undef)
      (\<lambda>g. case s of Table_st sn fi tot offs u \<Rightarrow> nt sn fi tot offs u g | _ \<Rightarrow> Undef)"
  "(\<And>sn u. s = Struct_st sn u \<Longrightarrow> matches R (ms sn u) (ns sn u)) \<Longrightarrow>
    matches R (\<lambda>g. case s of Struct_st sn u \<Rightarrow> ms sn u g | _ \<Rightarrow> Undef)
      (\<lambda>g. case s of Struct_st sn u \<Rightarrow> ns sn u g | _ \<Rightarrow> Undef)"
  "(\<And>u. s = Opt_st u \<Longrightarrow> matches R (mo u) (no u)) \<Longrightarrow>
    matches R (\<lambda>g. case s of Opt_st u \<Rightarrow> mo u g | _ \<Rightarrow> Undef) (\<lambda>g. case s of Opt_st u \<Rightarrow> no u g | _ \<Rightarrow> Undef)"
  "(\<And>sn len u. s = Vec_st sn len u \<Longrightarrow> matches R (mv sn len u) (nv sn len u)) \<Longrightarrow>
    matches R (\<lambda>g. case s of Vec_st sn len u \<Rightarrow> mv sn len u g | _ \<Rightarrow> Undef)
      (\<lambda>g. case s of Vec_st sn len u \<Rightarrow> nv sn len u g | _ \<Rightarrow> Undef)"
  "(\<And>sn fi tot first u. s = DynVec_st sn fi tot first u \<Longrightarrow> matches R (md sn fi tot first u) (nd sn fi tot first u)) \<Longrightarrow>
    matches R (\<lambda>g. case s of DynVec_st sn fi tot first u \<Rightarrow> md sn fi tot first u g | _ \<Rightarrow> Undef)
      (\<lambda>g. case s of DynVec_st sn fi tot first u \<Rightarrow> nd sn fi tot first u g | _ \<Rightarrow> Undef)"
  by (cases s; simp add: matches_Undef)+

lemma matches_init [matches_intros]:
  "matches_hooks R h h' \<Longrightarrow> matches R (call_opt (start_cb h)) (call_opt (start_cb h'))"
  by (simp add: matches_hooks_def)

lemma matches_table:
  assumes ps: "list_all2 (matches_component R) ps qs" "ps \<noteq> []" and o': "matches_offsets R ocb ocb'"
    and h: "matches_hooks R h h'"
  shows "matches_component R (table h ocb ps) (table h' ocb' qs)"
proof -
  have n: "length qs = length ps" and k: "\<And>k. k < length ps \<Longrightarrow> matches_component R (ps ! k) (qs ! k)"
    using ps(1) by (simp_all add: list_all2_conv_all_nth)
  have "matches R (fst (table h ocb ps)) (fst (table h' ocb' qs))"
    using h unfolding table_def table_init_def [abs_def] fst_conv n by (intro matches_intros)
  moreover have "matches_frag R (table_total sz) (table_total sz)" for sz
    unfolding matches_frag_def table_total_def [abs_def] by (auto intro!: matches_intros)
  moreover have "matches_frag R (table_offset i) (table_offset i)" for i
    unfolding matches_frag_def table_offset_def [abs_def] by (auto intro!: matches_intros)
  moreover have "matches_frag R (table_offsets_done ocb (fst (ps ! 0))) (table_offsets_done ocb' (fst (qs ! 0)))"
    unfolding matches_frag_def table_offsets_done_def [abs_def]
    using o' k [of 0] ps(2) by (auto intro!: matches_intros)
  moreover have "matches_frag R (table_field ps i) (table_field qs i)" if "i < length ps" for i
    unfolding matches_frag_def table_field_def [abs_def] n using k that by (auto intro!: matches_intros)
  ultimately have c: "matches_frag R (chain (table_frags sz ocb ps)) (chain (table_frags sz ocb' qs))" for sz
    by (intro matches_chain)
      (auto simp: table_frags_def n list.rel_map intro!: list_all2_appendI list.rel_refl_strong)
  have "matches R (snd (table h ocb ps) sz s c) (snd (table h' ocb' qs) sz s c)" for sz s c
    using matches_run_body [OF h c] by (simp add: table_def table_parse_def table_frags_def)
  then show ?thesis
    using \<open>matches R (fst (table h ocb ps)) (fst (table h' ocb' qs))\<close> by (simp add: matches_component_def)
qed

lemma matches_struct:
  assumes p: "matches_component R p1 q1" "matches_component R p2 q2" and h: "matches_hooks R h h'"
  shows "matches_component R (struct h tsz p1 sz1 p2 sz2) (struct h' tsz q1 sz1 q2 sz2)"
proof -
  have "matches R (fst (struct h tsz p1 sz1 p2 sz2)) (fst (struct h' tsz q1 sz1 q2 sz2))"
    using assms unfolding struct_def struct_init_def [abs_def] fst_conv by (intro matches_intros)
  moreover have "matches_frag R (struct_size tsz sz) (struct_size tsz sz)" for sz
    unfolding matches_frag_def struct_size_def [abs_def] by (auto intro!: matches_intros)
  moreover have "matches_frag R (struct_first p1 sz1 p2) (struct_first q1 sz1 q2)"
    "matches_frag R (struct_second p2 sz2) (struct_second q2 sz2)"
    using p unfolding matches_frag_def struct_first_def [abs_def] struct_second_def [abs_def]
    by (auto intro!: matches_intros)
  ultimately show ?thesis
    using matches_run_body [OF h matches_chain]
    by (simp add: matches_component_def struct_def struct_parse_def [abs_def] del: chain.simps)
qed

lemma matches_option_of:
  assumes p: "matches_component R p q" and h: "matches_hooks R h h'"
  shows "matches_component R (option_of h p) (option_of h' q)"
proof -
  have "matches R (fst (option_of h p)) (fst (option_of h' q))"
    using assms unfolding option_of_def option_init_def [abs_def] fst_conv by (intro matches_intros)
  moreover have "matches_frag R (option_item p sz) (option_item q sz)" for sz
    using p unfolding matches_frag_def option_item_def [abs_def] by (auto intro!: matches_intros)
  ultimately show ?thesis
    using matches_run_body [OF h]
    by (simp add: matches_component_def option_of_def option_parse_def [abs_def])
qed

lemma matches_vec_loop:
  assumes p: "matches_component R p q" and i: "matches_cb R () icb icb'"
  shows "matches R (vec_loop icb p n sn len u c) (vec_loop icb' q n sn len u c)"
proof (induction "unat (len - (sn - 1))" arbitrary: sn u c rule: less_induct)
  case (less sn u c)
  show ?case
  proof (cases "sn - 1 < len")
    case True
    have "unat (len - (sn + 1 - 1)) < unat (len - (sn - 1))"
      using unat_countdown [of "sn - 1" len] True by simp
    then have "matches R (vec_loop icb p n (sn + 1) len u' c') (vec_loop icb' q n (sn + 1) len u' c')" for u' c'
      by (rule less)
    then show ?thesis
      using True unfolding vec_loop_unfold [of _ _ _ sn len] by (auto intro!: matches_intros p i)
  qed (simp add: vec_loop_unfold [of _ _ _ sn len] matches_Ok)
qed

lemma matches_vec_init: "matches_hooks R h h' \<Longrightarrow> matches R (vec_init h) (vec_init h')"
  unfolding vec_init_def [abs_def] by (intro matches_intros)

lemma matches_vec_of:
  assumes p: "matches_component R p q" and i: "matches_cb R () icb icb'" and s: "matches_cb R True scb scb'"
    and h: "matches_hooks R h h'"
  shows "matches_component R (vec_of h scb icb n p) (vec_of h' scb' icb' n q)"
proof -
  have "matches_frag R (vec_head scb icb n p sz) (vec_head scb' icb' n q sz)" for sz
    using assms unfolding matches_frag_def vec_head_def [abs_def] by (auto intro!: matches_intros)
  moreover have "matches_frag R (vec_items icb p m) (vec_items icb' q m)" for m
    unfolding matches_frag_def vec_items_def [abs_def] by (intro allI matches_intros matches_vec_loop p i)
  ultimately show ?thesis
    using matches_run_body [OF h matches_chain] matches_vec_init [OF h]
    by (simp add: matches_component_def vec_of_def vec_parse_def [abs_def] del: chain.simps)
qed

lemma matches_dynvec_header:
  "matches R (dynvec_header sn fi tot first u c) (dynvec_header sn fi tot first u c)"
proof (induction "unat (dynvec_count first - fi)" arbitrary: fi u c rule: less_induct)
  case (less fi u c)
  show ?case
  proof (cases "fi < dynvec_count first")
    case True
    have "unat (dynvec_count first - (fi + 1)) < unat (dynvec_count first - fi)"
      using True by (rule unat_countdown)
    then have "matches R (dynvec_header sn (fi + 1) tot first u' c') (dynvec_header sn (fi + 1) tot first u' c')" for u' c'
      by (rule less)
    then show ?thesis
      using True unfolding dynvec_header_unfold [of sn fi] by (auto intro!: matches_intros)
  qed (simp add: dynvec_header_unfold [of sn fi] matches_Ok)
qed

lemma matches_dynvec_loop:
  assumes p: "matches_component R p q" and i: "matches_cb R () icb icb'"
  shows "matches R (dynvec_loop icb p sn fi tot first u c) (dynvec_loop icb' q sn fi tot first u c)"
proof (induction "unat (dynvec_count first - fi)" arbitrary: fi u c rule: less_induct)
  case (less fi u c)
  show ?case
  proof (cases "fi < dynvec_count first")
    case True
    have "unat (dynvec_count first - (fi + 1)) < unat (dynvec_count first - fi)"
      using True by (rule unat_countdown)
    then have "matches R (dynvec_loop icb p sn (fi + 1) tot first u' c') (dynvec_loop icb' q sn (fi + 1) tot first u' c')" for u' c'
      by (rule less)
    then show ?thesis
      using True unfolding dynvec_loop_unfold [of _ _ sn fi] by (auto intro!: matches_intros p i)
  qed (simp add: dynvec_loop_unfold [of _ _ sn fi] matches_Ok)
qed

lemma matches_dynvec_of:
  assumes p: "matches_component R p q" and i: "matches_cb R () icb icb'" and s: "matches_cb R True scb scb'"
    and l: "matches_cb R () lcb lcb'" and h: "matches_hooks R h h'"
  shows "matches_component R (dynvec_of h scb lcb icb p) (dynvec_of h' scb' lcb' icb' q)"
proof -
  have "matches R (fst (dynvec_of h scb lcb icb p)) (fst (dynvec_of h' scb' lcb' icb' q))"
    using assms unfolding dynvec_of_def dynvec_init_def [abs_def] fst_conv by (intro matches_intros)
  moreover have "matches_frag R (dynvec_total scb sz) (dynvec_total scb' sz)" for sz
    using s unfolding matches_frag_def dynvec_total_def [abs_def] by (auto intro!: matches_intros)
  moreover have "matches_frag R dynvec_first dynvec_first"
    unfolding matches_frag_def dynvec_first_def [abs_def] by (auto intro!: matches_intros)
  moreover have "matches_frag R dynvec_offsets dynvec_offsets"
    unfolding matches_frag_def dynvec_offsets_def [abs_def] by (intro allI matches_intros matches_dynvec_header)
  moreover have "matches_frag R (dynvec_start_items lcb icb p) (dynvec_start_items lcb' icb' q)"
    unfolding matches_frag_def dynvec_start_items_def [abs_def] by (auto intro!: matches_intros p l i)
  moreover have "matches_frag R (dynvec_items icb p) (dynvec_items icb' q)"
    unfolding matches_frag_def dynvec_items_def [abs_def] by (intro allI matches_intros matches_dynvec_loop p i)
  ultimately show ?thesis
    using matches_run_body [OF h matches_chain]
    by (simp add: matches_component_def dynvec_of_def dynvec_parse_def [abs_def] del: chain.simps)
qed

text \<open>The types, from the inside out.\<close>

lemma byte_matches:
  assumes "matches_cb R () (cb_field byte_end cb) (cb_field byte_end cb')"
  shows "matches_component R (byte_component cb) (byte_component cb')"
proof -
  have "matches R (MolReader_byte_parse cb sz s c) (MolReader_byte_parse cb' sz s c)" for sz s c
    using assms unfolding MolReader_byte_parse_def [abs_def]
    by (cases c) (auto intro!: matches_intros)
  then show ?thesis
    by (simp add: matches_component_def byte_component_def MolReader_byte_init_state_def [abs_def] matches_Ok)
qed

lemma array_matches:
  assumes "matches_cb R () (cb_field bytes_end cb) (cb_field bytes_end cb')"
  shows "matches_component R (Uint32 cb) (Uint32 cb')" "matches_component R (Uint64 cb) (Uint64 cb')"
    "matches_component R (Byte32 cb) (Byte32 cb')"
  using matches_mol_parse_bytes [OF assms] matches_Ok
  by (simp_all add: matches_component_def Uint32_def Uint64_def Byte32_def mol_bytes_init_state_def [abs_def]
      MolReader_Uint32_init_state_def [abs_def] MolReader_Uint32_parse_def [abs_def]
      MolReader_Uint64_init_state_def [abs_def] MolReader_Uint64_parse_def [abs_def]
      MolReader_Byte32_init_state_def [abs_def] MolReader_Byte32_parse_def [abs_def])

lemma Bytes_matches:
  assumes "matches_hooks R (hooks_of cb) (hooks_of cb')"
    "matches_cb R True (cb_field bytes_size cb) (cb_field bytes_size cb')"
    "matches_cb R () (cb_field bytes_body_chunk cb) (cb_field bytes_body_chunk cb')"
  shows "matches_component R (Bytes cb) (Bytes cb')"
proof -
  have "matches_frag R (Bytes_head cb sz) (Bytes_head cb' sz)" for sz
    using assms unfolding matches_frag_def Bytes_head_def [abs_def] by (auto intro!: matches_intros)
  moreover have "matches_frag R (Bytes_body cb) (Bytes_body cb')"
    using assms unfolding matches_frag_def Bytes_body_def [abs_def] Let_def
    by (auto intro!: matches_intros)
  ultimately show ?thesis
    using assms unfolding matches_component_def Bytes_def MolReader_Bytes_init_state_def [abs_def]
      MolReader_Bytes_parse_def [abs_def]
    by (auto intro!: matches_vec_init matches_run_body matches_chain simp del: chain.simps)
qed

lemma BytesOpt_matches:
  assumes "matches_hooks R (hooks_of cb) (hooks_of cb')" "matches_component R (Bytes (cb_field option_item_cb cb)) (Bytes (cb_field option_item_cb cb'))"
  shows "matches_component R (BytesOpt cb) (BytesOpt cb')"
  unfolding BytesOpt_eq by (rule matches_option_of) (use assms in auto)

lemma BytesVec_matches:
  assumes "matches_hooks R (hooks_of cb) (hooks_of cb')" "matches_cb R True (cb_field dynvec_size cb) (cb_field dynvec_size cb')"
    "matches_cb R () (cb_field dynvec_length cb) (cb_field dynvec_length cb')" "matches_cb R () (cb_field dynvec_index cb) (cb_field dynvec_index cb')"
    "matches_component R (Bytes (cb_field dynvec_item cb)) (Bytes (cb_field dynvec_item cb'))"
  shows "matches_component R (BytesVec cb) (BytesVec cb')"
  unfolding BytesVec_eq by (rule matches_dynvec_of) (use assms in auto)

lemma Byte32Vec_matches:
  assumes "matches_hooks R (hooks_of cb) (hooks_of cb')" "matches_cb R True (cb_field fixvec_size cb) (cb_field fixvec_size cb')"
    "matches_cb R () (cb_field fixvec_index cb) (cb_field fixvec_index cb')" "matches_component R (Byte32 (cb_field fixvec_item cb)) (Byte32 (cb_field fixvec_item cb'))"
  shows "matches_component R (Byte32Vec cb) (Byte32Vec cb')"
  unfolding Byte32Vec_eq by (rule matches_vec_of) (use assms in auto)

lemma Script_matches:
  assumes "matches_hooks R (hooks_of cb) (hooks_of cb')" "matches_offsets R (cb_field script_offsets cb) (cb_field script_offsets cb')"
    "matches_component R (Byte32 (cb_field script_code_hash cb)) (Byte32 (cb_field script_code_hash cb'))"
    "matches_component R (byte_component (cb_field script_hash_type cb)) (byte_component (cb_field script_hash_type cb'))"
    "matches_component R (Bytes (cb_field script_args cb)) (Bytes (cb_field script_args cb'))"
  shows "matches_component R (Script cb) (Script cb')"
  unfolding Script_eq by (rule matches_table) (use assms in \<open>auto simp: Script_fields_def\<close>)

lemma ScriptOpt_matches:
  assumes "matches_hooks R (hooks_of cb) (hooks_of cb')" "matches_component R (Script (cb_field option_item_cb cb)) (Script (cb_field option_item_cb cb'))"
  shows "matches_component R (ScriptOpt cb) (ScriptOpt cb')"
  unfolding ScriptOpt_eq by (rule matches_option_of) (use assms in auto)

lemma OutPoint_matches:
  assumes "matches_hooks R (hooks_of cb) (hooks_of cb')"
    "matches_component R (Byte32 (cb_field outpoint_tx_hash cb)) (Byte32 (cb_field outpoint_tx_hash cb'))"
    "matches_component R (Uint32 (cb_field outpoint_index cb)) (Uint32 (cb_field outpoint_index cb'))"
  shows "matches_component R (OutPoint cb) (OutPoint cb')"
  unfolding OutPoint_eq by (rule matches_struct) (use assms in auto)

lemma CellInput_matches:
  assumes "matches_hooks R (hooks_of cb) (hooks_of cb')"
    "matches_component R (Uint64 (cb_field cellinput_since cb)) (Uint64 (cb_field cellinput_since cb'))"
    "matches_component R (OutPoint (cb_field cellinput_previous_output cb)) (OutPoint (cb_field cellinput_previous_output cb'))"
  shows "matches_component R (CellInput cb) (CellInput cb')"
  unfolding CellInput_eq by (rule matches_struct) (use assms in auto)

lemma CellInputVec_matches:
  assumes "matches_hooks R (hooks_of cb) (hooks_of cb')" "matches_cb R True (cb_field fixvec_size cb) (cb_field fixvec_size cb')"
    "matches_cb R () (cb_field fixvec_index cb) (cb_field fixvec_index cb')" "matches_component R (CellInput (cb_field fixvec_item cb)) (CellInput (cb_field fixvec_item cb'))"
  shows "matches_component R (CellInputVec cb) (CellInputVec cb')"
  unfolding CellInputVec_eq by (rule matches_vec_of) (use assms in auto)

lemma CellOutput_matches:
  assumes "matches_hooks R (hooks_of cb) (hooks_of cb')" "matches_offsets R (cb_field celloutput_offsets cb) (cb_field celloutput_offsets cb')"
    "matches_component R (Uint64 (cb_field celloutput_capacity cb)) (Uint64 (cb_field celloutput_capacity cb'))"
    "matches_component R (Script (cb_field celloutput_lock cb)) (Script (cb_field celloutput_lock cb'))"
    "matches_component R (ScriptOpt (cb_field celloutput_type cb)) (ScriptOpt (cb_field celloutput_type cb'))"
  shows "matches_component R (CellOutput cb) (CellOutput cb')"
  unfolding CellOutput_eq by (rule matches_table) (use assms in \<open>auto simp: CellOutput_fields_def\<close>)

lemma CellOutputVec_matches:
  assumes "matches_hooks R (hooks_of cb) (hooks_of cb')" "matches_cb R True (cb_field dynvec_size cb) (cb_field dynvec_size cb')"
    "matches_cb R () (cb_field dynvec_length cb) (cb_field dynvec_length cb')" "matches_cb R () (cb_field dynvec_index cb) (cb_field dynvec_index cb')"
    "matches_component R (CellOutput (cb_field dynvec_item cb)) (CellOutput (cb_field dynvec_item cb'))"
  shows "matches_component R (CellOutputVec cb) (CellOutputVec cb')"
  unfolding CellOutputVec_eq by (rule matches_dynvec_of) (use assms in auto)

lemma CellDep_matches:
  assumes "matches_hooks R (hooks_of cb) (hooks_of cb')"
    "matches_component R (OutPoint (cb_field celldep_out_point cb)) (OutPoint (cb_field celldep_out_point cb'))"
    "matches_component R (byte_component (cb_field celldep_dep_type cb)) (byte_component (cb_field celldep_dep_type cb'))"
  shows "matches_component R (CellDep cb) (CellDep cb')"
  unfolding CellDep_eq by (rule matches_struct) (use assms in auto)

lemma CellDepVec_matches:
  assumes "matches_hooks R (hooks_of cb) (hooks_of cb')" "matches_cb R True (cb_field fixvec_size cb) (cb_field fixvec_size cb')"
    "matches_cb R () (cb_field fixvec_index cb) (cb_field fixvec_index cb')" "matches_component R (CellDep (cb_field fixvec_item cb)) (CellDep (cb_field fixvec_item cb'))"
  shows "matches_component R (CellDepVec cb) (CellDepVec cb')"
  unfolding CellDepVec_eq by (rule matches_vec_of) (use assms in auto)

lemma RawTransaction_matches:
  assumes "matches_hooks R (hooks_of cb) (hooks_of cb')" "matches_offsets R (cb_field rawtransaction_offsets cb) (cb_field rawtransaction_offsets cb')"
    "matches_component R (Uint32 (cb_field rawtransaction_version cb)) (Uint32 (cb_field rawtransaction_version cb'))"
    "matches_component R (CellDepVec (cb_field rawtransaction_cell_deps cb)) (CellDepVec (cb_field rawtransaction_cell_deps cb'))"
    "matches_component R (Byte32Vec (cb_field rawtransaction_header_deps cb)) (Byte32Vec (cb_field rawtransaction_header_deps cb'))"
    "matches_component R (CellInputVec (cb_field rawtransaction_inputs cb)) (CellInputVec (cb_field rawtransaction_inputs cb'))"
    "matches_component R (CellOutputVec (cb_field rawtransaction_outputs cb)) (CellOutputVec (cb_field rawtransaction_outputs cb'))"
    "matches_component R (BytesVec (cb_field rawtransaction_outputs_data cb)) (BytesVec (cb_field rawtransaction_outputs_data cb'))"
  shows "matches_component R (RawTransaction cb) (RawTransaction cb')"
  unfolding RawTransaction_eq by (rule matches_table) (use assms in \<open>auto simp: RawTransaction_fields_def\<close>)

lemma WitnessArgs_matches:
  assumes "matches_hooks R (hooks_of cb) (hooks_of cb')" "matches_offsets R (cb_field witnessargs_offsets cb) (cb_field witnessargs_offsets cb')"
    "matches_component R (BytesOpt (cb_field witnessargs_lock cb)) (BytesOpt (cb_field witnessargs_lock cb'))"
    "matches_component R (BytesOpt (cb_field witnessargs_input_type cb)) (BytesOpt (cb_field witnessargs_input_type cb'))"
    "matches_component R (BytesOpt (cb_field witnessargs_output_type cb)) (BytesOpt (cb_field witnessargs_output_type cb'))"
  shows "matches_component R (WitnessArgs cb) (WitnessArgs cb')"
  unfolding WitnessArgs_eq by (rule matches_table) (use assms in \<open>auto simp: WitnessArgs_fields_def\<close>)

lemma AnnotatedCellInput_matches:
  assumes "matches_hooks R (hooks_of cb) (hooks_of cb')" "matches_offsets R (cb_field annotatedcellinput_offsets cb) (cb_field annotatedcellinput_offsets cb')"
    "matches_component R (CellInput (cb_field annotatedcellinput_input cb)) (CellInput (cb_field annotatedcellinput_input cb'))"
    "matches_component R (RawTransaction (cb_field annotatedcellinput_source cb)) (RawTransaction (cb_field annotatedcellinput_source cb'))"
  shows "matches_component R (AnnotatedCellInput cb) (AnnotatedCellInput cb')"
  unfolding AnnotatedCellInput_eq by (rule matches_table) (use assms in \<open>auto simp: AnnotatedCellInput_fields_def\<close>)

lemma AnnotatedCellInputVec_matches:
  assumes "matches_hooks R (hooks_of cb) (hooks_of cb')" "matches_cb R True (cb_field dynvec_size cb) (cb_field dynvec_size cb')"
    "matches_cb R () (cb_field dynvec_length cb) (cb_field dynvec_length cb')" "matches_cb R () (cb_field dynvec_index cb) (cb_field dynvec_index cb')"
    "matches_component R (AnnotatedCellInput (cb_field dynvec_item cb)) (AnnotatedCellInput (cb_field dynvec_item cb'))"
  shows "matches_component R (AnnotatedCellInputVec cb) (AnnotatedCellInputVec cb')"
  unfolding AnnotatedCellInputVec_eq by (rule matches_dynvec_of) (use assms in auto)

lemma AnnotatedRawTransaction_matches:
  assumes "matches_hooks R (hooks_of cb) (hooks_of cb')" "matches_offsets R (cb_field annotatedrawtransaction_offsets cb) (cb_field annotatedrawtransaction_offsets cb')"
    "matches_component R (Uint32 (cb_field annotatedrawtransaction_version cb)) (Uint32 (cb_field annotatedrawtransaction_version cb'))"
    "matches_component R (CellDepVec (cb_field annotatedrawtransaction_cell_deps cb)) (CellDepVec (cb_field annotatedrawtransaction_cell_deps cb'))"
    "matches_component R (Byte32Vec (cb_field annotatedrawtransaction_header_deps cb)) (Byte32Vec (cb_field annotatedrawtransaction_header_deps cb'))"
    "matches_component R (AnnotatedCellInputVec (cb_field annotatedrawtransaction_inputs cb)) (AnnotatedCellInputVec (cb_field annotatedrawtransaction_inputs cb'))"
    "matches_component R (CellOutputVec (cb_field annotatedrawtransaction_outputs cb)) (CellOutputVec (cb_field annotatedrawtransaction_outputs cb'))"
    "matches_component R (BytesVec (cb_field annotatedrawtransaction_outputs_data cb)) (BytesVec (cb_field annotatedrawtransaction_outputs_data cb'))"
  shows "matches_component R (AnnotatedRawTransaction cb) (AnnotatedRawTransaction cb')"
  unfolding AnnotatedRawTransaction_eq by (rule matches_table) (use assms in \<open>auto simp: AnnotatedRawTransaction_fields_def\<close>)

lemma Bip32_matches:
  assumes "matches_hooks R (hooks_of cb) (hooks_of cb')" "matches_cb R True (cb_field fixvec_size cb) (cb_field fixvec_size cb')"
    "matches_cb R () (cb_field fixvec_index cb) (cb_field fixvec_index cb')" "matches_component R (Uint32 (cb_field fixvec_item cb)) (Uint32 (cb_field fixvec_item cb'))"
  shows "matches_component R (Bip32 cb) (Bip32 cb')"
  unfolding Bip32_eq by (rule matches_vec_of) (use assms in auto)

lemma AnnotatedTransaction_matches:
  assumes "matches_hooks R (hooks_of cb) (hooks_of cb')" "matches_offsets R (cb_field annotatedtransaction_offsets cb) (cb_field annotatedtransaction_offsets cb')"
    "matches_component R (Bip32 (cb_field annotatedtransaction_signPath cb)) (Bip32 (cb_field annotatedtransaction_signPath cb'))"
    "matches_component R (Bip32 (cb_field annotatedtransaction_changePath cb)) (Bip32 (cb_field annotatedtransaction_changePath cb'))"
    "matches_component R (Uint32 (cb_field annotatedtransaction_inputCount cb)) (Uint32 (cb_field annotatedtransaction_inputCount cb'))"
    "matches_component R (AnnotatedRawTransaction (cb_field annotatedtransaction_raw cb)) (AnnotatedRawTransaction (cb_field annotatedtransaction_raw cb'))"
    "matches_component R (BytesVec (cb_field annotatedtransaction_witnesses cb)) (BytesVec (cb_field annotatedtransaction_witnesses cb'))"
  shows "matches_component R (AnnotatedTransaction cb) (AnnotatedTransaction cb')"
  unfolding AnnotatedTransaction_eq by (rule matches_table) (use assms in \<open>auto simp: AnnotatedTransaction_fields_def\<close>)

lemmas reader_matches = byte_matches array_matches Bytes_matches BytesOpt_matches BytesVec_matches Byte32Vec_matches Script_matches ScriptOpt_matches OutPoint_matches CellInput_matches CellInputVec_matches CellOutput_matches CellOutputVec_matches CellDep_matches CellDepVec_matches RawTransaction_matches WitnessArgs_matches AnnotatedCellInput_matches AnnotatedCellInputVec_matches AnnotatedRawTransaction_matches Bip32_matches AnnotatedTransaction_matches

end

end
