(* ===== verification/Signer_Packets.thy ===== *)
theory Signer_Packets
  imports Transcriber Molecule_Simulation
begin

text \<open>
  The reader of the signer and the packets. The callbacks of the signer are not lawful: some of
  their effects depend on where the host cuts its packets. What they return to the reader does
  not, so the reader itself (its verdict, its state, the bytes it leaves) agrees with the reader
  of the lawful transcriber, whatever the two have recorded: the relation between the states is
  the one that always holds.
\<close>

section \<open>The signer against the transcriber\<close>

abbreviation any_states :: "'g \<Rightarrow> 'h \<Rightarrow> bool" where
  "any_states \<equiv> \<lambda>_ _. True"

interpretation any: simulation "any_states :: 'h ctx \<Rightarrow> transcript \<Rightarrow> bool" .

lemma any_unit:
  fixes m :: "'g act"
  shows "matches any_states m (t_upd f)" "matches any_states m (\<lambda>l. Ok () l)"
  by (simp_all add: matches_def t_upd_def)

lemma any_size:
  "matches any_states (init_bip32 n) (path_size n)"
  "matches any_states (set_cell_data_size n) (upd_size f n)"
  "matches any_states (cell_type_arg_length n) (\<lambda>l. Ok True l)"
  "matches any_states (hash_witness_length sdk n) (upd_size f n)"
  by (auto simp: matches_def path_size_def upd_size_def init_bip32_def on_temp_key_def REJECT_HARD_def REJECT_soft_def
      set_cell_data_size_def cell_type_arg_length_def hash_witness_length_def on_tx_def blake2b_chunk_def
      not_less not_le Let_def split: option.splits if_splits)

lemma any_source:
  "matches_component any_states (AnnotatedCellInput (Some (annotatedCellInput_callbacks sdk)))
    (AnnotatedCellInput (Some (transcribe_input dig)))"
  unfolding annotatedCellInput_callbacks_def transcribe_input_def hash_type_cb_def
  by (intro any.reader_matches; (simp add: matches_hooks_def matches_Ok call_opt_def [abs_def])?)
    (auto intro!: any_unit any_size)

lemma any_raw:
  "matches_component any_states (AnnotatedRawTransaction (Some (AnnotatedRawTransaction_sign_callbacks sdk)))
    (AnnotatedRawTransaction (Some (transcribe_raw dig)))"
proof -
  note types = any.AnnotatedRawTransaction_matches any.AnnotatedCellInputVec_matches any.CellDepVec_matches
    any.CellDep_matches any.OutPoint_matches any.Byte32Vec_matches any.CellOutputVec_matches
    any.CellOutput_matches any.Script_matches any.ScriptOpt_matches any.BytesVec_matches
    any.Bytes_matches any.array_matches any.byte_matches
  show ?thesis
    unfolding AnnotatedRawTransaction_sign_callbacks_def transcribe_raw_def hash_type_cb_def
    apply (intro types; (simp add: matches_hooks_def matches_Ok call_opt_def [abs_def])?)
    by (rule allI conjI any_unit any_size any_source)+
qed

lemma any_signer:
  "matches_component any_states (AnnotatedTransaction (Some (annotatedTransaction_callbacks sdk)))
    (AnnotatedTransaction (Some (transcriber dig first)))"
proof -
  note types = any.AnnotatedTransaction_matches any.Bip32_matches any.BytesVec_matches
    any.Bytes_matches any.array_matches
  show ?thesis
    unfolding annotatedTransaction_callbacks_def transcriber_def path_callbacks_def transcribe_path_def transcribe_witnesses_def
    apply (intro types; (simp add: matches_hooks_def matches_Ok call_opt_def [abs_def])?)
    by (rule allI conjI any_unit any_size any_raw)+
qed

text \<open>A run of the signer's reader over packets is one of the transcriber's, from any record.\<close>

abbreviation signer_reader :: "'h sdk \<Rightarrow> 'h ctx mparser" where
  "signer_reader sdk \<equiv> MolReader_AnnotatedTransaction_parse (Some (annotatedTransaction_callbacks sdk))"

abbreviation model_reader :: "transcript mparser" where
  "model_reader \<equiv> MolReader_AnnotatedTransaction_parse (Some (transcriber id None))"

lemma signer_feed:
  assumes "feed (signer_reader sdk) MOL_NUM_MAX s cs g = Ok a g'"
  shows "\<exists>l. feed model_reader MOL_NUM_MAX s cs blank_transcript = Ok a l"
  using matches_mono_chunks [OF any_signer [of sdk id None] TrueI, where g = g and h = blank_transcript and cs = cs] assms
  by (simp add: AnnotatedTransaction_def)

interpretation model: stream_parser "AnnotatedTransaction (Some (transcriber id None))" AnnotatedTransaction_valid
  by (rule AnnotatedTransaction_law [OF transcriber_lawful])

section \<open>Properties\<close>

text \<open>
  C16. The host may cut a transaction into packets anywhere, even inside numbers and with empty
  packets: the reader of the signer comes to the same verdict on two divisions of the same bytes,
  whatever the signer has recorded before, and unless it rejects them it is in the same state and
  leaves the same bytes unread; provided that neither run ends in an exception. (What the
  callbacks record is another matter: see C4 and the findings.)
\<close>

theorem packetisation_independent:
  assumes "AnnotatedTransaction_valid s" "cs \<noteq> []" "ds \<noteq> []" "concat cs = concat ds"
    "feed (signer_reader sdk) MOL_NUM_MAX s cs g = Ok (rv, s1, c1) g1"
    "feed (signer_reader sdk) MOL_NUM_MAX s ds h = Ok (rv', s2, c2) h1"
  shows "rv' = rv \<and> (rv \<noteq> REJECT \<longrightarrow> s2 = s1 \<and> c2 = c1)"
proof -
  have "sim rv_rej (feed model_reader MOL_NUM_MAX s cs blank_transcript) (feed model_reader MOL_NUM_MAX s ds blank_transcript)"
    using model.packetisation [OF assms(1-4)] by (simp add: AnnotatedTransaction_def)
  with signer_feed [OF assms(5)] signer_feed [OF assms(6)] show ?thesis by (auto simp: sim_def)
qed

text \<open>
  C26. The reader of the signer never runs past its input: after any packet in any state between
  two calls, what it leaves is a suffix of the packet, and it asks for more only when the packet
  is used up, in a state from which it can be resumed; whatever its callbacks have recorded.
\<close>

theorem reader_consumes_packet:
  assumes "AnnotatedTransaction_valid s" "signer_reader sdk MOL_NUM_MAX s c g = Ok (rv, s', c') g'"
  shows "suffix c' c \<and> (rv = INCOMPLETE \<longrightarrow> c' = [] \<and> AnnotatedTransaction_valid s')"
proof -
  have m: "matches any_states (signer_reader sdk MOL_NUM_MAX s c) (model_reader MOL_NUM_MAX s c)"
    using matches_componentD(2) [OF any_signer [of sdk id None], of MOL_NUM_MAX s c] by (simp add: AnnotatedTransaction_def)
  obtain l where "model_reader MOL_NUM_MAX s c blank_transcript = Ok (rv, s', c') l"
    using matchesD [OF m TrueI assms(2), of blank_transcript] by blast
  then show ?thesis
    using model.leaves [OF assms(1), of c MOL_NUM_MAX blank_transcript] by (simp add: AnnotatedTransaction_def)
qed

section \<open>A header in pieces\<close>

definition header_start :: mol_state where
  "header_start = Table_st 0 0 0 (replicate 5 0) mol_num_init_state"

lemma header_start_valid: "AnnotatedTransaction_valid header_start"
  using log_tx.init_valid [of "[]"] by (simp add: AnnotatedTransaction_def log_init header_start_def)

text \<open>The total size and the first offset, whole and in three pieces.\<close>

definition header_bytes :: "u8 list" where "header_bytes = [100, 0, 0, 0, 24, 0, 0, 0]"

definition header_pieces :: "u8 list list" where "header_pieces = [[100, 0], [], [0, 0, 24, 0, 0, 0]]"

lemma header_reads:
  "case signer_reader demo_sdk MOL_NUM_MAX header_start header_bytes demo_blank of Ok r g \<Rightarrow> fst r = INCOMPLETE | _ \<Rightarrow> False"
  "case feed (signer_reader demo_sdk) MOL_NUM_MAX header_start [header_bytes] demo_blank of Ok r g \<Rightarrow> fst r = INCOMPLETE | _ \<Rightarrow> False"
  "case feed (signer_reader demo_sdk) MOL_NUM_MAX header_start header_pieces demo_cell of Ok r g \<Rightarrow> True | _ \<Rightarrow> False"
  by code_simp+

lemma packetisation_independent_witness:
  "\<exists>s1 c1 g1 h1. feed (signer_reader demo_sdk) MOL_NUM_MAX header_start [header_bytes] demo_blank = Ok (INCOMPLETE, s1, c1) g1 \<and>
     feed (signer_reader demo_sdk) MOL_NUM_MAX header_start header_pieces demo_cell = Ok (INCOMPLETE, s1, c1) h1"
proof -
  obtain s1 c1 g1 where 1: "feed (signer_reader demo_sdk) MOL_NUM_MAX header_start [header_bytes] demo_blank = Ok (INCOMPLETE, s1, c1) g1"
    using header_reads(2) by (auto split: res.splits)
  obtain rv s2 c2 h1 where 2: "feed (signer_reader demo_sdk) MOL_NUM_MAX header_start header_pieces demo_cell = Ok (rv, s2, c2) h1"
    using header_reads(3) by (auto split: res.splits)
  show ?thesis
    using packetisation_independent [OF header_start_valid _ _ _ 1 2] 1 2 by (simp add: header_bytes_def header_pieces_def)
qed

lemma reader_consumes_packet_witness:
  "\<exists>s' g'. signer_reader demo_sdk MOL_NUM_MAX header_start header_bytes demo_blank = Ok (INCOMPLETE, s', []) g' \<and>
     AnnotatedTransaction_valid s'"
proof -
  obtain s' c' g' where 1: "signer_reader demo_sdk MOL_NUM_MAX header_start header_bytes demo_blank = Ok (INCOMPLETE, s', c') g'"
    using header_reads(1) by (auto split: res.splits)
  from reader_consumes_packet [OF header_start_valid this] 1 show ?thesis by simp
qed

end
