(* ===== verification/App_State.thy ===== *)
theory App_State
  imports Sign_State
begin

text \<open>
  The globals of the application: \<open>globals_t\<close> of \<open>src/src/globals.h\<close>, the settings, the APDU
  buffer of the SDK and the state of the screen. The union \<open>global.apdu.u\<close> is a datatype whose
  constructor is the member written last; using another member is undefined.
\<close>

section \<open>The other members of the APDU union\<close>

text \<open>\<open>ext_public_key\<close> is the point \<open>W\<close> and the chain code; \<open>hash_state\<close> is never used.\<close>

record apdu_pubkey_state_t =
  pubkey_key :: bip32_path
  ext_public_key_W :: "u8 list"
  ext_public_key_chain_code :: "u8 list"
  render_address_lock_arg :: "u8 list"

definition zero_pubkey :: apdu_pubkey_state_t where
  "zero_pubkey = \<lparr>pubkey_key = zero_path, ext_public_key_W = zeros 65,
     ext_public_key_chain_code = zeros 32, render_address_lock_arg = zeros 20\<rparr>"

text \<open>
  \<open>display_as_buffer\<close> points to \<open>display\<close>: only its size is kept, None for a cleared one, whose
  \<open>bytes\<close> are a null pointer. \<open>display_as_hex\<close> is assigned a \<open>bool\<close>.
\<close>

record 'h apdu_sign_message_state_t =
  msg_buffer_size :: "nat option"
  msg_key :: bip32_path
  msg_hash_state :: "'h option"
  packet_index :: u8
  display_as_hex :: bool
  msg_display :: "u8 list"
  msg_final_hash :: "u8 list"

definition zero_sign_msg :: "'h apdu_sign_message_state_t" where
  "zero_sign_msg = \<lparr>msg_buffer_size = None, msg_key = zero_path, msg_hash_state = None, packet_index = 0,
     display_as_hex = False, msg_display = zeros 64, msg_final_hash = zeros 32\<rparr>"

record apdu_sign_message_hash_state_t =
  smh_key :: bip32_path
  smh_buffer_size :: "nat option"
  hash_to_sign :: "u8 list"
  hash_to_sign_size :: u8

definition zero_sign_msg_hash :: apdu_sign_message_hash_state_t where
  "zero_sign_msg_hash = \<lparr>smh_key = zero_path, smh_buffer_size = None, hash_to_sign = zeros 64,
     hash_to_sign_size = 0\<rparr>"

datatype 'h apdu_union =
    Apdu_cleared
  | Apdu_pubkey apdu_pubkey_state_t
  | Apdu_sign "'h apdu_sign_state_t"
  | Apdu_sign_msg "'h apdu_sign_message_state_t"
  | Apdu_sign_msg_hash apdu_sign_message_hash_state_t

section \<open>The user interface\<close>

text \<open>The functions that are installed as callbacks, by name.\<close>

datatype ui_callback_t =
    sign_without_hash_ok
  | sign_with_hash_ok
  | sign_reject
  | sign_message_ok
  | sign_message_hash_ok
  | pubkey_ok
  | ext_pubkey_ok
  | account_import_ok
  | delay_reject

datatype switch_screen_t = Switch_static | Switch_multi_output

datatype string_generation_callback =
    CB_copy_string
  | CB_frac_ckb
  | CB_frac_ckb_tuple
  | CB_uint64_tuple
  | CB_contract_type
  | CB_sighash_address
  | CB_multisig_address
  | CB_bip32_path
  | CB_buffer_to_hex
  | CB_copy_buffer

text \<open>The places \<open>callback_data\<close> points to; they are read when the screen is filled.\<close>

datatype data_ptr =
    Ptr_static string
  | Ptr_amount_snd
  | Ptr_total_fee
  | Ptr_dao_amount
  | Ptr_amount
  | Ptr_input_count
  | Ptr_contract_type
  | Ptr_destination
  | Ptr_current_lock_arg
  | Ptr_dao_cell_owner
  | Ptr_pubkey
  | Ptr_render_address_lock_arg
  | Ptr_msg_buffer
  | Ptr_smh_buffer

definition MAX_SCREEN_COUNT :: nat where "MAX_SCREEN_COUNT = 8"
definition PROMPT_WIDTH :: nat where "PROMPT_WIDTH = 16"
definition VALUE_WIDTH :: nat where "VALUE_WIDTH = 128"

text \<open>The flow of screens on display, and whether the application still runs.\<close>

datatype ux_flow = Flow_idle | Flow_cfg | Flow_prompts

text \<open>
  Where \<open>main_loop\<close> waits in \<open>io_exchange\<close>: inside the \<open>TRY\<close> block, or outside of it (before
  the loop and in the \<open>CATCH\<close> clauses). \<open>Exited\<close>: \<open>main_loop\<close> has been left.
\<close>

datatype wait_mode = In_try | Outside_try | Exited

text \<open>
  \<open>ui_callbacks\<close> holds \<open>callbacks\<close> and \<open>callback_data\<close>, None for NULL. \<open>prompts\<close> is the list
  before its terminating NULL. \<open>sent\<close> records the responses sent to the host.
\<close>

record 'h globals_t =
  ok_callback :: "ui_callback_t option"
  cxl_callback :: "ui_callback_t option"
  switch_screen_fn :: "switch_screen_t option"
  ui_callbacks :: "(string_generation_callback \<times> data_ptr) option list"
  active_prompt :: cbuf
  active_value :: cbuf
  prompts :: "string list"
  prompt_offset :: nat
  apdu_u :: "'h apdu_union"
  apdu_priv :: key_mem
  N_data :: nvram_data
  G_io_apdu_buffer :: "u8 list"
  flow :: ux_flow
  waiting :: wait_mode
  sent :: "u8 list list"

text \<open>The size of \<open>G_io_apdu_buffer\<close> in the SDK: the header and 255 bytes.\<close>

definition IO_APDU_BUFFER_SIZE :: nat where "IO_APDU_BUFFER_SIZE = 260"

text \<open>\<open>init_globals\<close>; the settings are in flash and stay.\<close>

definition init_globals :: "nvram_data \<Rightarrow> 'h globals_t" where
  "init_globals nv = \<lparr>ok_callback = None, cxl_callback = None, switch_screen_fn = None,
     ui_callbacks = replicate 8 None, active_prompt = replicate 17 NUL, active_value = replicate 129 NUL,
     prompts = [], prompt_offset = 0, apdu_u = Apdu_cleared, apdu_priv = zero_key_mem, N_data = nv,
     G_io_apdu_buffer = zeros 260, flow = Flow_idle, waiting = Outside_try, sent = []\<rparr>"

definition clear_apdu_globals :: "'h globals_t \<Rightarrow> 'h globals_t" where
  "clear_apdu_globals a = a\<lparr>apdu_u := Apdu_cleared, apdu_priv := zero_key_mem\<rparr>"

section \<open>Access to the union\<close>

definition live_pubkey :: "'h globals_t \<Rightarrow> apdu_pubkey_state_t option" where
  "live_pubkey a = (case apdu_u a of Apdu_cleared \<Rightarrow> Some zero_pubkey | Apdu_pubkey p \<Rightarrow> Some p | _ \<Rightarrow> None)"

definition live_sign :: "'h globals_t \<Rightarrow> 'h apdu_sign_state_t option" where
  "live_sign a = (case apdu_u a of Apdu_cleared \<Rightarrow> Some zero_sign_state | Apdu_sign s \<Rightarrow> Some s | _ \<Rightarrow> None)"

definition live_msg :: "'h globals_t \<Rightarrow> 'h apdu_sign_message_state_t option" where
  "live_msg a = (case apdu_u a of Apdu_cleared \<Rightarrow> Some zero_sign_msg | Apdu_sign_msg s \<Rightarrow> Some s | _ \<Rightarrow> None)"

definition live_smh :: "'h globals_t \<Rightarrow> apdu_sign_message_hash_state_t option" where
  "live_smh a = (case apdu_u a of Apdu_cleared \<Rightarrow> Some zero_sign_msg_hash | Apdu_sign_msg_hash s \<Rightarrow> Some s | _ \<Rightarrow> None)"

text \<open>The context of the signer's callbacks is its member of the union, the settings and the keys.\<close>

definition sign_ctx :: "'h apdu_sign_state_t \<Rightarrow> 'h globals_t \<Rightarrow> 'h ctx" where
  "sign_ctx s a = apdu_sign_state_t.extend s (ctx.fields (N_data a) (apdu_priv a))"

definition put_sign_ctx :: "'h ctx \<Rightarrow> 'h globals_t \<Rightarrow> 'h globals_t" where
  "put_sign_ctx g a = a\<lparr>apdu_u := Apdu_sign (apdu_sign_state_t.truncate g), apdu_priv := keymem g\<rparr>"

definition on_sign :: "('h ctx \<Rightarrow> ('a, 'h ctx) res) \<Rightarrow> 'h globals_t \<Rightarrow> ('a, 'h globals_t) res" where
  "on_sign m a = (case live_sign a of None \<Rightarrow> Undef | Some s \<Rightarrow> zoom (sign_ctx s) put_sign_ctx m a)"

lemma sign_ctx_fields [simp]:
  "nvram (sign_ctx s a) = N_data a" "keymem (sign_ctx s a) = apdu_priv a"
  "apdu_sign_state_t.truncate (sign_ctx s a) = s"
  by (cases s, simp add: sign_ctx_def apdu_sign_state_t.defs ctx.defs)+

end
