(* ===== verification/Ui.thy ===== *)
theory Ui
  imports App_State
begin

text \<open>
  \<open>src/src/ui.c\<close> and \<open>src/src/ui_common.c\<close>: the registration of value callbacks, the filling of
  a screen, the prompts and the response to them. A prompt ends with \<open>ASYNC_EXCEPTION\<close>; the
  flow of the SDK then shows the screens and calls the response.
\<close>

definition register_ui_callback :: "nat \<Rightarrow> string_generation_callback \<Rightarrow> data_ptr \<Rightarrow> 'h globals_t act" where
  "register_ui_callback which cb data a =
     (if MAX_SCREEN_COUNT \<le> which then Throw EXC_MEMORY_ERROR a
      else Ok () (a\<lparr>ui_callbacks := (ui_callbacks a)[which := Some (cb, data)]\<rparr>))"

definition REGISTER_STATIC_UI_VALUE :: "nat \<Rightarrow> string \<Rightarrow> 'h globals_t act" where
  "REGISTER_STATIC_UI_VALUE index str = register_ui_callback index CB_copy_string (Ptr_static str)"

section \<open>Values\<close>

datatype data_value =
    V_string string
  | V_u64 u64
  | V_pair u64 u64
  | V_byte u8
  | V_bytes "u8 list"
  | V_buffer buffer_t
  | V_path bip32_path

text \<open>What a pointer leads to; None: not the live member of a union.\<close>

definition load_sign :: "('h apdu_sign_state_t \<Rightarrow> data_value option) \<Rightarrow> 'h globals_t \<Rightarrow> data_value option" where
  "load_sign f a = (case live_sign a of None \<Rightarrow> None | Some s \<Rightarrow> f s)"

fun load :: "data_ptr \<Rightarrow> 'h globals_t \<Rightarrow> data_value option" where
  "load (Ptr_static s) a = Some (V_string s)"
| "load Ptr_amount_snd a = load_sign (\<lambda>s. Some (V_u64 (amount_snd (parsed s)))) a"
| "load Ptr_total_fee a = load_sign (\<lambda>s. Some (V_u64 (total_fee (parsed s)))) a"
| "load Ptr_dao_amount a = load_sign (\<lambda>s. Some (V_u64 (dao_amount (parsed s)))) a"
| "load Ptr_amount a = load_sign (\<lambda>s. Some (V_pair (amount_fst (parsed s)) (amount_snd (parsed s)))) a"
| "load Ptr_input_count a = load_sign (\<lambda>s. Some (V_pair (input_count_fst (parsed s)) (input_count_snd (parsed s)))) a"
| "load Ptr_contract_type a = load_sign (\<lambda>s. Some (V_byte (contract_type (parsed s)))) a"
| "load Ptr_destination a = load_sign (\<lambda>s. case live_tx (sign_ctx s a) of None \<Rightarrow> None
     | Some t \<Rightarrow> Some (V_bytes (destination (outputs t ! 0)))) a"
| "load Ptr_current_lock_arg a = load_sign (\<lambda>s. Some (V_bytes (current_lock_arg s))) a"
| "load Ptr_dao_cell_owner a = load_sign (\<lambda>s. Some (V_bytes (dao_cell_owner s))) a"
| "load Ptr_pubkey a = map_option (\<lambda>p. V_path (pubkey_key p)) (live_pubkey a)"
| "load Ptr_render_address_lock_arg a = map_option (\<lambda>p. V_bytes (render_address_lock_arg p)) (live_pubkey a)"
| "load Ptr_msg_buffer a = map_option (\<lambda>m. V_buffer (map_option (\<lambda>n. take n (msg_display m)) (msg_buffer_size m))) (live_msg a)"
| "load Ptr_smh_buffer a = map_option (\<lambda>m. V_buffer (map_option (\<lambda>n. take n (hash_to_sign m)) (smh_buffer_size m))) (live_smh a)"

text \<open>\<open>copy_buffer\<close> of \<open>src/src/apdu_sign.c\<close>: it copies the 0 bytes of a cleared buffer.\<close>

definition copy_buffer :: "nat \<Rightarrow> nat \<Rightarrow> buffer_t \<Rightarrow> cbuf act" where
  "copy_buffer out out_size buffer b =
     (let src = case buffer of None \<Rightarrow> [] | Some bytes \<Rightarrow> bytes
      in if out_size < length src then Throw EXC_MEMORY_ERROR b
      else res_bind (cstore out (replicate out_size NUL) b) (\<lambda>_. cstore out (map (\<lambda>x. char_of (unat x)) src)))"

text \<open>The call through \<open>string_generation_callback\<close>, on the buffer \<open>active_value\<close>.\<close>

fun run_string_cb :: "address_type_t \<Rightarrow> string_generation_callback \<Rightarrow> data_value \<Rightarrow> nat \<Rightarrow> cbuf act" where
  "run_string_cb net CB_copy_string (V_string s) sz = copy_string 0 sz s"
| "run_string_cb net CB_frac_ckb (V_u64 n) sz = frac_ckb_to_string_indirect 0 sz n"
| "run_string_cb net CB_frac_ckb_tuple (V_pair x y) sz = frac_ckb_tuple_to_string_indirect 0 sz (x, y)"
| "run_string_cb net CB_uint64_tuple (V_pair x y) sz = uint64_tuple_to_string 0 sz (x, y)"
| "run_string_cb net CB_contract_type (V_byte c) sz = contract_type_to_string_indirect 0 sz c"
| "run_string_cb net CB_sighash_address (V_bytes l) sz = lock_arg_to_sighash_address net 0 sz l"
| "run_string_cb net CB_multisig_address (V_bytes l) sz = lock_arg_to_multisig_address net 0 sz l"
| "run_string_cb net CB_bip32_path (V_path p) sz = bip32_path_to_string 0 sz p"
| "run_string_cb net CB_buffer_to_hex (V_buffer l) sz = buffer_to_hex 0 sz l"
| "run_string_cb net CB_copy_buffer (V_buffer l) sz = copy_buffer 0 sz l"
| "run_string_cb net cb v sz = (\<lambda>b. Undef)"

definition on_value :: "(cbuf \<Rightarrow> ('a, cbuf) res) \<Rightarrow> 'h globals_t \<Rightarrow> ('a, 'h globals_t) res" where
  "on_value = zoom active_value (\<lambda>v a. a\<lparr>active_value := v\<rparr>)"

definition on_prompt :: "(cbuf \<Rightarrow> ('a, cbuf) res) \<Rightarrow> 'h globals_t \<Rightarrow> ('a, 'h globals_t) res" where
  "on_prompt = zoom active_prompt (\<lambda>v a. a\<lparr>active_prompt := v\<rparr>)"

section \<open>Screens\<close>

definition strncpy :: "string \<Rightarrow> nat \<Rightarrow> cbuf" where
  "strncpy s n = take n (s @ replicate n NUL)"

definition switch_screen :: "nat \<Rightarrow> 'h globals_t act" where
  "switch_screen which a =
     (if MAX_SCREEN_COUNT \<le> which then Throw EXC_MEMORY_ERROR a
      else if length (prompts a) \<le> which then Undef
      else let a1 = a\<lparr>active_prompt := strncpy (prompts a ! which) (PROMPT_WIDTH + 1)\<rparr>
           in case ui_callbacks a1 ! which of
                None \<Rightarrow> Throw EXC_MEMORY_ERROR a1
              | Some (cb, data) \<Rightarrow>
                  case load data a1 of None \<Rightarrow> Undef
                  | Some v \<Rightarrow> on_value (run_string_cb (address_type (N_data a1)) cb v (VALUE_WIDTH + 1)) a1)"

text \<open>
  \<open>multi_output_prompts_cb\<close> of \<open>src/src/apdu_sign.c\<close>. The size passed to the address renderer is
  that of the whole buffer, although it starts at \<open>value_fill\<close>.
\<close>

definition multi_output_value :: "address_type_t \<Rightarrow> output_t \<Rightarrow> cbuf act" where
  "multi_output_value net out b =
     res_bind (frac_ckb_to_string_indirect 0 (VALUE_WIDTH + 1) (out_capacity out) b)
       (\<lambda>_ b1. let value_fill = length (cstring_at 0 b1)
          in res_bind (strcpy value_fill '' CKB -> '' b1)
            (\<lambda>_. render_destination net (value_fill + 8) (VALUE_WIDTH + 1)
               (out_is_multisig out) (destination out)))"

definition multi_output_prompt :: "nat \<Rightarrow> u8 \<Rightarrow> cbuf act" where
  "multi_output_prompt which count b =
     res_bind (strcpy 0 ''Output '' b)
       (\<lambda>_ b1. res_bind (if which < 100 then number_to_string 7 (of_nat (which - 2)) b1 else Ok 0 b1)
         (\<lambda>n b2. if count < 100
            then res_bind (cstore (7 + n) ''/'' b2)
              (\<lambda>_ b3. res_bind (number_to_string (7 + n + 1) (ucast count) b3) (\<lambda>_. Ok ()))
            else Ok () b2))"

definition multi_output_prompts_cb :: "nat \<Rightarrow> 'h globals_t act" where
  "multi_output_prompts_cb which a =
     (case live_sign a of
        None \<Rightarrow> Undef
      | Some s \<Rightarrow>
          if which = 0 then
            res_bind (on_prompt (strcpy 0 ''Confirm'') a) (\<lambda>_. on_value (strcpy 0 ''Transaction''))
          else if which = 1 then
            res_bind (on_prompt (strcpy 0 ''Amount'') a)
              (\<lambda>_. on_value (frac_ckb_to_string_indirect 0 (VALUE_WIDTH + 1) (amount_snd (parsed s))))
          else if which = 2 then
            res_bind (on_prompt (strcpy 0 ''Fee'') a)
              (\<lambda>_. on_value (frac_ckb_to_string_indirect 0 (VALUE_WIDTH + 1) (total_fee (parsed s))))
          else case live_tx (sign_ctx s a) of
            None \<Rightarrow> Undef
          | Some t \<Rightarrow>
              if length (outputs t) \<le> which - 3 then Undef
              else res_bind (on_prompt (multi_output_prompt which (output_count t)) a)
                (\<lambda>_. on_value (multi_output_value (address_type (N_data a)) (outputs t ! (which - 3)))))"

definition run_switch_screen :: "nat \<Rightarrow> 'h globals_t act" where
  "run_switch_screen which a =
     (case switch_screen_fn a of
        None \<Rightarrow> Undef
      | Some Switch_static \<Rightarrow> switch_screen which a
      | Some Switch_multi_output \<Rightarrow> multi_output_prompts_cb which a)"

section \<open>Prompts\<close>

text \<open>The loop of \<open>ui_prompt_debug\<close> from screen \<open>i\<close> on, \<open>n\<close> screens to go; it always runs.\<close>

fun prompt_loop :: "nat \<Rightarrow> nat \<Rightarrow> 'h globals_t act" where
  "prompt_loop i 0 a = Ok () a"
| "prompt_loop i (Suc n) a = res_bind (run_switch_screen i a) (\<lambda>_. prompt_loop (Suc i) n)"

definition ui_prompt_debug :: "nat \<Rightarrow> 'h globals_t act" where
  "ui_prompt_debug screen_count = prompt_loop 0 screen_count"

text \<open>
  \<open>ux_flow_init\<close> on the prompt flow enters its first screen, which fills the buffers; without
  screens it is the one to reject.
\<close>

definition ux_flow_init_prompts :: "'h globals_t act" where
  "ux_flow_init_prompts a =
     (let a1 = a\<lparr>flow := Flow_prompts\<rparr>
      in if prompt_offset a1 < MAX_SCREEN_COUNT then run_switch_screen 0 a1 else Ok () a1)"

definition start_prompt :: "nat \<Rightarrow> ui_callback_t \<Rightarrow> ui_callback_t \<Rightarrow> 'h globals_t \<Rightarrow> ('a, 'h globals_t) res" where
  "start_prompt screen_count ok_c cxl_c a =
     res_bind (ui_prompt_debug screen_count a)
       (\<lambda>_ a1. res_bind (ux_flow_init_prompts (a1\<lparr>ok_callback := Some ok_c, cxl_callback := Some cxl_c\<rparr>))
          (\<lambda>_. Throw ASYNC_EXCEPTION))"

definition ui_prompt :: "string list \<Rightarrow> ui_callback_t \<Rightarrow> ui_callback_t \<Rightarrow> 'h globals_t \<Rightarrow> ('a, 'h globals_t) res" where
  "ui_prompt labels ok_c cxl_c a =
     (let screen_count = min MAX_SCREEN_COUNT (length labels)
      in start_prompt screen_count ok_c cxl_c
           (a\<lparr>prompts := labels, switch_screen_fn := Some Switch_static,
              prompt_offset := MAX_SCREEN_COUNT - screen_count\<rparr>))"

definition ui_prompt_with_cb ::
    "switch_screen_t \<Rightarrow> nat \<Rightarrow> ui_callback_t \<Rightarrow> ui_callback_t \<Rightarrow> 'h globals_t \<Rightarrow> ('a, 'h globals_t) res" where
  "ui_prompt_with_cb switch_screen_cb screen_count ok_c cxl_c a =
     (if MAX_SCREEN_COUNT < screen_count then Throw EXC_MEMORY_ERROR a
      else start_prompt screen_count ok_c cxl_c
           (a\<lparr>switch_screen_fn := Some switch_screen_cb,
              prompt_offset := MAX_SCREEN_COUNT - screen_count\<rparr>))"

end
