(* ===== verification/Apdu_Sign.thy ===== *)
theory Apdu_Sign
  imports Ui Sign_Callbacks
begin

text \<open>
  The transaction-signing command of \<open>src/src/apdu_sign.c\<close>: the packets (\<open>handle_apdu\<close>), the
  prompts of each operation (\<open>sign_complete\<close>), the signature (\<open>perform_signature\<close>) and the
  callbacks of the two buttons. A handler returns the number of response bytes.
\<close>

section \<open>Responses\<close>

definition OFFSET_CLA :: nat where "OFFSET_CLA = 0"
definition OFFSET_INS :: nat where "OFFSET_INS = 1"
definition OFFSET_P1 :: nat where "OFFSET_P1 = 2"
definition OFFSET_LC :: nat where "OFFSET_LC = 4"
definition OFFSET_CDATA :: nat where "OFFSET_CDATA = 5"
definition MAX_APDU_SIZE :: nat where "MAX_APDU_SIZE = 230"
definition MAX_SIGNATURE_SIZE :: nat where "MAX_SIGNATURE_SIZE = 100"

text \<open>A write into \<open>G_io_apdu_buffer\<close>.\<close>

definition io_store :: "nat \<Rightarrow> u8 list \<Rightarrow> 'h globals_t act" where
  "io_store i bs a =
     (if i + length bs \<le> length (G_io_apdu_buffer a)
      then Ok () (a\<lparr>G_io_apdu_buffer := mem_write (G_io_apdu_buffer a) i bs\<rparr>) else Undef)"

definition finalize_successful_send :: "nat \<Rightarrow> 'h globals_t \<Rightarrow> (nat, 'h globals_t) res" where
  "finalize_successful_send tx a = res_bind (io_store tx [0x90, 0x00] a) (\<lambda>_. Ok (tx + 2))"

definition delayed_send :: "nat \<Rightarrow> 'h globals_t act" where
  "delayed_send tx a = Ok () (a\<lparr>sent := sent a @ [take tx (G_io_apdu_buffer a)]\<rparr>)"

definition delay_reject_send :: "'h globals_t act" where
  "delay_reject_send a =
     res_bind (io_store 0 [ucast (drop_bit 8 EXC_REJECT), ucast (EXC_REJECT AND 0xFF)] a) (\<lambda>_. delayed_send 2)"

section \<open>Prompts\<close>

text \<open>
  The labels of an operation and what is registered for its screens, as \<open>sign_complete\<close> lists
  them. None: no case of the \<open>switch\<close>.
\<close>

definition INS_SIGN_WITH_HASH :: u8 where "INS_SIGN_WITH_HASH = 0x0F"

definition destination_cb :: "sign_tx \<Rightarrow> string_generation_callback" where
  "destination_cb t = (if out_is_multisig (outputs t ! 0) then CB_multisig_address else CB_sighash_address)"

type_synonym screen_spec = "string \<times> string_generation_callback \<times> data_ptr"

definition operation_screens :: "nvram_data \<Rightarrow> sign_tx \<Rightarrow> operation_tag \<Rightarrow> screen_spec list option" where
  "operation_screens nv t tg =
     (case tg of
        OPERATION_TAG_PLAIN_TRANSFER \<Rightarrow> Some
          ([(''Confirm'', CB_copy_string, Ptr_static ''Transaction''),
            (''Amount'', CB_frac_ckb, Ptr_amount_snd),
            (''Fee'', CB_frac_ckb, Ptr_total_fee),
            (''Destination'', destination_cb t, Ptr_destination)] @
           (if contract_data_type nv = ALLOW_CONTRACT_DATA
            then [(''Contract'', CB_contract_type, Ptr_contract_type)] else []))
      | OPERATION_TAG_SELF_TRANSFER \<Rightarrow> Some
          [(''Confirm'', CB_copy_string, Ptr_static ''Self-Transfer''),
           (''Amount'', CB_frac_ckb, Ptr_amount_snd),
           (''Fee'', CB_frac_ckb, Ptr_total_fee),
           (''Destination'', destination_cb t, Ptr_destination)]
      | OPERATION_TAG_MULTI_INPUT_TRANSFER \<Rightarrow> Some
          [(''Confirm'', CB_copy_string, Ptr_static ''Multi-Input Transaction''),
           (''Input'', CB_uint64_tuple, Ptr_input_count),
           (''Source'', CB_sighash_address, Ptr_current_lock_arg),
           (''Amount'', CB_frac_ckb_tuple, Ptr_amount),
           (''Fee'', CB_frac_ckb, Ptr_total_fee),
           (''Destination'', destination_cb t, Ptr_destination)]
      | OPERATION_TAG_DAO_DEPOSIT \<Rightarrow> Some
          [(''Confirm DAO'', CB_copy_string, Ptr_static ''Deposit''),
           (''Deposit Amount'', CB_frac_ckb, Ptr_dao_amount),
           (''Fee'', CB_frac_ckb, Ptr_total_fee),
           (''Cell Owner'', CB_sighash_address, Ptr_dao_cell_owner)]
      | OPERATION_TAG_DAO_PREPARE \<Rightarrow> Some
          [(''Confirm DAO'', CB_copy_string, Ptr_static ''Prepare''),
           (''Deposit Amount'', CB_frac_ckb, Ptr_dao_amount),
           (''Fee'', CB_frac_ckb, Ptr_total_fee),
           (''Cell Owner'', CB_sighash_address, Ptr_dao_cell_owner)]
      | OPERATION_TAG_DAO_WITHDRAW \<Rightarrow> Some
          [(''Confirm DAO'', CB_copy_string, Ptr_static ''Withdrawal''),
           (''Deposit Amount'', CB_frac_ckb, Ptr_dao_amount),
           (''Compensation'', CB_frac_ckb, Ptr_total_fee),
           (''Cell Owner'', CB_sighash_address, Ptr_dao_cell_owner)]
      | _ \<Rightarrow> None)"

text \<open>The sequence of \<open>register_ui_callback\<close> calls, from index \<open>i\<close> on.\<close>

fun register_screens :: "nat \<Rightarrow> (string_generation_callback \<times> data_ptr) list \<Rightarrow> 'h globals_t act" where
  "register_screens i [] a = Ok () a"
| "register_screens i ((cb, data) # rs) a =
     res_bind (register_ui_callback i cb data a) (\<lambda>_. register_screens (Suc i) rs)"

definition prompt_screens ::
    "screen_spec list \<Rightarrow> ui_callback_t \<Rightarrow> ui_callback_t \<Rightarrow> 'h globals_t \<Rightarrow> ('a, 'h globals_t) res" where
  "prompt_screens screens ok_c cxl_c a =
     res_bind (register_screens 0 (map snd screens) a) (\<lambda>_. ui_prompt (map fst screens) ok_c cxl_c)"

definition sign_complete :: "u8 \<Rightarrow> 'h globals_t \<Rightarrow> (nat, 'h globals_t) res" where
  "sign_complete instruction a =
     (case live_sign a of
        None \<Rightarrow> Undef
      | Some s \<Rightarrow>
          case live_tx (sign_ctx s a) of
            None \<Rightarrow> Undef
          | Some t \<Rightarrow>
              let ok_c = if instruction = INS_SIGN_WITH_HASH then sign_with_hash_ok else sign_without_hash_ok
              in if tag (parsed s) = OPERATION_TAG_MULTI_OUTPUT_TRANSFER
                 then ui_prompt_with_cb Switch_multi_output (3 + unat (output_count t)) ok_c sign_reject a
                 else case operation_screens (N_data a) t (tag (parsed s)) of
                        Some screens \<Rightarrow> prompt_screens screens ok_c sign_reject a
                      | None \<Rightarrow> Throw EXC_REJECT a)"

section \<open>Packets\<close>

definition P1_FIRST :: u8 where "P1_FIRST = 0x00"
definition P1_NEXT :: u8 where "P1_NEXT = 0x01"
definition P1_NO_FALLBACK :: u8 where "P1_NO_FALLBACK = 0x40"
definition P1_LAST_MARKER :: u8 where "P1_LAST_MARKER = 0x80"
definition P1_MASK :: u8 where "P1_MASK = NOT (P1_LAST_MARKER OR P1_NO_FALLBACK)"

text \<open>The reader on one packet: the verdict, with the new parser state stored.\<close>

definition parse_packet :: "'h sdk \<Rightarrow> u8 list \<Rightarrow> 'h ctx \<Rightarrow> (mol_rv, 'h ctx) res" where
  "parse_packet sdk chunk g =
     res_bind (MolReader_AnnotatedTransaction_parse (Some (annotatedTransaction_callbacks sdk)) MOL_NUM_MAX
         (transaction_stack g) chunk g)
       (\<lambda>(rv, st, _) g1. Ok rv (g1\<lparr>transaction_stack := st\<rparr>))"

definition init_parser :: "'h sdk \<Rightarrow> 'h ctx act" where
  "init_parser sdk g =
     res_bind (MolReader_AnnotatedTransaction_init_state (Some (annotatedTransaction_callbacks sdk)) g)
       (\<lambda>st g1. Ok () (g1\<lparr>transaction_stack := st\<rparr>))"

text \<open>The case \<open>P1_NEXT\<close>, into which \<open>P1_FIRST\<close> falls.\<close>

definition next_packet :: "'h sdk \<Rightarrow> bool \<Rightarrow> bool \<Rightarrow> u8 list \<Rightarrow> 'h ctx act" where
  "next_packet sdk is_last secure_only chunk g =
     (if hard_reject g then Throw EXC_PARSE_ERROR g
      else res_bind (parse_packet sdk chunk g)
        (\<lambda>rv g1.
           if is_last then
             if rv \<noteq> COMPLETE \<or> hard_reject g1 then Throw EXC_PARSE_ERROR (g1\<lparr>hard_reject := True\<rparr>)
             else if unsafe g1 \<and> secure_only then Throw EXC_SECURITY g1
             else let g2 = if unsafe g1 then set_tag OPERATION_TAG_NONE g1 else g1
                  in Ok () (g2\<lparr>is_valid := True\<rparr>)
           else if rv \<noteq> INCOMPLETE then Throw EXC_PARSE_ERROR (g1\<lparr>hard_reject := True\<rparr>)
           else Ok () g1))"

text \<open>\<open>clear_data\<close> on the globals: \<open>sign\<close> is the largest member, the whole union is zeroed.\<close>

definition clear_sign_data :: "'h globals_t act" where
  "clear_sign_data a = Ok () (a\<lparr>apdu_u := Apdu_cleared\<rparr>)"

definition handle_apdu :: "'h sdk \<Rightarrow> u8 \<Rightarrow> 'h globals_t \<Rightarrow> (nat, 'h globals_t) res" where
  "handle_apdu sdk instruction a =
     (let p1 = G_io_apdu_buffer a ! OFFSET_P1;
          buff_size = unat (G_io_apdu_buffer a ! OFFSET_LC);
          chunk = take buff_size (drop OFFSET_CDATA (G_io_apdu_buffer a));
          is_last = (p1 AND P1_LAST_MARKER \<noteq> 0);
          secure_only = (p1 AND P1_NO_FALLBACK \<noteq> 0);
          step = on_sign (next_packet sdk is_last secure_only chunk)
      in if MAX_APDU_SIZE < buff_size then Throw EXC_WRONG_LENGTH_FOR_INS a
         else res_bind
           (if p1 AND P1_MASK = P1_FIRST
            then res_bind (clear_sign_data a) (\<lambda>_ a1. res_bind (on_sign (init_parser sdk) a1) (\<lambda>_. step))
            else if p1 AND P1_MASK = P1_NEXT then step a
            else Ok () a)
           (\<lambda>_ a1. if \<not> is_last then finalize_successful_send 0 a1
              else case live_sign a1 of
                     None \<Rightarrow> Undef
                   | Some s \<Rightarrow> if is_valid s then sign_complete instruction a1
                               else finalize_successful_send 0 a1))"

definition handle_apdu_sign :: "'h sdk \<Rightarrow> u8 \<Rightarrow> 'h globals_t \<Rightarrow> (nat, 'h globals_t) res" where
  "handle_apdu_sign sdk instruction = handle_apdu sdk instruction"

section \<open>The signature\<close>

text \<open>
  \<open>WITH_KEY_PAIR(key, ..., sign(&G_io_apdu_buffer[tx], ...))\<close>: the 65 bytes are written behind
  the first \<open>tx\<close>, and their number is returned. The keys are wiped. (On an exception the code
  leaves zeros in the buffer, which no one reads.)
\<close>

definition sign_into_buffer :: "'h sdk \<Rightarrow> bip32_path \<Rightarrow> u8 list \<Rightarrow> nat \<Rightarrow> 'h globals_t \<Rightarrow> (nat, 'h globals_t) res" where
  "sign_into_buffer sdk key data tx a =
     res_bind (zoom apdu_priv (\<lambda>k a. a\<lparr>apdu_priv := k\<rparr>)
         (WITH_KEY_PAIR sdk key (\<lambda>_ priv. sign sdk MAX_SIGNATURE_SIZE priv data)) a)
       (\<lambda>sig a1. case sig of
          None \<Rightarrow> Undef
        | Some bs \<Rightarrow> res_bind (io_store tx bs a1) (\<lambda>_. Ok 65))"

definition perform_signature :: "'h sdk \<Rightarrow> bool \<Rightarrow> bool \<Rightarrow> 'h globals_t \<Rightarrow> (nat, 'h globals_t) res" where
  "perform_signature sdk on_hash send_hash a =
     (case live_sign a of
        None \<Rightarrow> Undef
      | Some s \<Rightarrow>
          case live_tx (sign_ctx s a) of
            None \<Rightarrow> Undef
          | Some t \<Rightarrow>
              if on_hash \<and> hash_only t then
                res_bind (io_store 0 (final_hash t) a)
                  (\<lambda>_ a1. res_bind (clear_sign_data a1)
                    (\<lambda>_. finalize_successful_send (length (final_hash t))))
              else
                res_bind (if send_hash \<and> on_hash
                          then res_bind (io_store 0 (final_hash t) a) (\<lambda>_. Ok (length (final_hash t)))
                          else Ok 0 a)
                  (\<lambda>tx a1.
                     let key = \<lparr>path_length = key_length s,
                           path_components = [0x8000002C, 0x80000135] @ key_path_components s\<rparr>
                     in res_bind (sign_into_buffer sdk key (final_hash t) tx a1)
                       (\<lambda>n a2. res_bind (clear_sign_data a2)
                         (\<lambda>_. finalize_successful_send (tx + n)))))"

end
