(* ===== verification/Sign_Message.thy ===== *)
theory Sign_Message
  imports Apdu_Sign
begin

text \<open>
  The commands of \<open>src/src/apdu_sign.c\<close> that sign a message or the hash of one: the packets,
  the text shown, and the signatures.
\<close>

section \<open>The text of a message\<close>

text \<open>\<open>nervos_magic\<close>, without its terminating null.\<close>

definition nervos_magic :: "u8 list" where
  "nervos_magic = map of_char ''Nervos Message:''"

definition check_magic_bytes :: "u8 list \<Rightarrow> bool" where
  "check_magic_bytes message \<longleftrightarrow>
     \<not> (length message = 0 \<or> length message < length nervos_magic) \<and>
     take (length nervos_magic) message = nervos_magic"

text \<open>A buffer in place and its size, an \<open>uint8_t\<close> that wraps.\<close>

type_synonym sized_buffer = "u8 list \<times> u8"

text \<open>None: \<open>THROW(EXC_PARSE_ERROR)\<close>.\<close>

definition slice_magic_bytes :: "sized_buffer \<Rightarrow> sized_buffer option" where
  "slice_magic_bytes = (\<lambda>(buff, buff_size).
     let n = length nervos_magic
     in if take n buff = nervos_magic
        then Some (mem_write buff 0 (take (unat buff_size - n) (drop n buff)), buff_size - of_nat n)
        else None)"

definition cant_display :: "u8 \<Rightarrow> bool" where
  "cant_display c \<longleftrightarrow> 126 < c \<or> c < 32"

text \<open>The continuation bytes that go with a leading byte.\<close>

definition continuation_bytes :: "u8 \<Rightarrow> nat" where
  "continuation_bytes c =
     (if c AND 240 = 240 then 3 else if c AND 224 = 224 then 2 else if c AND 192 = 192 then 1 else 0)"

function undisplayable_loop :: "u8 list \<Rightarrow> nat \<Rightarrow> nat \<Rightarrow> sized_buffer \<Rightarrow> sized_buffer" where
  "undisplayable_loop tmp_buff i j (buff, buff_size) =
     (if length tmp_buff \<le> i then (buff, buff_size)
      else if cant_display (tmp_buff ! i) then
        let n = continuation_bytes (tmp_buff ! i)
        in undisplayable_loop tmp_buff (i + n + 1) (j + 1) (buff[j := 42], buff_size - of_nat n)
      else undisplayable_loop tmp_buff (i + 1) (j + 1) (buff[j := tmp_buff ! i], buff_size))"
  by pat_completeness auto
termination
  by (relation "measure (\<lambda>(tmp_buff, i, _). length tmp_buff - i)") auto

declare undisplayable_loop.simps [simp del]

definition replace_undisplayable :: "sized_buffer \<Rightarrow> sized_buffer" where
  "replace_undisplayable = (\<lambda>(buff, buff_size).
     let n = unat buff_size
     in undisplayable_loop (take n buff) 0 0 (mem_write buff 0 (zeros n), buff_size))"

text \<open>None: the dots are written outside of the buffer.\<close>

definition handle_long_message :: "sized_buffer \<Rightarrow> sized_buffer option" where
  "handle_long_message = (\<lambda>(buff, buff_size).
     if 64 < buff_size
     then if length buff < 64 then None else Some (buff[61 := 46, 62 := 46, 63 := 46], 64)
     else Some (buff, buff_size))"

section \<open>Signing a message\<close>

definition put_msg :: "'h apdu_sign_message_state_t \<Rightarrow> 'h globals_t \<Rightarrow> 'h globals_t" where
  "put_msg m a = a\<lparr>apdu_u := Apdu_sign_msg m\<rparr>"

definition clear_message_data :: "'h globals_t \<Rightarrow> 'h globals_t" where
  "clear_message_data = put_msg zero_sign_msg"

text \<open>\<open>READ_UNALIGNED_BIG_ENDIAN(bool, in)\<close>: a byte other than 0 and 1 is no value of \<open>bool\<close>.\<close>

definition read_bool :: "u8 \<Rightarrow> bool option" where
  "read_bool b = (if b = 0 then Some False else if b = 1 then Some True else None)"

text \<open>The setup packet: the display flag and the path.\<close>

definition message_first :: "u8 list \<Rightarrow> 'h globals_t \<Rightarrow> (nat, 'h globals_t) res" where
  "message_first buff a =
     (let a1 = clear_message_data a
      in if length buff \<le> 1 then Throw EXC_REJECT a1
         else case read_bool (hd buff) of
           None \<Rightarrow> Undef
         | Some hex \<Rightarrow>
             let m = zero_sign_msg\<lparr>display_as_hex := hex\<rparr>
             in case read_bip32_path (tl buff) (msg_key m) of
                  Ok _ k \<Rightarrow> finalize_successful_send 0 (put_msg (m\<lparr>msg_key := k\<rparr>) a1)
                | Throw e k \<Rightarrow> Throw e (put_msg (m\<lparr>msg_key := k\<rparr>) a1)
                | Undef \<Rightarrow> Undef)"

text \<open>The first packet of the message itself: what will be shown.\<close>

definition message_display :: "bool \<Rightarrow> u8 list \<Rightarrow> sized_buffer option" where
  "message_display hex buff =
     (case slice_magic_bytes (buff, of_nat (length buff)) of
        None \<Rightarrow> None
      | Some sliced \<Rightarrow> handle_long_message (if hex then sliced else replace_undisplayable sliced))"

definition store_display ::
    "u8 list \<Rightarrow> 'h apdu_sign_message_state_t \<Rightarrow> 'h globals_t \<Rightarrow> ('h apdu_sign_message_state_t, 'h globals_t) res" where
  "store_display buff m a =
     (if packet_index m \<noteq> 1 then Ok m a
      else if \<not> check_magic_bytes buff then Throw EXC_PARSE_ERROR a
      else case message_display (display_as_hex m) buff of
        None \<Rightarrow> Undef
      | Some (txt, sz) \<Rightarrow>
          if length txt < unat sz \<or> 64 < unat sz then Undef
          else Ok (m\<lparr>msg_display := mem_write (msg_display m) 0 (take (unat sz) txt),
                 msg_buffer_size := Some (unat sz)\<rparr>) a)"

definition message_prompt :: "bool \<Rightarrow> 'h globals_t \<Rightarrow> (nat, 'h globals_t) res" where
  "message_prompt hex =
     prompt_screens [(''Sign'', CB_copy_string, Ptr_static ''Message''),
       (''Message: '', if hex then CB_buffer_to_hex else CB_copy_buffer, Ptr_msg_buffer)]
       sign_message_ok sign_reject"

definition message_next :: "'h sdk \<Rightarrow> bool \<Rightarrow> u8 list \<Rightarrow> 'h globals_t \<Rightarrow> (nat, 'h globals_t) res" where
  "message_next sdk is_last buff a =
     (case live_msg a of
        None \<Rightarrow> Undef
      | Some m0 \<Rightarrow>
          if 0xFF \<le> packet_index m0 then Throw EXC_PARSE_ERROR a
          else let m1 = m0\<lparr>packet_index := packet_index m0 + 1\<rparr>
          in res_bind (store_display buff m1 (put_msg m1 a))
            (\<lambda>m2 a1. let m3 = m2\<lparr>msg_hash_state := blake2b_incremental_hash sdk buff (msg_hash_state m2)\<rparr>
               in if is_last then
                    let (digest, h) = blake2b_finish_hash sdk (msg_hash_state m3);
                        m4 = m3\<lparr>msg_final_hash := digest, msg_hash_state := h\<rparr>
                    in message_prompt (display_as_hex m4) (put_msg m4 a1)
                  else finalize_successful_send 0 (put_msg m3 a1)))"

definition handle_apdu_sign_message_impl :: "'h sdk \<Rightarrow> 'h globals_t \<Rightarrow> (nat, 'h globals_t) res" where
  "handle_apdu_sign_message_impl sdk a =
     (let p1 = G_io_apdu_buffer a ! OFFSET_P1;
          buff_size = unat (G_io_apdu_buffer a ! OFFSET_LC);
          buff = take buff_size (drop OFFSET_CDATA (G_io_apdu_buffer a));
          p = p1 AND NOT P1_LAST_MARKER
      in if MAX_APDU_SIZE < buff_size then Throw EXC_WRONG_LENGTH_FOR_INS a
         else if p = P1_FIRST then message_first buff a
         else if p = P1_NEXT then message_next sdk (p1 AND P1_LAST_MARKER \<noteq> 0) buff a
         else Throw EXC_WRONG_PARAM a)"

definition perform_message_signature :: "'h sdk \<Rightarrow> 'h globals_t \<Rightarrow> (nat, 'h globals_t) res" where
  "perform_message_signature sdk a =
     (case live_msg a of
        None \<Rightarrow> Undef
      | Some m \<Rightarrow> res_bind (sign_into_buffer sdk (msg_key m) (msg_final_hash m) 0 a)
          (\<lambda>n a1. finalize_successful_send n (clear_message_data a1)))"

section \<open>Signing a hash\<close>

definition put_smh :: "apdu_sign_message_hash_state_t \<Rightarrow> 'h globals_t \<Rightarrow> 'h globals_t" where
  "put_smh m a = a\<lparr>apdu_u := Apdu_sign_msg_hash m\<rparr>"

definition clear_message_hash_data :: "'h globals_t \<Rightarrow> 'h globals_t" where
  "clear_message_hash_data = put_smh zero_sign_msg_hash"

definition hash_prompt :: "'h globals_t \<Rightarrow> (nat, 'h globals_t) res" where
  "hash_prompt =
     prompt_screens [(''Sign'', CB_copy_string, Ptr_static ''Message Hash''),
       (''Message Hash: '', CB_buffer_to_hex, Ptr_smh_buffer)] sign_message_hash_ok sign_reject"

definition handle_apdu_sign_message_hash_impl :: "'h globals_t \<Rightarrow> (nat, 'h globals_t) res" where
  "handle_apdu_sign_message_hash_impl a =
     (let p1 = G_io_apdu_buffer a ! OFFSET_P1;
          buff_size = unat (G_io_apdu_buffer a ! OFFSET_LC);
          buff = take buff_size (drop OFFSET_CDATA (G_io_apdu_buffer a))
      in if MAX_APDU_SIZE < buff_size then Throw EXC_WRONG_LENGTH_FOR_INS a
         else if p1 = P1_FIRST then
           let m = zero_sign_msg_hash; a1 = clear_message_hash_data a
           in case read_bip32_path buff (smh_key m) of
                Ok _ k \<Rightarrow> finalize_successful_send 0 (put_smh (m\<lparr>smh_key := k\<rparr>) a1)
              | Throw e k \<Rightarrow> Throw e (put_smh (m\<lparr>smh_key := k\<rparr>) a1)
              | Undef \<Rightarrow> Undef
         else if p1 = P1_LAST_MARKER then
           if 32 < buff_size then Throw EXC_PARSE_ERROR a
           else case live_smh a of
                  None \<Rightarrow> Undef
                | Some m \<Rightarrow> hash_prompt (put_smh (m\<lparr>hash_to_sign := mem_write (hash_to_sign m) 0 buff,
                    hash_to_sign_size := of_nat buff_size, smh_buffer_size := Some buff_size\<rparr>) a)
         else Throw EXC_WRONG_PARAM a)"

definition handle_apdu_sign_message_hash :: "'h globals_t \<Rightarrow> (nat, 'h globals_t) res" where
  "handle_apdu_sign_message_hash a =
     (if sign_hash_type (N_data a) = SIGN_HASH_ON then handle_apdu_sign_message_hash_impl a
      else Throw EXC_REJECT a)"

definition perform_message_hash_signature :: "'h sdk \<Rightarrow> 'h globals_t \<Rightarrow> (nat, 'h globals_t) res" where
  "perform_message_hash_signature sdk a =
     (case live_smh a of
        None \<Rightarrow> Undef
      | Some m \<Rightarrow> res_bind (sign_into_buffer sdk (smh_key m) (take (unat (hash_to_sign_size m)) (hash_to_sign m)) 0 a)
          (\<lambda>n a1. finalize_successful_send n (clear_message_hash_data a1)))"

end
