(* ===== verification/Apdu_Pubkey.thy ===== *)
theory Apdu_Pubkey
  imports Apdu_Sign
begin

text \<open>
  \<open>src/src/apdu_pubkey.c\<close>, \<open>src/src/apdu_account.c\<close> and the small commands of \<open>src/src/apdu.c\<close>:
  public keys, account import, version, commit and wallet identifier.
\<close>

section \<open>Providing keys\<close>

definition provide_pubkey :: "u8 list \<Rightarrow> 'h globals_t \<Rightarrow> (nat, 'h globals_t) res" where
  "provide_pubkey W a =
     res_bind (io_store 0 [of_nat (length W)] a)
       (\<lambda>_ a1. res_bind (io_store 1 W a1) (\<lambda>_. finalize_successful_send (1 + length W)))"

definition CHAIN_CODE_DATA_SIZE :: nat where "CHAIN_CODE_DATA_SIZE = 32"

definition provide_ext_pubkey :: "u8 list \<Rightarrow> u8 list \<Rightarrow> 'h globals_t \<Rightarrow> (nat, 'h globals_t) res" where
  "provide_ext_pubkey W chain_code a =
     (let keySize = length W
      in res_bind (io_store 0 [of_nat keySize] a)
        (\<lambda>_ a1. res_bind (io_store 1 W a1)
          (\<lambda>_ a2. res_bind (io_store (1 + keySize) [of_nat CHAIN_CODE_DATA_SIZE] a2)
            (\<lambda>_ a3. res_bind (io_store (2 + keySize) (take CHAIN_CODE_DATA_SIZE chain_code) a3)
              (\<lambda>_. finalize_successful_send (2 + keySize + CHAIN_CODE_DATA_SIZE))))))"

section \<open>Requests\<close>

definition INS_PROMPT_EXT_PUBLIC_KEY :: u8 where "INS_PROMPT_EXT_PUBLIC_KEY = 0x04"

definition put_pubkey :: "apdu_pubkey_state_t \<Rightarrow> 'h globals_t \<Rightarrow> 'h globals_t" where
  "put_pubkey p a = a\<lparr>apdu_u := Apdu_pubkey p\<rparr>"

text \<open>
  The member as it is before its key is assigned. When another member was live, its bytes are
  overwritten field by field, and none is read before it has been written.
\<close>

definition start_pubkey :: "'h globals_t \<Rightarrow> apdu_pubkey_state_t" where
  "start_pubkey a = (case live_pubkey a of None \<Rightarrow> zero_pubkey | Some p \<Rightarrow> p)"

text \<open>\<open>generate_extended_public_key(&G.ext_public_key, &G.key)\<close>.\<close>

definition derive_pubkey :: "'h sdk \<Rightarrow> apdu_pubkey_state_t \<Rightarrow> 'h globals_t \<Rightarrow> (apdu_pubkey_state_t, 'h globals_t) res" where
  "derive_pubkey sdk p a =
     res_bind (zoom apdu_priv (\<lambda>k a. a\<lparr>apdu_priv := k\<rparr>) (generate_extended_public_key sdk (pubkey_key p)) (put_pubkey p a))
       (\<lambda>(W, chain_code) a1.
          let p1 = p\<lparr>ext_public_key_W := W, ext_public_key_chain_code := chain_code\<rparr>
          in Ok p1 (put_pubkey p1 a1))"

definition prompt_path :: "ui_callback_t \<Rightarrow> ui_callback_t \<Rightarrow> 'h globals_t \<Rightarrow> (nat, 'h globals_t) res" where
  "prompt_path =
     prompt_screens [(''Provide'', CB_copy_string, Ptr_static ''Public Key''),
       (''Address'', CB_sighash_address, Ptr_render_address_lock_arg)]"

definition prompt_ext_path :: "ui_callback_t \<Rightarrow> ui_callback_t \<Rightarrow> 'h globals_t \<Rightarrow> (nat, 'h globals_t) res" where
  "prompt_ext_path =
     prompt_screens [(''Provide'', CB_copy_string, Ptr_static ''Extended Public Key''),
       (''Derivation Path'', CB_bip32_path, Ptr_pubkey),
       (''Address'', CB_sighash_address, Ptr_render_address_lock_arg)]"

definition handle_apdu_get_public_key :: "'h sdk \<Rightarrow> u8 \<Rightarrow> 'h globals_t \<Rightarrow> (nat, 'h globals_t) res" where
  "handle_apdu_get_public_key sdk instruction a =
     (let cdata_size = unat (G_io_apdu_buffer a ! OFFSET_LC);
          dataBuffer = take cdata_size (drop OFFSET_CDATA (G_io_apdu_buffer a));
          p = start_pubkey a
      in if G_io_apdu_buffer a ! OFFSET_P1 \<noteq> 0 then Throw EXC_WRONG_PARAM a
         else case read_bip32_path dataBuffer (pubkey_key p) of
           Undef \<Rightarrow> Undef
         | Throw e k \<Rightarrow> Throw e (put_pubkey (p\<lparr>pubkey_key := k\<rparr>) a)
         | Ok _ k \<Rightarrow>
             res_bind (derive_pubkey sdk (p\<lparr>pubkey_key := k\<rparr>) a)
               (\<lambda>p1 a1. let p2 = p1\<lparr>render_address_lock_arg := generate_lock_arg_for_pubkey sdk (ext_public_key_W p1)\<rparr>;
                            a2 = put_pubkey p2 a1
                  in if instruction = INS_PROMPT_EXT_PUBLIC_KEY
                     then prompt_ext_path ext_pubkey_ok delay_reject a2
                     else prompt_path pubkey_ok delay_reject a2))"

definition prompt_account_import :: "ui_callback_t \<Rightarrow> ui_callback_t \<Rightarrow> 'h globals_t \<Rightarrow> (nat, 'h globals_t) res" where
  "prompt_account_import = prompt_screens [(''Import'', CB_copy_string, Ptr_static ''Account'')]"

definition handle_apdu_account_import :: "'h sdk \<Rightarrow> 'h globals_t \<Rightarrow> (nat, 'h globals_t) res" where
  "handle_apdu_account_import sdk a =
     (let cdata_size = unat (G_io_apdu_buffer a ! OFFSET_LC);
          account_index_raw = be_word (take 4 (drop OFFSET_CDATA (G_io_apdu_buffer a))) :: u32
      in if G_io_apdu_buffer a ! OFFSET_P1 \<noteq> 0 then Throw EXC_WRONG_PARAM a
         else if cdata_size \<noteq> 4 then Throw EXC_WRONG_PARAM a
         else if 0x80000000 \<le> account_index_raw then Throw EXC_WRONG_PARAM a
         else let root_path = \<lparr>path_length = 3,
                    path_components = [0x8000002C, 0x80000135, 0x80000000 + account_index_raw, 0, 0]\<rparr>
              in res_bind (derive_pubkey sdk ((start_pubkey a)\<lparr>pubkey_key := root_path\<rparr>) a)
                (\<lambda>_. prompt_account_import account_import_ok delay_reject))"

section \<open>Version, commit and wallet identifier\<close>

text \<open>The version numbers of the Makefile.\<close>

definition version_bytes :: "u8 list" where
  "version_bytes = [0, 5, 5]"

definition handle_apdu_version :: "'h globals_t \<Rightarrow> (nat, 'h globals_t) res" where
  "handle_apdu_version a = res_bind (io_store 0 version_bytes a) (\<lambda>_. finalize_successful_send 3)"

text \<open>\<open>COMMIT\<close> is fixed when the application is built: the parameter \<open>commit\<close>.\<close>

definition handle_apdu_git :: "u8 list \<Rightarrow> 'h globals_t \<Rightarrow> (nat, 'h globals_t) res" where
  "handle_apdu_git commit a =
     res_bind (io_store 0 (commit @ [0]) a) (\<lambda>_. finalize_successful_send (length commit + 1))"

definition handle_apdu_error :: "'h globals_t \<Rightarrow> (nat, 'h globals_t) res" where
  "handle_apdu_error a = Throw EXC_INVALID_INS a"

definition handle_apdu_get_wallet_id :: "'h sdk \<Rightarrow> 'h globals_t \<Rightarrow> (nat, 'h globals_t) res" where
  "handle_apdu_get_wallet_id sdk a =
     (let id_path = \<lparr>path_length = 2, path_components = [0x8000002C, 0x80000135, 0, 0, 0]\<rparr>;
          hashState = sdk_blake2b_init sdk 512
      in res_bind (zoom apdu_priv (\<lambda>k a. a\<lparr>apdu_priv := k\<rparr>)
            (WITH_KEY_PAIR sdk id_path (\<lambda>W _. Inr (fst (sdk_hash_last sdk hashState W)))) a)
         (\<lambda>digest a1. res_bind (io_store 0 digest a1) (\<lambda>_. finalize_successful_send (length digest))))"

end
