(* ===== verification/Apdu.thy ===== *)
theory Apdu
  imports Sign_Message Apdu_Pubkey
begin

text \<open>
  The application as a reactive system: \<open>main_loop\<close> of \<open>src/src/apdu.c\<close>, the handler table of
  \<open>src/src/main.c\<close>, and the menu and the buttons of \<open>src/src/ui.c\<close>. An event is an APDU from
  the host or an action of the user; \<open>app_step\<close> is what happens until the next wait in
  \<open>io_exchange\<close>.
\<close>

section \<open>Buttons\<close>

text \<open>The callbacks of the two buttons; their return value is ignored.\<close>

definition run_ui_callback :: "'h sdk \<Rightarrow> ui_callback_t \<Rightarrow> 'h globals_t act" where
  "run_ui_callback sdk cb a =
     (case cb of
        sign_without_hash_ok \<Rightarrow> res_bind (perform_signature sdk True False a) delayed_send
      | sign_with_hash_ok \<Rightarrow> res_bind (perform_signature sdk True True a) delayed_send
      | sign_reject \<Rightarrow> res_bind (clear_sign_data a) (\<lambda>_. delay_reject_send)
      | sign_message_ok \<Rightarrow> res_bind (perform_message_signature sdk a) delayed_send
      | sign_message_hash_ok \<Rightarrow> res_bind (perform_message_hash_signature sdk a) delayed_send
      | pubkey_ok \<Rightarrow> (case live_pubkey a of None \<Rightarrow> Undef
          | Some p \<Rightarrow> res_bind (provide_pubkey (ext_public_key_W p) a) delayed_send)
      | ext_pubkey_ok \<Rightarrow> (case live_pubkey a of None \<Rightarrow> Undef
          | Some p \<Rightarrow> res_bind (provide_ext_pubkey (ext_public_key_W p) (ext_public_key_chain_code p) a) delayed_send)
      | account_import_ok \<Rightarrow> (case live_pubkey a of None \<Rightarrow> Undef
          | Some p \<Rightarrow> res_bind (provide_ext_pubkey (ext_public_key_W p) (ext_public_key_chain_code p) a) delayed_send)
      | delay_reject \<Rightarrow> delay_reject_send a)"

definition prompt_response :: "'h sdk \<Rightarrow> bool \<Rightarrow> 'h globals_t act" where
  "prompt_response sdk accepted a =
     (let a1 = a\<lparr>flow := Flow_idle\<rparr>
      in case (if accepted then ok_callback a1 else cxl_callback a1) of
           None \<Rightarrow> Undef
         | Some cb \<Rightarrow> run_ui_callback sdk cb a1)"

section \<open>Commands\<close>

definition INS_MAX :: nat where "INS_MAX = 9"

text \<open>
  The table filled by \<open>app_main\<close>. The guard of \<open>main_loop\<close> compares the instruction with the
  size of the table in bytes, ten pointers of four: instructions 10 to 39 are looked up behind
  the table, which is undefined.
\<close>

definition handlers_size :: nat where "handlers_size = 4 * (INS_MAX + 1)"

definition run_handler :: "'h sdk \<Rightarrow> u8 list \<Rightarrow> u8 \<Rightarrow> 'h globals_t \<Rightarrow> (nat, 'h globals_t) res" where
  "run_handler sdk commit instruction a =
     (if handlers_size \<le> unat instruction then handle_apdu_error a
      else if INS_MAX < unat instruction then Undef
      else if instruction = 0 then handle_apdu_version a
      else if instruction = 1 then handle_apdu_get_wallet_id sdk a
      else if instruction = 2 then handle_apdu_get_public_key sdk instruction a
      else if instruction = 3 then handle_apdu_sign sdk instruction a
      else if instruction = 4 then handle_apdu_get_public_key sdk instruction a
      else if instruction = 5 then handle_apdu_account_import sdk a
      else if instruction = 6 then handle_apdu_sign_message_impl sdk a
      else if instruction = 7 then handle_apdu_sign_message_hash a
      else if instruction = 9 then handle_apdu_git commit a
      else handle_apdu_error a)"

definition CLA :: u8 where "CLA = 0x80"

definition process_apdu :: "'h sdk \<Rightarrow> u8 list \<Rightarrow> nat \<Rightarrow> 'h globals_t \<Rightarrow> (nat, 'h globals_t) res" where
  "process_apdu sdk commit rx a =
     (if rx = 0 then Throw EXC_SECURITY a
      else if G_io_apdu_buffer a ! OFFSET_CLA \<noteq> CLA then Throw EXC_CLASS a
      else if rx \<noteq> unat (G_io_apdu_buffer a ! OFFSET_LC) + OFFSET_CDATA then Throw EXC_WRONG_LENGTH a
      else run_handler sdk commit (G_io_apdu_buffer a ! OFFSET_INS) a)"

section \<open>Exceptions\<close>

text \<open>\<open>EXCEPTION_IO_RESET\<close> of the SDK.\<close>

definition EXCEPTION_IO_RESET :: u16 where "EXCEPTION_IO_RESET = 0x10"

definition status_word :: "u16 \<Rightarrow> u16" where
  "status_word e =
     (if 0x6000 \<le> e \<and> e \<le> 0x6FFF \<or> 0x9000 \<le> e \<and> e \<le> 0x9FFF \<or> 0xA000 \<le> e \<and> e \<le> 0xAFFF then e
      else 0x6800 OR (e AND 0x7FF))"

definition catch_main :: "u16 \<Rightarrow> 'h globals_t act" where
  "catch_main e a =
     (let a0 = a\<lparr>waiting := Outside_try\<rparr>
      in if e = ASYNC_EXCEPTION then Ok () a0
         else if e = EXCEPTION_IO_RESET then Ok () (a\<lparr>waiting := Exited\<rparr>)
         else let a1 = clear_apdu_globals a0; sw = status_word e
              in res_bind (io_store 0 [ucast (drop_bit 8 sw), ucast sw] a1) (\<lambda>_. delayed_send 2))"

text \<open>An action of the user runs inside \<open>io_exchange\<close>, wherever \<open>main_loop\<close> waits.\<close>

definition in_io_exchange :: "'h globals_t act \<Rightarrow> 'h globals_t act" where
  "in_io_exchange m a =
     (case m a of
        Throw e a1 \<Rightarrow> if waiting a = In_try then catch_main e a1 else Ok () (a1\<lparr>waiting := Exited\<rparr>)
      | r \<Rightarrow> r)"

section \<open>Events\<close>

datatype event =
    Recv "u8 list"
  | Show_screen nat
  | Accept
  | Reject
  | Open_config
  | Toggle_network
  | Toggle_sign_hash
  | Toggle_contract_data
  | Main_menu
  | Quit

definition main_iteration :: "'h sdk \<Rightarrow> u8 list \<Rightarrow> nat \<Rightarrow> 'h globals_t act" where
  "main_iteration sdk commit rx a =
     (case process_apdu sdk commit rx a of
        Ok tx a1 \<Rightarrow> delayed_send tx (a1\<lparr>waiting := In_try\<rparr>)
      | Throw e a1 \<Rightarrow> catch_main e a1
      | Undef \<Rightarrow> Undef)"

text \<open>An event that the screen on display does not offer has no effect.\<close>

fun app_event :: "'h sdk \<Rightarrow> u8 list \<Rightarrow> event \<Rightarrow> 'h globals_t act" where
  "app_event sdk commit (Recv apdu) a =
     (if IO_APDU_BUFFER_SIZE < length apdu then Ok () a
      else main_iteration sdk commit (length apdu)
        (a\<lparr>G_io_apdu_buffer := mem_write (G_io_apdu_buffer a) 0 apdu\<rparr>))"
| "app_event sdk commit (Show_screen idx) a =
     (if flow a = Flow_prompts \<and> prompt_offset a \<le> idx \<and> idx < MAX_SCREEN_COUNT
      then in_io_exchange (run_switch_screen (idx - prompt_offset a)) a else Ok () a)"
| "app_event sdk commit Accept a =
     (if flow a = Flow_prompts then in_io_exchange (prompt_response sdk True) a else Ok () a)"
| "app_event sdk commit Reject a =
     (if flow a = Flow_prompts then in_io_exchange (prompt_response sdk False) a else Ok () a)"
| "app_event sdk commit Open_config a =
     (if flow a = Flow_idle then Ok () (a\<lparr>flow := Flow_cfg\<rparr>) else Ok () a)"
| "app_event sdk commit Toggle_network a =
     (if flow a = Flow_cfg then Ok () (a\<lparr>N_data := switch_network (N_data a)\<rparr>) else Ok () a)"
| "app_event sdk commit Toggle_sign_hash a =
     (if flow a = Flow_cfg then Ok () (a\<lparr>N_data := switch_sign_hash (N_data a)\<rparr>) else Ok () a)"
| "app_event sdk commit Toggle_contract_data a =
     (if flow a = Flow_cfg then Ok () (a\<lparr>N_data := switch_contract_data (N_data a)\<rparr>) else Ok () a)"
| "app_event sdk commit Main_menu a =
     (if flow a = Flow_cfg then Ok () (a\<lparr>flow := Flow_idle\<rparr>) else Ok () a)"
| "app_event sdk commit Quit a =
     (if flow a = Flow_idle then Ok () (a\<lparr>waiting := Exited\<rparr>) else Ok () a)"

definition app_main :: "nvram_data \<Rightarrow> 'h globals_t" where
  "app_main nv = init_globals (app_main_init_nvram nv)"

inductive app_step :: "'h sdk \<Rightarrow> u8 list \<Rightarrow> 'h globals_t \<Rightarrow> event \<Rightarrow> 'h globals_t \<Rightarrow> bool"
  for sdk :: "'h sdk" and commit :: "u8 list" where
  "waiting a \<noteq> Exited \<Longrightarrow> app_event sdk commit ev a = Ok () a' \<Longrightarrow> app_step sdk commit a ev a'"

inductive app_reachable :: "'h sdk \<Rightarrow> u8 list \<Rightarrow> nvram_data \<Rightarrow> 'h globals_t \<Rightarrow> bool"
  for sdk :: "'h sdk" and commit :: "u8 list" and nv :: nvram_data where
  start: "app_reachable sdk commit nv (app_main nv)"
| step: "app_reachable sdk commit nv a \<Longrightarrow> app_step sdk commit a ev a' \<Longrightarrow> app_reachable sdk commit nv a'"

end
