(* ===== verification/Ui_Effects.thy ===== *)
theory Ui_Effects
  imports Apdu Sign_Effects
begin

text \<open>
  What filling screens and prompting may do. The contract \<open>effects\<close> of \<open>Molecule_Effects\<close> is
  interpreted twice more: on text buffers, where every string function keeps the size of its
  buffer and throws only errors; and on the globals, where screens and prompts change nothing
  but the user interface.
\<close>

section \<open>Text buffers\<close>

definition same_size :: "cbuf \<Rightarrow> cbuf \<Rightarrow> bool" where
  "same_size b b' \<longleftrightarrow> length b' = length b"

abbreviation string_error :: "u16 \<Rightarrow> cbuf \<Rightarrow> cbuf \<Rightarrow> bool" where
  "string_error e b b' \<equiv> same_size b b' \<and> e \<noteq> ASYNC_EXCEPTION"

interpretation cbuf_eff: effects same_size string_error
  by unfold_locales (auto simp: same_size_def)

lemma string_errors [simp]: "EXC_WRONG_LENGTH \<noteq> ASYNC_EXCEPTION" "EXC_MEMORY_ERROR \<noteq> ASYNC_EXCEPTION"
  by (simp_all add: exception_code_defs)

lemma size_cstore [keeps_intros]: "keeps same_size string_error (cstore i s)"
  by (simp add: keeps_def cstore_def same_size_def)

lemma size_throw [keeps_intros]:
  "keeps same_size string_error (Throw EXC_WRONG_LENGTH)" "keeps same_size string_error (Throw EXC_MEMORY_ERROR)"
  by (simp_all add: keeps_def same_size_def)

lemma keeps_prod [keeps_intros]:
  "(\<And>x y. p = (x, y) \<Longrightarrow> keeps R E (m x y)) \<Longrightarrow> keeps R E (\<lambda>g. case p of (x, y) \<Rightarrow> m x y g)"
  by (cases p) simp

lemma keeps_ext: "(\<And>g. m g = m' g) \<Longrightarrow> keeps R E m' \<Longrightarrow> keeps R E m"
  by (simp add: keeps_def)

lemma size_ok [keeps_intros]: "keeps same_size string_error (Ok a)"
  by (simp add: keeps_def same_size_def)

lemma size_numbers [keeps_intros]:
  "keeps same_size string_error (number_to_string dest n)"
  "keeps same_size string_error (strcpy off str)"
  unfolding number_to_string_def [abs_def] strcpy_def [abs_def] Let_def
  by (auto intro!: keeps_intros split: prod.split)

lemma size_frac [keeps_intros]: "keeps same_size string_error (frac_ckb_to_string dest n)"
  unfolding frac_ckb_to_string_def [abs_def] Let_def
  by (auto intro!: keeps_intros split: prod.split option.split)

lemma size_strings [keeps_intros]:
  "keeps same_size string_error (number_to_string_indirect64 dest sz n)"
  "keeps same_size string_error (number_to_string_indirect32 dest sz m)"
  "keeps same_size string_error (frac_ckb_to_string_indirect dest sz n)"
  "keeps same_size string_error (frac_ckb_tuple_to_string_indirect dest sz p)"
  "keeps same_size string_error (uint64_tuple_to_string dest sz p)"
  "keeps same_size string_error (contract_type_to_string_indirect dest sz c)"
  "keeps same_size string_error (copy_string dest sz str)"
  "keeps same_size string_error (copy_buffer dest sz bs)"
  unfolding number_to_string_indirect64_def [abs_def] number_to_string_indirect32_def [abs_def]
    frac_ckb_to_string_indirect_def [abs_def] frac_ckb_tuple_to_string_indirect_def [abs_def]
    uint64_tuple_to_string_def [abs_def] contract_type_to_string_indirect_def [abs_def]
    copy_string_def [abs_def] copy_buffer_def [abs_def] Let_def
  by (intro keeps_intros)+

lemma size_hex_loop [keeps_intros]: "keeps same_size string_error (hex_loop out bs)"
  by (induction bs arbitrary: out) (simp_all, (intro keeps_intros | assumption)+)

lemma size_hex [keeps_intros]: "keeps same_size string_error (buffer_to_hex out sz bs)"
  unfolding buffer_to_hex_def [abs_def] bin_to_hex_def [abs_def] Let_def
  by (cases bs; simp only: option.case; intro keeps_intros)

lemma size_put_char [keeps_intros]: "keeps same_size string_error (put_char base out_len off c)"
  unfolding put_char_def [abs_def] by (intro keeps_intros)

lemma size_hrp_low [keeps_intros]: "keeps same_size string_error (hrp_low base out_len cs chk off)"
proof (induction cs arbitrary: chk off)
  case Nil
  show ?case by (rule keeps_ext, rule hrp_low.simps, intro keeps_intros)
next
  case (Cons c cs)
  then show ?case
    by (intro keeps_ext [OF hrp_low.simps(2)]) (auto simp: Let_def intro!: keeps_intros split: option.split)
qed

lemma size_encode_data [keeps_intros]: "keeps same_size string_error (encode_data base out_len ds chk off)"
proof (induction ds arbitrary: chk off)
  case Nil
  show ?case by (rule keeps_ext, rule encode_data.simps, intro keeps_intros)
next
  case (Cons d ds)
  then show ?case
    by (intro keeps_ext [OF encode_data.simps(2)]) (auto simp: Let_def intro!: keeps_intros split: option.split)
qed

lemma size_encode_checksum [keeps_intros]: "keeps same_size string_error (encode_checksum base out_len k chk off)"
proof (induction k arbitrary: chk off)
  case 0
  show ?case by (rule keeps_ext, rule encode_checksum.simps, intro keeps_intros)
next
  case (Suc k)
  then show ?case
    by (intro keeps_ext [OF encode_checksum.simps(2)]) (auto intro!: keeps_intros split: option.split)
qed

lemma size_bech32 [keeps_intros]: "keeps same_size string_error (bech32_encode base out_len hrp bs)"
  unfolding bech32_encode_def [abs_def] Let_def
  by (auto intro!: keeps_intros split: option.split prod.split)

lemma size_addresses [keeps_intros]:
  "keeps same_size string_error (render_pkh net out sz payload)"
  "keeps same_size string_error (lock_arg_to_sighash_address net out sz l)"
  "keeps same_size string_error (lock_arg_to_multisig_address net out sz l)"
  "keeps same_size string_error (render_destination net out sz m l)"
proof -
  show r: "keeps same_size string_error (render_pkh net out sz payload)" for payload
    unfolding render_pkh_def [abs_def] Let_def by (auto intro!: keeps_intros split: option.split)
  show a: "keeps same_size string_error (lock_arg_to_sighash_address net out sz l)"
    unfolding lock_arg_to_sighash_address_def [abs_def] by (intro keeps_intros r)
  show b: "keeps same_size string_error (lock_arg_to_multisig_address net out sz l)"
    unfolding lock_arg_to_multisig_address_def [abs_def] by (intro keeps_intros r)
  show "keeps same_size string_error (render_destination net out sz m l)"
    unfolding render_destination_def by (intro keeps_intros a b)
qed

lemma size_path_loop [keeps_intros]: "keeps same_size string_error (path_loop out sz key n i off)"
proof (induction n arbitrary: i off)
  case 0
  show ?case by (rule keeps_ext, rule path_loop.simps, intro keeps_intros)
next
  case (Suc n)
  have "keeps same_size string_error (push_checked out sz c k)" "keeps same_size string_error (bound_check_buffer k sz)"
    "keeps same_size string_error (strlen out)" for c k
    by (auto simp: keeps_def push_checked_def bound_check_buffer_def strlen_def cstore_def same_size_def)
  with Suc show ?case
    by (intro keeps_ext [OF path_loop.simps(2)]) (auto simp: Let_def intro!: keeps_intros)
qed

lemma size_path [keeps_intros]: "keeps same_size string_error (bip32_path_to_string out sz key)"
  unfolding bip32_path_to_string_def by (intro keeps_intros)

lemma size_run_string_cb [keeps_intros]: "keeps same_size string_error (run_string_cb net cb v sz)"
  by (induction net cb v sz rule: run_string_cb.induct) (simp_all add: keeps_intros)

lemma size_multi_output [keeps_intros]:
  "keeps same_size string_error (multi_output_value net out)"
  "keeps same_size string_error (multi_output_prompt which count)"
proof -
  have "keeps same_size string_error (\<lambda>b. res_bind (strcpy (length (cstring_at 0 b)) str b)
      (\<lambda>_. render_destination net (length (cstring_at 0 b) + 8) sz m l))" for str sz m l
    by (rule keepsI) (rule cbuf_eff.eff_bind [OF keepsD [OF size_numbers(2)] keepsD [OF size_addresses(4)]])
  then show "keeps same_size string_error (multi_output_value net out)"
    unfolding multi_output_value_def [abs_def] Let_def by (intro keeps_intros)
  show "keeps same_size string_error (multi_output_prompt which count)"
    unfolding multi_output_prompt_def [abs_def] by (auto intro!: keeps_intros)
qed

section \<open>The globals\<close>

text \<open>The sizes of the arrays of the globals.\<close>

definition sizes_ok :: "'h globals_t \<Rightarrow> bool" where
  "sizes_ok a \<longleftrightarrow> length (ui_callbacks a) = 8 \<and> length (active_prompt a) = 17 \<and>
     length (active_value a) = 129 \<and> length (G_io_apdu_buffer a) = 260"

text \<open>The user interface leaves the rest alone.\<close>

definition ui_only :: "'h globals_t \<Rightarrow> 'h globals_t \<Rightarrow> bool" where
  "ui_only a a' \<longleftrightarrow> apdu_u a' = apdu_u a \<and> apdu_priv a' = apdu_priv a \<and> N_data a' = N_data a \<and>
     G_io_apdu_buffer a' = G_io_apdu_buffer a \<and> sent a' = sent a \<and> waiting a' = waiting a \<and>
     (sizes_ok a \<longrightarrow> sizes_ok a')"

definition screen_only :: "'h globals_t \<Rightarrow> 'h globals_t \<Rightarrow> bool" where
  "screen_only a a' \<longleftrightarrow> ui_only a a' \<and> ok_callback a' = ok_callback a \<and> cxl_callback a' = cxl_callback a \<and>
     flow a' = flow a \<and> prompt_offset a' = prompt_offset a \<and> prompts a' = prompts a \<and>
     ui_callbacks a' = ui_callbacks a \<and> switch_screen_fn a' = switch_screen_fn a"

abbreviation screen_error :: "u16 \<Rightarrow> 'h globals_t \<Rightarrow> 'h globals_t \<Rightarrow> bool" where
  "screen_error e a a' \<equiv> screen_only a a' \<and> e \<noteq> ASYNC_EXCEPTION"

lemma ui_only_refl [simp]: "ui_only a a"
  and ui_only_trans: "ui_only a1 a2 \<Longrightarrow> ui_only a2 a3 \<Longrightarrow> ui_only a1 a3"
  by (auto simp: ui_only_def)

lemma screen_only_refl [simp]: "screen_only a a"
  by (simp add: screen_only_def)

interpretation screen_eff: effects screen_only screen_error
  by unfold_locales (auto simp: screen_only_def intro: ui_only_trans)

interpretation ui_eff: effects ui_only "\<lambda>_. ui_only"
  by unfold_locales (auto intro: ui_only_trans)

lemma screen_on_value [keeps_intros]:
  "keeps same_size string_error m \<Longrightarrow> keeps screen_only screen_error (on_value m)"
  "keeps same_size string_error m \<Longrightarrow> keeps screen_only screen_error (on_prompt m)"
  by (auto simp: keeps_def on_value_def on_prompt_def zoom_def eff_def same_size_def screen_only_def
      ui_only_def sizes_ok_def split: res.splits)

lemma length_strncpy [simp]: "length (strncpy s n) = n"
  by (simp add: strncpy_def)

lemma screen_fill [keeps_intros]: "keeps screen_only screen_error (switch_screen which)"
proof (rule keepsI)
  fix a :: "'a globals_t"
  let ?a1 = "a\<lparr>active_prompt := strncpy (prompts a ! which) (PROMPT_WIDTH + 1)\<rparr>"
  have "screen_only a ?a1"
    by (simp add: screen_only_def ui_only_def sizes_ok_def PROMPT_WIDTH_def)
  moreover have "eff screen_only screen_error a (on_value (run_string_cb net cb v sz) ?a1)" for net cb v sz
    by (rule screen_eff.eff_trans) (use calculation in \<open>auto intro: keepsD keeps_intros\<close>)
  ultimately show "eff screen_only screen_error a (switch_screen which a)"
    by (auto simp: switch_screen_def Let_def split: option.split)
qed

lemma screen_multi [keeps_intros]: "keeps screen_only screen_error (multi_output_prompts_cb which)"
proof (rule keepsI)
  fix a :: "'a globals_t"
  have "eff screen_only screen_error a (res_bind (on_prompt m a) (\<lambda>_. on_value m'))"
    if "keeps same_size string_error m" "keeps same_size string_error m'" for m m'
    using that by (intro screen_eff.eff_bind) (auto intro: keepsD keeps_intros)
  then show "eff screen_only screen_error a (multi_output_prompts_cb which a)"
    by (auto simp: multi_output_prompts_cb_def intro!: keeps_intros split: option.split)
qed

lemma screen_run [keeps_intros]: "keeps screen_only screen_error (run_switch_screen which)"
  by (auto simp: keeps_def run_switch_screen_def intro!: keepsD keeps_intros
      split: option.split switch_screen_t.split)

lemma screen_loop [keeps_intros]: "keeps screen_only screen_error (prompt_loop i n)"
proof (induction n arbitrary: i)
  case 0
  show ?case by (rule keeps_ext, rule prompt_loop.simps, intro keeps_intros)
next
  case (Suc n)
  then show ?case by (intro keeps_ext [OF prompt_loop.simps(2)] keeps_intros)
qed

text \<open>
  A prompt ends with \<open>ASYNC_EXCEPTION\<close> and the two callbacks installed, or with an error and
  the callbacks as they were.
\<close>

definition prompt_result ::
    "ui_callback_t \<Rightarrow> ui_callback_t \<Rightarrow> u16 \<Rightarrow> 'h globals_t \<Rightarrow> 'h globals_t \<Rightarrow> bool" where
  "prompt_result ok_c cxl_c e a a' \<longleftrightarrow> ui_only a a' \<and>
     (if e = ASYNC_EXCEPTION
      then ok_callback a' = Some ok_c \<and> cxl_callback a' = Some cxl_c \<and> flow a' = Flow_prompts
      else ok_callback a' = ok_callback a \<and> cxl_callback a' = cxl_callback a \<and> flow a' = flow a \<or>
           ok_callback a' = Some ok_c \<and> cxl_callback a' = Some cxl_c \<and> flow a' = Flow_prompts)"

lemma start_prompt_eff:
  "eff (\<lambda>_ _. False) (prompt_result ok_c cxl_c) a (start_prompt n ok_c cxl_c a)"
proof (cases "ui_prompt_debug n a")
  case (Ok u a1)
  let ?a2 = "a1\<lparr>ok_callback := Some ok_c, cxl_callback := Some cxl_c, flow := Flow_prompts\<rparr>"
  have 1: "screen_only a a1" using keepsD [OF screen_loop [of 0 n], of a] Ok by (simp add: ui_prompt_debug_def)
  have "screen_only ?a2 a3" if "run_switch_screen 0 ?a2 = Ok u a3 \<or> run_switch_screen 0 ?a2 = Throw e a3" for u e a3
    using keepsD [OF screen_run [of 0], of ?a2] that by auto
  moreover have "e \<noteq> ASYNC_EXCEPTION" if "run_switch_screen 0 ?a2 = Throw e a3" for e a3
    using keepsD [OF screen_run [of 0], of ?a2] that by auto
  ultimately show ?thesis
    using 1 Ok unfolding start_prompt_def ux_flow_init_prompts_def Let_def
    by (cases "run_switch_screen 0 ?a2")
      (auto simp: prompt_result_def screen_only_def ui_only_def sizes_ok_def)
next
  case (Throw e a1)
  then show ?thesis using keepsD [OF screen_loop [of 0 n], of a]
    by (auto simp: start_prompt_def ui_prompt_debug_def prompt_result_def screen_only_def)
qed (simp add: start_prompt_def)

end
