(* ===== verification/App_Effects.thy ===== *)
theory App_Effects
  imports Ui_Effects
begin

text \<open>
  What a command may do to the globals, by one more interpretation of the contract \<open>effects\<close>:
  the settings, the record of responses and the array sizes are kept whatever happens; the
  invariant of the APDU state (no secret in the key memory, a well-formed table of outputs) is
  kept by a command that returns or prompts. After any other exception \<open>main_loop\<close> clears that
  state.
\<close>

section \<open>The contract\<close>

text \<open>The SDK does not throw the code the application uses for prompting.\<close>

definition sdk_quiet :: "'h sdk \<Rightarrow> bool" where
  "sdk_quiet sdk \<longleftrightarrow> (\<forall>p. sdk_derive_node sdk p \<noteq> Inl ASYNC_EXCEPTION) \<and>
     (\<forall>d. sdk_generate_pair sdk d \<noteq> Inl ASYNC_EXCEPTION) \<and>
     (\<forall>p d. sdk_ecdsa_sign sdk p d \<noteq> Inl ASYNC_EXCEPTION)"

text \<open>The reject button only ever rejects, and while a prompt is up both buttons have a callback.\<close>

definition buttons_ok :: "'h globals_t \<Rightarrow> bool" where
  "buttons_ok a \<longleftrightarrow>
     (cxl_callback a = None \<or> cxl_callback a = Some sign_reject \<or> cxl_callback a = Some delay_reject) \<and>
     (flow a = Flow_prompts \<longrightarrow> ok_callback a \<noteq> None \<and> cxl_callback a \<noteq> None)"

definition sign_inv :: "'h globals_t \<Rightarrow> bool" where
  "sign_inv a \<longleftrightarrow> (\<forall>s. live_sign a = Some s \<longrightarrow> tx_inv (sign_ctx s a))"

definition apdu_ok :: "'h globals_t \<Rightarrow> bool" where
  "apdu_ok a \<longleftrightarrow> no_secrets (apdu_priv a) \<and> sign_inv a"

text \<open>The prompt on display stays, or a new one goes up.\<close>

definition prompt_kept :: "'h globals_t \<Rightarrow> 'h globals_t \<Rightarrow> bool" where
  "prompt_kept a a' \<longleftrightarrow> flow a' = flow a \<and> ok_callback a' = ok_callback a \<or>
     flow a' = Flow_prompts \<and> ok_callback a' \<noteq> None"

definition frame_kept :: "'h globals_t \<Rightarrow> 'h globals_t \<Rightarrow> bool" where
  "frame_kept a a' \<longleftrightarrow> N_data a' = N_data a \<and> sent a' = sent a \<and> waiting a' = waiting a \<and>
     (buttons_ok a \<longrightarrow> buttons_ok a') \<and> (sizes_ok a \<longrightarrow> sizes_ok a')"

definition handler_kept :: "'h globals_t \<Rightarrow> 'h globals_t \<Rightarrow> bool" where
  "handler_kept a a' \<longleftrightarrow> frame_kept a a' \<and> prompt_kept a a' \<and> (apdu_ok a \<longrightarrow> apdu_ok a')"

definition action_throw :: "u16 \<Rightarrow> 'h globals_t \<Rightarrow> 'h globals_t \<Rightarrow> bool" where
  "action_throw e a a' \<longleftrightarrow> frame_kept a a' \<and> (e = ASYNC_EXCEPTION \<longrightarrow> apdu_ok a \<longrightarrow> apdu_ok a')"

definition handler_throw :: "u16 \<Rightarrow> 'h globals_t \<Rightarrow> 'h globals_t \<Rightarrow> bool" where
  "handler_throw e a a' \<longleftrightarrow> frame_kept a a' \<and> prompt_kept a a' \<and>
     (e = ASYNC_EXCEPTION \<longrightarrow> flow a' = Flow_prompts \<and> (apdu_ok a \<longrightarrow> apdu_ok a'))"

lemma frame_kept_refl [simp]: "frame_kept a a" "prompt_kept a a"
  and frame_kept_trans: "frame_kept a1 a2 \<Longrightarrow> frame_kept a2 a3 \<Longrightarrow> frame_kept a1 a3"
  and prompt_kept_trans: "prompt_kept a1 a2 \<Longrightarrow> prompt_kept a2 a3 \<Longrightarrow> prompt_kept a1 a3"
  by (auto simp: frame_kept_def prompt_kept_def)

lemma handler_throw_action: "handler_throw e a a' \<Longrightarrow> action_throw e a a'"
  by (simp add: handler_throw_def action_throw_def)

lemma handler_kept_refl [simp]: "handler_kept a a"
  by (simp add: handler_kept_def)

interpretation host_eff: effects handler_kept handler_throw
  by unfold_locales (auto simp: handler_kept_def handler_throw_def intro: frame_kept_trans prompt_kept_trans)

lemma tx_inv_sign_ctx:
  "tx_inv (sign_ctx s a) = tx_inv (sign_ctx s a')"
  by (rule tx_inv_cong) (cases s, simp_all add: sign_ctx_def apdu_sign_state_t.defs ctx.defs live_tx_def)+

lemma ui_only_handler: "ui_only a a' \<Longrightarrow> prompt_kept a a' \<Longrightarrow> (buttons_ok a \<Longrightarrow> buttons_ok a') \<Longrightarrow> handler_kept a a'"
  by (auto simp: ui_only_def handler_kept_def frame_kept_def apdu_ok_def sign_inv_def live_sign_def
      tx_inv_sign_ctx [of _ a a'])

section \<open>Prompts\<close>

lemma prompt_result_throw:
  "prompt_result ok_c cxl_c e a a' \<Longrightarrow> cxl_c = sign_reject \<or> cxl_c = delay_reject \<Longrightarrow> handler_throw e a a'"
  using ui_only_handler [of a a']
  by (auto simp: prompt_result_def handler_throw_def handler_kept_def buttons_ok_def prompt_kept_def split: if_splits)

lemma host_start_prompt:
  fixes a :: "'h globals_t"
  assumes "cxl_c = sign_reject \<or> cxl_c = delay_reject"
  shows "eff handler_kept handler_throw a (start_prompt n ok_c cxl_c a :: ('b, 'h globals_t) res)"
proof -
  have "eff (\<lambda>_ _. False) (prompt_result ok_c cxl_c) a (start_prompt n ok_c cxl_c a :: ('b, 'h globals_t) res)"
    by (rule start_prompt_eff)
  then show ?thesis using prompt_result_throw [OF _ assms]
    by (cases "start_prompt n ok_c cxl_c a :: ('b, 'h globals_t) res") auto
qed

lemma host_ui_prompt [keeps_intros]:
  assumes "cxl_c = sign_reject \<or> cxl_c = delay_reject"
  shows "keeps handler_kept handler_throw (ui_prompt labels ok_c cxl_c)"
    "keeps handler_kept handler_throw (ui_prompt_with_cb cb n ok_c cxl_c)"
proof -
  have k: "handler_kept a (a\<lparr>prompts := p, switch_screen_fn := f, prompt_offset := k\<rparr>)"
    "handler_kept a (a\<lparr>switch_screen_fn := f, prompt_offset := k\<rparr>)" for a p f k
    by (rule ui_only_handler; simp add: ui_only_def sizes_ok_def buttons_ok_def prompt_kept_def)+
  show "keeps handler_kept handler_throw (ui_prompt labels ok_c cxl_c)"
    unfolding ui_prompt_def [abs_def] Let_def
    by (rule keepsI) (rule host_eff.eff_trans [OF k(1) host_start_prompt [OF assms]])
  show "keeps handler_kept handler_throw (ui_prompt_with_cb cb n ok_c cxl_c)"
    unfolding ui_prompt_with_cb_def [abs_def]
    by (rule keepsI) (auto simp: handler_throw_def exception_code_defs
        intro!: host_eff.eff_trans [OF k(2) host_start_prompt [OF assms]])
qed

lemma memory_error_throw [simp]: "handler_throw EXC_MEMORY_ERROR a a"
  by (simp add: handler_throw_def)

lemma host_register [keeps_intros]: "keeps handler_kept handler_throw (register_ui_callback i cb data)"
proof (rule keepsI)
  fix a :: "'a globals_t"
  have "handler_kept a (a\<lparr>ui_callbacks := (ui_callbacks a)[i := Some (cb, data)]\<rparr>)"
    by (rule ui_only_handler) (simp_all add: ui_only_def sizes_ok_def buttons_ok_def prompt_kept_def)
  then show "eff handler_kept handler_throw a (register_ui_callback i cb data a)"
    by (simp add: register_ui_callback_def)
qed

lemma host_register_screens [keeps_intros]: "keeps handler_kept handler_throw (register_screens i rs)"
proof (induction rs arbitrary: i)
  case Nil
  show ?case by (rule keeps_ext, rule register_screens.simps, intro keeps_intros)
next
  case (Cons r rs)
  then show ?case by (cases r) (auto intro!: keeps_ext [OF register_screens.simps(2)] keeps_intros)
qed

lemma host_prompt_screens [keeps_intros]:
  "cxl_c = sign_reject \<or> cxl_c = delay_reject \<Longrightarrow>
   keeps handler_kept handler_throw (prompt_screens screens ok_c cxl_c)"
  unfolding prompt_screens_def [abs_def] by (intro keeps_intros)

section \<open>Transactions\<close>

lemma handler_throwI: "e \<noteq> ASYNC_EXCEPTION \<Longrightarrow> handler_throw e a a"
  by (simp add: handler_throw_def)

lemma errors_not_async [simp]:
  "EXC_REJECT \<noteq> ASYNC_EXCEPTION" "EXC_PARSE_ERROR \<noteq> ASYNC_EXCEPTION" "EXC_SECURITY \<noteq> ASYNC_EXCEPTION"
  "EXC_WRONG_PARAM \<noteq> ASYNC_EXCEPTION" "EXC_WRONG_LENGTH_FOR_INS \<noteq> ASYNC_EXCEPTION"
  "EXC_INVALID_INS \<noteq> ASYNC_EXCEPTION" "EXC_CLASS \<noteq> ASYNC_EXCEPTION" "EXC_WRONG_VALUES \<noteq> ASYNC_EXCEPTION"
  by (simp_all add: exception_code_defs)

lemma host_throw [keeps_intros]: "e \<noteq> ASYNC_EXCEPTION \<Longrightarrow> keeps handler_kept handler_throw (Throw e)"
  by (simp add: keeps_def handler_throwI)

lemma host_ok [keeps_intros]: "keeps handler_kept handler_throw (Ok x)"
  by (simp add: keeps_def)

lemma sign_exception_quiet: "sdk_quiet sdk \<Longrightarrow> sign_exception sdk e \<Longrightarrow> e \<noteq> ASYNC_EXCEPTION"
  by (auto simp: sdk_quiet_def sign_exception_def sdk_exception_def exception_code_defs)

lemma host_on_sign [keeps_intros]:
  assumes "keeps tx_kept (\<lambda>_. tx_kept) m" "keeps keys_kept (\<lambda>e _ _. P e) m" "\<And>e. P e \<Longrightarrow> e \<noteq> ASYNC_EXCEPTION"
  shows "keeps handler_kept handler_throw (on_sign m)"
proof (rule keepsI)
  fix a :: "'a globals_t"
  show "eff handler_kept handler_throw a (on_sign m a)"
  proof (cases "live_sign a")
    case (Some s)
    have f: "frame_kept a (put_sign_ctx g a)" "prompt_kept a (put_sign_ctx g a)" for g
      by (simp_all add: frame_kept_def put_sign_ctx_def buttons_ok_def prompt_kept_def sizes_ok_def)
    have k: "apdu_ok (put_sign_ctx g a)"
      if "tx_inv g" "no_secrets (keymem g)" for g
      using that tx_inv_cong [of "sign_ctx (apdu_sign_state_t.truncate g) (put_sign_ctx g a)" g]
      by (cases g) (simp add: apdu_ok_def sign_inv_def put_sign_ctx_def live_sign_def sign_ctx_def
          apdu_sign_state_t.defs ctx.defs live_tx_def)
    have i: "tx_inv (sign_ctx s a)" "no_secrets (keymem (sign_ctx s a))" if "apdu_ok a"
      using that Some by (simp_all add: apdu_ok_def sign_inv_def)
    show ?thesis
      using Some keepsD [OF assms(1), of "sign_ctx s a"] keepsD [OF assms(2), of "sign_ctx s a"] i assms(3)
      by (cases "m (sign_ctx s a)")
        (auto simp: on_sign_def zoom_def handler_kept_def handler_throw_def tx_kept_def keys_kept_def intro!: f k)
  qed (simp add: on_sign_def)
qed

lemma AnnotatedTransaction_parse_component:
  "keeps_component R E (AnnotatedTransaction cb) \<Longrightarrow> keeps R E (MolReader_AnnotatedTransaction_parse cb sz s c)"
  "keeps_component R E (AnnotatedTransaction cb) \<Longrightarrow> keeps R E (MolReader_AnnotatedTransaction_init_state cb)"
  by (simp_all add: keeps_component_def AnnotatedTransaction_def)

lemma stack_frame:
  "tx_kept g (g\<lparr>transaction_stack := st\<rparr>)" "keys_kept g (g\<lparr>transaction_stack := st\<rparr>)"
  "flags_kept g (g\<lparr>transaction_stack := st\<rparr>)"
  using tx_inv_cong [of "g\<lparr>transaction_stack := st\<rparr>" g]
  by (simp_all add: tx_kept_def keys_kept_def flags_kept_def live_tx_def)

lemma tx_parser:
  "keeps tx_kept (\<lambda>_. tx_kept) (parse_packet sdk chunk)" "keeps tx_kept (\<lambda>_. tx_kept) (init_parser sdk)"
proof -
  show "keeps tx_kept (\<lambda>_. tx_kept) (parse_packet sdk chunk)"
    unfolding parse_packet_def [abs_def]
    by (rule keepsI, rule tx_eff.eff_bind [OF keepsD [OF AnnotatedTransaction_parse_component(1) [OF tx_AnnotatedTransaction]]])
      (auto intro: stack_frame)
  show "keeps tx_kept (\<lambda>_. tx_kept) (init_parser sdk)"
    unfolding init_parser_def [abs_def]
    by (rule keepsI, rule tx_eff.eff_bind [OF keepsD [OF AnnotatedTransaction_parse_component(2) [OF tx_AnnotatedTransaction]]])
      (auto intro: stack_frame)
qed

lemma flags_packet: "keeps flags_kept (throws sdk flags_kept) (parse_packet sdk chunk)"
  unfolding parse_packet_def [abs_def]
  by (rule keepsI, rule flags_eff.eff_bind [OF keepsD [OF AnnotatedTransaction_parse_component(1) [OF flags_AnnotatedTransaction]]])
    (auto intro: stack_frame)

lemma keys_parser:
  "keeps keys_kept (\<lambda>e _ _. sign_exception sdk e) (parse_packet sdk chunk)"
  "keeps keys_kept (\<lambda>e _ _. sign_exception sdk e) (init_parser sdk)"
proof -
  show "keeps keys_kept (\<lambda>e _ _. sign_exception sdk e) (parse_packet sdk chunk)"
    unfolding parse_packet_def [abs_def]
    by (rule keepsI, rule keys_eff.eff_bind [OF keepsD [OF AnnotatedTransaction_parse_component(1) [OF keys_AnnotatedTransaction]]])
      (auto intro: stack_frame)
  show "keeps keys_kept (\<lambda>e _ _. sign_exception sdk e) (init_parser sdk)"
    unfolding init_parser_def [abs_def]
    by (rule keepsI, rule keys_eff.eff_bind [OF keepsD [OF AnnotatedTransaction_parse_component(2) [OF keys_AnnotatedTransaction]]])
      (auto intro: stack_frame)
qed

definition packet_exception :: "'h sdk \<Rightarrow> u16 \<Rightarrow> bool" where
  "packet_exception sdk e \<longleftrightarrow> sign_exception sdk e \<or> e = EXC_PARSE_ERROR \<or> e = EXC_SECURITY"

lemma tx_next_packet: "keeps tx_kept (\<lambda>_. tx_kept) (next_packet sdk is_last secure_only chunk)"
proof -
  have k: "tx_kept g (g\<lparr>hard_reject := b\<rparr>)" "tx_kept g (g\<lparr>is_valid := b\<rparr>)" for b and g :: "'a ctx"
    using tx_inv_cong [of "g\<lparr>hard_reject := b\<rparr>" g] tx_inv_cong [of "g\<lparr>is_valid := b\<rparr>" g]
    by (simp_all add: tx_kept_def live_tx_def)
  have "tx_kept g (set_tag OPERATION_TAG_NONE g)" for g :: "'a ctx"
    by (auto simp: tx_kept_def tx_inv_def tx_at_def has_flag_def set_tag_def)
  then have n: "tx_kept g (set_tag OPERATION_TAG_NONE g\<lparr>is_valid := b\<rparr>)" for b and g :: "'a ctx"
    using k(2) tx_eff.R_trans by blast
  show ?thesis
    unfolding next_packet_def [abs_def] Let_def
    by (rule keepsI) (auto simp: k n tx_eff.R_refl intro!: tx_eff.eff_bind keepsD [OF tx_parser(1)])
qed

interpretation packet_eff: effects keys_kept "\<lambda>e _ _. packet_exception sdk e" for sdk :: "'h sdk"
  by unfold_locales (auto simp: keys_kept_def)

lemma keys_next_packet:
  "keeps keys_kept (\<lambda>e _ _. packet_exception sdk e) (next_packet sdk is_last secure_only chunk)"
proof -
  have "eff keys_kept (\<lambda>e _ _. packet_exception sdk e) g (parse_packet sdk chunk g)" for g
    using keepsD [OF keys_parser(1) [of sdk chunk], of g]
    by (cases "parse_packet sdk chunk g") (auto simp: packet_exception_def)
  then show ?thesis
    unfolding next_packet_def [abs_def] Let_def
    by (intro keepsI)
      (auto simp: keys_kept_def set_tag_def packet_exception_def [of _ EXC_PARSE_ERROR]
        packet_exception_def [of _ EXC_SECURITY] intro!: packet_eff.eff_bind)
qed

lemma packet_exception_quiet: "sdk_quiet sdk \<Longrightarrow> packet_exception sdk e \<Longrightarrow> e \<noteq> ASYNC_EXCEPTION"
  by (auto simp: packet_exception_def exception_code_defs dest: sign_exception_quiet)

lemma host_io_store [keeps_intros]: "keeps handler_kept handler_throw (io_store i bs)"
proof (rule keepsI)
  fix a :: "'a globals_t"
  have "handler_kept a (a\<lparr>G_io_apdu_buffer := mem_write (G_io_apdu_buffer a) i bs\<rparr>)"
    if "i + length bs \<le> length (G_io_apdu_buffer a)"
    using that by (simp add: handler_kept_def frame_kept_def buttons_ok_def prompt_kept_def sizes_ok_def apdu_ok_def sign_inv_def
      live_sign_def tx_inv_sign_ctx [of _ "a\<lparr>G_io_apdu_buffer := mem_write (G_io_apdu_buffer a) i bs\<rparr>" a])
  then show "eff handler_kept handler_throw a (io_store i bs a)" by (simp add: io_store_def)
qed

lemma host_finalize [keeps_intros]: "keeps handler_kept handler_throw (finalize_successful_send tx)"
  unfolding finalize_successful_send_def [abs_def] by (intro keeps_intros)

text \<open>A change of the APDU state that ends the signing state keeps the contract.\<close>

lemma handler_kept_union:
  "(\<And>s. live_sign (a\<lparr>apdu_u := u\<rparr>) = Some s \<Longrightarrow> s = zero_sign_state) \<Longrightarrow> handler_kept a (a\<lparr>apdu_u := u\<rparr>)"
proof -
  assume "\<And>s. live_sign (a\<lparr>apdu_u := u\<rparr>) = Some s \<Longrightarrow> s = zero_sign_state"
  moreover have "tx_inv (sign_ctx zero_sign_state b)" for b :: "'a globals_t"
    by (simp add: tx_inv_def tx_at_def sign_ctx_def zero_sign_state_def apdu_sign_state_t.defs ctx.defs
        live_tx_def zero_parsed_def)
  ultimately have "sign_inv (a\<lparr>apdu_u := u\<rparr>)" by (auto simp: sign_inv_def)
  then show ?thesis
    by (simp add: handler_kept_def frame_kept_def buttons_ok_def prompt_kept_def sizes_ok_def apdu_ok_def)
qed

lemma host_clear_sign [keeps_intros]: "keeps handler_kept handler_throw clear_sign_data"
  by (rule keepsI) (auto simp: clear_sign_data_def live_sign_def intro!: handler_kept_union)

lemma host_sign_complete [keeps_intros]: "keeps handler_kept handler_throw (sign_complete instruction)"
  unfolding sign_complete_def [abs_def] Let_def
  by (rule keepsI) (auto simp: handler_throwI intro!: keepsD [OF host_ui_prompt(2)] keepsD [OF host_prompt_screens] split: option.split)

lemma host_handle_apdu [keeps_intros]:
  assumes "sdk_quiet sdk"
  shows "keeps handler_kept handler_throw (handle_apdu sdk instruction)"
proof (rule keepsI)
  fix a :: "'a globals_t"
  have step: "keeps handler_kept handler_throw (on_sign (next_packet sdk l so chunk))" for l so chunk
    by (rule host_on_sign [OF tx_next_packet keys_next_packet packet_exception_quiet [OF assms]])
  have init: "keeps handler_kept handler_throw (on_sign (init_parser sdk))"
    by (rule host_on_sign [OF tx_parser(2) keys_parser(2) sign_exception_quiet [OF assms]])
  show "eff handler_kept handler_throw a (handle_apdu sdk instruction a)"
    unfolding handle_apdu_def Let_def
    by (auto simp: handler_throwI intro!: host_eff.eff_bind keepsD [OF step] keepsD [OF init]
        keepsD [OF host_clear_sign] keepsD [OF host_finalize] keepsD [OF host_sign_complete] split: option.split)
qed

section \<open>Keys and signatures\<close>

definition wipes :: "(key_mem \<Rightarrow> ('b, key_mem) res) \<Rightarrow> bool" where
  "wipes f \<longleftrightarrow> (\<forall>k. case f k of Ok x k' \<Rightarrow> no_secrets k' | Throw e k' \<Rightarrow> e \<noteq> ASYNC_EXCEPTION | Undef \<Rightarrow> True)"

lemma handler_kept_priv: "no_secrets k \<Longrightarrow> handler_kept a (a\<lparr>apdu_priv := k\<rparr>)"
  by (simp add: handler_kept_def frame_kept_def buttons_ok_def prompt_kept_def sizes_ok_def apdu_ok_def sign_inv_def live_sign_def
      tx_inv_sign_ctx [of _ "a\<lparr>apdu_priv := k\<rparr>" a])

lemma host_keys [keeps_intros]:
  assumes "wipes f"
  shows "keeps handler_kept handler_throw (zoom apdu_priv (\<lambda>k a. a\<lparr>apdu_priv := k\<rparr>) f)"
proof (rule keepsI)
  fix a :: "'c globals_t"
  have f: "frame_kept a (a\<lparr>apdu_priv := k\<rparr>)" "prompt_kept a (a\<lparr>apdu_priv := k\<rparr>)" for k
    by (simp_all add: frame_kept_def buttons_ok_def prompt_kept_def sizes_ok_def)
  show "eff handler_kept handler_throw a (zoom apdu_priv (\<lambda>k a. a\<lparr>apdu_priv := k\<rparr>) f a)"
    using assms unfolding wipes_def
    by (cases "f (apdu_priv a)")
      (auto simp: zoom_def f handler_throw_def intro!: handler_kept_priv dest!: spec [of _ "apdu_priv a"])
qed

lemma generate_throws:
  "generate_extended_key_pair_return_global sdk path k = Throw e k' \<Longrightarrow> sdk_quiet sdk \<Longrightarrow> e \<noteq> ASYNC_EXCEPTION"
  by (auto simp: generate_extended_key_pair_return_global_def sdk_quiet_def Let_def
      split: if_splits sum.splits prod.splits)

lemma wipes_derive: "sdk_quiet sdk \<Longrightarrow> wipes (generate_extended_public_key sdk path)"
  unfolding wipes_def
proof
  fix k
  assume q: "sdk_quiet sdk"
  show "case generate_extended_public_key sdk path k of Ok x k' \<Rightarrow> no_secrets k'
    | Throw e k' \<Rightarrow> e \<noteq> ASYNC_EXCEPTION | Undef \<Rightarrow> True"
    using generate_public_wipes(1) [of sdk path k] generate_throws [OF _ q, of path k]
    by (cases "generate_extended_key_pair_return_global sdk path k")
      (auto simp: generate_extended_public_key_def split: res.split)
qed

lemma wipes_with_key_pair:
  assumes "sdk_quiet sdk" "\<And>W d e. body W d = Inl e \<Longrightarrow> e \<noteq> ASYNC_EXCEPTION"
  shows "wipes (WITH_KEY_PAIR sdk path body)"
  unfolding wipes_def
proof
  fix k
  show "case WITH_KEY_PAIR sdk path body k of Ok x k' \<Rightarrow> no_secrets k'
    | Throw e k' \<Rightarrow> e \<noteq> ASYNC_EXCEPTION | Undef \<Rightarrow> True"
    using generate_wipes_seed [of sdk path k] generate_throws [OF _ assms(1), of path k] assms(2)
    by (cases "generate_extended_key_pair_return_global sdk path k")
      (auto simp: WITH_KEY_PAIR_def no_secrets_def wipe_pair_def split: sum.split)
qed

lemma host_sign_into_buffer [keeps_intros]:
  assumes "sdk_quiet sdk"
  shows "keeps handler_kept handler_throw (sign_into_buffer sdk key bs tx)"
proof -
  have "wipes (WITH_KEY_PAIR sdk key (\<lambda>_ priv. sign sdk MAX_SIGNATURE_SIZE priv bs))"
    using assms by (intro wipes_with_key_pair)
      (auto simp: sign_def MAX_SIGNATURE_SIZE_def sdk_quiet_def split: sum.splits)
  then show ?thesis
    unfolding sign_into_buffer_def [abs_def] by (intro keeps_intros)
qed

section \<open>Messages, hashes and public keys\<close>

lemma read_path_throws [simp]: "read_bip32_path bs p \<noteq> Throw ASYNC_EXCEPTION p'"
  by (auto simp: read_bip32_path_def Let_def exception_code_defs split: if_splits)

lemma union_kept:
  "handler_kept a (put_msg m a)" "handler_kept a (put_smh h a)" "handler_kept a (put_pubkey p a)"
  "handler_kept a (clear_message_data a)" "handler_kept a (clear_message_hash_data a)"
  by (auto simp: put_msg_def put_smh_def put_pubkey_def clear_message_data_def clear_message_hash_data_def
      live_sign_def intro!: handler_kept_union)

lemma throw_after: "handler_kept a a' \<Longrightarrow> e \<noteq> ASYNC_EXCEPTION \<Longrightarrow> handler_throw e a a'"
  by (auto simp: handler_kept_def handler_throw_def)

lemma host_store_display [keeps_intros]: "keeps handler_kept handler_throw (store_display bs m)"
  by (auto simp: keeps_def store_display_def handler_throwI split: option.split)

lemma host_message_first [keeps_intros]: "keeps handler_kept handler_throw (message_first bs)"
proof (rule keepsI)
  fix a :: "'a globals_t"
  have "handler_kept a (put_msg m (clear_message_data a))" for m
    using union_kept(1,4) host_eff.R_trans by blast
  then show "eff handler_kept handler_throw a (message_first bs a)"
    by (auto simp: message_first_def Let_def
        intro!: throw_after union_kept host_eff.eff_trans [OF _ keepsD [OF host_finalize]]
        split: option.split res.split)
qed

lemma host_message_prompt [keeps_intros]: "keeps handler_kept handler_throw (message_prompt hex)"
  unfolding message_prompt_def by (intro keeps_intros) simp

lemma host_message_next [keeps_intros]: "keeps handler_kept handler_throw (message_next sdk is_last bs)"
proof (rule keepsI)
  fix a :: "'a globals_t"
  have p: "eff handler_kept handler_throw b (message_prompt h (put_msg m b))"
    "eff handler_kept handler_throw b (finalize_successful_send n (put_msg m b))"
    "eff handler_kept handler_throw b (store_display bs m' (put_msg m b))" for b h m n m'
    by (rule host_eff.eff_trans [OF union_kept(1)], rule keepsD, intro keeps_intros)+
  show "eff handler_kept handler_throw a (message_next sdk is_last bs a)"
    by (auto simp: message_next_def Let_def handler_throwI intro!: host_eff.eff_bind p split: option.split prod.split)
qed

lemma host_sign_message [keeps_intros]: "keeps handler_kept handler_throw (handle_apdu_sign_message_impl sdk)"
  by (auto simp: keeps_def handle_apdu_sign_message_impl_def Let_def handler_throwI
      intro!: keepsD [OF host_message_first] keepsD [OF host_message_next])

lemma host_hash_prompt [keeps_intros]: "keeps handler_kept handler_throw hash_prompt"
  unfolding hash_prompt_def by (intro keeps_intros) simp

lemma host_sign_hash [keeps_intros]: "keeps handler_kept handler_throw handle_apdu_sign_message_hash"
proof (rule keepsI)
  fix a :: "'a globals_t"
  have "handler_kept a (put_smh m (clear_message_hash_data a))" for m
    using union_kept(2,5) host_eff.R_trans by blast
  moreover have "eff handler_kept handler_throw a (hash_prompt (put_smh m a))" for m
    by (rule host_eff.eff_trans [OF union_kept(2) keepsD [OF host_hash_prompt]])
  ultimately show "eff handler_kept handler_throw a (handle_apdu_sign_message_hash a)"
    by (auto simp: handle_apdu_sign_message_hash_def handle_apdu_sign_message_hash_impl_def Let_def
        handler_throwI intro!: throw_after host_eff.eff_trans [OF _ keepsD [OF host_finalize]]
        split: option.split res.split)
qed

lemma host_derive_pubkey [keeps_intros]:
  assumes "sdk_quiet sdk"
  shows "keeps handler_kept handler_throw (derive_pubkey sdk p)"
proof (rule keepsI)
  fix a :: "'a globals_t"
  have "eff handler_kept handler_throw a (zoom apdu_priv (\<lambda>k a. a\<lparr>apdu_priv := k\<rparr>)
      (generate_extended_public_key sdk (pubkey_key p)) (put_pubkey p a))"
    by (rule host_eff.eff_trans [OF union_kept(3) keepsD [OF host_keys [OF wipes_derive [OF assms]]]])
  then show "eff handler_kept handler_throw a (derive_pubkey sdk p a)"
    unfolding derive_pubkey_def by (rule host_eff.eff_bind) (auto simp: Let_def union_kept)
qed

lemma host_get_public_key [keeps_intros]:
  assumes "sdk_quiet sdk"
  shows "keeps handler_kept handler_throw (handle_apdu_get_public_key sdk instruction)"
proof (rule keepsI)
  fix a :: "'a globals_t"
  have p: "eff handler_kept handler_throw b (prompt_ext_path ext_pubkey_ok delay_reject (put_pubkey q b))"
    "eff handler_kept handler_throw b (prompt_path pubkey_ok delay_reject (put_pubkey q b))" for b q
    unfolding prompt_ext_path_def prompt_path_def
    by (rule host_eff.eff_trans [OF union_kept(3) keepsD [OF host_prompt_screens]], simp)+
  show "eff handler_kept handler_throw a (handle_apdu_get_public_key sdk instruction a)"
    by (auto simp: handle_apdu_get_public_key_def Let_def handler_throwI
        intro!: throw_after union_kept p host_eff.eff_bind keepsD [OF host_derive_pubkey [OF assms]] split: res.split)
qed

lemma host_account_import [keeps_intros]:
  assumes "sdk_quiet sdk"
  shows "keeps handler_kept handler_throw (handle_apdu_account_import sdk)"
proof -
  have "keeps handler_kept handler_throw (prompt_account_import account_import_ok delay_reject)"
    unfolding prompt_account_import_def by (intro keeps_intros) simp
  then show ?thesis
    unfolding handle_apdu_account_import_def [abs_def] Let_def
    by (intro keepsI) (auto simp: handler_throwI intro!: host_eff.eff_bind keepsD [OF host_derive_pubkey [OF assms]] elim: keepsD)
qed

lemma host_small [keeps_intros]:
  "keeps handler_kept handler_throw handle_apdu_version"
  "keeps handler_kept handler_throw (handle_apdu_git commit)"
  "keeps handler_kept handler_throw handle_apdu_error"
  "keeps handler_kept handler_throw (provide_pubkey W)"
  "keeps handler_kept handler_throw (provide_ext_pubkey W cc)"
  unfolding handle_apdu_version_def [abs_def] handle_apdu_git_def [abs_def] handle_apdu_error_def [abs_def]
    provide_pubkey_def [abs_def] provide_ext_pubkey_def [abs_def] Let_def
  by (intro keeps_intros; simp)+

lemma host_wallet_id [keeps_intros]:
  assumes "sdk_quiet sdk"
  shows "keeps handler_kept handler_throw (handle_apdu_get_wallet_id sdk)"
  unfolding handle_apdu_get_wallet_id_def [abs_def] Let_def
  by (intro keeps_intros wipes_with_key_pair assms) simp

section \<open>Commands\<close>

lemma host_process_apdu:
  assumes "sdk_quiet sdk"
  shows "keeps handler_kept handler_throw (process_apdu sdk commit rx)"
proof -
  have "keeps handler_kept handler_throw (run_handler sdk commit instruction)" for instruction
    unfolding run_handler_def [abs_def] handle_apdu_sign_def
    by (intro keeps_intros assms)
  then show ?thesis
    by (auto simp: keeps_def process_apdu_def handler_throwI)
qed

lemma host_perform_signature [keeps_intros]:
  assumes "sdk_quiet sdk"
  shows "keeps handler_kept handler_throw (perform_signature sdk on_hash send_hash)"
  unfolding perform_signature_def [abs_def] Let_def
  by (rule keepsI) (auto intro!: host_eff.eff_bind keepsD [OF host_io_store] keepsD [OF host_clear_sign]
      keepsD [OF host_finalize] keepsD [OF host_sign_into_buffer [OF assms]] split: option.split)

lemma host_message_signatures [keeps_intros]:
  assumes "sdk_quiet sdk"
  shows "keeps handler_kept handler_throw (perform_message_signature sdk)"
    "keeps handler_kept handler_throw (perform_message_hash_signature sdk)"
proof -
  have "eff handler_kept handler_throw a (finalize_successful_send n (clear_message_data a))"
    "eff handler_kept handler_throw a (finalize_successful_send n (clear_message_hash_data a))" for n and a :: "'a globals_t"
    by (rule host_eff.eff_trans [OF union_kept(4) keepsD [OF host_finalize]],
        rule host_eff.eff_trans [OF union_kept(5) keepsD [OF host_finalize]])
  then show "keeps handler_kept handler_throw (perform_message_signature sdk)"
    "keeps handler_kept handler_throw (perform_message_hash_signature sdk)"
    by (auto simp: keeps_def perform_message_signature_def perform_message_hash_signature_def
        intro!: host_eff.eff_bind keepsD [OF host_sign_into_buffer [OF assms]] split: option.split)
qed

end
