(* ===== verification/App_Laws.thy ===== *)
theory App_Laws
  imports App_Effects
begin

text \<open>
  Properties of the running application: what holds at every wait in \<open>io_exchange\<close>, whatever
  the host sends and whatever the user presses.
\<close>

section \<open>The invariant\<close>

definition app_inv :: "'h globals_t \<Rightarrow> bool" where
  "app_inv a \<longleftrightarrow> apdu_ok a \<and> buttons_ok a \<and> sizes_ok a"

lemma tx_inv_zero: "tx_inv (sign_ctx zero_sign_state b)"
  by (simp add: tx_inv_def tx_at_def sign_ctx_def zero_sign_state_def apdu_sign_state_t.defs ctx.defs
      live_tx_def zero_parsed_def)

lemma apdu_ok_cleared: "apdu_ok (clear_apdu_globals a)"
  by (auto simp: apdu_ok_def clear_apdu_globals_def sign_inv_def live_sign_def no_secrets_def
      zero_key_mem_def tx_inv_zero)

lemma io_store_frame:
  "io_store i bs a = Ok () a' \<Longrightarrow> \<exists>b. a' = a\<lparr>G_io_apdu_buffer := b\<rparr> \<and> length b = length (G_io_apdu_buffer a)"
  by (auto simp: io_store_def split: if_splits)

lemma apdu_ok_frame:
  "apdu_u a' = apdu_u a \<Longrightarrow> apdu_priv a' = apdu_priv a \<Longrightarrow> apdu_ok a' = apdu_ok a"
  by (simp add: apdu_ok_def sign_inv_def live_sign_def tx_inv_sign_ctx [of _ a' a])

lemma app_inv_frame [simp]:
  "app_inv (a\<lparr>waiting := w\<rparr>) = app_inv a"
  "app_inv (a\<lparr>sent := l\<rparr>) = app_inv a" "app_inv (a\<lparr>N_data := d\<rparr>) = app_inv a"
  by (simp_all add: app_inv_def buttons_ok_def sizes_ok_def apdu_ok_def sign_inv_def live_sign_def
      tx_inv_sign_ctx [of _ "a\<lparr>waiting := w\<rparr>" a]
      tx_inv_sign_ctx [of _ "a\<lparr>sent := l\<rparr>" a] tx_inv_sign_ctx [of _ "a\<lparr>N_data := d\<rparr>" a])

lemma app_inv_flow [simp]: "app_inv a \<Longrightarrow> fl \<noteq> Flow_prompts \<Longrightarrow> app_inv (a\<lparr>flow := fl\<rparr>)"
  by (simp add: app_inv_def buttons_ok_def sizes_ok_def apdu_ok_def sign_inv_def live_sign_def
      tx_inv_sign_ctx [of _ "a\<lparr>flow := fl\<rparr>" a])

lemma catch_main_inv:
  assumes "action_throw e a a1" "app_inv a" "catch_main e a1 = Ok () a'"
  shows "waiting a' = Exited \<or> app_inv a'"
proof (cases "e = ASYNC_EXCEPTION \<or> e = EXCEPTION_IO_RESET")
  case True
  moreover have "app_inv a1" if "e = ASYNC_EXCEPTION"
    using assms(1,2) that by (simp add: action_throw_def frame_kept_def app_inv_def)
  ultimately show ?thesis
    using assms(3) by (auto simp: catch_main_def Let_def split: if_splits)
next
  case False
  obtain b a2 where "io_store 0 b (clear_apdu_globals (a1\<lparr>waiting := Outside_try\<rparr>)) = Ok () a2"
      "delayed_send 2 a2 = Ok () a'"
    using False assms(3) by (auto simp: catch_main_def Let_def res_bind_eq_Ok)
  then obtain c where c: "a' = clear_apdu_globals (a1\<lparr>waiting := Outside_try\<rparr>)\<lparr>G_io_apdu_buffer := c,
      sent := sent a1 @ [take 2 c]\<rparr>" "length c = length (G_io_apdu_buffer a1)"
    by (auto dest!: io_store_frame simp: delayed_send_def clear_apdu_globals_def)
  have "apdu_ok a'" using apdu_ok_cleared [of a1] apdu_ok_frame [of a' "clear_apdu_globals a1"] c
    by (simp add: clear_apdu_globals_def)
  then show ?thesis
    using c assms(1,2) by (auto simp: app_inv_def action_throw_def frame_kept_def buttons_ok_def sizes_ok_def
        clear_apdu_globals_def)
qed

lemma handler_kept_inv: "handler_kept a a' \<Longrightarrow> app_inv a \<Longrightarrow> app_inv a'"
  by (simp add: handler_kept_def frame_kept_def app_inv_def)

text \<open>An action of the user runs as a command does, and may end with a response.\<close>

definition action_ok :: "'h globals_t act \<Rightarrow> bool" where
  "action_ok m \<longleftrightarrow> (\<forall>a. app_inv a \<longrightarrow> (case m a of
     Ok _ a' \<Rightarrow> app_inv a' \<and> waiting a' = waiting a \<and> N_data a' = N_data a
   | Throw e a' \<Rightarrow> action_throw e a a' | Undef \<Rightarrow> True))"

lemma action_command:
  fixes m :: "'a globals_t act"
  assumes "keeps handler_kept handler_throw m"
  shows "action_ok m"
  unfolding action_ok_def
proof (intro allI impI)
  fix a :: "'a globals_t" assume a: "app_inv a"
  show "case m a of Ok _ a' \<Rightarrow> app_inv a' \<and> waiting a' = waiting a \<and> N_data a' = N_data a
    | Throw e a' \<Rightarrow> action_throw e a a' | Undef \<Rightarrow> True"
    using keepsD [OF assms, of a] handler_kept_inv [OF _ a]
    by (cases "m a") (auto simp: handler_kept_def frame_kept_def intro: handler_throw_action)
qed

lemma action_answer:
  "keeps handler_kept handler_throw m \<Longrightarrow> action_ok (\<lambda>a. res_bind (m a) delayed_send)"
proof -
  assume k: "keeps handler_kept handler_throw m"
  show ?thesis unfolding action_ok_def
  proof (intro allI impI)
    fix a :: "'a globals_t" assume a: "app_inv a"
    show "case res_bind (m a) delayed_send of Ok _ a' \<Rightarrow> app_inv a' \<and> waiting a' = waiting a \<and> N_data a' = N_data a
      | Throw e a' \<Rightarrow> action_throw e a a' | Undef \<Rightarrow> True"
      using keepsD [OF k, of a] handler_kept_inv [OF _ a]
      by (cases "m a") (auto simp: delayed_send_def handler_kept_def frame_kept_def intro: handler_throw_action)
  qed
qed

lemma action_inv:
  assumes "action_ok m" "app_inv a" "in_io_exchange m a = Ok () a'"
  shows "waiting a' = Exited \<or> app_inv a'"
  using assms(1) [unfolded action_ok_def, rule_format, OF assms(2)] assms(2,3) catch_main_inv
  by (cases "m a") (auto simp: in_io_exchange_def split: if_splits)

lemma action_ui_callback:
  assumes "sdk_quiet sdk"
  shows "action_ok (run_ui_callback sdk cb)"
proof -
  have pub: "action_ok (\<lambda>a. case live_pubkey a of None \<Rightarrow> Undef | Some p \<Rightarrow> res_bind (f p a) delayed_send)"
    if "\<And>p. keeps handler_kept handler_throw (f p)" for f :: "_ \<Rightarrow> 'a globals_t \<Rightarrow> _"
    using action_answer [OF that] by (auto simp: action_ok_def split: option.split)
  have rej: "action_ok (\<lambda>a :: 'a globals_t. res_bind (m a) (\<lambda>_. delay_reject_send))"
    if "keeps handler_kept handler_throw m" for m
  proof -
    have "keeps handler_kept handler_throw (\<lambda>a. res_bind (m a) (\<lambda>_ a1. res_bind
        (io_store 0 [ucast (drop_bit 8 EXC_REJECT), ucast (EXC_REJECT AND 0xFF)] a1) (\<lambda>_. Ok (2 :: nat))))"
      using that by (intro keeps_intros)
    from action_answer [OF this] show ?thesis by (simp add: delay_reject_send_def [abs_def] res_bind_assoc)
  qed
  have d: "action_ok (delay_reject_send :: 'a globals_t act)"
    using rej [of "\<lambda>a. Ok () a"] by (simp add: keeps_def)
  show ?thesis
    using action_answer [OF host_perform_signature [OF assms]] action_answer [OF host_message_signatures(1) [OF assms]]
      action_answer [OF host_message_signatures(2) [OF assms]] rej [OF host_clear_sign] d
      pub [of "\<lambda>p. provide_pubkey (ext_public_key_W p)"] pub [of "\<lambda>p. provide_ext_pubkey (ext_public_key_W p) (ext_public_key_chain_code p)"]
    by (cases cb) (simp_all add: run_ui_callback_def [abs_def] host_small)
qed

lemma host_event:
  assumes "sdk_quiet sdk"
  shows "main_iteration sdk commit rx a = Ok () a' \<Longrightarrow> app_inv a \<Longrightarrow> waiting a' = Exited \<or> app_inv a'"
  using keepsD [OF host_process_apdu [OF assms, of commit rx], of a] handler_kept_inv [of a] catch_main_inv [OF handler_throw_action, of _ a]
  by (cases "process_apdu sdk commit rx a") (auto simp: main_iteration_def delayed_send_def)

lemma action_prompt_response:
  assumes "sdk_quiet sdk"
  shows "action_ok (prompt_response sdk accepted)"
  unfolding action_ok_def
proof (intro allI impI)
  fix a :: "'a globals_t" assume a: "app_inv a"
  let ?a1 = "a\<lparr>flow := Flow_idle\<rparr>"
  have k: "action_throw e a a'" if "action_throw e ?a1 a'" for e a'
    using that a app_inv_flow [OF a, of Flow_idle] by (auto simp: action_throw_def frame_kept_def app_inv_def)
  have r: "case run_ui_callback sdk cb ?a1 of Ok _ a' \<Rightarrow> app_inv a' \<and> waiting a' = waiting a \<and> N_data a' = N_data a
    | Throw e a' \<Rightarrow> action_throw e a a' | Undef \<Rightarrow> True" for cb
    using action_ui_callback [OF assms, of cb, unfolded action_ok_def, rule_format, of ?a1] a k
    by (auto split: res.splits)
  show "case prompt_response sdk accepted a of Ok _ a' \<Rightarrow> app_inv a' \<and> waiting a' = waiting a \<and> N_data a' = N_data a
    | Throw e a' \<Rightarrow> action_throw e a a' | Undef \<Rightarrow> True"
    using r by (auto simp: prompt_response_def Let_def split: option.split)
qed

lemma action_show_screen: "action_ok (run_switch_screen which)"
proof (intro action_command keepsI)
  fix b :: "'b globals_t"
  show "eff handler_kept handler_throw b (run_switch_screen which b)"
    using keepsD [OF screen_run [of which], of b] ui_only_handler [of b]
    by (cases "run_switch_screen which b")
      (auto simp: screen_only_def buttons_ok_def prompt_kept_def intro!: throw_after)
qed

lemma recv_inv:
  assumes "app_inv a" "length apdu \<le> IO_APDU_BUFFER_SIZE"
  shows "app_inv (a\<lparr>G_io_apdu_buffer := mem_write (G_io_apdu_buffer a) 0 apdu\<rparr>)"
  using handler_kept_inv [OF _ assms(1)] keepsD [OF host_io_store [of 0 apdu], of a] assms
  by (simp add: io_store_def app_inv_def [of a] sizes_ok_def [of a] IO_APDU_BUFFER_SIZE_def)

lemma app_event_inv:
  assumes "sdk_quiet sdk" "app_inv a" "app_event sdk commit ev a = Ok () a'"
  shows "waiting a' = Exited \<or> app_inv a'"
  using assms(2,3) host_event [OF assms(1) _ recv_inv] action_inv [OF action_prompt_response [OF assms(1)]]
    action_inv [OF action_show_screen, of a]
  by (cases ev) (auto split: if_splits)

lemma app_inv_start: "app_inv (app_main nv)"
proof -
  have "apdu_ok (init_globals nv' :: 'a globals_t)" for nv'
    by (auto simp: apdu_ok_def init_globals_def sign_inv_def live_sign_def no_secrets_def zero_key_mem_def tx_inv_zero)
  then show ?thesis by (simp add: app_inv_def app_main_def buttons_ok_def sizes_ok_def init_globals_def)
qed

lemma reachable_inv:
  assumes "sdk_quiet sdk" "app_reachable sdk commit nv a"
  shows "waiting a = Exited \<or> app_inv a"
  using assms(2)
proof (induction rule: app_reachable.induct)
  case start
  then show ?case by (simp add: app_inv_start)
next
  case (step a ev a')
  then show ?case using app_event_inv [OF assms(1)] by (auto elim!: app_step.cases)
qed

section \<open>Settings\<close>

lemma catch_main_settings: "catch_main e a1 = Ok () a' \<Longrightarrow> N_data a' = N_data a1"
  by (auto simp: catch_main_def Let_def res_bind_eq_Ok delayed_send_def clear_apdu_globals_def
      dest!: io_store_frame split: if_splits)

lemma action_settings:
  assumes "action_ok m" "app_inv a" "in_io_exchange m a = Ok () a'"
  shows "N_data a' = N_data a"
  using assms(1) [unfolded action_ok_def, rule_format, OF assms(2)] assms(3)
  by (cases "m a") (auto simp: in_io_exchange_def action_throw_def frame_kept_def
      dest!: catch_main_settings split: if_splits)

lemma iteration_settings:
  assumes "sdk_quiet sdk" "main_iteration sdk commit rx a = Ok () a'"
  shows "N_data a' = N_data a"
  using keepsD [OF host_process_apdu [OF assms(1), of commit rx], of a] assms(2)
  by (cases "process_apdu sdk commit rx a")
    (auto simp: main_iteration_def delayed_send_def handler_kept_def handler_throw_def frame_kept_def
      dest!: catch_main_settings)

text \<open>
  C12. The host cannot change the settings: a step that is not one of the three switches of the
  configuration menu leaves them alone, whatever the APDU.
\<close>

theorem settings_only_by_menu:
  assumes "sdk_quiet sdk" "app_reachable sdk commit nv a" "app_step sdk commit a ev a'"
    "ev \<notin> {Toggle_network, Toggle_sign_hash, Toggle_contract_data}"
  shows "N_data a' = N_data a"
proof -
  have "app_inv a" and e: "app_event sdk commit ev a = Ok () a'"
    using reachable_inv [OF assms(1,2)] assms(3) by (auto elim: app_step.cases)
  then show ?thesis
    using assms(4) iteration_settings [OF assms(1), of commit] action_settings [OF action_show_screen, of a]
      action_settings [OF action_prompt_response [OF assms(1)], of a]
    by (cases ev) (auto dest!: iteration_settings [OF assms(1)] split: if_splits)
qed

text \<open>The state after a request for the version.\<close>

definition demo_started :: "u8 list globals_t" where
  "demo_started = app_main blank_nvram"

definition demo_version :: "u8 list globals_t" where
  "demo_version = demo_started\<lparr>G_io_apdu_buffer := [0, 5, 5, 0x90, 0] @ zeros 255, waiting := In_try,
     sent := [[0, 5, 5, 0x90, 0]]\<rparr>"

lemma demo_quiet: "sdk_quiet demo_sdk"
  by (simp add: sdk_quiet_def demo_sdk_def)

lemma demo_step: "app_step demo_sdk [] demo_started (Recv [0x80, 0, 0, 0, 0]) demo_version"
  by (rule app_step.intros)
    (simp_all add: demo_started_def demo_version_def app_main_def init_globals_def IO_APDU_BUFFER_SIZE_def
      main_iteration_def process_apdu_def OFFSET_CLA_def OFFSET_INS_def OFFSET_LC_def OFFSET_CDATA_def CLA_def run_handler_def
      handlers_size_def INS_MAX_def handle_apdu_version_def io_store_def version_bytes_def
      finalize_successful_send_def delayed_send_def mem_write_def zeros_def numeral_eq_Suc)

lemma settings_only_by_menu_witness: "N_data demo_version = N_data demo_started"
  by (rule settings_only_by_menu [OF demo_quiet app_reachable.start demo_step [unfolded demo_started_def], folded demo_started_def]) simp

end
