(* ===== verification/Authorisation.thy ===== *)
theory Authorisation
  imports App_Laws
begin

text \<open>
  Only the accept button makes the device sign: everything else is the same function whatever
  the signature primitive of the SDK does, hence never uses it.
\<close>

section \<open>Code that does not sign\<close>

named_theorems no_sign \<open>functions that do not depend on the signature primitive\<close>

lemmas all_congs = if_cong option.case_cong sum.case_cong res.case_cong

lemma no_sign_hash [no_sign]:
  "blake2b_incremental_hash (sdk\<lparr>sdk_ecdsa_sign := f\<rparr>) = blake2b_incremental_hash sdk"
  "blake2b_finish_hash (sdk\<lparr>sdk_ecdsa_sign := f\<rparr>) = blake2b_finish_hash sdk"
  "generate_lock_arg_for_pubkey (sdk\<lparr>sdk_ecdsa_sign := f\<rparr>) = generate_lock_arg_for_pubkey sdk"
  "generate_extended_key_pair_return_global (sdk\<lparr>sdk_ecdsa_sign := f\<rparr>) =
     generate_extended_key_pair_return_global sdk"
  by (simp_all add: fun_eq_iff blake2b_incremental_hash_def blake2b_finish_hash_def
      conditional_init_hash_state_def generate_lock_arg_for_pubkey_def Let_def
      generate_extended_key_pair_return_global_def cong: all_congs)

lemma no_sign_keys [no_sign]:
  "generate_public_key (sdk\<lparr>sdk_ecdsa_sign := f\<rparr>) = generate_public_key sdk"
  "generate_extended_public_key (sdk\<lparr>sdk_ecdsa_sign := f\<rparr>) = generate_extended_public_key sdk"
  "WITH_KEY_PAIR (sdk\<lparr>sdk_ecdsa_sign := f\<rparr>) = WITH_KEY_PAIR sdk"
  by (simp_all add: fun_eq_iff generate_public_key_def generate_extended_public_key_def WITH_KEY_PAIR_def
      no_sign Let_def cong: all_congs)

lemma no_sign_prep [no_sign]: "prep_lock_arg (sdk\<lparr>sdk_ecdsa_sign := f\<rparr>) = prep_lock_arg sdk"
  by (simp add: fun_eq_iff prep_lock_arg_def no_sign Let_def cong: all_congs)

lemma no_sign_chunk [no_sign]:
  "blake2b_chunk (sdk\<lparr>sdk_ecdsa_sign := f\<rparr>) = blake2b_chunk sdk"
  by (simp add: fun_eq_iff blake2b_chunk_def no_sign Let_def cong: all_congs)

lemma no_sign_callbacks [no_sign]:
  "context_blake2b_chunk (sdk\<lparr>sdk_ecdsa_sign := f\<rparr>) = context_blake2b_chunk sdk"
  "finish_context_txn (sdk\<lparr>sdk_ecdsa_sign := f\<rparr>) = finish_context_txn sdk"
  "blake2b_input_count (sdk\<lparr>sdk_ecdsa_sign := f\<rparr>) = blake2b_input_count sdk"
  "computeNewOffsetsToHash (sdk\<lparr>sdk_ecdsa_sign := f\<rparr>) = computeNewOffsetsToHash sdk"
  "finalize_raw_transaction (sdk\<lparr>sdk_ecdsa_sign := f\<rparr>) = finalize_raw_transaction sdk"
  "set_sign_path (sdk\<lparr>sdk_ecdsa_sign := f\<rparr>) = set_sign_path sdk"
  "set_change_path (sdk\<lparr>sdk_ecdsa_sign := f\<rparr>) = set_change_path sdk"
  "witness_offsets (sdk\<lparr>sdk_ecdsa_sign := f\<rparr>) = witness_offsets sdk"
  "witness_lock_arg_size (sdk\<lparr>sdk_ecdsa_sign := f\<rparr>) = witness_lock_arg_size sdk"
  "witness_lock_arg_body_chunk (sdk\<lparr>sdk_ecdsa_sign := f\<rparr>) = witness_lock_arg_body_chunk sdk"
  "hash_witness_length (sdk\<lparr>sdk_ecdsa_sign := f\<rparr>) = hash_witness_length sdk"
  "restart_hash (sdk\<lparr>sdk_ecdsa_sign := f\<rparr>) = restart_hash sdk"
  "finalize_witnesses (sdk\<lparr>sdk_ecdsa_sign := f\<rparr>) = finalize_witnesses sdk"
  by (simp_all add: fun_eq_iff context_blake2b_chunk_def finish_context_txn_def blake2b_input_count_def
      computeNewOffsetsToHash_def finalize_raw_transaction_def set_sign_path_def set_change_path_def
      witness_offsets_def witness_lock_arg_size_def witness_lock_arg_body_chunk_def hash_witness_length_def
      restart_hash_def finalize_witnesses_def no_sign Let_def cong: all_congs)

lemma no_sign_witness_callbacks [no_sign]:
  "WitnessArgs_rewrite_callbacks (sdk\<lparr>sdk_ecdsa_sign := f\<rparr>) = WitnessArgs_rewrite_callbacks sdk"
  by (simp add: WitnessArgs_rewrite_callbacks_def no_sign Let_def cong: all_congs)

lemma no_sign_witnesses [no_sign]:
  "begin_witness (sdk\<lparr>sdk_ecdsa_sign := f\<rparr>) = begin_witness sdk"
  "process_witness (sdk\<lparr>sdk_ecdsa_sign := f\<rparr>) = process_witness sdk"
  "process_witness_end (sdk\<lparr>sdk_ecdsa_sign := f\<rparr>) = process_witness_end sdk"
  by (simp_all add: fun_eq_iff begin_witness_def process_witness_def process_witness_end_def no_sign Let_def cong: all_congs)

lemma no_sign_tables [no_sign]:
  "annotatedCellInput_callbacks (sdk\<lparr>sdk_ecdsa_sign := f\<rparr>) = annotatedCellInput_callbacks sdk"
  "AnnotatedRawTransaction_sign_callbacks (sdk\<lparr>sdk_ecdsa_sign := f\<rparr>) = AnnotatedRawTransaction_sign_callbacks sdk"
  "annotatedTransaction_callbacks (sdk\<lparr>sdk_ecdsa_sign := f\<rparr>) = annotatedTransaction_callbacks sdk"
  by (simp_all add: annotatedCellInput_callbacks_def AnnotatedRawTransaction_sign_callbacks_def
      annotatedTransaction_callbacks_def no_sign Let_def cong: all_congs)

section \<open>Commands\<close>

lemma no_sign_handlers [no_sign]:
  "next_packet (sdk\<lparr>sdk_ecdsa_sign := f\<rparr>) = next_packet sdk"
  "init_parser (sdk\<lparr>sdk_ecdsa_sign := f\<rparr>) = init_parser sdk"
  "message_next (sdk\<lparr>sdk_ecdsa_sign := f\<rparr>) = message_next sdk"
  "derive_pubkey (sdk\<lparr>sdk_ecdsa_sign := f\<rparr>) = derive_pubkey sdk"
  "handle_apdu_get_wallet_id (sdk\<lparr>sdk_ecdsa_sign := f\<rparr>) = handle_apdu_get_wallet_id sdk"
  by (simp_all add: fun_eq_iff next_packet_def parse_packet_def init_parser_def message_next_def
      derive_pubkey_def handle_apdu_get_wallet_id_def no_sign Let_def cong: all_congs)

lemma no_sign_commands [no_sign]:
  "handle_apdu_sign (sdk\<lparr>sdk_ecdsa_sign := f\<rparr>) = handle_apdu_sign sdk"
  "handle_apdu_get_public_key (sdk\<lparr>sdk_ecdsa_sign := f\<rparr>) = handle_apdu_get_public_key sdk"
  "handle_apdu_account_import (sdk\<lparr>sdk_ecdsa_sign := f\<rparr>) = handle_apdu_account_import sdk"
  "handle_apdu_sign_message_impl (sdk\<lparr>sdk_ecdsa_sign := f\<rparr>) = handle_apdu_sign_message_impl sdk"
  by (simp_all add: fun_eq_iff handle_apdu_sign_def handle_apdu_def handle_apdu_get_public_key_def
      handle_apdu_account_import_def handle_apdu_sign_message_impl_def no_sign Let_def cong: all_congs)

lemma no_sign_apdu: "process_apdu (sdk\<lparr>sdk_ecdsa_sign := f\<rparr>) = process_apdu sdk"
  by (simp add: fun_eq_iff process_apdu_def run_handler_def no_sign Let_def cong: all_congs)

lemma no_sign_cancel:
  "buttons_ok a \<Longrightarrow> prompt_response (sdk\<lparr>sdk_ecdsa_sign := f\<rparr>) False a = prompt_response sdk False a"
  by (auto simp: prompt_response_def run_ui_callback_def buttons_ok_def)

text \<open>
  The APDUs that pass all checks of \<open>main_loop\<close> and name an instruction behind the table of
  handlers. The code calls whatever lies there, first of all the function of the accept button;
  the model leaves their behaviour open.
\<close>

definition calls_behind_table :: "u8 list \<Rightarrow> bool" where
  "calls_behind_table apdu \<longleftrightarrow> 5 \<le> length apdu \<and> apdu ! OFFSET_CLA = CLA \<and>
     length apdu = unat (apdu ! OFFSET_LC) + OFFSET_CDATA \<and>
     INS_MAX < unat (apdu ! OFFSET_INS) \<and> unat (apdu ! OFFSET_INS) < handlers_size"

fun in_table :: "event \<Rightarrow> bool" where
  "in_table (Recv apdu) = (\<not> calls_behind_table apdu)"
| "in_table ev = True"

text \<open>
  C2. Without the accept button nothing is ever signed, APDUs with an instruction from 10 to 39
  apart (these do reach the function of the accept button, see C37): at every reachable wait,
  any other event has the same effect whatever the signature primitive does, so it does not use
  it. What the code leaves undefined in such an event is undefined whatever the primitive does.
\<close>

theorem signing_needs_accept:
  assumes "sdk_quiet sdk" "app_reachable sdk commit nv a" "waiting a \<noteq> Exited" "ev \<noteq> Accept" "in_table ev"
  shows "app_event (sdk\<lparr>sdk_ecdsa_sign := f\<rparr>) commit ev a = app_event sdk commit ev a"
proof -
  have c: "buttons_ok a" using reachable_inv [OF assms(1,2)] assms(3) by (simp add: app_inv_def)
  have "in_io_exchange (prompt_response (sdk\<lparr>sdk_ecdsa_sign := f\<rparr>) False) a =
      in_io_exchange (prompt_response sdk False) a"
    by (simp add: in_io_exchange_def no_sign_cancel [OF c])
  then show ?thesis
    using assms(4) by (cases ev) (simp_all add: main_iteration_def no_sign_apdu)
qed

lemma signing_needs_accept_witness:
  "app_event (demo_sdk\<lparr>sdk_ecdsa_sign := \<lambda>_ _. Inl EXC_SECURITY\<rparr>) [] (Recv [0x80, 7, 0x80, 0, 2, 1, 2]) demo_version =
    app_event demo_sdk [] (Recv [0x80, 7, 0x80, 0, 2, 1, 2]) demo_version"
  by (rule signing_needs_accept [OF demo_quiet app_reachable.step [OF app_reachable.start]])
    (rule demo_step [unfolded demo_started_def], simp_all add: demo_version_def calls_behind_table_def
      OFFSET_INS_def INS_MAX_def)

end
