(* ===== verification/Command_Laws.thy ===== *)
theory Command_Laws
  imports Authorisation
begin

text \<open>
  Properties of commands: what holds at every wait for the host, the one response to each APDU,
  the status words of errors, and the two buttons.
\<close>

section \<open>At every wait\<close>

text \<open>
  C9. Whenever the application waits for the host or the user, no private key, chain code or
  seed is left in the global key memory.
\<close>

theorem secrets_wiped_at_wait:
  assumes "sdk_quiet sdk" "app_reachable sdk commit nv a" "waiting a \<noteq> Exited"
  shows "no_secrets (apdu_priv a)"
  using reachable_inv [OF assms(1,2)] assms(3) by (simp add: app_inv_def apdu_ok_def)

text \<open>The state after a request to import account 0: its prompt is up.\<close>

definition import_apdu :: "u8 list" where
  "import_apdu = [0x80, 5, 0, 0, 4, 0, 0, 0, 0]"

definition demo_importing :: "u8 list globals_t" where
  "demo_importing = (case app_event demo_sdk [] (Recv import_apdu) demo_started of
     Ok _ a \<Rightarrow> a | _ \<Rightarrow> demo_started)"

lemma demo_importing_step:
  "app_event demo_sdk [] (Recv import_apdu) demo_started = Ok () demo_importing"
  "flow demo_importing = Flow_prompts" "waiting demo_importing = Outside_try" "sent demo_importing = []"
  by code_simp+

lemma demo_started_waiting: "waiting demo_started \<noteq> Exited"
  by (simp add: demo_started_def app_main_def init_globals_def)

lemmas demo_importing_app_step = app_step.intros [OF demo_started_waiting demo_importing_step(1)]

lemma demo_started_reachable: "app_reachable demo_sdk [] blank_nvram demo_started"
  unfolding demo_started_def by (rule app_reachable.start)

lemmas demo_importing_reachable = app_reachable.step [OF demo_started_reachable demo_importing_app_step]

lemma secrets_wiped_at_wait_witness: "no_secrets (apdu_priv demo_importing)"
  by (rule secrets_wiped_at_wait [OF demo_quiet demo_importing_reachable]) (simp add: demo_importing_step)

text \<open>
  C14. While a prompt is on display both buttons have a callback, so neither calls a null pointer,
  and the one of the reject button is one that only rejects.
\<close>

theorem prompt_answerable:
  assumes "sdk_quiet sdk" "app_reachable sdk commit nv a" "waiting a \<noteq> Exited" "flow a = Flow_prompts"
  shows "ok_callback a \<noteq> None \<and> (cxl_callback a = Some sign_reject \<or> cxl_callback a = Some delay_reject)"
  using reachable_inv [OF assms(1,2)] assms(3,4) by (auto simp: app_inv_def buttons_ok_def)

lemma prompt_answerable_witness:
  "ok_callback demo_importing \<noteq> None \<and>
    (cxl_callback demo_importing = Some sign_reject \<or> cxl_callback demo_importing = Some delay_reject)"
  by (rule prompt_answerable [OF demo_quiet demo_importing_reachable]) (simp_all add: demo_importing_step)

text \<open>
  C8. Whatever the host has sent, the table of outputs holds at most five entries, the unused ones
  no amount, and more than one entry only in a transfer with several outputs, whose entries add
  up to the total sent.
\<close>

theorem outputs_accounted:
  assumes "sdk_quiet sdk" "app_reachable sdk commit nv a" "waiting a \<noteq> Exited"
    "live_sign a = Some s" "live_tx (sign_ctx s a) = Some t"
  shows "length (outputs t) = 5 \<and> unat (output_count t) \<le> 5 \<and>
    (\<forall>i. unat (output_count t) \<le> i \<longrightarrow> i < 5 \<longrightarrow> out_capacity (outputs t ! i) = 0) \<and>
    (1 < unat (output_count t) \<longrightarrow> tag (parsed s) = OPERATION_TAG_MULTI_OUTPUT_TRANSFER \<or>
       tag (parsed s) = OPERATION_TAG_NONE) \<and>
    (tag (parsed s) = OPERATION_TAG_MULTI_OUTPUT_TRANSFER \<longrightarrow>
       plain_output_amount t = sum_list (map out_capacity (outputs t)))"
proof -
  have i: "tx_inv (sign_ctx s a)"
    using reachable_inv [OF assms(1,2)] assms(3,4) by (simp add: app_inv_def apdu_ok_def sign_inv_def)
  have p: "parsed (sign_ctx s a) = parsed s"
    by (cases s) (simp add: sign_ctx_def apdu_sign_state_t.defs)
  have t: "tx_at (sign_ctx s a) t"
    and m: "tag (parsed s) = OPERATION_TAG_MULTI_OUTPUT_TRANSFER \<Longrightarrow> has_flag HAS_DESTINATION_ADDRESS (sign_ctx s a)"
    using i assms(5) p unfolding tx_inv_def by auto
  then have o': "length (outputs t) = 5" "unat (output_count t) \<le> 5"
    "\<forall>x\<in>set (drop (unat (output_count t)) (outputs t)). out_capacity x = 0"
    by (simp_all add: tx_at_def tx_ok_def MAX_OUTPUTS_def)
  have unused: "out_capacity (outputs t ! i) = 0" if "unat (output_count t) \<le> i" "i < 5" for i
  proof -
    have "drop (unat (output_count t)) (outputs t) ! (i - unat (output_count t)) \<in> set (drop (unat (output_count t)) (outputs t))"
      using that o'(1) by (intro nth_mem) simp
    then show ?thesis using o'(1,3) that by simp
  qed
  have several: "unat (output_count t) \<le> 1 \<or> tag (parsed s) = OPERATION_TAG_MULTI_OUTPUT_TRANSFER \<or>
      tag (parsed s) = OPERATION_TAG_NONE"
    using t p unfolding tx_at_def by simp
  have total: "plain_output_amount t = sum_list (map out_capacity (outputs t))"
    if "tag (parsed s) = OPERATION_TAG_MULTI_OUTPUT_TRANSFER"
    using t m [OF that] unfolding tx_at_def outputs_total_def by blast
  show ?thesis using o'(1,2) unused several total by auto
qed

text \<open>The state after the first eight bytes of a transaction.\<close>

definition packet_apdu :: "u8 list" where
  "packet_apdu = [0x80, 3, 0, 0, 8, 100, 0, 0, 0, 24, 0, 0, 0]"

definition demo_parsing :: "u8 list globals_t" where
  "demo_parsing = (case app_event demo_sdk [] (Recv packet_apdu) demo_started of
     Ok _ a \<Rightarrow> a | _ \<Rightarrow> demo_started)"

lemma demo_parsing_runs:
  "case app_event demo_sdk [] (Recv packet_apdu) demo_started of
     Ok _ a \<Rightarrow> waiting a = In_try \<and> (case live_sign a of None \<Rightarrow> False
       | Some s \<Rightarrow> (case live_tx (sign_ctx s a) of None \<Rightarrow> False | Some t \<Rightarrow> True))
   | _ \<Rightarrow> False"
  by code_simp

lemma demo_parsing_step:
  "app_event demo_sdk [] (Recv packet_apdu) demo_started = Ok () demo_parsing"
  "waiting demo_parsing = In_try"
  "\<exists>s t. live_sign demo_parsing = Some s \<and> live_tx (sign_ctx s demo_parsing) = Some t"
  using demo_parsing_runs
  by (auto simp: demo_parsing_def split: res.splits option.splits simp del: app_event.simps)

lemmas demo_parsing_reachable = app_reachable.step [OF demo_started_reachable
  app_step.intros [OF demo_started_waiting demo_parsing_step(1)]]

lemma outputs_accounted_witness:
  "\<exists>s t. live_sign demo_parsing = Some s \<and> live_tx (sign_ctx s demo_parsing) = Some t \<and>
     length (outputs t) = 5 \<and> unat (output_count t) \<le> 5"
proof -
  obtain s t where st: "live_sign demo_parsing = Some s" "live_tx (sign_ctx s demo_parsing) = Some t"
    using demo_parsing_step(3) by blast
  then show ?thesis
    using outputs_accounted [OF demo_quiet demo_parsing_reachable _ st] by (simp add: demo_parsing_step(2))
qed

section \<open>Responses\<close>

text \<open>The two bytes of a status word.\<close>

definition response_of :: "u16 \<Rightarrow> u8 list" where
  "response_of e = [ucast (drop_bit 8 e), ucast e]"

lemma catch_main_error:
  assumes "e \<noteq> ASYNC_EXCEPTION" "e \<noteq> EXCEPTION_IO_RESET" "sizes_ok a1"
  shows "\<exists>a'. catch_main e a1 = Ok () a' \<and> sent a' = sent a1 @ [response_of (status_word e)] \<and>
    apdu_u a' = Apdu_cleared \<and> apdu_priv a' = zero_key_mem \<and> N_data a' = N_data a1 \<and>
    waiting a' = Outside_try \<and> flow a' = flow a1 \<and> ok_callback a' = ok_callback a1 \<and> sizes_ok a'"
  using assms
  by (simp add: catch_main_def Let_def io_store_def clear_apdu_globals_def delayed_send_def sizes_ok_def
      mem_write_def response_of_def)

text \<open>The state in which a received APDU is processed.\<close>

definition received :: "u8 list \<Rightarrow> 'h globals_t \<Rightarrow> 'h globals_t" where
  "received apdu a = a\<lparr>G_io_apdu_buffer := mem_write (G_io_apdu_buffer a) 0 apdu\<rparr>"

lemma received_effect:
  assumes "sdk_quiet sdk" "app_reachable sdk commit nv a" "waiting a \<noteq> Exited" "length apdu \<le> 260"
  shows "app_inv (received apdu a)"
    "eff handler_kept handler_throw (received apdu a) (process_apdu sdk commit (length apdu) (received apdu a))"
  using reachable_inv [OF assms(1,2)] assms(3,4) recv_inv [of a apdu]
    keepsD [OF host_process_apdu [OF assms(1), of commit "length apdu"], of "received apdu a"]
  by (simp_all add: received_def IO_APDU_BUFFER_SIZE_def)



text \<open>
  C10. Every defined step an APDU of at most 260 bytes causes at a reachable wait sends exactly
  one response, unless the APDU is put to the user: then nothing is sent, a prompt is on display
  and both buttons have a callback. The only other outcome is the reset of the application by
  the SDK, without a response. (Not every APDU has a defined step: C37 tells which instructions
  have none.)
\<close>

theorem one_response:
  assumes "sdk_quiet sdk" "app_reachable sdk commit nv a" "app_step sdk commit a (Recv apdu) a'"
    "length apdu \<le> 260"
  shows "(waiting a' = Exited \<and> sent a' = sent a) \<or> (\<exists>r. sent a' = sent a @ [r]) \<or>
    sent a' = sent a \<and> flow a' = Flow_prompts \<and> ok_callback a' \<noteq> None \<and> cxl_callback a' \<noteq> None"
proof -
  have w: "waiting a \<noteq> Exited" and s: "main_iteration sdk commit (length apdu) (received apdu a) = Ok () a'"
    using assms(3,4) by (auto elim!: app_step.cases simp: IO_APDU_BUFFER_SIZE_def received_def)
  note e = received_effect [OF assms(1,2) w assms(4)]
  have sent: "sent (received apdu a) = sent a" by (simp add: received_def)
  show ?thesis
  proof (cases "process_apdu sdk commit (length apdu) (received apdu a)")
    case (Ok tx a1)
    then show ?thesis using s e sent
      by (auto simp: main_iteration_def delayed_send_def handler_kept_def frame_kept_def)
  next
    case (Throw x a1)
    have k: "frame_kept (received apdu a) a1" "x = ASYNC_EXCEPTION \<Longrightarrow> flow a1 = Flow_prompts"
      using e Throw by (simp_all add: handler_throw_def)
    then have "buttons_ok a1" "sizes_ok a1" "sent a1 = sent a"
      using e(1) sent by (simp_all add: frame_kept_def app_inv_def)
    with k(2) catch_main_error [of x a1] s Throw show ?thesis
      by (cases "x = ASYNC_EXCEPTION"; cases "x = EXCEPTION_IO_RESET")
        (auto simp: main_iteration_def catch_main_def buttons_ok_def)
  qed (use s in \<open>simp add: main_iteration_def\<close>)
qed

lemma one_response_witness:
  "(waiting demo_importing = Exited \<and> sent demo_importing = sent demo_started) \<or>
    (\<exists>r. sent demo_importing = sent demo_started @ [r]) \<or>
    sent demo_importing = sent demo_started \<and> flow demo_importing = Flow_prompts \<and>
    ok_callback demo_importing \<noteq> None \<and> cxl_callback demo_importing \<noteq> None"
  by (rule one_response [OF demo_quiet demo_started_reachable demo_importing_app_step]) (simp add: import_apdu_def)

section \<open>Which commands are looked at\<close>

text \<open>
  The refusals of \<open>main_loop\<close> by the bytes on the wire: no bytes, another class, a length that is
  not the announced one, an instruction the table has no handler for.
\<close>

definition refusal :: "u8 list \<Rightarrow> u16 option" where
  "refusal apdu =
     (if apdu = [] then Some EXC_SECURITY
      else if hd apdu \<noteq> 0x80 then Some EXC_CLASS
      else if length apdu < 5 \<or> length apdu \<noteq> 5 + unat (apdu ! 4) then Some EXC_WRONG_LENGTH
      else if apdu ! 1 = 8 \<or> 40 \<le> apdu ! 1 then Some EXC_INVALID_INS
      else None)"

lemma nth_received:
  assumes "length apdu \<le> 260" "sizes_ok a" "i < length apdu"
  shows "G_io_apdu_buffer (received apdu a) ! i = apdu ! i"
  using assms by (simp add: received_def sizes_ok_def mem_write_def nth_append)

lemma no_handler:
  assumes "i = 8 \<or> 40 \<le> i"
  shows "run_handler sdk commit i r = Throw EXC_INVALID_INS r"
  using assms
proof
  assume "40 \<le> i"
  then have "handlers_size \<le> unat i" by (simp add: handlers_size_def INS_MAX_def word_le_nat_alt)
  then show ?thesis by (simp add: run_handler_def handle_apdu_error_def)
qed (simp add: run_handler_def handlers_size_def INS_MAX_def handle_apdu_error_def)

lemma process_received:
  assumes "length apdu \<le> 260" "sizes_ok a" "5 \<le> length apdu" "apdu ! 0 = 0x80"
  shows "process_apdu sdk commit (length apdu) (received apdu a) =
    (if length apdu \<noteq> unat (apdu ! 4) + 5 then Throw EXC_WRONG_LENGTH (received apdu a)
     else run_handler sdk commit (apdu ! 1) (received apdu a))"
  using assms(3,4) nth_received [OF assms(1,2), of 0] nth_received [OF assms(1,2), of 1] nth_received [OF assms(1,2), of 4]
  by (auto simp: process_apdu_def OFFSET_CLA_def CLA_def OFFSET_CDATA_def OFFSET_LC_def OFFSET_INS_def)

lemma refused_process:
  assumes "refusal apdu = Some e" "length apdu \<le> 260" "sizes_ok a"
  shows "process_apdu sdk commit (length apdu) (received apdu a) = Throw e (received apdu a)"
proof (cases "apdu = [] \<or> hd apdu \<noteq> 0x80 \<or> length apdu < 5")
  case True
  then show ?thesis using assms nth_received [OF assms(2,3), of 0]
    by (cases apdu) (auto simp: refusal_def process_apdu_def OFFSET_CLA_def CLA_def OFFSET_CDATA_def split: if_splits)
next
  case False
  then have "5 \<le> length apdu" "apdu ! 0 = 0x80" by (cases apdu; simp)+
  note p = process_received [OF assms(2,3) this, of sdk commit]
  show ?thesis
  proof (cases "length apdu = unat (apdu ! 4) + 5")
    case True
    then have "apdu ! 1 = 8 \<or> 40 \<le> apdu ! 1" "e = EXC_INVALID_INS"
      using assms(1) False by (auto simp: refusal_def split: if_splits)
    then show ?thesis using p True no_handler by simp
  next
    case F: False
    then have "e = EXC_WRONG_LENGTH" using assms(1) False by (auto simp: refusal_def split: if_splits)
    then show ?thesis using p F by simp
  qed
qed

lemma exceptions_of_refusal:
  "refusal apdu = Some e \<Longrightarrow> e \<noteq> ASYNC_EXCEPTION \<and> e \<noteq> EXCEPTION_IO_RESET"
  by (auto simp: refusal_def exception_code_defs EXCEPTION_IO_RESET_def split: if_splits)

lemma refused_event:
  assumes "refusal apdu = Some e" "length apdu \<le> 260" "sizes_ok a"
  shows "\<exists>a'. app_event sdk commit (Recv apdu) a = Ok () a' \<and>
    sent a' = sent a @ [response_of (status_word e)] \<and> apdu_u a' = Apdu_cleared \<and>
    N_data a' = N_data a \<and> flow a' = flow a \<and> ok_callback a' = ok_callback a \<and> sizes_ok a'"
proof -
  have "sizes_ok (received apdu a)" using assms(2,3) by (simp add: received_def sizes_ok_def mem_write_def)
  then obtain a' where "catch_main e (received apdu a) = Ok () a'"
      "sent a' = sent a @ [response_of (status_word e)]" "apdu_u a' = Apdu_cleared" "N_data a' = N_data a"
      "flow a' = flow a" "ok_callback a' = ok_callback a" "sizes_ok a'"
    using catch_main_error [of e "received apdu a"] exceptions_of_refusal [OF assms(1)] by (auto simp: received_def)
  then show ?thesis
    using refused_process [OF assms, of sdk commit] assms(2)
    by (simp add: IO_APDU_BUFFER_SIZE_def main_iteration_def received_def)
qed

text \<open>What the handler of each instruction makes of the received bytes.\<close>

definition handler_results :: "'h sdk \<Rightarrow> u8 list \<Rightarrow> 'h globals_t \<Rightarrow> (nat, 'h globals_t) res list" where
  "handler_results sdk commit r =
     [handle_apdu_version r, handle_apdu_get_wallet_id sdk r, handle_apdu_get_public_key sdk 2 r,
      handle_apdu_sign sdk 3 r, handle_apdu_get_public_key sdk 4 r, handle_apdu_account_import sdk r,
      handle_apdu_sign_message_impl sdk r, handle_apdu_sign_message_hash r, handle_apdu_error r,
      handle_apdu_git commit r]"

text \<open>
  C37. What \<open>main_loop\<close> does with the bytes of an APDU: malformed ones and those with an
  instruction that has no handler are answered with their status word, and the settings and the
  prompt on display stay as they were; the instructions 0 to 7 and 9 run their handler; and the
  check against the size of the table lets the instructions 10 to 39 through, which have no
  handler: what they call is undefined.
\<close>

theorem commands_by_wire:
  assumes "sizes_ok a" "length apdu \<le> 260"
  shows "case refusal apdu of
      Some e \<Rightarrow> \<exists>a'. app_event sdk commit (Recv apdu) a = Ok () a' \<and>
        sent a' = sent a @ [response_of (status_word e)] \<and> apdu_u a' = Apdu_cleared \<and>
        N_data a' = N_data a \<and> flow a' = flow a \<and> ok_callback a' = ok_callback a
    | None \<Rightarrow> 5 \<le> length apdu \<and>
        (if 9 < apdu ! 1 then calls_behind_table apdu \<and> app_event sdk commit (Recv apdu) a = Undef
         else process_apdu sdk commit (length apdu) (received apdu a) =
           handler_results sdk commit (received apdu a) ! unat (apdu ! 1))"
proof (cases "refusal apdu")
  case (Some e)
  from refused_event [OF Some assms(2,1), of sdk commit] show ?thesis
    using Some by (auto simp del: app_event.simps)
next
  case None
  then have w: "5 \<le> length apdu" "apdu ! 0 = 0x80" "length apdu = unat (apdu ! 4) + 5" "apdu ! 1 \<noteq> 8" "apdu ! 1 < 40"
    by (auto simp: refusal_def hd_conv_nth split: if_splits)
  have p: "process_apdu sdk commit (length apdu) (received apdu a) = run_handler sdk commit (apdu ! 1) (received apdu a)"
    using w process_received [OF assms(2,1)] by simp
  show ?thesis
  proof (cases "9 < apdu ! 1")
    case True
    then have r: "INS_MAX < unat (apdu ! 1)" "unat (apdu ! 1) < handlers_size"
      using w(5) by (simp_all add: INS_MAX_def handlers_size_def word_less_nat_alt)
    then have "app_event sdk commit (Recv apdu) a = Undef"
      using p assms(2) by (simp add: IO_APDU_BUFFER_SIZE_def main_iteration_def received_def run_handler_def)
    then show ?thesis using w r True None
      by (simp add: calls_behind_table_def OFFSET_CLA_def CLA_def OFFSET_CDATA_def OFFSET_LC_def OFFSET_INS_def)
  next
    case False
    then have "unat (apdu ! 1) \<in> {0, 1, 2, 3, 4, 5, 6, 7, 9}"
      using w(4) by (auto simp: word_less_nat_alt word_unat_eq_iff)
    then have "apdu ! 1 \<in> {0, 1, 2, 3, 4, 5, 6, 7, 9}" by (auto simp: word_unat_eq_iff)
    then have "run_handler sdk commit (apdu ! 1) (received apdu a) =
        handler_results sdk commit (received apdu a) ! unat (apdu ! 1)"
      by (elim insertE emptyE) (simp_all add: run_handler_def handler_results_def handlers_size_def INS_MAX_def)
    then show ?thesis using w p False None by simp
  qed
qed

lemma commands_by_wire_witness:
  "(\<exists>a'. app_event demo_sdk [] (Recv [0x80, 8, 0, 0, 0]) demo_importing = Ok () a' \<and>
     sent a' = sent demo_importing @ [response_of (status_word EXC_INVALID_INS)] \<and> apdu_u a' = Apdu_cleared \<and>
     N_data a' = N_data demo_importing \<and> flow a' = flow demo_importing \<and> ok_callback a' = ok_callback demo_importing) \<and>
   app_event demo_sdk [] (Recv [0x80, 10, 0, 0, 0]) demo_importing = Undef"
proof
  have s: "sizes_ok demo_importing"
    using reachable_inv [OF demo_quiet demo_importing_reachable] by (simp add: demo_importing_step app_inv_def)
  show "\<exists>a'. app_event demo_sdk [] (Recv [0x80, 8, 0, 0, 0]) demo_importing = Ok () a' \<and>
     sent a' = sent demo_importing @ [response_of (status_word EXC_INVALID_INS)] \<and> apdu_u a' = Apdu_cleared \<and>
     N_data a' = N_data demo_importing \<and> flow a' = flow demo_importing \<and> ok_callback a' = ok_callback demo_importing"
    using commands_by_wire [OF s, of "[0x80, 8, 0, 0, 0]" demo_sdk "[]"] by (simp add: refusal_def del: app_event.simps)
  show "app_event demo_sdk [] (Recv [0x80, 10, 0, 0, 0]) demo_importing = Undef"
    using commands_by_wire [OF s, of "[0x80, 10, 0, 0, 0]" demo_sdk "[]"] by (simp add: refusal_def del: app_event.simps)
qed

end
