(* ===== verification/Prompt_Laws.thy ===== *)
theory Prompt_Laws
  imports Command_Laws
begin

text \<open>
  Properties of prompts: what a prompt installs, and what every screen of an operation reads,
  against a reference text.
\<close>

section \<open>What a prompt installs\<close>

text \<open>The user interface after a prompt with the given screens.\<close>

definition prompted :: "screen_spec list \<Rightarrow> ui_callback_t \<Rightarrow> ui_callback_t \<Rightarrow> 'h globals_t \<Rightarrow> bool" where
  "prompted screens ok_c cxl_c a \<longleftrightarrow> prompts a = map fst screens \<and>
     ok_callback a = Some ok_c \<and> cxl_callback a = Some cxl_c \<and> flow a = Flow_prompts \<and>
     switch_screen_fn a = Some Switch_static \<and> prompt_offset a + length screens = MAX_SCREEN_COUNT \<and>
     (\<forall>i<length screens. ui_callbacks a ! i = Some (snd (screens ! i)))"

lemma register_screens_ui:
  "register_screens i rs a = Ok u a' \<Longrightarrow> i + length rs \<le> 8 \<Longrightarrow> sizes_ok a \<Longrightarrow>
   ui_only a a' \<and> length (ui_callbacks a') = 8 \<and>
   (\<forall>k<length rs. ui_callbacks a' ! (i + k) = Some (rs ! k)) \<and>
   (\<forall>k<i. ui_callbacks a' ! k = ui_callbacks a ! k)"
proof (induction rs arbitrary: i a)
  case Nil
  then show ?case by (simp add: sizes_ok_def)
next
  case (Cons r rs)
  obtain cb data where r: "r = (cb, data)" by force
  let ?a = "a\<lparr>ui_callbacks := (ui_callbacks a)[i := Some (cb, data)]\<rparr>"
  have "register_screens (Suc i) rs ?a = Ok u a'"
    using Cons.prems r by (auto simp: register_ui_callback_def res_bind_eq_Ok split: if_splits)
  moreover have "ui_only a ?a" "sizes_ok ?a" using Cons.prems(3) by (simp_all add: ui_only_def sizes_ok_def)
  ultimately have IH: "ui_only ?a a'" "length (ui_callbacks a') = 8"
      "\<forall>k<length rs. ui_callbacks a' ! (Suc i + k) = Some (rs ! k)"
      "\<forall>k<Suc i. ui_callbacks a' ! k = ui_callbacks ?a ! k"
    using Cons.IH [of "Suc i" ?a] Cons.prems(2) by auto
  have "ui_callbacks a' ! (i + k) = Some ((r # rs) ! k)" if "k < length (r # rs)" for k
    using that IH(3,4) Cons.prems(2,3) r by (cases k) (auto simp: sizes_ok_def)
  then show ?case using IH \<open>ui_only a ?a\<close> ui_only_trans by fastforce
qed

text \<open>Prompting ends with the asynchronous exception only when every screen could be filled.\<close>

lemma start_prompt_async:
  assumes "start_prompt n ok_c cxl_c a = (Throw ASYNC_EXCEPTION a' :: ('a, 'h globals_t) res)"
  shows "ui_only a a' \<and> ok_callback a' = Some ok_c \<and> cxl_callback a' = Some cxl_c \<and>
    flow a' = Flow_prompts \<and> prompts a' = prompts a \<and> ui_callbacks a' = ui_callbacks a \<and>
    switch_screen_fn a' = switch_screen_fn a \<and> prompt_offset a' = prompt_offset a"
proof -
  have s: "case run_switch_screen w b of Ok _ b' \<Rightarrow> screen_only b b'
      | Throw e b' \<Rightarrow> screen_only b b' \<and> e \<noteq> ASYNC_EXCEPTION | Undef \<Rightarrow> True" for w and b :: "'h globals_t"
    using keepsD [OF screen_run [of w], of b] by (cases "run_switch_screen w b") auto
  obtain a1 where 1: "ui_prompt_debug n a = Ok () a1" and o: "screen_only a a1"
    using keepsD [OF screen_loop [of 0 n], of a] assms
    by (cases "ui_prompt_debug n a") (auto simp: start_prompt_def ui_prompt_debug_def)
  let ?a2 = "a1\<lparr>ok_callback := Some ok_c, cxl_callback := Some cxl_c, flow := Flow_prompts\<rparr>"
  have "screen_only ?a2 a'"
    using assms 1 s [where w = 0 and b = ?a2]
    by (auto simp: start_prompt_def ux_flow_init_prompts_def Let_def split: if_splits res.splits)
  with o show ?thesis by (auto simp: screen_only_def ui_only_def sizes_ok_def)
qed

lemma ui_prompt_async:
  assumes "ui_prompt labels ok_c cxl_c a = (Throw ASYNC_EXCEPTION a' :: ('a, 'h globals_t) res)" "length labels \<le> 8"
  shows "ui_only a a' \<and> ok_callback a' = Some ok_c \<and> cxl_callback a' = Some cxl_c \<and>
    flow a' = Flow_prompts \<and> prompts a' = labels \<and> ui_callbacks a' = ui_callbacks a \<and>
    switch_screen_fn a' = Some Switch_static \<and> prompt_offset a' + length labels = 8"
  using start_prompt_async [OF assms(1) [unfolded ui_prompt_def Let_def]] assms(2)
  by (auto simp: ui_only_def sizes_ok_def MAX_SCREEN_COUNT_def min_def)

lemma prompt_screens_async:
  assumes "prompt_screens screens ok_c cxl_c a = (Throw ASYNC_EXCEPTION a' :: ('a, 'h globals_t) res)"
    "length screens \<le> 8" "sizes_ok a"
  shows "prompted screens ok_c cxl_c a' \<and> ui_only a a'"
proof -
  have t: "register_screens i rs b = Throw e b' \<Longrightarrow> e \<noteq> ASYNC_EXCEPTION" for i rs e and b b' :: "'h globals_t"
  proof (induction rs arbitrary: i b)
    case (Cons r rs)
    then show ?case
      by (cases r) (auto simp: register_ui_callback_def split: if_splits)
  qed simp
  obtain a1 where 1: "register_screens 0 (map snd screens) a = Ok () a1"
      "ui_prompt (map fst screens) ok_c cxl_c a1 = (Throw ASYNC_EXCEPTION a' :: ('a, 'h globals_t) res)"
    using assms(1) t [of 0 "map snd screens" a]
    by (cases "register_screens 0 (map snd screens) a") (auto simp: prompt_screens_def)
  have r: "ui_only a a1" "\<forall>k<length screens. ui_callbacks a1 ! k = Some (snd (screens ! k))"
    using register_screens_ui [OF 1(1)] assms(2,3) by auto
  show ?thesis
    using ui_prompt_async [OF 1(2)] r assms(2) ui_only_trans
    by (fastforce simp: prompted_def MAX_SCREEN_COUNT_def)
qed

section \<open>What the screens show\<close>

text \<open>The reference: the text of a value, where it always fits.\<close>

fun value_text :: "address_type_t \<Rightarrow> string_generation_callback \<Rightarrow> data_value \<Rightarrow> string option" where
  "value_text net CB_copy_string (V_string s) = (if length s < 129 \<and> NUL \<notin> set s then Some s else None)"
| "value_text net CB_frac_ckb (V_u64 n) = Some (ckb_string (unat n))"
| "value_text net CB_frac_ckb_tuple (V_pair x y) = Some (ckb_string (unat x) @ '' of '' @ ckb_string (unat y))"
| "value_text net CB_uint64_tuple (V_pair x y) = Some (dec (unat x) @ '' of '' @ dec (unat y))"
| "value_text net CB_contract_type (V_byte c) = Some (if c = CONTRACT_NOT_PRESENT then ''Not Present'' else ''Present'')"
| "value_text net CB_sighash_address (V_bytes l) =
     (if 20 \<le> length l then Some (ckb_address net (address_payload False l)) else None)"
| "value_text net CB_multisig_address (V_bytes l) =
     (if length l = 28 then Some (ckb_address net (address_payload True l)) else None)"
| "value_text net cb v = None"

lemma ckb_address_cstring:
  assumes "length p = 22 \<and> n = 46 \<or> length p = 61 \<and> n = 108" "dest + n < length b"
  shows "cstring_at dest (mem_write b dest (ckb_address net p @ [NUL])) = ckb_address net p"
proof -
  have "length p \<le> 61" using assms(1) by auto
  then obtain gs where "convert_bits 256 5 p 8 True = Some gs" by (rule payload_groups)
  then show ?thesis using encode_payload(2) [OF assms(1) order_refl assms(2)] by blast
qed

lemma sighash_text:
  assumes "20 \<le> length l" "length b = 129"
  shows "\<exists>b'. lock_arg_to_sighash_address net 0 129 l b = Ok () b' \<and>
    cstring_at 0 b' = ckb_address net (address_payload False l)"
proof -
  have p: "payload_memory (Payload_s ADDRESS_FORMAT_TYPE_SHORT ADDRESS_CODE_HASH_TYPE_SIGHASH (take 20 l)) =
      address_payload False l" and n: "length (address_payload False l) = 22" "hd (address_payload False l) = 1"
    using assms(1)
    by (simp_all add: address_payload_def payload_memory.simps ADDRESS_FORMAT_TYPE_SHORT_def ADDRESS_CODE_HASH_TYPE_SIGHASH_def)
  have "render_pkh net 0 129 (Payload_s ADDRESS_FORMAT_TYPE_SHORT ADDRESS_CODE_HASH_TYPE_SIGHASH (take 20 l)) b =
      Ok () (mem_write b 0 (ckb_address net (address_payload False l) @ [NUL]))"
    by (rule render_pkh_eq [OF p, where n = 46]) (use n assms(2) in simp_all)
  then show ?thesis
    using assms ckb_address_cstring [of "address_payload False l" 46 0 b] n
    by (simp add: lock_arg_to_sighash_address_def)
qed

lemma multisig_text:
  assumes "length l = 28" "length b = 129"
  shows "\<exists>b'. lock_arg_to_multisig_address net 0 129 l b = Ok () b' \<and>
    cstring_at 0 b' = ckb_address net (address_payload True l)"
proof -
  have w: "length (address_payload True l) = 22 \<and> address_width True l = 46 \<or>
      length (address_payload True l) = 61 \<and> address_width True l = 108"
    using assms(1) by (simp add: length_address_payload address_width_def)
  then show ?thesis
    using render_destination_eq [OF assms(1), of True 129 0 b net] ckb_address_cstring [OF w, of 0 b] assms(2)
    by (auto simp: render_destination_def)
qed

lemma written_cstring:
  "length s < 129 \<Longrightarrow> NUL \<notin> set s \<Longrightarrow> length b = 129 \<Longrightarrow> cstring_at 0 (mem_write b 0 (s @ [NUL])) = s"
  by (rule cstring_at_write) simp_all

lemma run_string_cb_text:
  assumes "value_text net cb v = Some s" "length b = 129"
  shows "\<exists>b'. run_string_cb net cb v 129 b = Ok () b' \<and> cstring_at 0 b' = s"
proof -
  have c: "length (ckb_string (unat (x :: u64))) \<le> 21" for x
    using unat_bound [of x] by (simp add: length_ckb_string)
  have d: "length (dec (unat (x :: u64))) \<le> 20" for x
    using u64_20_digits [of x] by (intro length_dec) simp_all
  have w: "\<exists>b'. strcpy 0 str b = Ok () b' \<and> cstring_at 0 b' = str" if "length str < 129" "NUL \<notin> set str" for str
    using that assms(2) written_cstring by (simp add: strcpy_def cstore_def)
  have fr: "\<exists>b'. frac_ckb_to_string_indirect 0 129 x b = Ok () b' \<and> cstring_at 0 b' = ckb_string (unat x)" for x
    using c [of x] assms(2) ckb_string_not_NUL [of "unat x"] written_cstring [of "ckb_string (unat x)" b]
    by (simp add: frac_ckb_to_string_indirect_def MAX_INT_DIGITS_def frac_ckb_to_string_eq)
  have ft: "\<exists>b'. frac_ckb_tuple_to_string_indirect 0 129 (x, y) b = Ok () b' \<and>
      cstring_at 0 b' = ckb_string (unat x) @ '' of '' @ ckb_string (unat y)" for x y
    using c [of x] c [of y] assms(2) ckb_string_not_NUL
      written_cstring [of "ckb_string (unat x) @ '' of '' @ ckb_string (unat y)" b]
    by (subst frac_ckb_tuple_to_string_eq) (auto simp: NUL_def)
  have ut: "\<exists>b'. uint64_tuple_to_string 0 129 (x, y) b = Ok () b' \<and>
      cstring_at 0 b' = dec (unat x) @ '' of '' @ dec (unat y)" for x y
    using d [of x] d [of y] assms(2) written_cstring [of "dec (unat x) @ '' of '' @ dec (unat y)" b]
    by (subst uint64_tuple_to_string_eq) (auto simp: NUL_def dec_not_NUL [unfolded NUL_def])
  show ?thesis
    using assms w fr ft ut sighash_text multisig_text
    by (cases "(net, cb, v)" rule: value_text.cases)
      (auto simp: copy_string_def contract_type_to_string_indirect_def NUL_def split: if_splits)
qed

text \<open>The screens of a prompt and the text each of them shows.\<close>

definition screens_text :: "screen_spec list \<Rightarrow> string list \<Rightarrow> 'h globals_t \<Rightarrow> bool" where
  "screens_text screens txts a \<longleftrightarrow> length txts = length screens \<and>
     (\<forall>i<length screens. length (fst (screens ! i)) \<le> 16 \<and> NUL \<notin> set (fst (screens ! i)) \<and>
        (\<exists>v. load (snd (snd (screens ! i))) a = Some v \<and>
           value_text (address_type (N_data a)) (fst (snd (screens ! i))) v = Some (txts ! i)))"

lemma load_cong: "apdu_u a' = apdu_u a \<Longrightarrow> load p a' = load p a"
proof -
  assume u: "apdu_u a' = apdu_u a"
  have "live_tx (sign_ctx s a') = live_tx (sign_ctx s a)" for s
    by (cases s) (simp add: sign_ctx_def apdu_sign_state_t.defs ctx.defs live_tx_def)
  with u show ?thesis
    by (cases p) (simp_all add: load_sign_def live_sign_def live_pubkey_def live_msg_def live_smh_def)
qed

lemma screens_text_ui: "ui_only a a' \<Longrightarrow> screens_text screens txts a' = screens_text screens txts a"
  using load_cong [of a' a] by (simp add: screens_text_def ui_only_def)

text \<open>The part of the user interface that the screens read.\<close>

definition labelled :: "screen_spec list \<Rightarrow> 'h globals_t \<Rightarrow> bool" where
  "labelled screens a \<longleftrightarrow> prompts a = map fst screens \<and> switch_screen_fn a = Some Switch_static \<and>
     length screens \<le> 8 \<and> (\<forall>i<length screens. ui_callbacks a ! i = Some (snd (screens ! i)))"

lemma labelled_screen: "screen_only a a' \<Longrightarrow> labelled screens a' = labelled screens a"
  by (simp add: labelled_def screen_only_def)

lemma strncpy_cstring:
  assumes "length s \<le> 16" "NUL \<notin> set s"
  shows "cstring_at 0 (strncpy s 17) = s"
proof -
  have "strncpy s 17 = s @ replicate (17 - length s) NUL"
    using assms(1) by (simp add: strncpy_def)
  also have "\<dots> = s @ NUL # replicate (16 - length s) NUL"
    using assms(1) by (simp add: Suc_diff_le flip: replicate_Suc)
  finally show ?thesis using assms(2) by (simp add: cstring_at_def takeWhile_append)
qed

lemma static_screen:
  assumes "labelled screens a" "screens_text screens txts a" "sizes_ok a" "i < length screens"
  shows "\<exists>b. run_switch_screen i a = Ok () b \<and> screen_only a b \<and>
    cstring_at 0 (active_prompt b) = fst (screens ! i) \<and> cstring_at 0 (active_value b) = txts ! i"
proof -
  obtain label cb p where sc: "screens ! i = (label, cb, p)" by (metis prod.exhaust)
  obtain v where v: "load p a = Some v" "value_text (address_type (N_data a)) cb v = Some (txts ! i)"
    and l: "length label \<le> 16" "NUL \<notin> set label"
    using assms(2,4) sc by (fastforce simp: screens_text_def)
  let ?a1 = "a\<lparr>active_prompt := strncpy label (PROMPT_WIDTH + 1)\<rparr>"
  obtain b' where b': "run_string_cb (address_type (N_data a)) cb v 129 (active_value a) = Ok () b'"
      "cstring_at 0 b' = txts ! i"
    using run_string_cb_text [OF v(2), of "active_value a"] assms(3) by (auto simp: sizes_ok_def)
  have "run_switch_screen i a = Ok () (?a1\<lparr>active_value := b'\<rparr>)"
    using assms(1,4) sc v(1) load_cong [of ?a1 a p] b'(1)
    by (simp add: run_switch_screen_def labelled_def switch_screen_def Let_def on_value_def zoom_def
        MAX_SCREEN_COUNT_def VALUE_WIDTH_def)
  moreover have "screen_only a (?a1\<lparr>active_value := b'\<rparr>)"
    using keepsD [OF screen_run [of i], of a] calculation by simp
  ultimately show ?thesis using l b'(2) sc by (simp add: PROMPT_WIDTH_def strncpy_cstring)
qed

lemma static_loop:
  assumes "labelled screens a" "screens_text screens txts a" "sizes_ok a" "i + n \<le> length screens"
  shows "\<exists>b. prompt_loop i n a = Ok () b \<and> screen_only a b"
  using assms
proof (induction n arbitrary: i a)
  case (Suc n)
  obtain a1 where 1: "run_switch_screen i a = Ok () a1" "screen_only a a1"
    using static_screen [OF Suc.prems(1-3), of i] Suc.prems(4) by auto
  then have "labelled screens a1" "screens_text screens txts a1" "sizes_ok a1"
    using Suc.prems labelled_screen [OF 1(2)] screens_text_ui [of a a1] by (auto simp: screen_only_def ui_only_def)
  then obtain b where "prompt_loop (Suc i) n a1 = Ok () b" "screen_only a1 b"
    using Suc.IH [of a1 "Suc i"] Suc.prems(4) by auto
  then show ?case using 1 screen_eff.R_trans [OF 1(2)] by auto
qed simp

lemma prompt_screens_up:
  assumes "screens_text screens txts a" "sizes_ok a" "0 < length screens" "length screens \<le> 8"
  shows "\<exists>a'. prompt_screens screens ok_c cxl_c a = (Throw ASYNC_EXCEPTION a' :: ('b, 'h globals_t) res)"
proof -
  have reg: "\<exists>a1. register_screens i rs a = Ok () a1" if "i + length rs \<le> 8" for i rs and a :: "'h globals_t"
    using that
  proof (induction rs arbitrary: i a)
    case (Cons r rs)
    then show ?case by (cases r) (simp add: register_ui_callback_def MAX_SCREEN_COUNT_def)
  qed simp
  then obtain a1 where r: "register_screens 0 (map snd screens) a = Ok () a1"
    using assms(4) by fastforce
  have u: "ui_only a a1" and c: "\<forall>k<length screens. ui_callbacks a1 ! k = Some (snd (screens ! k))"
    using register_screens_ui [OF r] assms(2,4) by auto
  let ?a2 = "a1\<lparr>prompts := map fst screens, switch_screen_fn := Some Switch_static,
    prompt_offset := 8 - length screens\<rparr>"
  have u2: "ui_only a ?a2" using u by (simp add: ui_only_def sizes_ok_def)
  have 2: "labelled screens ?a2" "screens_text screens txts ?a2" "sizes_ok ?a2"
    using c assms(1,2,4) u2 screens_text_ui [OF u2] by (simp_all add: labelled_def ui_only_def)
  obtain a3 where 3: "prompt_loop 0 (length screens) ?a2 = Ok () a3" "screen_only ?a2 a3"
    using static_loop [OF 2, of 0 "length screens"] by auto
  let ?a4 = "a3\<lparr>ok_callback := Some ok_c, cxl_callback := Some cxl_c, flow := Flow_prompts\<rparr>"
  have "labelled screens a3" "screens_text screens txts a3" "sizes_ok a3" "prompt_offset a3 = 8 - length screens"
    using 2 labelled_screen [OF 3(2)] screens_text_ui [of ?a2 a3] 3(2) by (auto simp: screen_only_def ui_only_def)
  moreover have "screens_text screens txts ?a4 = screens_text screens txts a3"
    by (rule screens_text_ui) (simp add: ui_only_def sizes_ok_def)
  ultimately have 4: "labelled screens ?a4" "screens_text screens txts ?a4" "sizes_ok ?a4"
      "prompt_offset a3 < 8"
    using assms(3,4) by (simp_all add: labelled_def sizes_ok_def)
  obtain b where "run_switch_screen 0 ?a4 = Ok () b"
    using static_screen [OF 4(1-3) assms(3)] by auto
  then show ?thesis
    using r 3(1) 4(4) assms(4)
    by (simp add: prompt_screens_def ui_prompt_def Let_def MAX_SCREEN_COUNT_def start_prompt_def
        ui_prompt_debug_def ux_flow_init_prompts_def min_absorb2)
qed

text \<open>What the user reads on screen \<open>i\<close> of a prompt: the label and the value.\<close>

definition shown :: "'h sdk \<Rightarrow> u8 list \<Rightarrow> nat \<Rightarrow> 'h globals_t \<Rightarrow> (string \<times> string) option" where
  "shown sdk commit i a =
     (case app_event sdk commit (Show_screen (prompt_offset a + i)) a of
        Ok _ b \<Rightarrow> Some (cstring_at 0 (active_prompt b), cstring_at 0 (active_value b))
      | _ \<Rightarrow> None)"

lemma shown_text:
  assumes "prompted screens ok_c cxl_c a" "screens_text screens txts a" "sizes_ok a" "i < length screens"
  shows "shown sdk commit i a = Some (fst (screens ! i), txts ! i)"
proof -
  have "labelled screens a" using assms(1) by (auto simp: labelled_def prompted_def MAX_SCREEN_COUNT_def)
  from static_screen [OF this assms(2-4)] obtain b where "run_switch_screen i a = Ok () b"
      "cstring_at 0 (active_prompt b) = fst (screens ! i)" "cstring_at 0 (active_value b) = txts ! i" by auto
  then show ?thesis using assms(1,4)
    by (simp add: shown_def prompted_def in_io_exchange_def)
qed

lemma screens_prompt:
  assumes "screens_text screens txts a" "sizes_ok a" "0 < length screens" "length screens \<le> 8"
  shows "\<exists>a'. prompt_screens screens ok_c cxl_c a = (Throw ASYNC_EXCEPTION a' :: ('b, 'h globals_t) res) \<and>
    ok_callback a' = Some ok_c \<and> cxl_callback a' = Some cxl_c \<and> apdu_u a' = apdu_u a \<and>
    (\<forall>i<length screens. shown sdk commit i a' = Some (fst (screens ! i), txts ! i))"
proof -
  obtain a' where a': "prompt_screens screens ok_c cxl_c a = (Throw ASYNC_EXCEPTION a' :: ('b, 'h globals_t) res)"
    using prompt_screens_up [OF assms] by blast
  have p: "prompted screens ok_c cxl_c a'" and u: "ui_only a a'"
    using prompt_screens_async [OF a' assms(4,2)] by simp_all
  have "screens_text screens txts a'" "sizes_ok a'"
    using screens_text_ui [OF u] assms(1,2) u by (simp_all add: ui_only_def)
  then show ?thesis
    using a' p u shown_text [OF p] by (auto simp: prompted_def ui_only_def)
qed


text \<open>
  The reference for the prompts of a transaction: what every screen of an operation says, from
  the amounts and lock arguments of the parsed transaction.
\<close>

definition operation_text :: "nvram_data \<Rightarrow> 'h apdu_sign_state_t \<Rightarrow> sign_tx \<Rightarrow> (string \<times> string) list" where
  "operation_text nv s t =
     (let v = parsed s; dest = outputs t ! 0;
          ckb = (\<lambda>n. ckb_string (unat n));
          address = (\<lambda>m l. ckb_address (address_type nv) (address_payload m l));
          to = (''Destination'', address (out_is_multisig dest) (destination dest));
          fee = (''Fee'', ckb (total_fee v));
          dao = (\<lambda>kind label. [(''Confirm DAO'', kind), (''Deposit Amount'', ckb (dao_amount v)),
            (label, ckb (total_fee v)), (''Cell Owner'', address False (dao_cell_owner s))])
      in case tag v of
        OPERATION_TAG_PLAIN_TRANSFER \<Rightarrow>
          [(''Confirm'', ''Transaction''), (''Amount'', ckb (amount_snd v)), fee, to] @
          (if contract_data_type nv = ALLOW_CONTRACT_DATA
           then [(''Contract'', if contract_type v = CONTRACT_NOT_PRESENT then ''Not Present'' else ''Present'')] else [])
      | OPERATION_TAG_SELF_TRANSFER \<Rightarrow>
          [(''Confirm'', ''Self-Transfer''), (''Amount'', ckb (amount_snd v)), fee, to]
      | OPERATION_TAG_MULTI_INPUT_TRANSFER \<Rightarrow>
          [(''Confirm'', ''Multi-Input Transaction''),
           (''Input'', dec (unat (input_count_fst v)) @ '' of '' @ dec (unat (input_count_snd v))),
           (''Source'', address False (current_lock_arg s)),
           (''Amount'', ckb (amount_fst v) @ '' of '' @ ckb (amount_snd v)), fee, to]
      | OPERATION_TAG_DAO_DEPOSIT \<Rightarrow> dao ''Deposit'' ''Fee''
      | OPERATION_TAG_DAO_PREPARE \<Rightarrow> dao ''Prepare'' ''Fee''
      | OPERATION_TAG_DAO_WITHDRAW \<Rightarrow> dao ''Withdrawal'' ''Compensation''
      | _ \<Rightarrow> [])"

lemma all_less_Suc: "(\<forall>i<Suc n. P i) \<longleftrightarrow> P 0 \<and> (\<forall>i<n. P (Suc i))"
  by (auto simp: less_Suc_eq_0_disj)

lemma operation_screens_text:
  assumes "live_sign a = Some s" "live_tx (sign_ctx s a) = Some t" "operation_text (N_data a) s t \<noteq> []"
    "length (destination (outputs t ! 0)) = 28" "20 \<le> length (current_lock_arg s)" "20 \<le> length (dao_cell_owner s)"
  shows "\<exists>screens. operation_screens (N_data a) t (tag (parsed s)) = Some screens \<and>
    screens_text screens (map snd (operation_text (N_data a) s t)) a \<and>
    map fst screens = map fst (operation_text (N_data a) s t) \<and> 0 < length screens \<and> length screens \<le> 8"
  using assms
  by (cases "tag (parsed s)"; cases "out_is_multisig (outputs t ! 0)"; cases "contract_data_type (N_data a)")
    (simp_all add: operation_text_def operation_screens_def Let_def screens_text_def load_sign_def all_less_Suc
      destination_cb_def NUL_def)


lemma operation_prompt:
  assumes "live_sign a = Some s" "live_tx (sign_ctx s a) = Some t" "operation_text (N_data a) s t \<noteq> []"
    "length (destination (outputs t ! 0)) = 28" "20 \<le> length (current_lock_arg s)"
    "20 \<le> length (dao_cell_owner s)" "sizes_ok a"
  shows "\<exists>a'. sign_complete instruction a = Throw ASYNC_EXCEPTION a' \<and> live_sign a' = Some s \<and>
    ok_callback a' = Some (if instruction = INS_SIGN_WITH_HASH then sign_with_hash_ok else sign_without_hash_ok) \<and>
    cxl_callback a' = Some sign_reject \<and>
    (\<forall>i<length (operation_text (N_data a) s t). shown sdk commit i a' = Some (operation_text (N_data a) s t ! i))"
proof -
  let ?txt = "operation_text (N_data a) s t"
  let ?ok = "if instruction = INS_SIGN_WITH_HASH then sign_with_hash_ok else sign_without_hash_ok"
  obtain screens where sc: "operation_screens (N_data a) t (tag (parsed s)) = Some screens"
    "screens_text screens (map snd ?txt) a" "map fst screens = map fst ?txt" "0 < length screens" "length screens \<le> 8"
    using operation_screens_text [OF assms(1-6)] by blast
  obtain a' where a': "prompt_screens screens ?ok sign_reject a = (Throw ASYNC_EXCEPTION a' :: (nat, 'a globals_t) res)"
      "ok_callback a' = Some ?ok" "cxl_callback a' = Some sign_reject" "apdu_u a' = apdu_u a"
      "\<forall>i<length screens. shown sdk commit i a' = Some (fst (screens ! i), map snd ?txt ! i)"
    using screens_prompt [OF sc(2) assms(7) sc(4,5)] by blast
  have "tag (parsed s) \<noteq> OPERATION_TAG_MULTI_OUTPUT_TRANSFER"
    using sc(1) by (auto simp: operation_screens_def)
  then have "sign_complete instruction a = Throw ASYNC_EXCEPTION a'"
    using assms(1,2) sc(1) a'(1) by (simp add: sign_complete_def Let_def)
  moreover have l: "length screens = length ?txt" using arg_cong [OF sc(3), of length] by simp
  moreover have "shown sdk commit i a' = Some (?txt ! i)" if "i < length ?txt" for i
  proof -
    have "map fst screens ! i = map fst ?txt ! i" using sc(3) by simp
    then show ?thesis using a'(5) that l by simp
  qed
  moreover have "live_sign a' = Some s" using a'(4) assms(1) by (simp add: live_sign_def)
  ultimately show ?thesis using a'(2,3) by blast
qed

text \<open>
  C3. When a transaction of one of the six kinds with fixed screens is put to the user (plain,
  self and multi-input transfers, DAO deposit, prepare and withdrawal), the prompt goes up and
  every screen of it, in order, reads exactly as the reference says: the operation, the amounts,
  the fee or compensation and the addresses. The reject button rejects, the other signs. The
  screens of a transfer with several outputs are the subject of C23; of any other tag there is
  no prompt.
\<close>

theorem operation_shown:
  assumes "live_sign a = Some s" "live_tx (sign_ctx s a) = Some t" "operation_text (N_data a) s t \<noteq> []"
    "length (destination (outputs t ! 0)) = 28" "20 \<le> length (current_lock_arg s)"
    "20 \<le> length (dao_cell_owner s)" "sizes_ok a"
  shows "\<exists>a'. sign_complete instruction a = Throw ASYNC_EXCEPTION a' \<and> live_sign a' = Some s \<and>
    ok_callback a' = Some (if instruction = INS_SIGN_WITH_HASH then sign_with_hash_ok else sign_without_hash_ok) \<and>
    cxl_callback a' = Some sign_reject \<and>
    (\<forall>i<length (operation_text (N_data a) s t). shown sdk commit i a' = Some (operation_text (N_data a) s t ! i))"
  by (rule operation_prompt [OF assms])

definition demo_tx :: sign_tx where
  "demo_tx = zero_tx\<lparr>outputs := (outputs zero_tx)[0 := zero_output\<lparr>destination := replicate 20 7 @ zeros 8,
     out_capacity := 12345678900\<rparr>], plain_output_amount := 12345678900, output_count := 1\<rparr>"

definition demo_signing :: "u8 list apdu_sign_state_t" where
  "demo_signing = zero_sign_state\<lparr>su := U_tx demo_tx, parsed := zero_parsed\<lparr>tag := OPERATION_TAG_PLAIN_TRANSFER,
     amount_snd := 12345678900, total_fee := 1000\<rparr>, transaction_stack := Table_st 3 5 0 (replicate 5 0) mol_num_init_state\<rparr>"

definition demo_parsed :: "u8 list globals_t" where
  "demo_parsed = demo_started\<lparr>apdu_u := Apdu_sign demo_signing\<rparr>"

lemma demo_parsed_props:
  "live_sign demo_parsed = Some demo_signing" "live_tx (sign_ctx demo_signing demo_parsed) = Some demo_tx"
  "length (destination (outputs demo_tx ! 0)) = 28" "20 \<le> length (current_lock_arg demo_signing)"
  "20 \<le> length (dao_cell_owner demo_signing)" "sizes_ok demo_parsed"
  "N_data demo_parsed = app_main_init_nvram blank_nvram"
proof -
  show "live_sign demo_parsed = Some demo_signing" by (simp add: demo_parsed_def live_sign_def)
  show "live_tx (sign_ctx demo_signing demo_parsed) = Some demo_tx"
    by (simp add: demo_signing_def sign_ctx_def live_tx_def apdu_sign_state_t.defs)
  show "N_data demo_parsed = app_main_init_nvram blank_nvram"
    by (simp add: demo_parsed_def demo_started_def app_main_def init_globals_def)
qed code_simp+

lemma demo_text:
  "operation_text (app_main_init_nvram blank_nvram) demo_signing demo_tx =
     [(''Confirm'', ''Transaction''), (''Amount'', ckb_string 12345678900), (''Fee'', ckb_string 1000),
      (''Destination'', ckb_address ADDRESS_MAINNET (address_payload False (replicate 20 7 @ zeros 8)))]"
proof -
  have "outputs demo_tx ! 0 = zero_output\<lparr>destination := replicate 20 7 @ zeros 8, out_capacity := 12345678900\<rparr>"
    by (simp add: demo_tx_def zero_tx_def MAX_OUTPUTS_def)
  then show ?thesis
    by (simp add: operation_text_def demo_signing_def app_main_init_nvram_def blank_nvram_def Let_def
        zero_parsed_def zero_output_def)
qed

lemma operation_shown_witness:
  "\<exists>a'. sign_complete 3 demo_parsed = Throw ASYNC_EXCEPTION a' \<and>
    shown demo_sdk [] 1 a' = Some (''Amount'', ckb_string 12345678900) \<and>
    shown demo_sdk [] 3 a' = Some (''Destination'', ckb_address ADDRESS_MAINNET (address_payload False (replicate 20 7 @ zeros 8)))"
proof -
  obtain a' where a': "sign_complete 3 demo_parsed = Throw ASYNC_EXCEPTION a'"
      "\<forall>i<4. shown demo_sdk [] i a' = Some (operation_text (app_main_init_nvram blank_nvram) demo_signing demo_tx ! i)"
    using operation_shown [OF demo_parsed_props(1,2) _ demo_parsed_props(3-6), of 3 demo_sdk "[]"]
    unfolding demo_parsed_props(7) demo_text by auto
  then have "shown demo_sdk [] 1 a' = Some (''Amount'', ckb_string 12345678900)"
    "shown demo_sdk [] 3 a' = Some (''Destination'', ckb_address ADDRESS_MAINNET (address_payload False (replicate 20 7 @ zeros 8)))"
    by (simp_all add: demo_text)
  with a'(1) show ?thesis by blast
qed

section \<open>Several outputs\<close>

lemma strcpy_at_end:
  assumes "length s + length t < length b"
  shows "strcpy (length s) t (mem_write b 0 (s @ [NUL])) = Ok () (mem_write b 0 ((s @ t) @ [NUL]))"
  using mem_write_snoc_NUL [of 0 s t b] assms by (simp add: strcpy_def cstore_def)

text \<open>
  C23. The screen of one of several outputs shows the amount, the unit and the address it goes to,
  as long as all of it fits the buffer.
\<close>

theorem output_screen:
  assumes "length b = 129" "length (destination out) = 28"
    "length (ckb_string (unat (out_capacity out))) + 8 + address_width (out_is_multisig out) (destination out) < 129"
  shows "\<exists>b'. multi_output_value net out b = Ok () b' \<and> cstring_at 0 b' =
    ckb_string (unat (out_capacity out)) @ '' CKB -> '' @
    ckb_address net (address_payload (out_is_multisig out) (destination out))"
proof -
  let ?s = "ckb_string (unat (out_capacity out))" and ?m = "out_is_multisig out" and ?l = "destination out"
  let ?p = "address_payload ?m ?l"
  have s: "NUL \<notin> set ?s" by (rule ckb_string_not_NUL)
  have 1: "frac_ckb_to_string_indirect 0 129 (out_capacity out) b = Ok () (mem_write b 0 (?s @ [NUL]))"
    using assms by (simp add: frac_ckb_to_string_indirect_def MAX_INT_DIGITS_def frac_ckb_to_string_eq)
  have c: "cstring_at 0 (mem_write b 0 (?s @ [NUL])) = ?s"
    using assms s by (intro cstring_at_write) auto
  have 2: "strcpy (length ?s) '' CKB -> '' (mem_write b 0 (?s @ [NUL])) =
      Ok () (mem_write b 0 ((?s @ '' CKB -> '') @ [NUL]))"
    using assms by (intro strcpy_at_end) simp
  let ?b2 = "mem_write b 0 ((?s @ '' CKB -> '') @ [NUL])"
  let ?b3 = "mem_write ?b2 (length ?s + 8) (ckb_address net ?p @ [NUL])"
  have l2: "length ?b2 = 129" using assms by simp
  have 3: "render_destination net (length ?s + 8) 129 ?m ?l ?b2 = Ok () ?b3"
    using assms l2 by (intro render_destination_eq) (auto simp: address_width_def)
  have p: "length ?p = 22 \<and> address_width ?m ?l = 46 \<or> length ?p = 61 \<and> address_width ?m ?l = 108"
    using assms(2) by (simp add: length_address_payload address_width_def)
  have a: "length (ckb_address net ?p) = address_width ?m ?l" "NUL \<notin> set (ckb_address net ?p)"
  proof -
    have "length ?p \<le> 61" using p by auto
    then obtain gs where g: "convert_bits 256 5 ?p 8 True = Some gs" by (rule payload_groups)
    show l: "length (ckb_address net ?p) = address_width ?m ?l"
      using encode_payload(3) [OF p order_refl, of 0 "replicate 200 NUL" gs net] g p by auto
    have "cstring_at 0 (mem_write (replicate 200 NUL) 0 (ckb_address net ?p @ [NUL])) = ckb_address net ?p"
      using p by (intro ckb_address_cstring [OF p]) auto
    then show "NUL \<notin> set (ckb_address net ?p)"
      by (metis (mono_tags, lifting) cstring_at_def set_takeWhileD)
  qed
  have "?b3 = mem_write b 0 ((?s @ '' CKB -> '' @ ckb_address net ?p) @ [NUL])"
    using mem_write_snoc_NUL [of 0 "?s @ '' CKB -> ''" "ckb_address net ?p" b] assms a(1)
    by (simp add: eval_nat_numeral)
  moreover have "cstring_at 0 (mem_write b 0 ((?s @ '' CKB -> '' @ ckb_address net ?p) @ [NUL])) =
      ?s @ '' CKB -> '' @ ckb_address net ?p"
    using assms s a by (intro cstring_at_write) (auto simp: NUL_def)
  ultimately show ?thesis
    using 1 2 3 c by (simp add: multi_output_value_def Let_def VALUE_WIDTH_def)
qed

definition demo_output :: "bool \<Rightarrow> output_t" where
  "demo_output timelocked = zero_output\<lparr>out_capacity := 123456789012, out_is_multisig := True,
     destination := replicate 20 7 @ (if timelocked then replicate 8 1 else zeros 8)\<rparr>"

lemma output_screen_witness:
  "\<exists>b'. multi_output_value ADDRESS_MAINNET (demo_output False) (replicate 129 NUL) = Ok () b' \<and> cstring_at 0 b' =
    ckb_string (unat (out_capacity (demo_output False))) @ '' CKB -> '' @
    ckb_address ADDRESS_MAINNET (address_payload (out_is_multisig (demo_output False)) (destination (demo_output False)))"
proof (rule output_screen)
  have "length (ckb_string (unat (out_capacity (demo_output False)))) \<le> 21"
    using unat_bound [of "out_capacity (demo_output False)"] by (intro length_ckb_string) simp
  moreover have "address_width (out_is_multisig (demo_output False)) (destination (demo_output False)) = 46"
    by code_simp
  ultimately show "length (ckb_string (unat (out_capacity (demo_output False)))) + 8 +
      address_width (out_is_multisig (demo_output False)) (destination (demo_output False)) < 129" by simp
qed (simp, code_simp)

end
