(* ===== verification/Accept_Laws.thy ===== *)
theory Accept_Laws
  imports Prompt_Laws
begin

text \<open>
  Properties of the decision: only an accepted transaction is prompted, what the accept button
  signs, and what becomes of a prompt after an error.
\<close>

section \<open>Only accepted transactions are prompted\<close>

lemma next_packet_last:
  assumes "next_packet sdk True secure_only c g = Ok u g'"
  shows "is_valid g' \<and> \<not> hard_reject g' \<and> (unsafe g' \<longrightarrow> tag (parsed g') = OPERATION_TAG_NONE) \<and>
    (\<not> unsafe g' \<longrightarrow> (\<exists>g1. parse_packet sdk c g = Ok COMPLETE g1 \<and> g' = g1\<lparr>is_valid := True\<rparr>))"
  using assms by (auto simp: next_packet_def Let_def res_bind_eq_Ok set_tag_def split: if_splits)

lemma register_screens_union: "register_screens i rs a = Ok u a' \<Longrightarrow> apdu_u a' = apdu_u a"
proof (induction rs arbitrary: i a)
  case (Cons r rs)
  then show ?case by (cases r) (fastforce simp: register_ui_callback_def split: if_splits)
qed simp

lemma register_screens_throws: "register_screens i rs a = Throw e a' \<Longrightarrow> e \<noteq> ASYNC_EXCEPTION"
proof (induction rs arbitrary: i a)
  case (Cons r rs)
  then show ?case by (cases r) (auto simp: register_ui_callback_def split: if_splits)
qed simp

lemma prompt_screens_union:
  assumes "prompt_screens screens ok_c cxl_c a = (Throw ASYNC_EXCEPTION a' :: ('b, 'h globals_t) res)"
  shows "apdu_u a' = apdu_u a"
proof -
  obtain a1 where 1: "register_screens 0 (map snd screens) a = Ok () a1"
      "ui_prompt (map fst screens) ok_c cxl_c a1 = (Throw ASYNC_EXCEPTION a' :: ('b, 'h globals_t) res)"
    using assms register_screens_throws [of 0 "map snd screens" a]
    by (cases "register_screens 0 (map snd screens) a") (auto simp: prompt_screens_def)
  then show ?thesis
    using start_prompt_async [OF 1(2) [unfolded ui_prompt_def Let_def]] register_screens_union [OF 1(1)]
    by (simp add: ui_only_def)
qed

lemma sign_complete_async:
  assumes "sign_complete instruction a = Throw ASYNC_EXCEPTION a'" "live_sign a = Some s"
  shows "live_sign a' = Some s \<and> tag (parsed s) \<noteq> OPERATION_TAG_NONE \<and> tag (parsed s) \<noteq> OPERATION_TAG_NOT_SET"
proof -
  obtain t where t: "live_tx (sign_ctx s a) = Some t"
    using assms by (auto simp: sign_complete_def split: option.splits)
  have "apdu_u a' = apdu_u a"
  proof (cases "tag (parsed s) = OPERATION_TAG_MULTI_OUTPUT_TRANSFER")
    case True
    then show ?thesis
      using assms t start_prompt_async [where a' = a']
      by (fastforce simp: sign_complete_def Let_def ui_prompt_with_cb_def ui_only_def split: if_splits)
  next
    case False
    then obtain screens ok_c where "prompt_screens screens ok_c sign_reject a = (Throw ASYNC_EXCEPTION a' :: (nat, 'a globals_t) res)"
      using assms t by (auto simp: sign_complete_def Let_def split: option.splits)
    then show ?thesis by (rule prompt_screens_union)
  qed
  moreover have "tag (parsed s) \<noteq> OPERATION_TAG_NONE \<and> tag (parsed s) \<noteq> OPERATION_TAG_NOT_SET"
    using assms t by (auto simp: sign_complete_def Let_def operation_screens_def)
  ultimately show ?thesis using assms(2) by (simp add: live_sign_def)
qed

lemma on_sign_Ok:
  "on_sign m a = Ok u a' \<Longrightarrow> \<exists>s g. live_sign a = Some s \<and> m (sign_ctx s a) = Ok u g \<and>
     live_sign a' = Some (apdu_sign_state_t.truncate g)"
  by (auto simp: on_sign_def zoom_def put_sign_ctx_def live_sign_def [of "_\<lparr>apdu_u := _, apdu_priv := _\<rparr>"]
      split: option.splits res.splits)

lemma on_sign_quiet:
  assumes "keeps R (\<lambda>e _ _. P e) m" "\<And>e. P e \<Longrightarrow> e \<noteq> ASYNC_EXCEPTION"
  shows "on_sign m b \<noteq> Throw ASYNC_EXCEPTION b'"
proof -
  have "m g \<noteq> Throw ASYNC_EXCEPTION g'" for g g'
    using keepsD [OF assms(1), of g] assms(2) [of ASYNC_EXCEPTION] by auto
  then show ?thesis by (auto simp: on_sign_def zoom_def split: option.splits res.splits)
qed

text \<open>The data of the packet in the APDU buffer, and the state its reading starts in.\<close>

definition packet_data :: "'h globals_t \<Rightarrow> u8 list" where
  "packet_data a = take (unat (G_io_apdu_buffer a ! OFFSET_LC)) (drop OFFSET_CDATA (G_io_apdu_buffer a))"

definition reads_from :: "'h sdk \<Rightarrow> 'h globals_t \<Rightarrow> 'h globals_t \<Rightarrow> bool" where
  "reads_from sdk a b \<longleftrightarrow>
     (if G_io_apdu_buffer a ! OFFSET_P1 AND P1_MASK = P1_FIRST
      then on_sign (init_parser sdk) (a\<lparr>apdu_u := Apdu_cleared\<rparr>) = Ok () b else b = a)"

text \<open>
  C6. A packet ends in a prompt only if it is marked as the last and no check has rejected the
  transaction: neither for good nor as one that must not be shown as a transfer. A packet with
  P1 first or next has then just been read, from the blank state or from where the last one
  ended, with the verdict that the transaction is complete; a packet with any other P1 is not
  read, and prompts a transaction validated before once more.
\<close>

theorem prompted_transaction_is_accepted:
  assumes "handle_apdu sdk instruction a = Throw ASYNC_EXCEPTION a'" "sdk_quiet sdk"
  shows "G_io_apdu_buffer a ! OFFSET_P1 AND P1_LAST_MARKER \<noteq> 0 \<and>
    (\<exists>s. live_sign a' = Some s \<and> is_valid s \<and> tag (parsed s) \<noteq> OPERATION_TAG_NOT_SET \<and>
      tag (parsed s) \<noteq> OPERATION_TAG_NONE \<and>
      (if G_io_apdu_buffer a ! OFFSET_P1 AND P1_MASK \<in> {P1_FIRST, P1_NEXT}
       then \<not> hard_reject s \<and> \<not> unsafe s \<and>
         (\<exists>b s0 g. reads_from sdk a b \<and> live_sign b = Some s0 \<and>
            parse_packet sdk (packet_data a) (sign_ctx s0 b) = Ok COMPLETE g \<and>
            s = apdu_sign_state_t.truncate (g\<lparr>is_valid := True\<rparr>))
       else live_sign a = Some s))"
proof -
  define p1 where "p1 = G_io_apdu_buffer a ! OFFSET_P1"
  define step where "step = on_sign (next_packet sdk (p1 AND P1_LAST_MARKER \<noteq> 0) (p1 AND P1_NO_FALLBACK \<noteq> 0) (packet_data a))"
  define packet where "packet = (if p1 AND P1_MASK = P1_FIRST
     then res_bind (clear_sign_data a) (\<lambda>_ a1. res_bind (on_sign (init_parser sdk) a1) (\<lambda>_. step))
     else if p1 AND P1_MASK = P1_NEXT then step a else Ok () a)"
  have quiet: "step b \<noteq> Throw ASYNC_EXCEPTION b'" "on_sign (init_parser sdk) b \<noteq> Throw ASYNC_EXCEPTION b'" for b b'
    using on_sign_quiet [OF keys_next_packet packet_exception_quiet [OF assms(2)]]
      on_sign_quiet [OF keys_parser(2) sign_exception_quiet [OF assms(2)]] by (simp_all add: step_def)
  have "\<not> MAX_APDU_SIZE < unat (G_io_apdu_buffer a ! OFFSET_LC)"
    using assms(1) by (auto simp: handle_apdu_def Let_def)
  then have h: "res_bind packet (\<lambda>_ a1. if p1 AND P1_LAST_MARKER = 0 then finalize_successful_send 0 a1
       else case live_sign a1 of None \<Rightarrow> Undef
         | Some s \<Rightarrow> if is_valid s then sign_complete instruction a1 else finalize_successful_send 0 a1) =
     Throw ASYNC_EXCEPTION a'"
    using assms(1) by (auto simp: handle_apdu_def Let_def packet_def step_def p1_def packet_data_def)
  have "packet \<noteq> Throw ASYNC_EXCEPTION b" for b
    using quiet by (cases "on_sign (init_parser sdk) (a\<lparr>apdu_u := Apdu_cleared\<rparr>)")
      (auto simp: packet_def clear_sign_data_def)
  then obtain a1 where p: "packet = Ok () a1" using h by (cases packet) auto
  have f: "finalize_successful_send 0 a1 \<noteq> (Throw e b' :: (nat, 'a globals_t) res)" for e b'
    by (simp add: finalize_successful_send_def io_store_def)
  have last: "p1 AND P1_LAST_MARKER \<noteq> 0" using h p f by (auto split: if_splits)
  then obtain s where s: "live_sign a1 = Some s" "is_valid s" "sign_complete instruction a1 = Throw ASYNC_EXCEPTION a'"
    using h p f by (auto split: option.splits if_splits)
  note c = sign_complete_async [OF s(3,1)]
  show ?thesis
  proof (cases "p1 AND P1_MASK \<in> {P1_FIRST, P1_NEXT}")
    case True
    then obtain b where b: "reads_from sdk a b" "step b = Ok () a1"
      using p by (auto simp: packet_def clear_sign_data_def res_bind_eq_Ok reads_from_def p1_def P1_FIRST_def P1_NEXT_def)
    then obtain s0 g where g: "next_packet sdk True (p1 AND P1_NO_FALLBACK \<noteq> 0) (packet_data a) (sign_ctx s0 b) = Ok () g"
        "live_sign b = Some s0" "s = apdu_sign_state_t.truncate g"
      using on_sign_Ok [OF b(2) [unfolded step_def]] last s(1) by auto
    note n = next_packet_last [OF g(1)]
    then have u: "\<not> hard_reject s" "\<not> unsafe s" "\<not> unsafe g" using c g(3) by (auto simp: apdu_sign_state_t.defs)
    then obtain g1 where "parse_packet sdk (packet_data a) (sign_ctx s0 b) = Ok COMPLETE g1" "g = g1\<lparr>is_valid := True\<rparr>"
      using n by blast
    with b(1) g(2,3) have "\<exists>b s0 g. reads_from sdk a b \<and> live_sign b = Some s0 \<and>
        parse_packet sdk (packet_data a) (sign_ctx s0 b) = Ok COMPLETE g \<and> s = apdu_sign_state_t.truncate (g\<lparr>is_valid := True\<rparr>)"
      by blast
    then show ?thesis using True c s(2) u(1,2) last unfolding p1_def by simp
  next
    case False
    then have "a1 = a" using p by (auto simp: packet_def)
    then show ?thesis using False c s(1,2) last unfolding p1_def by simp
  qed
qed

definition demo_packet :: "u8 list globals_t" where
  "demo_packet = demo_parsed\<lparr>G_io_apdu_buffer := [0x80, 3, 0x81, 0, 0] @ zeros 255\<rparr>"

lemma parse_packet_done:
  "transaction_stack g = Table_st 3 fi tot offs u \<Longrightarrow> parse_packet sdk [] g = Ok COMPLETE g"
  by (simp add: parse_packet_def MolReader_AnnotatedTransaction_parse_def table_done closing_def call_chunk_def
      call_opt_def hooks_of_def annotatedTransaction_callbacks_def)

lemma demo_packet_prompts: "\<exists>a'. handle_apdu demo_sdk 3 demo_packet = Throw ASYNC_EXCEPTION a'"
proof -
  let ?s = "demo_signing\<lparr>is_valid := True\<rparr>"
  let ?a = "demo_packet\<lparr>apdu_u := Apdu_sign ?s\<rparr>"
  have l: "live_sign demo_packet = Some demo_signing"
    using demo_parsed_props(1) by (simp add: demo_packet_def live_sign_def)
  have "next_packet demo_sdk True False [] (sign_ctx demo_signing demo_packet) =
      Ok () (sign_ctx demo_signing demo_packet\<lparr>is_valid := True\<rparr>)"
    using parse_packet_done [of "sign_ctx demo_signing demo_packet" 5 0 "replicate 5 0" mol_num_init_state demo_sdk]
    by (simp add: next_packet_def sign_ctx_def demo_signing_def zero_sign_state_def apdu_sign_state_t.defs)
  then have n: "on_sign (next_packet demo_sdk True False []) demo_packet = Ok () ?a"
    using l by (simp add: on_sign_def zoom_def put_sign_ctx_def sign_ctx_def apdu_sign_state_t.defs ctx.defs)
  have t: "live_tx (sign_ctx ?s ?a) = Some demo_tx" "operation_text (N_data ?a) ?s demo_tx \<noteq> []"
    using demo_parsed_props(2,7) demo_text
    by (simp_all add: sign_ctx_def live_tx_def apdu_sign_state_t.defs ctx.defs operation_text_def demo_packet_def
        demo_signing_def Let_def)
  have "\<exists>a'. sign_complete 3 ?a = Throw ASYNC_EXCEPTION a'"
    using operation_prompt [of ?a ?s demo_tx 3 demo_sdk "[]"] t demo_parsed_props(3-6)
    by (auto simp: live_sign_def sizes_ok_def demo_packet_def)
  then show ?thesis
    using n by (simp add: handle_apdu_def Let_def demo_packet_def OFFSET_P1_def OFFSET_LC_def MAX_APDU_SIZE_def
        P1_MASK_def P1_NEXT_def P1_FIRST_def P1_LAST_MARKER_def P1_NO_FALLBACK_def live_sign_def)
qed

lemma prompted_transaction_is_accepted_witness:
  "\<exists>a' s b s0 g. handle_apdu demo_sdk 3 demo_packet = Throw ASYNC_EXCEPTION a' \<and> live_sign a' = Some s \<and>
     \<not> hard_reject s \<and> \<not> unsafe s \<and> reads_from demo_sdk demo_packet b \<and> live_sign b = Some s0 \<and>
     parse_packet demo_sdk (packet_data demo_packet) (sign_ctx s0 b) = Ok COMPLETE g \<and>
     s = apdu_sign_state_t.truncate (g\<lparr>is_valid := True\<rparr>)"
proof -
  obtain a' where a': "handle_apdu demo_sdk 3 demo_packet = Throw ASYNC_EXCEPTION a'"
    using demo_packet_prompts by blast
  have "G_io_apdu_buffer demo_packet ! OFFSET_P1 AND P1_MASK \<in> {P1_FIRST, P1_NEXT}"
    by (simp add: demo_packet_def OFFSET_P1_def P1_MASK_def P1_NEXT_def P1_FIRST_def P1_LAST_MARKER_def P1_NO_FALLBACK_def)
  then show ?thesis
    using prompted_transaction_is_accepted [OF a' demo_quiet] a' by auto
qed

section \<open>The accept button\<close>

lemma length_der_to_compact: "der_to_compact sig info = Some bs \<Longrightarrow> length bs = 65"
  by (auto simp: der_to_compact_def Let_def mem_write_def split: if_splits)

text \<open>The SDK signs \<open>data\<close> with the key at \<open>path\<close>.\<close>

definition sdk_signs :: "'h sdk \<Rightarrow> u32 list \<Rightarrow> u8 list \<Rightarrow> u8 list \<Rightarrow> bool" where
  "sdk_signs sdk path bs sig \<longleftrightarrow>
     (case sdk_derive_node sdk path of
        Inl e \<Rightarrow> False
      | Inr (d, cc) \<Rightarrow> (\<exists>w. sdk_generate_pair sdk d = Inr w) \<and>
          (\<exists>der info. sdk_ecdsa_sign sdk d bs = Inr (der, info) \<and> der_to_compact der info = Some sig))"

lemma signs_into_buffer:
  assumes "sdk_signs sdk (take (unat (path_length key)) (path_components key)) bs sig"
    "unat (path_length key) \<le> length (path_components key)" "sizes_ok a"
  shows "\<exists>k. no_secrets k \<and> sign_into_buffer sdk key bs 0 a =
    Ok 65 (a\<lparr>apdu_priv := k, G_io_apdu_buffer := mem_write (G_io_apdu_buffer a) 0 sig\<rparr>)"
proof -
  have l: "length sig = 65" using assms(1) length_der_to_compact by (auto simp: sdk_signs_def split: sum.splits)
  obtain d cc w der info where "sdk_derive_node sdk (take (unat (path_length key)) (path_components key)) = Inr (d, cc)"
      "sdk_generate_pair sdk d = Inr w" "sdk_ecdsa_sign sdk d bs = Inr (der, info)" "der_to_compact der info = Some sig"
    using assms(1) by (auto simp: sdk_signs_def split: sum.splits)
  then show ?thesis using assms(2,3) l
    by (intro exI [of _ "(apdu_priv a)\<lparr>private_key_data := zeros 32, pair_public := zeros 65, pair_private := zeros 32\<rparr>"])
      (simp add: sign_into_buffer_def zoom_def WITH_KEY_PAIR_def Let_def sign_def MAX_SIGNATURE_SIZE_def
        generate_extended_key_pair_return_global_def io_store_def sizes_ok_def no_secrets_def wipe_pair_def)
qed

lemma accept_transaction_eq:
  assumes "flow a = Flow_prompts" "ok_callback a = Some sign_without_hash_ok"
    "live_sign a = Some s" "live_tx (sign_ctx s a) = Some t" "\<not> hash_only t" "sizes_ok a"
    "unat (key_length s) \<le> 2 + length (key_path_components s)"
    "sdk_signs sdk (take (unat (key_length s)) ([0x8000002C, 0x80000135] @ key_path_components s)) (final_hash t) sig"
  shows "\<exists>a'. app_event sdk commit Accept a = Ok () a' \<and> sent a' = sent a @ [sig @ [0x90, 0x00]] \<and>
    flow a' = Flow_idle \<and> apdu_u a' = Apdu_cleared \<and> no_secrets (apdu_priv a')"
proof -
  let ?a = "a\<lparr>flow := Flow_idle\<rparr>"
  let ?key = "\<lparr>path_length = key_length s, path_components = [0x8000002C, 0x80000135] @ key_path_components s\<rparr>"
  have "live_tx (sign_ctx s ?a) = live_tx (sign_ctx s a)"
    by (cases s) (simp add: sign_ctx_def apdu_sign_state_t.defs ctx.defs live_tx_def)
  then have t: "live_sign ?a = Some s" "live_tx (sign_ctx s ?a) = Some t" "sizes_ok ?a"
    using assms(3,4,6) by (simp_all add: live_sign_def sizes_ok_def)
  obtain k where k: "no_secrets k" "sign_into_buffer sdk ?key (final_hash t) 0 ?a =
      Ok 65 (?a\<lparr>apdu_priv := k, G_io_apdu_buffer := mem_write (G_io_apdu_buffer ?a) 0 sig\<rparr>)"
    using signs_into_buffer [of sdk ?key "final_hash t" sig ?a] assms(7,8) t(3) by auto
  have "length sig = 65" using assms(8) length_der_to_compact by (auto simp: sdk_signs_def split: sum.splits)
  then show ?thesis
    using assms(1,2,5,6) t k
    by (simp add: in_io_exchange_def prompt_response_def Let_def run_ui_callback_def perform_signature_def
        clear_sign_data_def finalize_successful_send_def io_store_def sizes_ok_def delayed_send_def mem_write_def)
qed

text \<open>
  C5. The accept button on the prompt of a transaction sends the 65-byte signature of its
  \<open>final_hash\<close> (the hash of the signing message, see C4), made with the key at the path of the
  recorded length that starts with 44'/309' and goes on with the recorded components (whatever
  the first two of the sign path were), and then clears the transaction and the keys: nothing
  can be signed twice.
\<close>

theorem accept_signs_transaction:
  assumes "flow a = Flow_prompts" "ok_callback a = Some sign_without_hash_ok"
    "live_sign a = Some s" "live_tx (sign_ctx s a) = Some t" "\<not> hash_only t" "sizes_ok a"
    "unat (key_length s) \<le> 2 + length (key_path_components s)"
    "sdk_signs sdk (take (unat (key_length s)) ([0x8000002C, 0x80000135] @ key_path_components s)) (final_hash t) sig"
  shows "\<exists>a'. app_event sdk commit Accept a = Ok () a' \<and> sent a' = sent a @ [sig @ [0x90, 0x00]] \<and>
    flow a' = Flow_idle \<and> apdu_u a' = Apdu_cleared \<and> no_secrets (apdu_priv a')"
  by (rule accept_transaction_eq [OF assms])

definition demo_accepting :: "u8 list globals_t" where
  "demo_accepting = demo_parsed\<lparr>flow := Flow_prompts, ok_callback := Some sign_without_hash_ok\<rparr>"

lemma demo_signs: "sdk_signs demo_sdk path bs (zeros 65)"
proof -
  have "der_to_compact (zeros 100) 0 = Some (zeros 65)" by code_simp
  then show ?thesis by (simp add: sdk_signs_def demo_sdk_def)
qed

lemma accept_signs_transaction_witness:
  "\<exists>a'. app_event demo_sdk [] Accept demo_accepting = Ok () a' \<and>
    sent a' = sent demo_accepting @ [zeros 65 @ [0x90, 0x00]] \<and>
    flow a' = Flow_idle \<and> apdu_u a' = Apdu_cleared \<and> no_secrets (apdu_priv a')"
proof (rule accept_signs_transaction)
  show "live_sign demo_accepting = Some demo_signing" "sizes_ok demo_accepting"
    "live_tx (sign_ctx demo_signing demo_accepting) = Some demo_tx"
    using demo_parsed_props
    by (simp_all add: demo_accepting_def live_sign_def sizes_ok_def sign_ctx_def live_tx_def apdu_sign_state_t.defs demo_signing_def)
qed (simp_all add: demo_accepting_def demo_signs demo_tx_def zero_tx_def demo_signing_def zero_sign_state_def)





end
