(* ===== verification/Message_Laws.thy ===== *)
theory Message_Laws
  imports Accept_Laws
begin

text \<open>
  What is shown and signed of a message: the replacement of undisplayable characters against a
  reference rendering, the truncation, and the hash over all packets.
\<close>

section \<open>The text of a message\<close>

text \<open>The bytes to skip behind a character, and whether they are all there.\<close>

definition skipped_bytes :: "u8 \<Rightarrow> nat" where
  "skipped_bytes c = (if cant_display c then continuation_bytes c else 0)"

fun chars_complete :: "u8 list \<Rightarrow> bool" where
  "chars_complete [] = True"
| "chars_complete (c # cs) \<longleftrightarrow> skipped_bytes c \<le> length cs \<and> chars_complete (drop (skipped_bytes c) cs)"

text \<open>The reference: one byte for each character, an asterisk when it cannot be displayed.\<close>

fun render_chars :: "u8 list \<Rightarrow> u8 list" where
  "render_chars [] = []"
| "render_chars (c # cs) = (if cant_display c then 42 else c) # render_chars (drop (skipped_bytes c) cs)"

lemma length_render_chars: "length (render_chars cs) \<le> length cs"
  by (induction cs rule: render_chars.induct) auto

lemma render_chars_displayable: "c \<in> set (render_chars cs) \<Longrightarrow> \<not> cant_display c"
  by (induction cs rule: render_chars.induct) (auto simp: cant_display_def split: if_splits)

lemma mem_write_Cons:
  "j < length b \<Longrightarrow> mem_write (b[j := x]) (Suc j) xs = mem_write b j (x # xs)"
  by (simp add: mem_write_def take_Suc_conv_app_nth)

text \<open>The loop over a text whose characters are complete, whatever follows it.\<close>

lemma undisplayable_loop_prefix:
  assumes "chars_complete good" "drop i tmp = good @ rest" "j + length good \<le> length buf"
  shows "undisplayable_loop tmp i j (buf, sz) =
    undisplayable_loop tmp (i + length good) (j + length (render_chars good))
      (mem_write buf j (render_chars good), sz - of_nat (length good - length (render_chars good)))"
  using assms
proof (induction good arbitrary: i j buf sz rule: render_chars.induct)
  case 1
  then show ?case by (simp add: mem_write_def)
next
  case (2 c cs)
  let ?n = "skipped_bytes c" and ?cs = "drop (skipped_bytes c) cs"
  have n: "?n \<le> length cs" and good: "chars_complete ?cs" using "2.prems"(1) by simp_all
  have i: "i < length tmp" "tmp ! i = c" "drop (Suc i) tmp = cs @ rest"
  proof -
    show "i < length tmp" using "2.prems"(2) by (cases "i < length tmp") simp_all
    then have "drop i tmp = tmp ! i # drop (Suc i) tmp" by (simp add: Cons_nth_drop_Suc)
    then show "tmp ! i = c" "drop (Suc i) tmp = cs @ rest" using "2.prems"(2) by simp_all
  qed
  have d: "drop (i + ?n + 1) tmp = ?cs @ rest"
    using i(3) n drop_drop [of ?n "Suc i" tmp] by (simp add: ac_simps)
  have IH: "undisplayable_loop tmp (i + ?n + 1) (Suc j) (buf[j := x], s) =
      undisplayable_loop tmp (i + ?n + 1 + length ?cs) (Suc j + length (render_chars ?cs))
        (mem_write (buf[j := x]) (Suc j) (render_chars ?cs), s - of_nat (length ?cs - length (render_chars ?cs)))" for x s
    using "2.prems"(3) n by (intro "2.IH" good d) simp
  have l: "length (c # cs) - length (render_chars (c # cs)) = ?n + (length ?cs - length (render_chars ?cs))"
    and e: "i + ?n + 1 + length ?cs = i + length (c # cs)"
    using length_render_chars [of ?cs] n by simp_all
  have j: "j < length buf" using "2.prems"(3) by simp
  show ?case
  proof (cases "cant_display c")
    case True
    then have "?n = continuation_bytes c" by (simp add: skipped_bytes_def)
    then show ?thesis
      using True i(1,2) IH [of 42 "sz - of_nat ?n"] l e mem_write_Cons [OF j, of 42 "render_chars ?cs"]
      by (subst undisplayable_loop.simps) (simp add: Let_def diff_diff_eq)
  next
    case False
    then have "?n = 0" by (simp add: skipped_bytes_def)
    then show ?thesis
      using False i(1,2) IH [of c sz] l e mem_write_Cons [OF j, of c "render_chars ?cs"]
      by (subst undisplayable_loop.simps) simp
  qed
qed

lemma undisplayable_loop_end [simp]:
  "length tmp \<le> i \<Longrightarrow> undisplayable_loop tmp i j (b, sz) = (b, sz)"
  by (subst undisplayable_loop.simps) simp

text \<open>The buffer may be longer than the text in it.\<close>

lemma replace_undisplayable_eq:
  assumes "chars_complete msg" "length msg < 256"
  shows "replace_undisplayable (msg @ rest, of_nat (length msg)) =
    (render_chars msg @ zeros (length msg - length (render_chars msg)) @ rest, of_nat (length (render_chars msg)))"
proof -
  have u: "unat (of_nat (length msg) :: u8) = length msg"
    using assms(2) by (simp add: unat_of_nat)
  have "(of_nat (length msg) :: u8) - of_nat (length msg - length (render_chars msg)) = of_nat (length (render_chars msg))"
    using length_render_chars [of msg] by (simp add: of_nat_diff)
  then show ?thesis
    using undisplayable_loop_prefix [of msg 0 msg "[]" 0 "zeros (length msg) @ rest" "of_nat (length msg)"] assms(1)
      length_render_chars [of msg]
    by (simp add: replace_undisplayable_def Let_def u mem_write_def zeros_def)
qed

text \<open>
  C21. On a text without truncated multi-byte characters the replacement in place leaves exactly
  the reference rendering, one displayable character for each character, and its size.
\<close>

theorem undisplayable_replaced:
  assumes "chars_complete msg" "length msg < 256"
  shows "replace_undisplayable (msg, of_nat (length msg)) =
      (render_chars msg @ zeros (length msg - length (render_chars msg)), of_nat (length (render_chars msg))) \<and>
    (\<forall>c\<in>set (render_chars msg). \<not> cant_display c)"
  using replace_undisplayable_eq [OF assms, of "[]"] render_chars_displayable [of _ msg] by auto

definition demo_text :: "u8 list" where
  "demo_text = [0x41, 0xE2, 0x82, 0xAC, 0x42]"

lemma undisplayable_replaced_witness:
  "replace_undisplayable (demo_text, of_nat (length demo_text)) =
     (render_chars demo_text @ zeros (length demo_text - length (render_chars demo_text)),
      of_nat (length (render_chars demo_text))) \<and>
    list_all (\<lambda>c. \<not> cant_display c) (render_chars demo_text)"
  unfolding list_all_iff by (rule undisplayable_replaced) code_simp+

text \<open>The reference for what a message prompt shows: at most 64 characters, dots for the rest.\<close>

definition shown_message :: "bool \<Rightarrow> u8 list \<Rightarrow> u8 list" where
  "shown_message hex msg =
     (let r = if hex then msg else render_chars msg
      in if 64 < length r then take 61 r @ [46, 46, 46] else r)"

lemma length_magic [simp]: "length nervos_magic = 15"
  by (simp add: nervos_magic_def)

lemma slice_magic:
  assumes "length msg \<le> 215"
  shows "slice_magic_bytes (nervos_magic @ msg, of_nat (length (nervos_magic @ msg))) =
    Some (msg @ drop (length msg) (nervos_magic @ msg), of_nat (length msg))"
proof -
  have u: "unat (of_nat (15 + length msg) :: u8) = 15 + length msg" using assms by (simp add: unat_of_nat del: of_nat_add)
  have "(of_nat (15 + length msg) :: u8) - of_nat 15 = of_nat (length msg)" by simp
  then show ?thesis using u
    by (simp add: slice_magic_bytes_def Let_def mem_write_def)
qed

lemma long_message:
  assumes "length r < 256"
  shows "\<exists>b sz. handle_long_message (r @ x, of_nat (length r)) = Some (b, sz) \<and> unat sz \<le> 64 \<and>
    unat sz \<le> length b \<and> take (unat sz) b = (if 64 < length r then take 61 r @ [46, 46, 46] else r)"
proof -
  have u: "unat (of_nat (length r) :: u8) = length r" using assms by (simp add: unat_of_nat)
  have l: "64 < (of_nat (length r) :: u8) \<longleftrightarrow> 64 < length r" by (simp add: word_less_nat_alt u)
  have "take 64 ((r @ x)[61 := 46, 62 := 46, 63 := 46]) = take 61 r @ [46, 46, 46]" if "64 < length r"
    using that by (intro nth_equalityI) (auto simp: nth_append nth_list_update nth_Cons')
  then show ?thesis using u l by (auto simp: handle_long_message_def)
qed

text \<open>
  C20. The prompt of a message of at most 215 bytes behind its magic prefix that is shown as hex
  or has only complete characters shows it without the prefix, rendered as the reference says
  and cut after 61 characters with three dots; the copy into the display buffer stays inside both
  buffers. (C39 is about the other messages.)
\<close>

theorem message_shown:
  assumes "hex \<or> chars_complete msg" "length msg \<le> 215"
  shows "\<exists>b sz. message_display hex (nervos_magic @ msg) = Some (b, sz) \<and> unat sz \<le> 64 \<and>
    unat sz \<le> length b \<and> take (unat sz) b = shown_message hex msg"
proof (cases hex)
  case True
  then show ?thesis
    using slice_magic [OF assms(2)] long_message [of msg] assms(2)
    by (simp add: message_display_def shown_message_def)
next
  case False
  then show ?thesis
    using slice_magic [OF assms(2)] replace_undisplayable_eq [of msg] assms
      long_message [of "render_chars msg"] length_render_chars [of msg]
    by (simp add: message_display_def shown_message_def Let_def)
qed

lemma message_shown_witness:
  "\<exists>b sz. message_display False (nervos_magic @ demo_text) = Some (b, sz) \<and> unat sz \<le> 64 \<and>
    unat sz \<le> length b \<and> take (unat sz) b = shown_message False demo_text"
  by (rule message_shown) code_simp+

lemma length_complete: "chars_complete cs \<Longrightarrow> length cs \<le> 4 * length (render_chars cs)"
proof (induction cs rule: render_chars.induct)
  case (2 c cs)
  have "skipped_bytes c \<le> 3" by (simp add: skipped_bytes_def continuation_bytes_def)
  then show ?case using 2 by simp
qed simp

lemma replace_truncated:
  assumes "chars_complete good" "cant_display c" "length partial < continuation_bytes c"
    "length (good @ c # partial) < 256"
  shows "replace_undisplayable ((good @ c # partial) @ rest, of_nat (length (good @ c # partial))) =
    (render_chars good @ 42 # zeros (length (good @ partial) - length (render_chars good)) @ rest,
     of_nat (length (render_chars good @ [42])) - of_nat (continuation_bytes c - length partial))"
proof -
  let ?msg = "good @ c # partial" and ?k = "length (render_chars good)" and ?n = "continuation_bytes c"
  have "unat (of_nat n :: u8) = n" if "n < 256" for n using that by (simp add: unat_of_nat)
  note u = this [OF assms(4)]
  have k: "?k \<le> length good" by (rule length_render_chars)
  define z where "z = zeros (length ?msg) @ rest"
  have l: "length ?msg = ?k + Suc (length (good @ partial) - ?k)" using k by simp
  have "z = zeros ?k @ 0 # zeros (length (good @ partial) - ?k) @ rest"
    unfolding z_def l by (simp only: zeros_def replicate_add replicate_Suc append_assoc append_Cons)
  then have z: "(mem_write z 0 (render_chars good))[?k := 42] =
      render_chars good @ 42 # zeros (length (good @ partial) - ?k) @ rest"
    by (simp add: mem_write_def list_update_append)
  have sz: "(of_nat (length ?msg) :: u8) - of_nat (length good - ?k) - of_nat ?n =
      of_nat (length (render_chars good @ [42])) - of_nat (?n - length partial)"
    using k assms(3) by (simp add: of_nat_diff algebra_simps)
  have "undisplayable_loop ?msg 0 0 (z, of_nat (length ?msg)) =
      undisplayable_loop ?msg (length good) ?k
        (mem_write z 0 (render_chars good), of_nat (length ?msg) - of_nat (length good - ?k))"
    using undisplayable_loop_prefix [OF assms(1), of 0 ?msg "c # partial" 0 z] by (simp add: z_def)
  also have "\<dots> = (render_chars good @ 42 # zeros (length (good @ partial) - ?k) @ rest,
      of_nat (length (render_chars good @ [42])) - of_nat (?n - length partial))"
    using assms(2,3) z sz by (subst undisplayable_loop.simps) (simp add: Let_def)
  finally show ?thesis using u by (simp add: replace_undisplayable_def Let_def z_def mem_write_def zeros_def)
qed

text \<open>
  C39. A message that ends inside a multi-byte character loses characters: the size is reduced by
  all the continuation bytes its leading byte promises, so the last characters, as many as bytes
  are missing, are not shown. When the message has fewer characters than that, the size wraps
  around to more than 252 and the three dots are written behind the buffer.
\<close>

theorem truncated_character_overruns:
  assumes "chars_complete good" "cant_display c" "length partial < continuation_bytes c"
    "length (good @ c # partial) \<le> 215"
  shows "(\<exists>pad. replace_undisplayable (good @ c # partial, of_nat (length (good @ c # partial))) =
      (render_chars good @ 42 # pad,
       of_nat (length (render_chars good @ [42])) - of_nat (continuation_bytes c - length partial))) \<and>
    (length (render_chars good @ [42]) < continuation_bytes c - length partial \<longrightarrow>
      message_display False (nervos_magic @ good @ c # partial) = None)"
proof -
  note r = replace_truncated [OF assms(1-3)]
  have "message_display False (nervos_magic @ good @ c # partial) = None"
    if short: "length (render_chars good @ [42]) < continuation_bytes c - length partial"
  proof -
    let ?sz = "of_nat (length (render_chars good @ [42])) - of_nat (continuation_bytes c - length partial) :: u8"
    have c3: "continuation_bytes c \<le> 3" by (simp add: continuation_bytes_def)
    obtain d where d: "continuation_bytes c - length partial = d" by simp
    then have "d = 2 \<or> d = 3" "length (render_chars good) \<le> 1" using short c3 by auto
    then have "d = 2 \<or> d = 3" "length (render_chars good) = 0 \<or> length (render_chars good) = 1" by linarith+
    then have sz: "64 < ?sz" using short unfolding d by auto
    have "length good \<le> 4" using length_complete [OF assms(1)] short c3 by simp
    then have l: "length (good @ c # partial) < 49" using assms(3) c3 by simp
    show ?thesis
      using slice_magic [OF assms(4)] r [of "drop (length (good @ c # partial)) (nervos_magic @ good @ c # partial)"] l assms(4) sz
        length_render_chars [of good]
      by (simp add: message_display_def handle_long_message_def)
  qed
  then show ?thesis using r [of "[]"] assms(4) by auto
qed

text \<open>Behind \<open>A\<close>, a leading byte that promises two bytes, of which one is there; and one alone.\<close>

lemma truncated_character_overruns_witness:
  "(\<exists>pad. replace_undisplayable ([0x41, 0xE2, 0x82], 3) = (0x2A # pad, 1) \<or>
     replace_undisplayable ([0x41, 0xE2, 0x82], 3) = (0x41 # 0x2A # pad, 1)) \<and>
   message_display False (nervos_magic @ [0xF0]) = None"
proof
  have 1: "chars_complete [0x41]" "chars_complete []" "cant_display 0xE2" "cant_display 0xF0"
    "continuation_bytes 0xE2 = 2" "continuation_bytes 0xF0 = 3" "render_chars [0x41] = [0x41]"
    by code_simp+
  show "\<exists>pad. replace_undisplayable ([0x41, 0xE2, 0x82], 3) = (0x2A # pad, 1) \<or>
     replace_undisplayable ([0x41, 0xE2, 0x82], 3) = (0x41 # 0x2A # pad, 1)"
    using truncated_character_overruns [OF 1(1,3), of "[0x82]"] 1(5,7) by auto
  show "message_display False (nervos_magic @ [0xF0]) = None"
    using truncated_character_overruns [OF 1(2,4), of "[]"] 1(6) by simp
qed

section \<open>The hash of a message\<close>

text \<open>The packets of a message behind the setup packet, the last one marked.\<close>

fun message_packets :: "'h sdk \<Rightarrow> u8 list list \<Rightarrow> 'h globals_t \<Rightarrow> (nat, 'h globals_t) res" where
  "message_packets sdk [] a = Undef"
| "message_packets sdk [c] a = message_next sdk True c a"
| "message_packets sdk (c # cs) a = res_bind (message_next sdk False c a) (\<lambda>_. message_packets sdk cs)"

lemma store_display_msg:
  "store_display c m a = Ok m' a' \<Longrightarrow> msg_hash_state m' = msg_hash_state m \<and> msg_key m' = msg_key m"
  by (auto simp: store_display_def split: if_splits option.splits)

lemma store_display_throws: "store_display c m a = Throw e a' \<Longrightarrow> e \<noteq> ASYNC_EXCEPTION"
  by (auto simp: store_display_def split: if_splits option.splits)

lemma live_put_msg [simp]: "live_msg (put_msg m a) = Some m"
  by (simp add: live_msg_def put_msg_def)

lemma finalize_union: "finalize_successful_send n a = Ok x a' \<Longrightarrow> apdu_u a' = apdu_u a"
  by (auto simp: finalize_successful_send_def io_store_def split: if_splits)

lemma message_packet_hashed:
  assumes "message_next sdk False c a = Ok x a'" "live_msg a = Some m"
  shows "\<exists>m'. live_msg a' = Some m' \<and> msg_key m' = msg_key m \<and>
    msg_hash_state m' = blake2b_incremental_hash sdk c (msg_hash_state m)"
  using assms store_display_msg finalize_union
  by (fastforce simp: message_next_def Let_def res_bind_eq_Ok live_msg_def put_msg_def split: if_splits)

lemma message_last_hashed:
  assumes "message_next sdk True c a = Throw ASYNC_EXCEPTION a'" "live_msg a = Some m"
  shows "\<exists>m'. live_msg a' = Some m' \<and> msg_key m' = msg_key m \<and>
    msg_final_hash m' = fst (blake2b_finish_hash sdk (blake2b_incremental_hash sdk c (msg_hash_state m)))"
proof -
  let ?m = "m\<lparr>packet_index := packet_index m + 1\<rparr>"
  obtain m2 a2 where 1: "store_display c ?m (put_msg ?m a) = Ok m2 a2"
    using assms store_display_throws [of c ?m "put_msg ?m a"]
    by (cases "store_display c ?m (put_msg ?m a)") (auto simp: message_next_def Let_def split: if_splits)
  obtain d h where 2: "blake2b_finish_hash sdk (blake2b_incremental_hash sdk c (msg_hash_state m)) = (d, h)"
    by force
  let ?m4 = "m2\<lparr>msg_final_hash := d, msg_hash_state := h\<rparr>"
  have 3: "msg_hash_state m2 = msg_hash_state m" "msg_key m2 = msg_key m" using store_display_msg [OF 1] by simp_all
  have "message_prompt (display_as_hex ?m4) (put_msg ?m4 a2) = Throw ASYNC_EXCEPTION a'"
    using assms 1 2 3 by (simp add: message_next_def Let_def split: if_splits)
  then have "apdu_u a' = Apdu_sign_msg ?m4"
    using prompt_screens_union by (fastforce simp: message_prompt_def put_msg_def)
  then show ?thesis using 2 3 by (simp add: live_msg_def)
qed

lemma message_next_quiet: "message_next sdk False c a \<noteq> Throw ASYNC_EXCEPTION a'"
proof
  assume "message_next sdk False c a = Throw ASYNC_EXCEPTION a'"
  then obtain m where m: "live_msg a = Some m" "\<not> 0xFF \<le> packet_index m"
    by (auto simp: message_next_def split: option.splits if_splits)
  let ?m = "m\<lparr>packet_index := packet_index m + 1\<rparr>"
  show False
    using \<open>message_next sdk False c a = Throw ASYNC_EXCEPTION a'\<close> m store_display_throws [of c ?m "put_msg ?m a"]
    by (cases "store_display c ?m (put_msg ?m a)")
      (auto simp: message_next_def Let_def finalize_successful_send_def io_store_def split: if_splits)
qed

lemma hash_packets:
  "hash_lawful sdk \<Longrightarrow>
   blake2b_incremental_hash sdk b (blake2b_incremental_hash sdk a st) = blake2b_incremental_hash sdk (a @ b) st"
  by (simp add: blake2b_incremental_hash_def conditional_init_hash_state_def hash_lawful_def)

lemma message_packets_hashed:
  assumes "hash_lawful sdk" "message_packets sdk cs a = Throw ASYNC_EXCEPTION a'" "live_msg a = Some m"
  shows "\<exists>m'. live_msg a' = Some m' \<and> msg_key m' = msg_key m \<and>
    msg_final_hash m' = fst (blake2b_finish_hash sdk (blake2b_incremental_hash sdk (concat cs) (msg_hash_state m)))"
  using assms
proof (induction sdk cs a arbitrary: m rule: message_packets.induct)
  case (2 sdk c a)
  then show ?case using message_last_hashed by simp
next
  case (3 sdk c d cs a)
  obtain x a1 where 1: "message_next sdk False c a = Ok x a1" "message_packets sdk (d # cs) a1 = Throw ASYNC_EXCEPTION a'"
    using "3.prems"(2) message_next_quiet [of sdk c a] by (cases "message_next sdk False c a") auto
  obtain m1 where m1: "live_msg a1 = Some m1" "msg_key m1 = msg_key m"
      "msg_hash_state m1 = blake2b_incremental_hash sdk c (msg_hash_state m)"
    using message_packet_hashed [OF 1(1) "3.prems"(3)] by blast
  show ?case
    using "3.IH" [OF 1(1) "3.prems"(1) 1(2) m1(1)] m1(2,3) by (simp add: hash_packets [OF "3.prems"(1)])
qed simp

lemma message_set_up:
  assumes "message_first setup a = Ok n a0"
  shows "\<exists>m ix k. live_msg a0 = Some m \<and> msg_hash_state m = None \<and> msg_key m = k \<and>
    read_bip32_path (tl setup) zero_path = Ok ix k"
  using assms finalize_union
  by (fastforce simp: message_first_def Let_def zero_sign_msg_def put_msg_def live_msg_def
      split: if_splits option.splits res.splits)

text \<open>
  C19. When a setup packet has been accepted and the packets of the message behind it lead to the
  prompt, the key that will sign is the one whose path the setup packet holds, and the hash to be
  signed is the personalised BLAKE2b hash of all packets of the message together, in order and
  whatever their boundaries.
\<close>

theorem message_hash_of_packets:
  assumes "hash_lawful sdk" "message_first setup a = Ok n a0" "message_packets sdk cs a0 = Throw ASYNC_EXCEPTION a'"
  shows "\<exists>m ix. live_msg a' = Some m \<and> read_bip32_path (tl setup) zero_path = Ok ix (msg_key m) \<and>
    msg_final_hash m = fst (sdk_hash_last sdk
      (sdk_hash sdk (sdk_blake2b_init2 sdk 256 blake2b_personalization) (concat cs)) [])"
proof -
  obtain m ix where m: "live_msg a0 = Some m" "msg_hash_state m = None" "read_bip32_path (tl setup) zero_path = Ok ix (msg_key m)"
    using message_set_up [OF assms(2)] by blast
  from message_packets_hashed [OF assms(1,3) m(1)] m(2,3) show ?thesis
    by (auto simp: blake2b_finish_hash_def blake2b_incremental_hash_def conditional_init_hash_state_def
        SIGN_HASH_SIZE_def split: prod.split)
qed

definition demo_message :: "u8 list list" where
  "demo_message = [nervos_magic @ [0x41], [0x42, 0x43]]"

definition demo_setup :: "u8 list" where
  "demo_setup = 0 # path_wire [0x8000002C, 0x80000135]"

definition demo_ready :: "u8 list globals_t" where
  "demo_ready = (put_msg (zero_sign_msg\<lparr>msg_key := \<lparr>path_length = 2,
     path_components = [0x8000002C, 0x80000135, 0, 0, 0]\<rparr>\<rparr>) demo_started)\<lparr>G_io_apdu_buffer := [0x90, 0x00] @ zeros 258\<rparr>"

lemma demo_set_up: "message_first demo_setup demo_started = Ok 2 demo_ready"
proof -
  let ?w = "path_wire [0x8000002C, 0x80000135]"
  have "read_bip32_path (?w @ []) zero_path =
      Ok (1 + 4 * length [0x8000002C, 0x80000135 :: u32])
        (zero_path\<lparr>path_length := of_nat (length [0x8000002C, 0x80000135 :: u32]),
           path_components := [0x8000002C, 0x80000135] @
             drop (length [0x8000002C, 0x80000135 :: u32]) (path_components zero_path)\<rparr>)"
    by (rule wire_path) (simp_all add: zero_path_def)
  then have "read_bip32_path ?w zero_path =
      Ok 9 \<lparr>path_length = 2, path_components = [0x8000002C, 0x80000135, 0, 0, 0]\<rparr>"
    by (simp add: zero_path_def eval_nat_numeral)
  moreover have "?w \<noteq> []" by (simp add: path_wire_def)
  ultimately show ?thesis
    by (simp add: message_first_def demo_setup_def demo_ready_def read_bool_def Let_def zero_sign_msg_def
      clear_message_data_def put_msg_def finalize_successful_send_def io_store_def demo_started_def app_main_def
      init_globals_def mem_write_def zeros_def Suc_le_eq)
qed

lemma demo_message_prompts:
  "case message_packets demo_sdk demo_message demo_ready of Throw e a' \<Rightarrow> e = ASYNC_EXCEPTION | _ \<Rightarrow> False"
  by code_simp

lemma message_hash_of_packets_witness:
  "\<exists>n a' m ix. message_first demo_setup demo_started = Ok n demo_ready \<and>
    message_packets demo_sdk demo_message demo_ready = Throw ASYNC_EXCEPTION a' \<and>
    live_msg a' = Some m \<and> read_bip32_path (tl demo_setup) zero_path = Ok ix (msg_key m) \<and>
    msg_final_hash m = fst (sdk_hash_last demo_sdk
      (sdk_hash demo_sdk (sdk_blake2b_init2 demo_sdk 256 blake2b_personalization) (nervos_magic @ [0x41, 0x42, 0x43])) [])"
proof -
  obtain a' where a': "message_packets demo_sdk demo_message demo_ready = Throw ASYNC_EXCEPTION a'"
    using demo_message_prompts by (auto split: res.splits)
  have "hash_lawful demo_sdk" by (auto simp: hash_lawful_def demo_sdk_def)
  from message_hash_of_packets [OF this demo_set_up a'] demo_set_up a' show ?thesis
    by (auto simp: demo_message_def)
qed

end
