(* ===== verification/Device_Spec.thy ===== *)
theory Device_Spec
  imports Command_Laws
begin

text \<open>
  The application as its user and its host see it: a small state machine of settings, a prompt
  and answers. The detailed model refines it.
\<close>

section \<open>The specification\<close>

text \<open>\<open>asking\<close>: what the accept button of the prompt on display will do.\<close>

record device =
  options :: nvram_data
  asking :: "ui_callback_t option"
  in_menu :: bool
  answers :: "u8 list list"
  running :: bool

definition answered :: "u8 list \<Rightarrow> device \<Rightarrow> device" where
  "answered r d = d\<lparr>answers := answers d @ [r]\<rparr>"

text \<open>
  Every way the device may react. An APDU is answered, or leads to a prompt, or (when the first
  screen of a new prompt fails to be drawn again) both; a button takes the prompt down and is
  answered; the menu changes the options; a failing screen is reported; and the device may stop.
\<close>

inductive device_step :: "device \<Rightarrow> event \<Rightarrow> device \<Rightarrow> bool" where
  answer: "device_step d (Recv c) (answered r d)"
| ask: "device_step d (Recv c) (d\<lparr>asking := Some ok, in_menu := False\<rparr>)"
| ask_answer: "device_step d (Recv c) (answered r (d\<lparr>asking := Some ok, in_menu := False\<rparr>))"
| too_long: "260 < length c \<Longrightarrow> device_step d (Recv c) d"
| accept: "asking d = Some ok \<Longrightarrow> device_step d Accept (answered r (d\<lparr>asking := None\<rparr>))"
| reject: "asking d = Some ok \<Longrightarrow> device_step d Reject (answered (response_of EXC_REJECT) (d\<lparr>asking := None\<rparr>))"
| no_prompt: "asking d = None \<Longrightarrow> ev = Accept \<or> ev = Reject \<Longrightarrow> device_step d ev d"
| screen: "device_step d (Show_screen i) d"
| screen_failed: "asking d = Some ok \<Longrightarrow> device_step d (Show_screen i) (answered r d)"
| open_menu: "asking d = None \<Longrightarrow> device_step d Open_config (d\<lparr>in_menu := True\<rparr>)"
| close_menu: "in_menu d \<Longrightarrow> device_step d Main_menu (d\<lparr>in_menu := False\<rparr>)"
| network: "in_menu d \<Longrightarrow> device_step d Toggle_network (d\<lparr>options := switch_network (options d)\<rparr>)"
| sign_hash: "in_menu d \<Longrightarrow> device_step d Toggle_sign_hash (d\<lparr>options := switch_sign_hash (options d)\<rparr>)"
| contract_data: "in_menu d \<Longrightarrow> device_step d Toggle_contract_data (d\<lparr>options := switch_contract_data (options d)\<rparr>)"
| not_offered: "ev \<in> {Open_config, Main_menu, Toggle_network, Toggle_sign_hash, Toggle_contract_data, Quit} \<Longrightarrow>
    device_step d ev d"
| stop: "device_step d ev (d\<lparr>asking := q, in_menu := m, running := False\<rparr>)"

definition device_of :: "'h globals_t \<Rightarrow> device" where
  "device_of a = \<lparr>options = N_data a, asking = (if flow a = Flow_prompts then ok_callback a else None),
     in_menu = (flow a = Flow_cfg), answers = sent a, running = (waiting a \<noteq> Exited)\<rparr>"

section \<open>Buttons do not prompt\<close>

definition button_kept :: "'h globals_t \<Rightarrow> 'h globals_t \<Rightarrow> bool" where
  "button_kept a a' \<longleftrightarrow> flow a' = flow a \<and> N_data a' = N_data a \<and> sent a' = sent a \<and>
     waiting a' = waiting a \<and> (sizes_ok a \<longrightarrow> sizes_ok a')"

abbreviation button_throw :: "u16 \<Rightarrow> 'h globals_t \<Rightarrow> 'h globals_t \<Rightarrow> bool" where
  "button_throw e a a' \<equiv> button_kept a a' \<and> e \<noteq> ASYNC_EXCEPTION"

interpretation button_eff: effects button_kept button_throw
  by unfold_locales (auto simp: button_kept_def)

lemma button_small [keeps_intros]:
  "keeps button_kept button_throw (io_store i bs)"
  "keeps button_kept button_throw (Ok x)"
  "keeps button_kept button_throw clear_sign_data"
  by (auto simp: keeps_def io_store_def clear_sign_data_def button_kept_def sizes_ok_def)

lemma button_finalize [keeps_intros]: "keeps button_kept button_throw (finalize_successful_send tx)"
  unfolding finalize_successful_send_def [abs_def] by (intro keeps_intros)

lemma button_sign_into_buffer [keeps_intros]:
  assumes "sdk_quiet sdk"
  shows "keeps button_kept button_throw (sign_into_buffer sdk key bs tx)"
proof -
  have "wipes (WITH_KEY_PAIR sdk key (\<lambda>_ priv. sign sdk MAX_SIGNATURE_SIZE priv bs))"
    using assms by (intro wipes_with_key_pair)
      (auto simp: sign_def MAX_SIGNATURE_SIZE_def sdk_quiet_def split: sum.splits)
  then have "keeps button_kept button_throw (zoom apdu_priv (\<lambda>k a. a\<lparr>apdu_priv := k\<rparr>)
      (WITH_KEY_PAIR sdk key (\<lambda>_ priv. sign sdk MAX_SIGNATURE_SIZE priv bs)))"
    by (auto simp: keeps_def eff_def zoom_def wipes_def button_kept_def sizes_ok_def split: res.splits)
  then show ?thesis
    unfolding sign_into_buffer_def [abs_def] by (intro keeps_intros)
qed

lemma button_clear: "button_kept a (clear_message_data a)" "button_kept a (clear_message_hash_data a)"
  by (simp_all add: clear_message_data_def clear_message_hash_data_def put_msg_def put_smh_def button_kept_def sizes_ok_def)

lemma button_signatures [keeps_intros]:
  assumes "sdk_quiet sdk"
  shows "keeps button_kept button_throw (perform_signature sdk on_hash send_hash)"
    "keeps button_kept button_throw (perform_message_signature sdk)"
    "keeps button_kept button_throw (perform_message_hash_signature sdk)"
proof -
  have "eff button_kept button_throw a (finalize_successful_send n (clear_message_data a))"
    "eff button_kept button_throw a (finalize_successful_send n (clear_message_hash_data a))" for n and a :: "'a globals_t"
    by (rule button_eff.eff_trans [OF button_clear(1) keepsD [OF button_finalize]],
        rule button_eff.eff_trans [OF button_clear(2) keepsD [OF button_finalize]])
  then show "keeps button_kept button_throw (perform_message_signature sdk)"
    "keeps button_kept button_throw (perform_message_hash_signature sdk)"
    by (auto simp: keeps_def perform_message_signature_def perform_message_hash_signature_def
        intro!: button_eff.eff_bind keepsD [OF button_sign_into_buffer [OF assms]] split: option.split)
  show "keeps button_kept button_throw (perform_signature sdk on_hash send_hash)"
    unfolding perform_signature_def [abs_def] Let_def
    by (rule keepsI) (auto intro!: button_eff.eff_bind keepsD [OF button_small(1)] keepsD [OF button_small(2)]
        keepsD [OF button_small(3)] keepsD [OF button_finalize] keepsD [OF button_sign_into_buffer [OF assms]]
        split: option.split)
qed

lemma button_provide [keeps_intros]:
  "keeps button_kept button_throw (provide_pubkey W)"
  "keeps button_kept button_throw (provide_ext_pubkey W cc)"
  unfolding provide_pubkey_def [abs_def] provide_ext_pubkey_def [abs_def] Let_def by (intro keeps_intros)+

text \<open>The effect of a button: one response, or an exception that is no prompt.\<close>

definition button_result :: "'h globals_t \<Rightarrow> (unit, 'h globals_t) res \<Rightarrow> bool" where
  "button_result a r \<longleftrightarrow> (case r of
     Ok _ a' \<Rightarrow> \<exists>x b. button_kept a b \<and> a' = b\<lparr>sent := sent a @ [x]\<rparr>
   | Throw e a' \<Rightarrow> button_kept a a' \<and> e \<noteq> ASYNC_EXCEPTION
   | Undef \<Rightarrow> True)"

lemma button_resultI:
  "keeps button_kept button_throw m \<Longrightarrow> button_result a (res_bind (m a) delayed_send)"
  by (drule keepsD [of _ _ _ a], cases "m a") (auto simp: button_result_def delayed_send_def button_kept_def)

lemma reject_answers:
  assumes "sizes_ok a" "cb = sign_reject \<or> cb = delay_reject"
  shows "\<exists>b. run_ui_callback sdk cb a = Ok () (b\<lparr>sent := sent a @ [response_of EXC_REJECT]\<rparr>) \<and> button_kept a b"
proof -
  have r: "\<exists>b. delay_reject_send a' = Ok () (b\<lparr>sent := sent a @ [response_of EXC_REJECT]\<rparr>) \<and> button_kept a b"
    if "button_kept a a'" for a'
    using that assms(1)
    by (intro exI [of _ "a'\<lparr>G_io_apdu_buffer := mem_write (G_io_apdu_buffer a') 0 (response_of EXC_REJECT)\<rparr>"])
      (simp add: delay_reject_send_def io_store_def sizes_ok_def delayed_send_def mem_write_def response_of_def
        EXC_REJECT_def button_kept_def)
  have "button_kept a (a\<lparr>apdu_u := Apdu_cleared\<rparr>)" by (simp add: button_kept_def sizes_ok_def)
  moreover have "button_kept a a" by (simp add: button_kept_def)
  ultimately show ?thesis using assms(2) r [of a] r [of "a\<lparr>apdu_u := Apdu_cleared\<rparr>"]
    by (auto simp: run_ui_callback_def clear_sign_data_def)
qed

lemma button_callback:
  assumes "sdk_quiet sdk" "sizes_ok a"
  shows "button_result a (run_ui_callback sdk cb a)"
proof -
  have rej: "button_result a (run_ui_callback sdk cb a)" if "cb = sign_reject \<or> cb = delay_reject"
    using reject_answers [OF assms(2) that, of sdk] by (fastforce simp: button_result_def)
  show ?thesis
    using rej button_resultI [OF button_signatures(1) [OF assms(1)], of a] button_resultI [OF button_signatures(2) [OF assms(1)], of a]
      button_resultI [OF button_signatures(3) [OF assms(1)], of a] button_resultI [OF button_provide(1), of a]
      button_resultI [OF button_provide(2), of a]
    by (cases cb) (auto simp: run_ui_callback_def button_result_def split: option.split)
qed

section \<open>The refinement\<close>

lemma catch_main_device:
  assumes "catch_main e a1 = Ok () a'"
  shows "N_data a' = N_data a1 \<and> flow a' = flow a1 \<and> ok_callback a' = ok_callback a1 \<and>
    (if e = ASYNC_EXCEPTION then sent a' = sent a1 \<and> waiting a' = Outside_try
     else if e = EXCEPTION_IO_RESET then sent a' = sent a1 \<and> waiting a' = Exited
     else \<exists>r. sent a' = sent a1 @ [r] \<and> waiting a' = Outside_try)"
  using assms
  by (auto simp: catch_main_def Let_def res_bind_eq_Ok delayed_send_def clear_apdu_globals_def
      dest!: io_store_frame split: if_splits)

text \<open>Steps of the specification by the state they lead to.\<close>

lemma device_stop:
  assumes "options d' = options d" "answers d' = answers d" "\<not> running d'"
  shows "device_step d ev d'"
proof -
  have "d' = d\<lparr>asking := asking d', in_menu := in_menu d', running := False\<rparr>"
    using assms by simp
  then show ?thesis by (metis device_step.stop)
qed

lemma device_recv:
  assumes "options d' = options d" "running d' = running d"
    "asking d' = asking d \<and> in_menu d' = in_menu d \<and> (\<exists>r. answers d' = answers d @ [r]) \<or>
     (\<exists>ok. asking d' = Some ok) \<and> \<not> in_menu d' \<and> (answers d' = answers d \<or> (\<exists>r. answers d' = answers d @ [r]))"
  shows "device_step d (Recv c) d'"
proof -
  have "(\<exists>r. d' = answered r d) \<or> (\<exists>ok. d' = d\<lparr>asking := Some ok, in_menu := False\<rparr>) \<or>
      (\<exists>r ok. d' = answered r (d\<lparr>asking := Some ok, in_menu := False\<rparr>))"
    by (cases d, cases d') (use assms in \<open>auto simp: answered_def\<close>)
  then show ?thesis by (auto intro: device_step.intros)
qed

lemma recv_refines:
  assumes "sdk_quiet sdk" "app_reachable sdk commit nv a" "waiting a \<noteq> Exited" "length c \<le> 260"
    "main_iteration sdk commit (length c) (received c a) = Ok () a'"
  shows "device_step (device_of a) (Recv c) (device_of a')"
proof -
  note e = received_effect [OF assms(1-4)]
  have r: "flow (received c a) = flow a" "ok_callback (received c a) = ok_callback a"
    "sent (received c a) = sent a" "N_data (received c a) = N_data a"
    by (simp_all add: received_def)
  show ?thesis
  proof (cases "process_apdu sdk commit (length c) (received c a)")
    case (Ok tx a1)
    then have "frame_kept (received c a) a1" "prompt_kept (received c a) a1"
      using e(2) by (simp_all add: handler_kept_def)
    moreover have "a' = a1\<lparr>waiting := In_try, sent := sent a1 @ [take tx (G_io_apdu_buffer a1)]\<rparr>"
      using assms(5) Ok by (simp add: main_iteration_def delayed_send_def)
    ultimately show ?thesis using assms(3) r
      by (intro device_recv) (auto simp: device_of_def frame_kept_def prompt_kept_def)
  next
    case (Throw x a1)
    then have k: "frame_kept (received c a) a1" "prompt_kept (received c a) a1"
      "x = ASYNC_EXCEPTION \<Longrightarrow> flow a1 = Flow_prompts" "buttons_ok a1"
      using e by (simp_all add: handler_throw_def frame_kept_def app_inv_def)
    have c: "catch_main x a1 = Ok () a'" using assms(5) Throw by (simp add: main_iteration_def)
    show ?thesis
    proof (cases "x = EXCEPTION_IO_RESET")
      case True
      then show ?thesis using catch_main_device [OF c] k r
        by (intro device_stop) (auto simp: device_of_def frame_kept_def EXCEPTION_IO_RESET_def exception_code_defs)
    next
      case False
      then show ?thesis using catch_main_device [OF c] k r assms(3)
        by (intro device_recv) (auto simp: device_of_def frame_kept_def prompt_kept_def buttons_ok_def split: if_splits)
    qed
  qed (use assms(5) in \<open>simp add: main_iteration_def\<close>)
qed

lemma button_refines:
  assumes "sdk_quiet sdk" "app_inv a" "waiting a \<noteq> Exited" "flow a = Flow_prompts"
    "in_io_exchange (prompt_response sdk accepted) a = Ok () a'"
  shows "device_step (device_of a) (if accepted then Accept else Reject) (device_of a')"
proof -
  let ?a = "a\<lparr>flow := Flow_idle\<rparr>"
  obtain ok_c cxl_c where cb: "ok_callback a = Some ok_c" "cxl_callback a = Some cxl_c"
      "cxl_c = sign_reject \<or> cxl_c = delay_reject"
    using assms(2,4) by (auto simp: app_inv_def buttons_ok_def)
  have s: "sizes_ok ?a" using assms(2) by (simp add: app_inv_def sizes_ok_def)
  let ?r = "run_ui_callback sdk (if accepted then ok_c else cxl_c) ?a"
  have r: "prompt_response sdk accepted a = ?r" using cb(1,2) by (simp add: prompt_response_def Let_def)
  have b: "button_result ?a ?r" by (rule button_callback [OF assms(1) s])
  have asking: "asking (device_of a) = Some ok_c" using cb(1) assms(4) by (simp add: device_of_def)
  show ?thesis
  proof (cases ?r)
    case (Ok u a1)
    then have a1: "a' = a1" using assms(5) r by (simp add: in_io_exchange_def)
    show ?thesis
    proof (cases accepted)
      case True
      obtain x b where "button_kept ?a b" "a1 = b\<lparr>sent := sent a @ [x]\<rparr>" using b Ok by (auto simp: button_result_def)
      then have "device_of a' = answered x (device_of a\<lparr>asking := None\<rparr>)"
        using a1 assms(3,4) by (simp add: device_of_def answered_def button_kept_def)
      then show ?thesis using True device_step.accept [OF asking, of x] by simp
    next
      case False
      obtain b where "button_kept ?a b" "a1 = b\<lparr>sent := sent a @ [response_of EXC_REJECT]\<rparr>"
        using reject_answers [OF s cb(3), of sdk] Ok False by auto
      then have "device_of a' = answered (response_of EXC_REJECT) (device_of a\<lparr>asking := None\<rparr>)"
        using a1 assms(3,4) by (simp add: device_of_def answered_def button_kept_def)
      then show ?thesis using False device_step.reject [OF asking] by simp
    qed
  next
    case (Throw e a1)
    then have k: "button_kept ?a a1" "e \<noteq> ASYNC_EXCEPTION" using b by (simp_all add: button_result_def)
    have acc: accepted using reject_answers [OF s cb(3), of sdk] Throw by (cases accepted) auto
    show ?thesis
    proof (cases "waiting a = In_try \<and> e \<noteq> EXCEPTION_IO_RESET")
      case True
      then have "catch_main e a1 = Ok () a'" using assms(5) r Throw by (simp add: in_io_exchange_def)
      then obtain x where "device_of a' = answered x (device_of a\<lparr>asking := None\<rparr>)"
        using catch_main_device [of e a1 a'] True k assms(4)
        by (auto simp: device_of_def answered_def button_kept_def)
      then show ?thesis using acc device_step.accept [OF asking, of x] by simp
    next
      case False
      then show ?thesis using assms(5) r Throw k catch_main_device [of e a1 a']
        by (intro device_stop) (auto simp: in_io_exchange_def device_of_def button_kept_def split: if_splits)
    qed
  qed (use assms(5) r in \<open>simp add: in_io_exchange_def\<close>)
qed

lemma screen_refines:
  assumes "waiting a \<noteq> Exited" "flow a = Flow_prompts" "app_inv a"
    "in_io_exchange (run_switch_screen i) a = Ok () a'"
  shows "device_step (device_of a) (Show_screen k) (device_of a')"
proof -
  obtain ok_c where asking: "asking (device_of a) = Some ok_c"
    using assms(2,3) by (auto simp: device_of_def app_inv_def buttons_ok_def)
  show ?thesis
  proof (cases "run_switch_screen i a")
    case (Ok u a1)
    then have "device_of a' = device_of a"
      using keepsD [OF screen_run [of i], of a] assms(4)
      by (auto simp: in_io_exchange_def device_of_def screen_only_def ui_only_def)
    then show ?thesis by (simp add: device_step.screen)
  next
    case (Throw e a1)
    then have k: "screen_only a a1" "e \<noteq> ASYNC_EXCEPTION" using keepsD [OF screen_run [of i], of a] by simp_all
    show ?thesis
    proof (cases "waiting a = In_try \<and> e \<noteq> EXCEPTION_IO_RESET")
      case True
      then have "catch_main e a1 = Ok () a'" using assms(4) Throw by (simp add: in_io_exchange_def)
      then obtain x where "device_of a' = answered x (device_of a)"
        using catch_main_device [of e a1 a'] True k
        by (auto simp: device_of_def answered_def screen_only_def ui_only_def)
      then show ?thesis using device_step.screen_failed [OF asking, of k x] by simp
    next
      case False
      then show ?thesis using assms(4) Throw k catch_main_device [of e a1 a']
        by (intro device_stop) (auto simp: in_io_exchange_def device_of_def screen_only_def ui_only_def split: if_splits)
    qed
  qed (use assms(4) in \<open>simp add: in_io_exchange_def\<close>)
qed

text \<open>
  C1. The application refines the specification: every step between two waits, seen as settings,
  prompt and answers, is a step the specification allows for the same event. In particular a
  prompt appears only on an APDU and goes only by a button, and the reject button answers 0x6985.
\<close>

theorem app_refines_device:
  assumes "sdk_quiet sdk" "app_reachable sdk commit nv a" "app_step sdk commit a ev a'"
  shows "device_step (device_of a) ev (device_of a')"
proof -
  have w: "waiting a \<noteq> Exited" and ev: "app_event sdk commit ev a = Ok () a'"
    using assms(3) by (auto elim: app_step.cases)
  have i: "app_inv a" using reachable_inv [OF assms(1,2)] w by simp
  have asking: "asking (device_of a) = None" if "flow a \<noteq> Flow_prompts" using that by (simp add: device_of_def)
  show ?thesis
  proof (cases ev)
    case (Recv c)
    then show ?thesis
      using ev recv_refines [OF assms(1,2) w, of c a'] device_step.too_long [of c "device_of a"]
      by (auto simp: IO_APDU_BUFFER_SIZE_def received_def split: if_splits)
  next
    case (Show_screen k)
    then show ?thesis using ev screen_refines [OF w _ i] device_step.screen by (auto split: if_splits)
  next
    case Accept
    then show ?thesis
      using ev button_refines [OF assms(1) i w, of True a'] device_step.no_prompt [OF asking, of Accept]
      by (auto split: if_splits)
  next
    case Reject
    then show ?thesis
      using ev button_refines [OF assms(1) i w, of False a'] device_step.no_prompt [OF asking, of Reject]
      by (auto split: if_splits)
  next
    case Open_config
    then show ?thesis
      using ev device_step.open_menu [of "device_of a"] device_step.not_offered [of Open_config "device_of a"]
      by (auto simp: device_of_def split: if_splits)
  next
    case Quit
    then show ?thesis
      using ev device_step.not_offered [of Quit "device_of a"] device_stop [of "device_of a'" "device_of a" Quit]
      by (auto simp: device_of_def split: if_splits)
  qed (use ev device_step.network [of "device_of a"] device_step.sign_hash [of "device_of a"]
      device_step.contract_data [of "device_of a"] device_step.close_menu [of "device_of a"]
      device_step.not_offered [of ev "device_of a"] in \<open>auto simp: device_of_def split: if_splits\<close>)
qed

lemma app_refines_device_witness:
  "device_step (device_of demo_started) (Recv import_apdu) (device_of demo_importing)"
  by (rule app_refines_device [OF demo_quiet demo_started_reachable demo_importing_app_step])

end
