(* ===== verification/Transcriber_Trace.thy ===== *)
theory Transcriber_Trace
  imports Transcriber
begin

text \<open>
  What the transcriber writes. The locale \<open>trace\<close> is interpreted with the updates of the
  transcript as events; the reader of an annotated transaction performs a known list of
  updates, and their sum is the transcript of the plain transaction and of the message.
\<close>

section \<open>Updates\<close>

definition runs :: "(transcript \<Rightarrow> transcript) list \<Rightarrow> transcript \<Rightarrow> transcript \<Rightarrow> bool" where
  "runs fs l l' \<longleftrightarrow> l' = fold (\<lambda>f. f) fs l"

interpretation run: trace runs
  by unfold_locales (simp_all add: runs_def)

lemma runs_upd [simp]: "does (runs [f]) any (t_upd f)"
  by (simp add: does_def runs_def t_upd_def)

lemma runs_size: "run.size_does False (Some (upd_size f)) n [f n]"
  by (simp add: run.size_does_def does_def runs_def upd_size_def)

text \<open>Parts that write nothing.\<close>

interpretation idle: effects "(=) :: transcript \<Rightarrow> transcript \<Rightarrow> bool" "\<lambda>_ _ _. True"
  by unfold_locales auto

abbreviation idle_part :: "transcript component \<Rightarrow> bool" where
  "idle_part \<equiv> keeps_component (=) (\<lambda>_ _ _. True)"

lemma idle_size [keeps_intros]: "keeps (=) E (upd_size (\<lambda>_ l. l) n)" "keeps (=) E (path_size n)"
  by (simp_all add: keeps_def upd_size_def path_size_def)

lemma idle_reads: "uses False p sz bs \<Longrightarrow> idle_part p \<Longrightarrow> reads False p sz bs (runs [])"
  unfolding uses_def by (drule reads_keeps, assumption, erule reads_mono) (simp add: runs_def)

lemma idle_init: "idle_part p \<Longrightarrow> does (runs []) any (fst p)"
  using keepsD [OF keeps_componentD(1)] by (fastforce simp: does_def runs_def eff_def split: res.splits)

lemmas idle_rules = keeps_intros keeps_someI idle.reader_keeps keeps_hooksI

section \<open>Inputs\<close>

abbreviation input_cb :: "(u8 list \<Rightarrow> u8 list) \<Rightarrow> transcript CellInput_callbacks option" where
  "input_cb dig \<equiv> annotatedcellinput_input (transcribe_input dig)"

lemma cell_input_runs:
  assumes "wf_input x" "sz = 44"
  shows "reads False (CellInput (input_cb dig)) sz (enc_cell_input x)
    (runs [t_feed (u64_le (in_since x)), t_set_index (u32_le (op_index (in_previous x)))])"
proof -
  have "reads False (OutPoint (cb_field cellinput_previous_output (input_cb dig))) 36
      (op_tx_hash (in_previous x) @ u32_le (op_index (in_previous x)))
      (runs ([] @ [t_set_index (u32_le (op_index (in_previous x)))] @ []))"
    unfolding OutPoint_eq
    by (rule run.struct_trace)
      (use assms(1) in \<open>auto intro!: run.array_trace run.array_inits simp: transcribe_input_def
        wf_input_def wf_out_point_def\<close>)
  moreover have "reads False (Uint64 (cb_field cellinput_since (input_cb dig))) 8 (u64_le (in_since x))
      (runs [t_feed (u64_le (in_since x))])"
    by (rule run.array_trace) (auto simp: transcribe_input_def)
  ultimately have "reads False (CellInput (input_cb dig)) sz (enc_cell_input x)
      (runs ([t_feed (u64_le (in_since x))] @ [t_set_index (u32_le (op_index (in_previous x)))] @ []))"
    unfolding CellInput_eq enc_cell_input_def enc_out_point_def
    by (intro run.struct_trace) (auto simp: assms(2) OutPoint_eq transcribe_input_def
        intro!: run.inits_trace run.array_inits)
  then show ?thesis by simp
qed

lemma source_runs:
  assumes "wf_raw wf_input x" "length (enc_raw_tx x) < 2 ^ 32"
  shows "reads False (RawTransaction (annotatedcellinput_source (transcribe_input dig)))
    (of_nat (length (enc_raw_tx x))) (enc_raw_tx x) (runs [t_add_source (enc_raw_tx x), t_source_end dig])"
proof -
  let ?cb = "annotatedcellinput_source (transcribe_input dig)"
  let ?xs = "[(Uint32 (cb_field rawtransaction_version ?cb), u32_le (rt_version x), []),
    (CellDepVec (cb_field rawtransaction_cell_deps ?cb), molecule_fixvec (map enc_cell_dep (rt_cell_deps x)), []),
    (Byte32Vec (cb_field rawtransaction_header_deps ?cb), molecule_fixvec (rt_header_deps x), []),
    (CellInputVec (cb_field rawtransaction_inputs ?cb), enc_inputs (rt_inputs x), []),
    (CellOutputVec (cb_field rawtransaction_outputs ?cb), molecule_table (map enc_cell_output (rt_outputs x)), []),
    (BytesVec (cb_field rawtransaction_outputs_data ?cb), molecule_table (map molecule_bytes (rt_outputs_data x)), [])]
    :: (transcript component \<times> u8 list \<times> (transcript \<Rightarrow> transcript) list) list"
  note f = raw_fields [OF assms [unfolded enc_raw_tx_def]]
  have fields: "RawTransaction_fields ?cb = map fst ?xs"
    and enc: "enc_raw_tx x = molecule_table (map (fst \<circ> snd) ?xs)"
    by (simp_all add: RawTransaction_fields_def enc_raw_tx_def enc_raw_def)
  have k: "list_all (\<lambda>(p, f, e). idle_part p \<and> uses False p (of_nat (length f)) f \<and> e = []) ?xs"
    using f by (auto simp: transcribe_input_def
        intro!: uses_array uses_cell_deps uses_header_deps uses_inputs uses_outputs uses_bytes_vec idle_rules)
  have "reads False (table (hooks_of ?cb) (cb_field rawtransaction_offsets ?cb) (map fst ?xs))
      (of_nat (length (molecule_table (map (fst \<circ> snd) ?xs)))) (molecule_table (map (fst \<circ> snd) ?xs))
      (runs ([] @ concat (map (snd \<circ> snd) ?xs) @ [t_add_source (enc_raw_tx x)] @ [t_source_end dig]))"
  proof (rule run.table_list_trace)
    show "list_all (\<lambda>(p, f, e). reads False p (of_nat (length f)) f (runs e) \<and> does (runs []) any (fst p)) ?xs"
      using k by (rule list.pred_mono_strong) (auto intro: idle_reads idle_init)
    show "run.closes (hooks_of ?cb) (molecule_table (map (fst \<circ> snd) ?xs)) ([t_add_source (enc_raw_tx x)] @ [t_source_end dig])"
      unfolding run.closes_def enc
      by (rule run.does_bind [where Q = any]) (simp_all add: transcribe_input_def call_opt_def [abs_def])
  qed (simp_all add: transcribe_input_def)
  then show ?thesis
    unfolding RawTransaction_eq fields enc [symmetric] by simp
qed

definition input_writes :: "(u8 list \<Rightarrow> u8 list) \<Rightarrow> annotated_input \<Rightarrow> (transcript \<Rightarrow> transcript) list" where
  "input_writes dig x = [t_feed (u64_le (in_since (ai_input x))), t_set_index (u32_le (op_index (in_previous (ai_input x)))),
     t_add_source (enc_raw_tx (ai_source x)), t_source_end dig]"

lemma annotated_input_runs:
  assumes "wf_annotated_input x" "length (enc_annotated_input x) < 2 ^ 32" "fits sz (enc_annotated_input x)"
  shows "reads False (AnnotatedCellInput (Some (transcribe_input dig))) sz (enc_annotated_input x)
    (runs (input_writes dig x))"
proof -
  let ?cb = "Some (transcribe_input dig)"
  let ?xs = "[(CellInput (cb_field annotatedcellinput_input ?cb), enc_cell_input (ai_input x),
      [t_feed (u64_le (in_since (ai_input x))), t_set_index (u32_le (op_index (in_previous (ai_input x))))]),
    (RawTransaction (cb_field annotatedcellinput_source ?cb), enc_raw_tx (ai_source x),
      [t_add_source (enc_raw_tx (ai_source x)), t_source_end dig])]"
  have w: "wf_input (ai_input x)" "wf_raw wf_input (ai_source x)" "length (enc_raw_tx (ai_source x)) < 2 ^ 32"
    using assms(1) item_small [OF assms(2) [unfolded enc_annotated_input_def], of "enc_raw_tx (ai_source x)"]
    by (simp_all add: wf_annotated_input_def)
  have fields: "AnnotatedCellInput_fields ?cb = map fst ?xs"
    and enc: "enc_annotated_input x = molecule_table (map (fst \<circ> snd) ?xs)"
    by (simp_all add: AnnotatedCellInput_fields_def enc_annotated_input_def)
  have "reads False (table (hooks_of ?cb) (cb_field annotatedcellinput_offsets ?cb) (map fst ?xs))
      sz (molecule_table (map (fst \<circ> snd) ?xs)) (runs ([] @ concat (map (snd \<circ> snd) ?xs) @ []))"
  proof (rule run.table_list_trace)
    have "does (runs []) any (fst (CellInput (input_cb dig)))"
      "does (runs []) any (fst (RawTransaction (annotatedcellinput_source (transcribe_input dig))))"
      by (auto simp: CellInput_eq RawTransaction_eq transcribe_input_def intro!: run.inits_trace run.array_inits)
    then show "list_all (\<lambda>(p, f, e). reads False p (of_nat (length f)) f (runs e) \<and> does (runs []) any (fst p)) ?xs"
      using w cell_input_runs [OF w(1), of "of_nat (length (enc_cell_input (ai_input x)))" dig] source_runs [OF w(2,3), of dig]
      by (simp add: length_enc_cell_input)
  qed (use assms(3) enc in \<open>simp_all add: transcribe_input_def\<close>)
  then show ?thesis
    unfolding AnnotatedCellInput_eq fields enc [symmetric] by (simp add: input_writes_def)
qed

definition inputs_writes :: "(u8 list \<Rightarrow> u8 list) \<Rightarrow> annotated_input list \<Rightarrow> (transcript \<Rightarrow> transcript) list" where
  "inputs_writes dig xs = [t_input, t_inputs (of_nat (length xs))] @
     concat (map (\<lambda>x. input_writes dig x @ [t_input]) xs) @ [t_inputs_end]"

lemma inputs_run:
  assumes ne: "xs \<noteq> []" and wf: "\<And>i. i \<in> set xs \<Longrightarrow> wf_annotated_input i"
    and l: "length (enc_annotated_inputs xs) < 2 ^ 32"
  shows "reads False (AnnotatedCellInputVec (annotatedrawtransaction_inputs (transcribe_raw dig)))
    (of_nat (length (enc_annotated_inputs xs))) (enc_annotated_inputs xs) (runs (inputs_writes dig xs))"
proof -
  let ?cb = "annotatedrawtransaction_inputs (transcribe_raw dig)"
  let ?xs = "map enc_annotated_input xs" and ?es = "map (input_writes dig) xs"
  note l' = l [unfolded enc_annotated_inputs_def]
  have "reads False (dynvec_of (hooks_of ?cb) (cb_field dynvec_size ?cb) (cb_field dynvec_length ?cb)
      (cb_field dynvec_index ?cb) (AnnotatedCellInput (cb_field dynvec_item ?cb)))
      (of_nat (length (molecule_table ?xs))) (molecule_table ?xs) (runs ([] @ (if ?xs = [] then [] else
        ([t_input] @ [t_inputs (of_nat (length ?xs))] @ []) @
          concat (map (\<lambda>j. ?es ! j @ [t_input] @ []) [0..<length ?xs])) @ [t_inputs_end]))"
  proof (rule run.dynvec_trace)
    fix j
    assume "j < length ?xs"
    then have j: "xs ! j \<in> set xs" "j < length xs" by simp_all
    have "length (enc_annotated_input (xs ! j)) < 2 ^ 32" using item_small [OF l'] j by simp
    then show "reads False (AnnotatedCellInput (cb_field dynvec_item ?cb)) (- 1) (?xs ! j) (runs (?es ! j))"
      using annotated_input_runs [OF wf [OF j(1)], of "- 1" dig] j by (simp add: transcribe_raw_def)
  next
    show "does (runs [t_input]) any (fst (AnnotatedCellInput (cb_field dynvec_item ?cb)))"
      by (auto simp: AnnotatedCellInput_eq transcribe_raw_def transcribe_input_def run.starts_def
          call_opt_def [abs_def] intro!: run.inits_trace)
    show "run.closes (hooks_of ?cb) (molecule_table ?xs) [t_inputs_end]"
      by (simp add: run.closes_def transcribe_raw_def call_opt_def [abs_def])
  qed (use l' in \<open>auto simp: transcribe_raw_def does_opt_def run.T_nil\<close>)
  moreover have "concat (map (\<lambda>j. ?es ! j @ [t_input]) [0..<length xs]) = concat (map (\<lambda>x. input_writes dig x @ [t_input]) xs)"
    by (rule arg_cong [where f = concat]) (rule nth_equalityI; simp)
  ultimately show ?thesis
    using ne by (simp add: AnnotatedCellInputVec_eq enc_annotated_inputs_def inputs_writes_def)
qed

section \<open>The raw transaction\<close>

lemma closes_feed:
  assumes "chunk_cb h = Some (\<lambda>b. t_upd (t_feed b))" "end_cb h = None"
  shows "run.closes h bs [t_feed bs]"
  using run.does_bind [of "[t_feed bs]" any "t_upd (t_feed bs)" "[]" any "\<lambda>_. call_opt None"]
  by (simp add: run.closes_def assms call_opt_def [abs_def] run.does_Ok)

lemma copied_vec:
  assumes items: "\<And>x. x \<in> set xs \<Longrightarrow> uses False q (of_nat isz) x \<and> length x = isz" "0 < isz"
    and l: "length (molecule_fixvec xs) < 2 ^ 32" and q: "idle_part q"
    and h: "chunk_cb h = Some (\<lambda>b. t_upd (t_feed b))" "end_cb h = None"
  shows "reads False (vec_of h None None isz q) (of_nat (length (molecule_fixvec xs))) (molecule_fixvec xs)
    (runs [t_feed (molecule_fixvec xs)])"
proof -
  have "reads False (vec_of h None None isz q) (of_nat (length (molecule_fixvec xs))) (molecule_fixvec xs)
      (runs ([] @ concat (replicate (length xs) []) @ [t_feed (molecule_fixvec xs)]))"
  proof (rule run.vec_trace)
    fix j
    assume "j < length xs"
    then show "reads False q (of_nat isz) (xs ! j) (runs (replicate (length xs) [] ! j))"
      using idle_reads [OF _ q] items(1) [of "xs ! j"] by simp
  next
    show "run.closes h (molecule_fixvec xs) [t_feed (molecule_fixvec xs)]"
      using h by (rule closes_feed)
  qed (use items l q in \<open>auto simp: does_opt_def run.T_nil intro!: idle_init\<close>)
  then show ?thesis by simp
qed

lemma copied_dynvec:
  assumes items: "\<And>x. x \<in> set xs \<Longrightarrow> uses False q MOL_NUM_MAX x"
    and l: "length (molecule_table xs) < 2 ^ 32" and q: "idle_part q"
    and h: "chunk_cb h = Some (\<lambda>b. t_upd (t_feed b))" "end_cb h = None"
  shows "reads False (dynvec_of h None None None q) (of_nat (length (molecule_table xs))) (molecule_table xs)
    (runs [t_feed (molecule_table xs)])"
proof -
  have "reads False (dynvec_of h None None None q) (of_nat (length (molecule_table xs))) (molecule_table xs)
      (runs ([] @ (if xs = [] then [] else ([] @ [] @ []) @
        concat (map (\<lambda>j. replicate (length xs) [] ! j @ [] @ []) [0..<length xs])) @ [t_feed (molecule_table xs)]))"
  proof (rule run.dynvec_trace)
    fix j
    assume "j < length xs"
    then show "reads False q (- 1) (xs ! j) (runs (replicate (length xs) [] ! j))"
      using idle_reads [OF _ q] items [of "xs ! j"] by (simp add: MOL_NUM_MAX_def)
  next
    show "run.closes h (molecule_table xs) [t_feed (molecule_table xs)]"
      using h by (rule closes_feed)
  qed (use l in \<open>auto simp: does_opt_def run.T_nil intro!: idle_init [OF q]\<close>)
  moreover have "concat (map (\<lambda>j. replicate (length xs) [] ! j @ [] @ []) [0..<length xs]) = ([] :: (transcript \<Rightarrow> transcript) list)"
    by simp
  ultimately show ?thesis by (simp only: append_Nil if_cancel append_Nil2)
qed

abbreviation raw_cb :: "(u8 list \<Rightarrow> u8 list) \<Rightarrow> transcript AnnotatedRawTransaction_callbacks" where
  "raw_cb dig \<equiv> transcribe_raw dig"

lemma cell_deps_run:
  assumes "length (molecule_fixvec (map enc_cell_dep ds)) < 2 ^ 32" "\<And>x. x \<in> set ds \<Longrightarrow> wf_out_point (dep_out_point x)"
  shows "reads False (CellDepVec (annotatedrawtransaction_cell_deps (raw_cb dig)))
    (of_nat (length (molecule_fixvec (map enc_cell_dep ds)))) (molecule_fixvec (map enc_cell_dep ds))
    (runs [t_feed (molecule_fixvec (map enc_cell_dep ds))])"
proof -
  have "uses False (CellDep None) (of_nat 37) (enc_cell_dep x)" if "x \<in> set ds" for x
    using uses_cell_dep assms(2) [OF that] by simp
  then show ?thesis
    using assms unfolding CellDepVec_eq
    by (auto simp: transcribe_raw_def length_enc_cell_dep intro!: copied_vec idle_rules)
qed

lemma header_deps_run:
  assumes "length (molecule_fixvec hs) < 2 ^ 32" "\<And>x. x \<in> set hs \<Longrightarrow> length x = 32"
  shows "reads False (Byte32Vec (annotatedrawtransaction_header_deps (raw_cb dig)))
    (of_nat (length (molecule_fixvec hs))) (molecule_fixvec hs) (runs [t_feed (molecule_fixvec hs)])"
  using assms unfolding Byte32Vec_eq by (auto simp: transcribe_raw_def intro!: copied_vec idle_rules uses_array)

lemma outputs_run:
  assumes "length (molecule_table (map enc_cell_output os)) < 2 ^ 32" "\<And>x. x \<in> set os \<Longrightarrow> wf_output x"
  shows "reads False (CellOutputVec (annotatedrawtransaction_outputs (raw_cb dig)))
    (of_nat (length (molecule_table (map enc_cell_output os)))) (molecule_table (map enc_cell_output os))
    (runs [t_feed (molecule_table (map enc_cell_output os))])"
  using assms item_small [OF assms(1)] unfolding CellOutputVec_eq
  by (auto simp: transcribe_raw_def intro!: copied_dynvec idle_rules uses_cell_output)

lemma outputs_data_run:
  assumes "length (molecule_table (map molecule_bytes bs)) < 2 ^ 32"
  shows "reads False (BytesVec (annotatedrawtransaction_outputs_data (raw_cb dig)))
    (of_nat (length (molecule_table (map molecule_bytes bs)))) (molecule_table (map molecule_bytes bs))
    (runs [t_feed (molecule_table (map molecule_bytes bs))])"
proof -
  have "length b + 4 < 2 ^ 32" if "b \<in> set bs" for b
    using item_small [OF assms, of "molecule_bytes b"] that by simp
  then show ?thesis
    using assms unfolding BytesVec_eq by (auto simp: transcribe_raw_def intro!: copied_dynvec idle_rules uses_Bytes)
qed

definition raw_writes :: "(u8 list \<Rightarrow> u8 list) \<Rightarrow> annotated_raw_tx \<Rightarrow> (transcript \<Rightarrow> transcript) list" where
  "raw_writes dig x =
     (let fs = [u32_le (rt_version x), molecule_fixvec (map enc_cell_dep (rt_cell_deps x)),
        molecule_fixvec (rt_header_deps x), enc_annotated_inputs (rt_inputs x),
        molecule_table (map enc_cell_output (rt_outputs x)), molecule_table (map molecule_bytes (rt_outputs_data x))]
      in [t_header (of_nat (length (molecule_table fs))) (table_offsets 28 (sizes_of fs))] @
         map t_feed (take 3 fs) @ inputs_writes dig (rt_inputs x) @ map t_feed (drop 4 fs) @ [t_raw_end dig])"

lemma raw_runs:
  assumes wf: "wf_raw wf_annotated_input x" and l: "length (enc_raw enc_annotated_inputs x) < 2 ^ 32"
    and ne: "rt_inputs x \<noteq> []"
  shows "reads False (AnnotatedRawTransaction (Some (raw_cb dig))) (of_nat (length (enc_raw enc_annotated_inputs x)))
    (enc_raw enc_annotated_inputs x) (runs (raw_writes dig x))"
proof -
  let ?cb = "Some (raw_cb dig)"
  let ?xs = "[(Uint32 (cb_field annotatedrawtransaction_version ?cb), u32_le (rt_version x), [t_feed (u32_le (rt_version x))]),
    (CellDepVec (cb_field annotatedrawtransaction_cell_deps ?cb), molecule_fixvec (map enc_cell_dep (rt_cell_deps x)),
      [t_feed (molecule_fixvec (map enc_cell_dep (rt_cell_deps x)))]),
    (Byte32Vec (cb_field annotatedrawtransaction_header_deps ?cb), molecule_fixvec (rt_header_deps x),
      [t_feed (molecule_fixvec (rt_header_deps x))]),
    (AnnotatedCellInputVec (cb_field annotatedrawtransaction_inputs ?cb), enc_annotated_inputs (rt_inputs x),
      inputs_writes dig (rt_inputs x)),
    (CellOutputVec (cb_field annotatedrawtransaction_outputs ?cb), molecule_table (map enc_cell_output (rt_outputs x)),
      [t_feed (molecule_table (map enc_cell_output (rt_outputs x)))]),
    (BytesVec (cb_field annotatedrawtransaction_outputs_data ?cb), molecule_table (map molecule_bytes (rt_outputs_data x)),
      [t_feed (molecule_table (map molecule_bytes (rt_outputs_data x)))])]"
  let ?fs = "map (fst \<circ> snd) ?xs"
  note f = raw_fields [OF wf l]
  have fields: "AnnotatedRawTransaction_fields ?cb = map fst ?xs" and enc: "enc_raw enc_annotated_inputs x = molecule_table ?fs"
    by (simp_all add: AnnotatedRawTransaction_fields_def enc_raw_def)
  have "reads False (Uint32 (cb_field annotatedrawtransaction_version ?cb)) 4 (u32_le (rt_version x)) (runs [t_feed (u32_le (rt_version x))])"
    by (rule run.array_trace) (auto simp: transcribe_raw_def)
  moreover have "list_all (\<lambda>(p, f, e). does (runs []) any (fst p)) ?xs"
    by (auto simp: CellDepVec_eq Byte32Vec_eq AnnotatedCellInputVec_eq CellOutputVec_eq BytesVec_eq
        transcribe_raw_def intro!: run.inits_trace(2,3) run.array_inits(1))
  ultimately have xs: "list_all (\<lambda>(p, f, e). reads False p (of_nat (length f)) f (runs e) \<and> does (runs []) any (fst p)) ?xs"
    using cell_deps_run [OF f(1,6), of dig] header_deps_run [OF f(2,7), of dig] inputs_run [OF ne f(8,3), of dig]
      outputs_run [OF f(4,9), of dig] outputs_data_run [OF f(5), of dig]
    by simp
  have "reads False (table (hooks_of ?cb) (cb_field annotatedrawtransaction_offsets ?cb) (map fst ?xs))
      (of_nat (length (molecule_table ?fs))) (molecule_table ?fs)
      (runs ([t_header (of_nat (length (molecule_table ?fs))) (table_offsets (4 + 4 * of_nat (length ?xs)) (sizes_of ?fs))] @
        concat (map (snd \<circ> snd) ?xs) @ [t_raw_end dig]))"
  proof (rule run.table_list_trace [OF xs])
    show "run.closes (hooks_of ?cb) (molecule_table ?fs) [t_raw_end dig]"
      by (simp add: run.closes_def transcribe_raw_def call_opt_def [abs_def])
  next
    fix g
    assume "cb_field annotatedrawtransaction_offsets ?cb = Some g"
    then have "g = (\<lambda>tot offs. t_upd (t_header tot offs))" by (simp add: transcribe_raw_def)
    then show "does (runs [t_header (of_nat (length (molecule_table ?fs))) (table_offsets (4 + 4 * of_nat (length ?xs)) (sizes_of ?fs))])
        any (g (of_nat (length (molecule_table ?fs))) (table_offsets (4 + 4 * of_nat (length ?xs)) (sizes_of ?fs)))"
      by simp
  qed (simp_all add: transcribe_raw_def)
  then show ?thesis
    unfolding AnnotatedRawTransaction_eq fields enc by (simp add: raw_writes_def Let_def)
qed

section \<open>The plain transaction is written\<close>

definition wrote :: "u8 list \<Rightarrow> transcript \<Rightarrow> transcript \<Rightarrow> bool" where
  "wrote b l l' \<longleftrightarrow> t_count l' = t_count l \<and> t_fed l' = t_fed l @ b \<and>
     (\<not> t_begun l \<longrightarrow> \<not> t_begun l' \<and> t_live l' = t_live l)"

lemma wrote_trans: "wrote a l1 l2 \<Longrightarrow> wrote b l2 l3 \<Longrightarrow> wrote (a @ b) l1 l3"
  by (simp add: wrote_def)

lemma wrote_feed: "wrote b l (t_feed b l)"
  by (simp add: wrote_def t_feed_def)

lemma wrote_feeds: "wrote (concat bs) l (fold (\<lambda>f. f) (map t_feed bs) l)"
proof (induction bs arbitrary: l)
  case (Cons b bs)
  then show ?case using wrote_trans [OF wrote_feed] by simp
qed (simp add: wrote_def)

lemma input_written:
  assumes "t_source l = []"
  shows "wrote (enc_cell_input (plain_input dig x)) l (fold (\<lambda>f. f) (input_writes dig x @ [t_input]) l) \<and>
    t_source (fold (\<lambda>f. f) (input_writes dig x @ [t_input]) l) = []"
  using assms
  by (simp add: input_writes_def wrote_def t_feed_def t_set_index_def t_add_source_def t_source_end_def t_input_def
      plain_input_def enc_cell_input_def enc_out_point_def)

lemma inputs_written:
  "t_source l = [] \<Longrightarrow> wrote (concat (map (enc_cell_input \<circ> plain_input dig) xs)) l
    (fold (\<lambda>f. f) (concat (map (\<lambda>x. input_writes dig x @ [t_input]) xs)) l)"
proof (induction xs arbitrary: l)
  case (Cons x xs)
  let ?l = "fold (\<lambda>f. f) (input_writes dig x @ [t_input]) l"
  note x = input_written [OF Cons.prems, of dig x]
  show ?case
    using wrote_trans [OF x [THEN conjunct1] Cons.IH [OF x [THEN conjunct2]]] by simp
qed (simp add: wrote_def)

lemma all_inputs_written:
  assumes "t_count l = of_nat (length xs)"
  shows "wrote (enc_inputs (map (plain_input dig) xs)) l (fold (\<lambda>f. f) (inputs_writes dig xs) l)"
proof -
  let ?l = "t_inputs (of_nat (length xs)) (t_input l)"
  have "wrote (u32_le (of_nat (length xs))) l ?l" "t_source ?l = []"
    using assms by (simp_all add: wrote_def t_inputs_def t_input_def t_feed_def)
  moreover have "wrote b l1 l2 \<Longrightarrow> wrote b l1 (t_inputs_end l2)" for b l1 l2
    by (simp add: wrote_def t_inputs_end_def t_input_def)
  ultimately show ?thesis
    using wrote_trans [OF _ inputs_written, of "u32_le (of_nat (length xs))" l ?l dig xs]
    by (simp add: inputs_writes_def enc_inputs_def molecule_fixvec_def comp_def)
qed

lemma header_written:
  assumes "offs = table_offsets 28 [4, deps, headers, annotated_inputs, outs, datas]"
    "tot = 28 + (4 + deps + headers + annotated_inputs + outs + datas)"
  shows "t_header tot offs l = t_feed (table_header [4, deps, headers, 4 + 44 * t_count l, outs, datas]) l"
  by (simp add: t_header_def table_header_def assms Let_def algebra_simps numeral_eq_Suc)

lemma length_plain_inputs:
  assumes "\<And>b. length (dig b) = 32"
  shows "length (enc_inputs (map (plain_input dig) xs)) = 4 + 44 * length xs"
proof -
  have "length (enc_cell_input (plain_input dig i)) = 44" for i
    by (simp add: enc_cell_input_def enc_out_point_def plain_input_def assms)
  then have "length (concat (map (enc_cell_input \<circ> plain_input dig) xs)) = length xs * 44"
    using run.length_concat_same [of "map (enc_cell_input \<circ> plain_input dig) xs" 44] by auto
  then show ?thesis by (simp add: enc_inputs_def length_molecule_fixvec comp_def)
qed

lemma raw_written:
  assumes dig: "\<And>b. length (dig b) = 32" and n: "t_count l = of_nat (length (rt_inputs x))"
    and l: "t_live l" "\<not> t_begun l" "t_fed l = []"
  shows "t_id (fold (\<lambda>f. f) (raw_writes dig x) l) = Some (dig (enc_raw_tx (plain_raw dig x)))"
    "t_begun (fold (\<lambda>f. f) (raw_writes dig x) l) = False"
proof -
  let ?is = "map (plain_input dig) (rt_inputs x)"
  let ?a = "[u32_le (rt_version x), molecule_fixvec (map enc_cell_dep (rt_cell_deps x)), molecule_fixvec (rt_header_deps x)]"
  let ?b = "[molecule_table (map enc_cell_output (rt_outputs x)), molecule_table (map molecule_bytes (rt_outputs_data x))]"
  let ?fs = "?a @ [enc_annotated_inputs (rt_inputs x)] @ ?b" and ?gs = "?a @ [enc_inputs ?is] @ ?b"
  let ?h = "table_header (sizes_of ?gs)"
  have "t_header (of_nat (length (molecule_table ?fs))) (table_offsets 28 (sizes_of ?fs)) l =
      t_feed (table_header [4, of_nat (length (?fs ! 1)), of_nat (length (?fs ! 2)), 4 + 44 * t_count l,
        of_nat (length (?fs ! 4)), of_nat (length (?fs ! 5))]) l"
    by (rule header_written [where annotated_inputs = "of_nat (length (enc_annotated_inputs (rt_inputs x)))"])
      (simp_all add: sizes_of_def length_molecule_table [of "[_, _, _, _, _, _]"])
  also have "[4, of_nat (length (?fs ! 1)), of_nat (length (?fs ! 2)), 4 + 44 * t_count l,
      of_nat (length (?fs ! 4)), of_nat (length (?fs ! 5))] = sizes_of ?gs"
    by (simp add: sizes_of_def n length_plain_inputs [OF dig])
  finally have h: "t_header (of_nat (length (molecule_table ?fs))) (table_offsets 28 (sizes_of ?fs)) l = t_feed ?h l" .
  define l1 where "l1 = fold (\<lambda>f. f) (map t_feed ?a) (t_feed ?h l)"
  define l2 where "l2 = fold (\<lambda>f. f) (inputs_writes dig (rt_inputs x)) l1"
  define l3 where "l3 = fold (\<lambda>f. f) (map t_feed ?b) l2"
  have w1: "wrote (?h @ concat ?a) l l1"
    unfolding l1_def by (rule wrote_trans [OF wrote_feed wrote_feeds])
  then have "t_count l1 = of_nat (length (rt_inputs x))" using n by (simp add: wrote_def)
  then have "wrote (enc_inputs ?is) l1 l2" unfolding l2_def by (rule all_inputs_written)
  moreover have "wrote (concat ?b) l2 l3" unfolding l3_def by (rule wrote_feeds)
  ultimately have w: "wrote (?h @ concat ?gs) l l3"
    using wrote_trans [OF w1 wrote_trans] by fastforce
  have g: "?h @ concat ?gs = enc_raw_tx (plain_raw dig x)"
    by (simp add: enc_raw_tx_def enc_raw_def plain_raw_def molecule_table_def sizes_of_def)
  have e: "fold (\<lambda>f. f) (raw_writes dig x) l = t_raw_end dig l3"
    using h unfolding raw_writes_def l1_def l2_def l3_def Let_def by simp
  show "t_id (fold (\<lambda>f. f) (raw_writes dig x) l) = Some (dig (enc_raw_tx (plain_raw dig x)))"
    "t_begun (fold (\<lambda>f. f) (raw_writes dig x) l) = False"
    using w l unfolding e g by (auto simp: t_raw_end_def wrote_def)
qed

section \<open>Paths and witnesses\<close>

lemma path_runs:
  assumes "length (enc_path p) < 2 ^ 32"
  shows "reads False (Bip32 (Some transcribe_path)) (of_nat (length (enc_path p))) (enc_path p) (runs [])"
  by (rule idle_reads [OF uses_path [OF assms]]) (auto simp: transcribe_path_def intro!: idle_rules)

definition witness_writes :: "witness_args option \<Rightarrow> u8 list \<Rightarrow> (transcript \<Rightarrow> transcript) list" where
  "witness_writes x w = t_witness_size (of_nat (4 + length w)) #
     (if w = [] then [] else [t_witness_chunk w]) @ [t_witness_end x]"

lemma witness_runs:
  assumes "length w + 4 < 2 ^ 32" "fits sz (molecule_bytes w)"
  shows "reads False (Bytes (dynvec_item (transcribe_witnesses x))) sz (molecule_bytes w) (runs (witness_writes x w))"
proof -
  let ?cb = "dynvec_item (transcribe_witnesses x)"
  have "reads False (Bytes ?cb) sz (molecule_bytes w) (runs ([t_witness_size (of_nat (4 + length w))] @
      (if w = [] then [] else [t_witness_chunk w]) @ [t_witness_end x]))"
  proof (rule run.Bytes_trace [OF assms])
    show "run.size_does False (cb_field bytes_size ?cb) (of_nat (4 + length w)) [t_witness_size (of_nat (4 + length w))]"
      using runs_size by (simp add: transcribe_witnesses_def)
    show "run.closes (hooks_of ?cb) (molecule_bytes w) [t_witness_end x]"
      by (simp add: run.closes_def transcribe_witnesses_def call_opt_def [abs_def])
  qed (auto simp: transcribe_witnesses_def)
  then show ?thesis by (simp add: witness_writes_def)
qed

definition witnesses_writes :: "witness_args option \<Rightarrow> u8 list list \<Rightarrow> (transcript \<Rightarrow> transcript) list" where
  "witnesses_writes x ws = t_witness 0 #
     concat (map (\<lambda>j. witness_writes x (ws ! j) @ [t_witness (of_nat (Suc j))]) [0..<length ws]) @ [t_witnesses_end]"

lemma witnesses_run:
  assumes "length (molecule_table (map molecule_bytes ws)) < 2 ^ 32" "ws \<noteq> []"
  shows "reads False (BytesVec (Some (transcribe_witnesses x)))
    (of_nat (length (molecule_table (map molecule_bytes ws)))) (molecule_table (map molecule_bytes ws))
    (runs (witnesses_writes x ws))"
proof -
  let ?cb = "Some (transcribe_witnesses x)"
  let ?xs = "map molecule_bytes ws" and ?es = "map (witness_writes x) ws"
  have "reads False (dynvec_of (hooks_of ?cb) (cb_field dynvec_size ?cb) (cb_field dynvec_length ?cb)
      (cb_field dynvec_index ?cb) (Bytes (cb_field dynvec_item ?cb)))
      (of_nat (length (molecule_table ?xs))) (molecule_table ?xs) (runs ([] @ (if ?xs = [] then [] else
        ([] @ [] @ [t_witness (of_nat 0)]) @
          concat (map (\<lambda>j. ?es ! j @ [] @ [t_witness (of_nat (Suc j))]) [0..<length ?xs])) @ [t_witnesses_end]))"
  proof (rule run.dynvec_trace)
    fix j
    assume "j < length ?xs"
    then have j: "ws ! j \<in> set ws" "j < length ws" by simp_all
    have "length (ws ! j) + 4 < 2 ^ 32" using item_small [OF assms(1), of "molecule_bytes (ws ! j)"] j by simp
    then show "reads False (Bytes (cb_field dynvec_item ?cb)) (- 1) (?xs ! j) (runs (?es ! j))"
      using witness_runs [of "ws ! j" "- 1" x] j by simp
  next
    show "run.closes (hooks_of ?cb) (molecule_table ?xs) [t_witnesses_end]"
      by (simp add: run.closes_def transcribe_witnesses_def call_opt_def [abs_def])
  qed (use assms in \<open>auto simp: transcribe_witnesses_def does_opt_def run.T_nil intro!: run.array_inits\<close>)
  moreover have "concat (map (\<lambda>j. ?es ! j @ [t_witness (of_nat (Suc j))]) [0..<length ws]) =
      concat (map (\<lambda>j. witness_writes x (ws ! j) @ [t_witness (of_nat (Suc j))]) [0..<length ws])"
    by (rule arg_cong [where f = concat]) (rule map_cong; simp)
  ultimately show ?thesis
    using assms(2) by (simp add: BytesVec_eq witnesses_writes_def del: of_nat_Suc)
qed

section \<open>The message is written\<close>

lemma size_prefix:
  assumes "length w + 4 < 2 ^ 32"
  shows "\<not> of_nat (4 + length w) < (4 :: u32)"
    "u64_le (ucast (of_nat (4 + length w) - 4 :: u32)) = u64_le (of_nat (length w))"
proof -
  have u: "unat (of_nat (4 + length w) :: u32) = 4 + length w" using assms by (simp add: unat_small del: of_nat_add)
  then show "\<not> of_nat (4 + length w) < (4 :: u32)" by (simp only: word_less_nat_alt) simp
  have "unat (of_nat (length w) :: u32) = length w" using assms by (simp add: unat_small)
  then have "(ucast (of_nat (length w) :: u32) :: u64) = of_nat (length w)" by (metis of_nat_unat)
  then show "u64_le (ucast (of_nat (4 + length w) - 4 :: u32)) = u64_le (of_nat (length w))" by simp
qed

lemma later_witness_written:
  assumes "t_live l" "\<not> t_first l" "length w + 4 < 2 ^ 32" "i \<noteq> 0"
  shows "t_live (fold (\<lambda>f. f) (witness_writes x w @ [t_witness i]) l) \<and>
    \<not> t_first (fold (\<lambda>f. f) (witness_writes x w @ [t_witness i]) l) \<and>
    t_fed (fold (\<lambda>f. f) (witness_writes x w @ [t_witness i]) l) = t_fed l @ hashed_witness w"
  using assms size_prefix [OF assms(3)]
  by (simp add: witness_writes_def t_witness_size_def t_feed_def t_witness_chunk_def t_witness_end_def t_witness_def
      hashed_witness_def del: of_nat_add)

lemma later_witnesses_written:
  assumes "t_live l" "\<not> t_first l" "\<And>w. w \<in> set ws \<Longrightarrow> length w + 4 < 2 ^ 32" "k + length ws < 2 ^ 32"
  shows "t_live (fold (\<lambda>f. f) (concat (map (\<lambda>j. witness_writes x (ws ! j) @ [t_witness (of_nat (Suc (k + j)))]) [0..<length ws])) l) \<and>
    t_fed (fold (\<lambda>f. f) (concat (map (\<lambda>j. witness_writes x (ws ! j) @ [t_witness (of_nat (Suc (k + j)))]) [0..<length ws])) l) =
      t_fed l @ concat (map hashed_witness ws)"
  using assms
proof (induction ws arbitrary: l k)
  case (Cons w ws)
  let ?l = "fold (\<lambda>f. f) (witness_writes x w @ [t_witness (of_nat (Suc k))]) l"
  have "unat (of_nat (Suc k) :: u32) = Suc k" using Cons.prems(4) by (intro unat_small) simp
  then have k: "of_nat (Suc k) \<noteq> (0 :: u32)" by (metis nat.distinct(1) unat_0)
  have l: "t_live ?l" "\<not> t_first ?l" "t_fed ?l = t_fed l @ hashed_witness w"
    using later_witness_written [OF Cons.prems(1,2) _ k, of w x] Cons.prems(3) by simp_all
  have split: "concat (map (\<lambda>j. witness_writes x ((w # ws) ! j) @ [t_witness (of_nat (Suc (k + j)))]) [0..<length (w # ws)]) =
      (witness_writes x w @ [t_witness (of_nat (Suc k))]) @
      concat (map (\<lambda>j. witness_writes x (ws ! j) @ [t_witness (of_nat (Suc (Suc k + j)))]) [0..<length ws])"
    by (simp add: upt_conv_Cons map_Suc_upt [symmetric] comp_def del: upt_Suc)
  show ?case
    unfolding split fold_append comp_apply using Cons.IH [OF l(1,2), of "Suc k"] Cons.prems(3,4) l(3) by simp
qed simp

lemma message_written:
  assumes id: "t_id l = Some h" "\<not> t_begun l" and ws: "\<And>w. w \<in> set (enc_first x # ws) \<Longrightarrow> length w + 4 < 2 ^ 32"
    "length (enc_first x # ws) < 2 ^ 32"
  shows "t_message (fold (\<lambda>f. f) (witnesses_writes x (enc_first x # ws)) l) = Some (sighash_message h x ws)"
proof -
  let ?w = "enc_first x"
  let ?l = "fold (\<lambda>f. f) (t_witness 0 # witness_writes x ?w @ [t_witness (of_nat (Suc 0))]) l"
  let ?rest = "concat (map (\<lambda>j. witness_writes x (ws ! j) @ [t_witness (of_nat (Suc (Suc 0 + j)))]) [0..<length ws])"
  have l: "t_live ?l" "\<not> t_first ?l" "t_fed ?l = h @ hashed_witness (enc_witness_args (placeholder x))"
    using id by (simp_all add: witness_writes_def t_witness_size_def t_witness_chunk_def t_witness_end_def t_witness_def)
  have "witnesses_writes x (?w # ws) = (t_witness 0 # witness_writes x ?w @ [t_witness (of_nat (Suc 0))]) @ ?rest @ [t_witnesses_end]"
    by (simp add: witnesses_writes_def upt_conv_Cons map_Suc_upt [symmetric] comp_def del: upt_Suc)
  then have e: "fold (\<lambda>f. f) (witnesses_writes x (?w # ws)) l = t_witnesses_end (fold (\<lambda>f. f) ?rest ?l)"
    by (simp only: fold_append comp_apply) simp
  show ?thesis
    unfolding e t_witnesses_end_def
    using later_witnesses_written [OF l(1,2), of ws "Suc 0" x] ws l(3) by (simp add: sighash_message_def)
qed

lemma witnesses_keep_id: "t_id (fold (\<lambda>f. f) (witnesses_writes x ws) l) = t_id l"
proof -
  have k: "t_id (f l) = t_id l"
    if "f \<in> set (witnesses_writes x ws)" for f l
    using that by (auto simp: witnesses_writes_def witness_writes_def t_witness_def t_witness_size_def t_feed_def
      t_witness_chunk_def t_witness_end_def t_witnesses_end_def split: option.split if_splits)
  have "set fs \<subseteq> set (witnesses_writes x ws) \<Longrightarrow> t_id (fold (\<lambda>f. f) fs l) = t_id l" for fs
    by (induction fs arbitrary: l) (simp_all add: k)
  then show ?thesis by blast
qed

section \<open>The whole transaction\<close>

text \<open>
  A transaction to sign: at least one input, the declared number of inputs is the number of
  inputs, and the first witness is empty or a \<open>WitnessArgs\<close>.
\<close>

definition wf_signed :: "annotated_tx \<Rightarrow> witness_args option \<Rightarrow> u8 list list \<Rightarrow> bool" where
  "wf_signed x first rest \<longleftrightarrow> wf_annotated_tx x \<and> rt_inputs (at_raw x) \<noteq> [] \<and>
     at_input_count x = of_nat (length (rt_inputs (at_raw x))) \<and> at_witnesses x = enc_first first # rest"

lemma transaction_runs:
  assumes "wf_signed x first rest"
  shows "reads False (AnnotatedTransaction (Some (transcriber dig first))) MOL_NUM_MAX (enc_annotated_tx x)
    (runs (t_set_count (u32_le (at_input_count x)) # raw_writes dig (at_raw x) @ witnesses_writes first (at_witnesses x)))"
proof -
  let ?cb = "Some (transcriber dig first)"
  let ?xs = "[(Bip32 (cb_field annotatedtransaction_signPath ?cb), enc_path (at_sign_path x), []),
    (Bip32 (cb_field annotatedtransaction_changePath ?cb), enc_path (at_change_path x), []),
    (Uint32 (cb_field annotatedtransaction_inputCount ?cb), u32_le (at_input_count x), [t_set_count (u32_le (at_input_count x))]),
    (AnnotatedRawTransaction (cb_field annotatedtransaction_raw ?cb), enc_raw enc_annotated_inputs (at_raw x), raw_writes dig (at_raw x)),
    (BytesVec (cb_field annotatedtransaction_witnesses ?cb), molecule_table (map molecule_bytes (at_witnesses x)),
      witnesses_writes first (at_witnesses x))]"
  let ?fs = "map (fst \<circ> snd) ?xs"
  have fields: "AnnotatedTransaction_fields ?cb = map fst ?xs" and enc: "enc_annotated_tx x = molecule_table ?fs"
    by (simp_all add: AnnotatedTransaction_fields_def enc_annotated_tx_def)
  have l: "length (molecule_table ?fs) < 2 ^ 32" and wf: "wf_raw wf_annotated_input (at_raw x)"
    using assms unfolding enc [symmetric] by (auto simp: wf_signed_def wf_annotated_tx_def)
  have s: "length (enc_path (at_sign_path x)) < 2 ^ 32" "length (enc_path (at_change_path x)) < 2 ^ 32"
    "length (enc_raw enc_annotated_inputs (at_raw x)) < 2 ^ 32"
    "length (molecule_table (map molecule_bytes (at_witnesses x))) < 2 ^ 32"
    by (rule item_small [OF l]; simp)+
  have ne: "rt_inputs (at_raw x) \<noteq> []" "at_witnesses x \<noteq> []" using assms by (simp_all add: wf_signed_def)
  have "reads False (Uint32 (cb_field annotatedtransaction_inputCount ?cb)) 4 (u32_le (at_input_count x))
      (runs [t_set_count (u32_le (at_input_count x))])"
    by (rule run.array_trace) (auto simp: transcriber_def)
  moreover have "list_all (\<lambda>(p, f, e). does (runs []) any (fst p)) ?xs"
    by (auto simp: Bip32_eq AnnotatedRawTransaction_eq BytesVec_eq transcriber_def transcribe_path_def transcribe_raw_def
        transcribe_witnesses_def intro!: run.inits_trace(1,2,3) run.array_inits(1))
  ultimately have xs: "list_all (\<lambda>(p, f, e). reads False p (of_nat (length f)) f (runs e) \<and> does (runs []) any (fst p)) ?xs"
    using path_runs [OF s(1)] path_runs [OF s(2)] raw_runs [OF wf s(3) ne(1), of dig]
      witnesses_run [OF s(4) ne(2), of first]
    by (simp add: transcriber_def)
  have "reads False (table (hooks_of ?cb) (cb_field annotatedtransaction_offsets ?cb) (map fst ?xs)) MOL_NUM_MAX (molecule_table ?fs)
      (runs ([] @ concat (map (snd \<circ> snd) ?xs) @ []))"
    by (rule run.table_list_trace [OF xs]) (simp_all add: transcriber_def)
  then show ?thesis
    unfolding AnnotatedTransaction_eq fields enc by simp
qed

text \<open>What the transcriber has written at the end.\<close>

lemma transcription:
  assumes wf: "wf_signed x first rest" and dig: "\<And>b. length (dig b) = 32"
    and r: "runs (t_set_count (u32_le (at_input_count x)) # raw_writes dig (at_raw x) @ witnesses_writes first (at_witnesses x))
      blank_transcript l"
  shows "t_id l = Some (transaction_id dig x)" "t_message l = Some (sighash_message (transaction_id dig x) first rest)"
proof -
  let ?l1 = "t_set_count (u32_le (at_input_count x)) blank_transcript"
  let ?l2 = "fold (\<lambda>f. f) (raw_writes dig (at_raw x)) ?l1"
  have "length (u32_le (at_input_count x)) = 4" by simp
  then have c: "t_count ?l1 = of_nat (length (rt_inputs (at_raw x)))"
    using wf by (simp add: t_set_count_def wf_signed_def)
  have b: "t_live ?l1" "\<not> t_begun ?l1" "t_fed ?l1 = []"
    by (simp_all add: t_set_count_def blank_transcript_def)
  have r2: "t_id ?l2 = Some (transaction_id dig x)" "\<not> t_begun ?l2"
    using raw_written [OF dig c b] by (simp_all add: transaction_id_def)
  have l: "l = fold (\<lambda>f. f) (witnesses_writes first (enc_first first # rest)) ?l2"
    using r wf by (simp add: runs_def wf_signed_def)
  have ws: "at_witnesses x = enc_first first # rest" and small: "length (enc_annotated_tx x) < 2 ^ 32"
    using wf by (simp_all add: wf_signed_def wf_annotated_tx_def)
  have t: "length (molecule_table (map molecule_bytes (enc_first first # rest))) < 2 ^ 32"
    by (rule item_small [OF small [unfolded enc_annotated_tx_def ws]]) simp
  have w: "length w + 4 < 2 ^ 32" if "w \<in> set (enc_first first # rest)" for w
    using item_small [OF t, of "molecule_bytes w"] that by auto
  have n: "length (enc_first first # rest) < 2 ^ 32"
    using t by (simp add: length_molecule_table)
  show "t_id l = Some (transaction_id dig x)" unfolding l witnesses_keep_id by (rule r2)
  show "t_message l = Some (sighash_message (transaction_id dig x) first rest)"
    unfolding l by (rule message_written [OF r2 w n])
qed

end
