(* ===== verification/Witness_Writer.thy ===== *)
theory Witness_Writer
  imports Transcriber Molecule_Simulation
begin

text \<open>
  The first witness. \<open>WitnessArgs_rewrite_callbacks\<close> hash a \<open>WitnessArgs\<close> with another lock; the
  writer here appends the same bytes to a list. It writes the witness with 65 zero bytes as its
  lock, and what it has written does not depend on the pieces in which the witness arrives.
\<close>

section \<open>Completed tables\<close>

text \<open>The fragments of a table never complete it themselves.\<close>

definition unfinished :: "(flow \<times> mol_state \<times> u8 list, 'g) res \<Rightarrow> bool" where
  "unfinished = post (\<lambda>(fl, _, _). fl \<noteq> Finish \<and> fl \<noteq> Leave COMPLETE \<and> fl \<noteq> Bare COMPLETE)"

lemma unfinished_simps [simp]:
  "unfinished (Ok (fl, s, c) g) \<longleftrightarrow> fl \<noteq> Finish \<and> fl \<noteq> Leave COMPLETE \<and> fl \<noteq> Bare COMPLETE"
  "unfinished Undef" "unfinished (Throw e g)"
  by (simp_all add: unfinished_def)

lemma unfinished_bind: "(\<And>a g. unfinished (k a g)) \<Longrightarrow> unfinished (res_bind r k)"
  unfolding unfinished_def by (rule post_bind)

lemma unfinished_calls:
  "(\<And>v u c g. unfinished (k v u c g)) \<Longrightarrow> unfinished (MOL_CALL_NUM u put k c g)"
  "(\<And>u c g. unfinished (k' u c g)) \<Longrightarrow> unfinished (MOL_CALL_SUBPARSER p sz u put k' c g)"
  by (auto simp: MOL_CALL_NUM_def MOL_CALL_SUBPARSER_def intro!: unfinished_bind)

lemma unfinished_chain: "(\<And>F s c g. F \<in> set Fs \<Longrightarrow> unfinished (F s c g)) \<Longrightarrow> unfinished (chain Fs s c g)"
proof (induction Fs arbitrary: s c g)
  case (Cons F Fs)
  have "unfinished (F s c g)" using Cons.prems by simp
  then show ?case using Cons by (cases "F s c g") (auto simp: seq_def)
qed (simp add: skip_frag_def)

lemma unfinished_table: "unfinished (chain (table_frags sz ocb ps) s c g)"
proof (rule unfinished_chain)
  fix F s c and g :: 'a
  assume "F \<in> set (table_frags sz ocb ps)"
  then show "unfinished (F s c g)"
    by (auto simp: table_frags_def table_total_def table_offset_def table_offsets_done_def
        table_field_def intro!: unfinished_calls unfinished_bind split: mol_state.split)
qed

lemma table_completed:
  assumes ps: "list_all2 stream_parser ps Vs" "ps \<noteq> []" "length ps < 2 ^ 31" and v: "table_valid Vs s"
    and r: "table_parse h ocb ps sz s c g = Ok (COMPLETE, s', c') g'"
  shows "\<exists>fi tot offs u. s' = Table_st 3 fi tot offs u"
proof -
  have len: "length ps = length Vs" using ps(1) by (rule list_all2_lengthD)
  have nth: "\<And>i. i < length Vs \<Longrightarrow> stream_parser (ps ! i) (Vs ! i)"
    using ps(1) len by (simp add: list_all2_conv_all_nth)
  have F: "frag_ok (table_valid Vs) (table_inv Vs (2 * length Vs + 2)) (chain (table_frags sz ocb ps))"
    by (rule table_chain_ok) (use nth len ps in auto)
  have "run_body h (chain (table_frags sz ocb ps)) s c g = Ok (COMPLETE, s', c') g'"
    using r by (simp add: table_parse_def table_frags_def)
  then obtain fl s1 c1 g1 where f: "chain (table_frags sz ocb ps) s c g = Ok (fl, s1, c1) g1"
    and k: "(case fl of Fall \<Rightarrow> closing h c s1 c1 g1 | Finish \<Rightarrow> closing h c s1 c1 g1
      | Leave rv \<Rightarrow> res_bind (call_chunk (chunk_cb h) c c1 g1) (\<lambda>_. Ok (rv, s1, c1))
      | Bare rv \<Rightarrow> Ok (rv, s1, c1) g1) = Ok (COMPLETE, s', c') g'"
    by (auto simp: run_body_def res_bind_eq_Ok)
  have "fl = Fall \<and> s' = s1"
    using k unfinished_table [of sz ocb ps s c g] unfolding f
    by (cases fl) (auto simp: closing_def res_bind_eq_Ok)
  then have "table_inv Vs (2 * length Vs + 2) s'"
    using frag_ok_post [OF F v, of c g] f by (simp add: leave_ok_def)
  then show ?thesis by (cases s') (auto simp: table_inv_def)
qed

section \<open>The writer\<close>

definition w_header :: "u32 \<Rightarrow> u32 list \<Rightarrow> u8 list" where
  "w_header tot offs =
     (let shift = word_of_int (69 - sint (offs ! 1 - offs ! 0)) :: u32
      in u64_le (ucast (tot + shift)) @ concat (map u32_le [tot + shift, offs ! 0, offs ! 1 + shift, offs ! 2 + shift]) @
         0x41 # zeros 68)"

definition w_append :: "u8 list \<Rightarrow> u8 list act" where
  "w_append b log = Ok () (log @ b)"

definition witness_writer :: "u8 list WitnessArgs_callbacks" where
  "witness_writer =
    \<lparr>start_cb = None, chunk_cb = None, end_cb = None,
     witnessargs_offsets = Some (\<lambda>tot offs. w_append (w_header tot offs)),
     witnessargs_lock = None,
     witnessargs_input_type = Some \<lparr>start_cb = None, chunk_cb = Some w_append, end_cb = None, option_item_cb = None\<rparr>,
     witnessargs_output_type = Some \<lparr>start_cb = None, chunk_cb = Some w_append, end_cb = None, option_item_cb = None\<rparr>\<rparr>"

lemma writer_lawful: "WitnessArgs_lawful (Some witness_writer)"
proof -
  have "chunk_ok (Some \<lparr>start_cb = None, chunk_cb = Some w_append, end_cb = None, option_item_cb = None\<rparr>)
      (\<lambda>f. BytesOpt_inner f (Some \<lparr>start_cb = None, chunk_cb = Some w_append, end_cb = None, option_item_cb = None\<rparr>))"
    unfolding chunk_ok_def by (auto simp: w_append_def [abs_def] BytesOpt_inner_def intro!: exI [of _ "\<lambda>b log. log @ b"])
  then show ?thesis
    by (simp add: WitnessArgs_lawful_def witness_writer_def BytesOpt_lawful_def)
qed

interpretation writer: stream_parser "WitnessArgs (Some witness_writer)" WitnessArgs_valid
  by (rule WitnessArgs_law) (rule writer_lawful)

abbreviation write_witness :: "mol_state \<Rightarrow> u8 list \<Rightarrow> u8 list \<Rightarrow> (mol_rv \<times> mol_state \<times> u8 list, u8 list) res" where
  "write_witness \<equiv> MolReader_WitnessArgs_parse (Some witness_writer) MOL_NUM_MAX"

lemma writer_snd: "snd (WitnessArgs cb) = MolReader_WitnessArgs_parse cb"
  by (simp add: WitnessArgs_def)

section \<open>What is written\<close>

definition appends :: "u8 list \<Rightarrow> u8 list \<Rightarrow> u8 list \<Rightarrow> bool" where
  "appends b log log' \<longleftrightarrow> log' = log @ b"

interpretation app: trace appends
  by unfold_locales (simp_all add: appends_def)

lemma w_append_does: "does (appends b) any (w_append b)"
  by (simp add: does_def appends_def w_append_def)

lemma Bytes_idle:
  assumes "length b + 4 < 2 ^ 32" "fits sz (molecule_bytes b)"
  shows "reads acc (Bytes None) sz (molecule_bytes b) (appends [])"
  using app.Bytes_trace [OF assms, where cb = None and ?e0.0 = "[]" and es = "[]" and ec = "[]"] by simp

lemma opt_written:
  assumes "\<And>b. x = Some b \<Longrightarrow> length b + 4 < 2 ^ 32" "app.closes h (enc_opt molecule_bytes x) w"
  shows "reads acc (option_of h (Bytes None)) (of_nat (length (enc_opt molecule_bytes x))) (enc_opt molecule_bytes x) (appends w)"
proof (cases x)
  case None
  then show ?thesis using app.option_trace_None [of h w acc "Bytes None"] assms(2) by (simp add: enc_opt_def)
next
  case (Some b)
  have b: "length b + 4 < 2 ^ 32" by (rule assms(1) [OF Some])
  have "unat (of_nat (4 + length b) :: u32) = 4 + length b" using b by (simp add: unat_small del: of_nat_add)
  then have z: "of_nat (length (molecule_bytes b)) \<noteq> (0 :: u32)" by (metis length_molecule_bytes unat_0 add_is_0 zero_neq_numeral)
  have f: "fits (of_nat (length (molecule_bytes b))) (molecule_bytes b)" by (rule fits_simps)
  show ?thesis
    using app.option_trace_Some [OF Bytes_idle [OF b f] z, of h w] assms(2) by (simp add: enc_opt_def Some)
qed

text \<open>The header, for every lock.\<close>

lemma header_rewritten:
  assumes lock: "lock < 2 ^ 31" and offs: "offs = table_offsets 16 [lock, input_type, output_type]"
    and tot: "tot = 16 + (lock + input_type + output_type)"
  shows "w_header tot offs = u64_le (ucast (16 + (69 + input_type + output_type))) @
     table_header [69, input_type, output_type] @ molecule_bytes (zeros 65)"
proof -
  have o': "offs ! 1 - offs ! 0 = lock" by (simp add: offs)
  have h: "tot + (69 - lock) = 16 + (69 + input_type + output_type)" "offs ! 0 = 16" "offs ! 1 + (69 - lock) = 85"
    "offs ! 2 + (69 - lock) = 85 + input_type"
    by (simp_all add: offs tot)
  show ?thesis
    unfolding w_header_def o' shift_lock(2) [OF lock] Let_def
    unfolding h
    by (simp add: table_header_def molecule_bytes_65 Let_def)
qed

definition wf_witness :: "witness_args option \<Rightarrow> bool" where
  "wf_witness x \<longleftrightarrow> length (enc_first x) + 69 < 2 ^ 31"

lemma placeholder_bytes:
  "enc_witness_args (placeholder (Some a)) = molecule_table [molecule_bytes (zeros 65),
     enc_opt molecule_bytes (wa_input_type a), enc_opt molecule_bytes (wa_output_type a)]"
  by (simp add: enc_witness_args_def placeholder_def enc_opt_def)

lemma length_table_header: "length (table_header ls) = 4 + 4 * length ls"
  by (simp add: table_header_def Let_def)

lemma witness_written:
  assumes "wf_witness (Some a)"
  shows "reads True (WitnessArgs (Some witness_writer)) MOL_NUM_MAX (enc_witness_args a)
    (appends (hashed_witness (enc_witness_args (placeholder (Some a)))))"
proof -
  let ?cb = "Some witness_writer"
  let ?l = "enc_opt molecule_bytes (wa_lock a)" and ?i = "enc_opt molecule_bytes (wa_input_type a)"
    and ?o = "enc_opt molecule_bytes (wa_output_type a)"
  let ?h = "u64_le (ucast (16 + (69 + of_nat (length ?i) + of_nat (length ?o)) :: u32)) @
    table_header [69, of_nat (length ?i), of_nat (length ?o)] @ molecule_bytes (zeros 65)"
  let ?xs = "[(BytesOpt (cb_field witnessargs_lock ?cb), ?l, []), (BytesOpt (cb_field witnessargs_input_type ?cb), ?i, ?i),
    (BytesOpt (cb_field witnessargs_output_type ?cb), ?o, ?o)]"
  let ?fs = "map (fst \<circ> snd) ?xs"
  have fields: "WitnessArgs_fields ?cb = map fst ?xs" and enc: "enc_witness_args a = molecule_table ?fs"
    by (simp_all add: WitnessArgs_fields_def enc_witness_args_def)
  have small: "length ?l + length ?i + length ?o + 85 < 2 ^ 31"
    using assms by (simp add: wf_witness_def enc_first_def enc length_molecule_table)
  then have b: "length b + 4 < 2 ^ 32" if "wa_lock a = Some b \<or> wa_input_type a = Some b \<or> wa_output_type a = Some b" for b
    using that by (auto simp: enc_opt_def)
  have closes: "app.closes (hooks_of (Some \<lparr>start_cb = None, chunk_cb = Some w_append, end_cb = None, option_item_cb = None\<rparr>)) bs bs" for bs
  proof -
    have "does (appends (bs @ [])) any (\<lambda>g. res_bind (w_append bs g) (\<lambda>_. call_opt None))"
      by (rule app.does_bind [OF w_append_does]) (simp add: call_opt_def [abs_def] app.does_Ok)
    then show ?thesis by (simp add: app.closes_def)
  qed
  have "reads True (BytesOpt None) (of_nat (length ?l)) ?l (appends [])"
    unfolding BytesOpt_eq using opt_written [of "wa_lock a" "hooks_of None" "[]" True] b by simp
  moreover have "reads True (BytesOpt (cb_field witnessargs_input_type ?cb)) (of_nat (length ?i)) ?i (appends ?i)"
    "reads True (BytesOpt (cb_field witnessargs_output_type ?cb)) (of_nat (length ?o)) ?o (appends ?o)"
    unfolding BytesOpt_eq witness_writer_def using opt_written [OF b closes, of "wa_input_type a" True] opt_written [OF b closes, of "wa_output_type a" True]
    by simp_all
  moreover have "does (appends []) any (fst (BytesOpt c))" if "cb_field start_cb c = None" "cb_field option_item_cb c = None" for c
    unfolding BytesOpt_eq using that by (cases c) (auto intro!: app.inits_trace app.array_inits)
  ultimately have xs: "list_all (\<lambda>(p, f, e). reads True p (of_nat (length f)) f (appends e) \<and> does (appends []) any (fst p)) ?xs"
    by (simp add: witness_writer_def)
  have "unat (of_nat (length ?l) :: u32) = length ?l" using small by (simp add: unat_small)
  then have lock: "(of_nat (length ?l) :: u32) < 2 ^ 31" using small by (simp add: word_less_nat_alt)
  have hd: "w_header (of_nat (length (molecule_table ?fs))) (table_offsets (4 + 4 * of_nat (length ?xs)) (sizes_of ?fs)) = ?h"
    by (rule header_rewritten [OF lock]) (simp_all add: sizes_of_def length_molecule_table [of "[_, _, _]"])
  have "reads True (table (hooks_of ?cb) (cb_field witnessargs_offsets ?cb) (map fst ?xs)) MOL_NUM_MAX (molecule_table ?fs)
      (appends (?h @ concat (map (snd \<circ> snd) ?xs) @ []))"
  proof (rule app.table_list_trace [OF xs])
    fix f
    assume "cb_field witnessargs_offsets ?cb = Some f"
    then have "f = (\<lambda>tot offs. w_append (w_header tot offs))" by (simp add: witness_writer_def)
    then show "does (appends ?h) any (f (of_nat (length (molecule_table ?fs))) (table_offsets (4 + 4 * of_nat (length ?xs)) (sizes_of ?fs)))"
      using w_append_does hd by simp
  qed (simp_all add: witness_writer_def)
  moreover have "?h @ concat (map (snd \<circ> snd) ?xs) @ [] = hashed_witness (enc_witness_args (placeholder (Some a)))"
  proof -
    have "unat (of_nat (length ?i) :: u32) = length ?i" "unat (of_nat (length ?o) :: u32) = length ?o"
      using small by (simp_all add: unat_small)
    have "16 + (69 + of_nat (length ?i) + of_nat (length ?o)) = (of_nat (85 + length ?i + length ?o) :: u32)" by simp
    moreover have "unat (of_nat (85 + length ?i + length ?o) :: u32) = 85 + length ?i + length ?o"
      using small by (intro unat_small) simp
    ultimately have "(ucast (16 + (69 + of_nat (length ?i) + of_nat (length ?o)) :: u32) :: u64) = of_nat (85 + length ?i + length ?o)"
      by (metis of_nat_unat)
    then show ?thesis
      by (simp add: hashed_witness_def placeholder_bytes molecule_table_def length_table_header add.assoc)
  qed
  ultimately show ?thesis
    unfolding WitnessArgs_eq fields enc by simp
qed

section \<open>The witness in pieces\<close>

text \<open>\<open>process_witness\<close> on the first witness: parser state, bytes written, and whether it was complete.\<close>

fun write_pieces :: "u8 list list \<Rightarrow> mol_state \<times> u8 list \<times> bool \<Rightarrow> (mol_state \<times> u8 list \<times> bool) option" where
  "write_pieces [] s = Some s"
| "write_pieces (p # ps) (st, log, done) =
     (case write_witness st p log of
        Ok (rv, st', _) log' \<Rightarrow> write_pieces ps (st', log', done \<or> rv = COMPLETE)
      | _ \<Rightarrow> None)"

lemma write_pieces_snoc:
  "write_pieces (ps @ [p]) s = (case write_pieces ps s of None \<Rightarrow> None | Some (st, log, done) \<Rightarrow>
     (case write_witness st p log of Ok (rv, st', _) log' \<Rightarrow> Some (st', log', done \<or> rv = COMPLETE) | _ \<Rightarrow> None))"
proof (induction ps arbitrary: s)
  case Nil
  then show ?case by (cases s) (auto split: res.split)
next
  case (Cons q ps)
  then show ?case by (cases s) (auto split: res.split)
qed

lemma writer_valid_fields:
  "list_all2 stream_parser (WitnessArgs_fields (Some witness_writer)) [BytesOpt_valid, BytesOpt_valid, BytesOpt_valid]"
  using writer_lawful by (auto simp: WitnessArgs_fields_def WitnessArgs_lawful_def intro: BytesOpt_law)

lemma writer_completed:
  assumes "WitnessArgs_valid s" "write_witness s c log = Ok (COMPLETE, s', c') log'"
  shows "write_witness s' [] l = Ok (COMPLETE, s', []) l"
proof -
  have "WitnessArgs_fields (Some witness_writer) \<noteq> []" "length (WitnessArgs_fields (Some witness_writer)) < 2 ^ 31"
    by (simp_all add: WitnessArgs_fields_def)
  then obtain fi tot offs u where "s' = Table_st 3 fi tot offs u"
    using table_completed [OF writer_valid_fields _ _ assms(1) [unfolded WitnessArgs_valid_def]] assms(2)
    unfolding MolReader_WitnessArgs_parse_def by blast
  then show ?thesis
    by (simp add: MolReader_WitnessArgs_parse_def table_done closing_def call_chunk_def call_opt_def witness_writer_def)
qed

lemma pieces_after_completion:
  assumes "concat ps = []" "\<And>l. write_witness st [] l = Ok (COMPLETE, st, []) l"
  shows "write_pieces ps (st, log, True) = Some (st, log, True)"
  using assms by (induction ps) simp_all

lemma pieces_written:
  assumes "WitnessArgs_valid s" "feed write_witness' MOL_NUM_MAX s ps log = Ok (COMPLETE, s1, []) log1"
    "write_witness' = MolReader_WitnessArgs_parse (Some witness_writer)"
    "write_pieces ps (s, log, d) = Some (s2, log2, d2)"
  shows "log2 = log1 \<and> d2"
  using assms(1,2,4)
proof (induction ps arbitrary: s log d)
  case (Cons p ps)
  obtain rv s' c' log' where w: "write_witness s p log = Ok (rv, s', c') log'"
    and k: "write_pieces ps (s', log', d \<or> rv = COMPLETE) = Some (s2, log2, d2)"
    using Cons.prems(3) by (auto split: res.splits prod.splits)
  show ?case
  proof (cases "rv = INCOMPLETE \<and> ps \<noteq> []")
    case True
    then have "feed write_witness' MOL_NUM_MAX s' ps log' = Ok (COMPLETE, s1, []) log1"
      using Cons.prems(2) w by (simp add: assms(3))
    moreover have "WitnessArgs_valid s'"
      using writer.incomplete_valid [OF Cons.prems(1), unfolded writer_snd] w True by blast
    ultimately show ?thesis using Cons.IH k by blast
  next
    case False
    then have f: "rv = COMPLETE" "log' = log1" "concat ps = []"
      using Cons.prems(2) w by (auto simp: assms(3))
    then have "write_witness s' [] l = Ok (COMPLETE, s', []) l" for l
      using writer_completed [OF Cons.prems(1)] w by blast
    then show ?thesis using pieces_after_completion [OF f(3)] k f by simp
  qed
qed simp

abbreviation writer_start :: mol_state where
  "writer_start \<equiv> Table_st 0 0 0 (replicate 3 0) mol_num_init_state"

lemma writer_init: "fst (WitnessArgs (Some witness_writer)) l = Ok writer_start l"
  by (simp add: WitnessArgs_def MolReader_WitnessArgs_init_state_def table_init_def call_opt_def witness_writer_def)

lemma writer_start_valid: "WitnessArgs_valid writer_start"
  using writer_init by (rule writer.init_valid)

lemma writer_empty: "write_witness writer_start [] l = Ok (INCOMPLETE, writer_start, []) l"
  by (simp add: MolReader_WitnessArgs_parse_def table_parse_def run_body_def seq_def table_total_def MOL_CALL_NUM_def
      mol_parse_num_def mol_parse_bytes_def mol_num_init_state_def mem_write_def call_chunk_def witness_writer_def)

lemma empty_pieces: "concat ps = [] \<Longrightarrow> write_pieces ps (writer_start, log, d) = Some (writer_start, log, d)"
  by (induction ps) (simp_all add: writer_empty)

lemma pieces_feed:
  "write_pieces ps (s, k, d) = Some y \<Longrightarrow>
    \<exists>rv s' c' l. feed (MolReader_WitnessArgs_parse (Some witness_writer)) MOL_NUM_MAX s ps k = Ok (rv, s', c') l"
proof (induction ps arbitrary: s k d)
  case (Cons p ps)
  obtain rv s' c' k' where w: "write_witness s p k = Ok (rv, s', c') k'"
    and r: "write_pieces ps (s', k', d \<or> rv = COMPLETE) = Some y"
    using Cons.prems by (auto split: res.splits prod.splits)
  show ?case using Cons.IH [OF r] w by simp
qed simp

text \<open>The outcome for a whole witness, in whatever pieces it came.\<close>

lemma first_witness_written:
  assumes "concat ps = enc_first x" "wf_witness x" "write_pieces ps (writer_start, [], False) = Some (st, log, done)"
  shows "done \<longleftrightarrow> x \<noteq> None" "x \<noteq> None \<Longrightarrow> log = hashed_witness (enc_witness_args (placeholder x))"
proof -
  have "(done \<longleftrightarrow> x \<noteq> None) \<and> (x \<noteq> None \<longrightarrow> log = hashed_witness (enc_witness_args (placeholder x)))"
  proof (cases x)
    case None
    then show ?thesis using assms(1,3) empty_pieces by (simp add: enc_first_def)
  next
    case (Some a)
    let ?p = "MolReader_WitnessArgs_parse (Some witness_writer)"
    have c: "concat ps = enc_witness_args a" using assms(1) Some by (simp add: enc_first_def)
    have "enc_witness_args a \<noteq> []" using table_nonempty unfolding enc_witness_args_def by blast
    then have "ps \<noteq> []" using c by auto
    then have sim: "sim rv_rej (write_witness writer_start (enc_witness_args a) []) (feed ?p MOL_NUM_MAX writer_start ps [])"
      using writer.feed_concat [OF writer_start_valid, of ps MOL_NUM_MAX "[]"] by (simp add: c writer_snd)
    have one: "rv = COMPLETE \<and> c' = [] \<and> log' = hashed_witness (enc_witness_args (placeholder x))"
      if "write_witness writer_start (enc_witness_args a) [] = Ok (rv, s', c') log'" for rv s' c' log'
      using readsD [OF witness_written initialI [OF writer_init], of a "[]" "[]" rv s' c' log'] that assms(2)
      by (simp add: Some writer_snd verdict_def appends_def)
    obtain rv s' c' log' where f: "feed ?p MOL_NUM_MAX writer_start ps [] = Ok (rv, s', c') log'"
      using pieces_feed [OF assms(3)] by blast
    then have "feed ?p MOL_NUM_MAX writer_start ps [] = Ok (COMPLETE, s', []) (hashed_witness (enc_witness_args (placeholder x)))"
      using sim one unfolding f by (auto simp: sim_def split: res.splits)
    then show ?thesis
      using pieces_written [OF writer_start_valid _ refl assms(3)] Some by blast
  qed
  then show "done \<longleftrightarrow> x \<noteq> None" "x \<noteq> None \<Longrightarrow> log = hashed_witness (enc_witness_args (placeholder x))" by auto
qed

end
