(* ===== verification/Signer_Tracking.thy ===== *)
theory Signer_Tracking
  imports Transcriber_Trace Witness_Writer
begin

text \<open>
  The relation \<open>tracks\<close> connects a state of the signer with a transcript: what the signer has
  hashed is what the transcriber has written. Every callback of the signer is matched by the
  callback of the transcriber in its place.
\<close>

section \<open>Hashes\<close>

definition fresh_hash :: "'h sdk \<Rightarrow> 'h" where
  "fresh_hash sdk = conditional_init_hash_state sdk None"

definition digest_of :: "'h sdk \<Rightarrow> u8 list \<Rightarrow> u8 list" where
  "digest_of sdk b = fst (sdk_hash_last sdk (sdk_hash sdk (fresh_hash sdk) b) [])"

definition digests_32 :: "'h sdk \<Rightarrow> bool" where
  "digests_32 sdk \<longleftrightarrow> (\<forall>h b. length (fst (sdk_hash_last sdk h b)) = 32)"

definition hash_of :: "'h sdk \<Rightarrow> 'h ctx \<Rightarrow> 'h" where
  "hash_of sdk g = conditional_init_hash_state sdk (hash_state g)"

text \<open>\<open>hash_state\<close> is the state of a hash that has been fed \<open>b\<close>.\<close>

definition hashed :: "'h sdk \<Rightarrow> 'h ctx \<Rightarrow> u8 list \<Rightarrow> bool" where
  "hashed sdk g b \<longleftrightarrow> hash_of sdk g = sdk_hash sdk (fresh_hash sdk) b"

lemma hashed_nothing: "hash_lawful sdk \<Longrightarrow> hash_state g = None \<Longrightarrow> hashed sdk g []"
  by (simp add: hashed_def hash_of_def fresh_hash_def hash_lawful_def)

lemma hashed_chunk:
  assumes "hash_lawful sdk" "hashed sdk g a"
  shows "hashed sdk (g\<lparr>hash_state := blake2b_incremental_hash sdk b (hash_state g)\<rparr>) (a @ b)"
proof -
  have "hash_of sdk (g\<lparr>hash_state := blake2b_incremental_hash sdk b (hash_state g)\<rparr>) = sdk_hash sdk (hash_of sdk g) b"
    by (simp add: hash_of_def blake2b_incremental_hash_def conditional_init_hash_state_def)
  then show ?thesis using assms by (simp add: hashed_def hash_lawful_def)
qed

lemma hashed_cong: "hash_state g' = hash_state g \<Longrightarrow> hashed sdk g' = hashed sdk g"
  by (rule ext) (simp add: hashed_def hash_of_def)

lemma digest_of_hashed: "hashed sdk g b \<Longrightarrow> fst (blake2b_finish_hash sdk (hash_state g)) = digest_of sdk b"
  by (simp add: blake2b_finish_hash_def hashed_def hash_of_def digest_of_def split: prod.split)

lemma length_digest: "digests_32 sdk \<Longrightarrow> length (digest_of sdk b) = 32"
  by (simp add: digests_32_def digest_of_def)

section \<open>The relation\<close>

definition source_state :: "'h ctx \<Rightarrow> 'h input_state_t option" where
  "source_state g = (case live_inp g of None \<Rightarrow> None | Some i \<Rightarrow> input_state i)"

definition tracks_input :: "'h sdk \<Rightarrow> transcript \<Rightarrow> 'h input_state_t \<Rightarrow> bool" where
  "tracks_input sdk l s \<longleftrightarrow> input_index s = t_index l \<and>
     conditional_init_hash_state sdk (input_hash_state s) = sdk_hash sdk (fresh_hash sdk) (t_source l)"

text \<open>The first witness so far: its pieces have taken the inner reader to where it is.\<close>

definition tracks_witness :: "'h sdk \<Rightarrow> 'h ctx \<Rightarrow> sign_tx \<Rightarrow> u8 list \<Rightarrow> u8 list \<Rightarrow> bool" where
  "tracks_witness sdk g t h w \<longleftrightarrow> (\<exists>ps log. concat ps = w \<and> hashed sdk g (h @ log) \<and>
     write_pieces ps (writer_start, [], False) = Some (witness_stack t, log, first_witness_done t))"

definition tracks_tx :: "'h sdk \<Rightarrow> 'h ctx \<Rightarrow> transcript \<Rightarrow> sign_tx \<Rightarrow> bool" where
  "tracks_tx sdk g l t \<longleftrightarrow> (\<forall>h. t_id l = Some h \<longrightarrow> transaction_hash t = h \<and> length h = 32) \<and>
     is_first_witness t = t_first l \<and> (\<not> t_begun l \<longrightarrow> \<not> first_witness_done t) \<and>
     (\<not> signing_multisig_input g \<longrightarrow> (\<forall>m. t_message l = Some m \<longrightarrow> final_hash t = digest_of sdk m) \<and>
        (\<forall>w h. t_wit l = Some w \<longrightarrow> t_id l = Some h \<longrightarrow> tracks_witness sdk g t h w))"

text \<open>Nothing is claimed of a rejected transaction, nor of the message of a multisig one.\<close>

definition tracks :: "'h sdk \<Rightarrow> 'h ctx \<Rightarrow> transcript \<Rightarrow> bool" where
  "tracks sdk g l \<longleftrightarrow> unsafe g \<or>
     input_count g = t_count l \<and> (t_first l \<longrightarrow> t_begun l) \<and>
     (t_live l \<longrightarrow> (t_begun l \<longrightarrow> \<not> signing_multisig_input g) \<longrightarrow> hashed sdk g (t_fed l)) \<and>
     (\<forall>s. source_state g = Some s \<longrightarrow> tracks_input sdk l s) \<and>
     (\<forall>t. live_tx g = Some t \<longrightarrow> tracks_tx sdk g l t)"

interpretation tracking: simulation "tracks sdk" for sdk :: "'h sdk" .

lemma tracks_blank:
  assumes "hash_lawful sdk" "hash_state g = None" "input_count g = 0" "su g = U_zero"
  shows "tracks sdk g blank_transcript"
  using assms hashed_nothing [OF assms(1,2)]
  by (auto simp: tracks_def blank_transcript_def source_state_def live_inp_def live_tx_def zero_input_def tracks_input_def
      tracks_tx_def zero_tx_def hash_lawful_def fresh_hash_def)

section \<open>Callbacks that hash nothing\<close>

definition tx_view :: "sign_tx \<Rightarrow> u8 list \<times> u8 list \<times> bool \<times> bool \<times> mol_state" where
  "tx_view t = (transaction_hash t, final_hash t, is_first_witness t, first_witness_done t, witness_stack t)"

definition quiet :: "'h ctx \<Rightarrow> 'h ctx \<Rightarrow> bool" where
  "quiet g g' \<longleftrightarrow> (unsafe g \<longrightarrow> unsafe g') \<and> input_count g' = input_count g \<and> hash_state g' = hash_state g \<and>
     (signing_multisig_input g \<longrightarrow> signing_multisig_input g') \<and>
     (source_state g' = None \<or> source_state g' = source_state g) \<and>
     (live_tx g' = None \<or> map_option tx_view (live_tx g') = map_option tx_view (live_tx g))"

interpretation quiet_eff: effects quiet "\<lambda>_ _ _. True"
  by unfold_locales (auto simp: quiet_def)

lemma tracks_quiet:
  assumes "tracks sdk g l" "quiet g g'"
  shows "tracks sdk g' l"
proof (cases "unsafe g")
  case True
  then show ?thesis using assms(2) by (simp add: tracks_def quiet_def)
next
  case False
  have h: "hashed sdk g' = hashed sdk g" by (rule hashed_cong) (use assms(2) in \<open>simp add: quiet_def\<close>)
  have "tracks_tx sdk g' l t'" if t': "live_tx g' = Some t'" for t'
  proof -
    obtain t where t: "live_tx g = Some t" "tx_view t' = tx_view t"
      using assms(2) t' by (cases "live_tx g") (auto simp: quiet_def)
    then have "tracks_tx sdk g l t" using assms(1) False by (simp add: tracks_def)
    then show ?thesis
      using t(2) assms(2) by (auto simp: tracks_tx_def tracks_witness_def h tx_view_def quiet_def)
  qed
  then show ?thesis
    using assms False unfolding tracks_def h quiet_def by auto
qed

lemma quiet_matches: "keeps quiet (\<lambda>_ _ _. True) m \<Longrightarrow> matches (tracks sdk) m (\<lambda>l. Ok () l)"
  using tracks_quiet keepsD by (fastforce simp: matches_def eff_def split: res.splits)

lemma source_state_simps [simp]:
  "source_state (g\<lparr>su := U_tx t\<rparr>) = None" "source_state (g\<lparr>su := U_temp_key p\<rparr>) = None"
  "source_state (g\<lparr>su := U_inp i\<rparr>) = input_state i" "source_state (g\<lparr>su := U_zero\<rparr>) = Some zero_input"
  by (simp_all add: source_state_def live_inp_def)

lemma source_state_cong: "su g' = su g \<Longrightarrow> source_state g' = source_state g"
  by (simp add: source_state_def live_inp_def)

lemma source_state_frame [simp]:
  "source_state (g\<lparr>unsafe := x0\<rparr>) = source_state g" "source_state (g\<lparr>hard_reject := x1\<rparr>) = source_state g"
  "source_state (g\<lparr>parsed := x2\<rparr>) = source_state g" "source_state (g\<lparr>hash_state := x3\<rparr>) = source_state g"
  "source_state (g\<lparr>input_count := x4\<rparr>) = source_state g" "source_state (g\<lparr>distinct_input_sources := x5\<rparr>) = source_state g"
  "source_state (g\<lparr>cell_state := x6\<rparr>) = source_state g" "source_state (g\<lparr>dao_cell_owner := x7\<rparr>) = source_state g"
  "source_state (g\<lparr>dao_input_amount := x8\<rparr>) = source_state g" "source_state (g\<lparr>input_amount_fst := x9\<rparr>) = source_state g"
  "source_state (g\<lparr>input_amount_snd := x10\<rparr>) = source_state g" "source_state (g\<lparr>lock_arg_cmp := x11\<rparr>) = source_state g"
  "source_state (g\<lparr>lock_arg_tmp := x12\<rparr>) = source_state g" "source_state (g\<lparr>current_lock_arg := x13\<rparr>) = source_state g"
  "source_state (g\<lparr>change_lock_arg := x14\<rparr>) = source_state g" "source_state (g\<lparr>key_path_components := x15\<rparr>) = source_state g"
  "source_state (g\<lparr>key_length := x16\<rparr>) = source_state g" "source_state (g\<lparr>signing_multisig_input := x17\<rparr>) = source_state g"
  "source_state (g\<lparr>keymem := x18\<rparr>) = source_state g"
  by (rule source_state_cong; simp)+

lemma quiet_cells [keeps_intros]:
  "keeps quiet E (input_context_start_idx idx)" "keeps quiet E (cell_capacity buf)"
  "keeps quiet E (cell_lock_code_hash buf)" "keeps quiet E (cell_script_hash_type ht)"
  "keeps quiet E script_arg_start_input" "keeps quiet E (script_arg_chunk buf)"
  "keeps quiet E (cell_type_code_hash buf)" "keeps quiet E (cell_type_arg_length len)"
  "keeps quiet E (set_cell_data_size len)" "keeps quiet E (check_cell_data_data_chunk buf)"
  "keeps quiet E finish_input_cell_data" "keeps quiet E (validate_output_data_start idx)"
  "keeps quiet E finish_output_cell_data"
  by (simp_all add: keeps_def cb_defs quiet_def split: option.split)

lemma tx_view_simps [simp]:
  "tx_view (t\<lparr>current_output_index := x0\<rparr>) = tx_view t" "tx_view (t\<lparr>dao_bitmask := x1\<rparr>) = tx_view t"
  "tx_view (t\<lparr>change_amount := x2\<rparr>) = tx_view t" "tx_view (t\<lparr>plain_output_amount := x3\<rparr>) = tx_view t"
  "tx_view (t\<lparr>dao_output_amount := x4\<rparr>) = tx_view t" "tx_view (t\<lparr>output_count := x5\<rparr>) = tx_view t"
  "tx_view (t\<lparr>outputs := x6\<rparr>) = tx_view t" "tx_view (t\<lparr>is_self_transfer := x7\<rparr>) = tx_view t"
  "tx_view (set_output k g t) = tx_view t"
  by (simp_all add: tx_view_def set_output_def)

lemma live_temp_key_state:
  "live_temp_key g = Some p \<Longrightarrow> su g = U_zero \<or> su g = U_temp_key p"
  by (auto simp: live_temp_key_def split: sign_union.splits)

lemma quiet_unions [keeps_intros]:
  "keeps quiet E inputs_start" "keeps quiet E input_lock_arg_end" "keeps quiet E (output_start idx)"
  "keeps quiet E (init_bip32 len)" "keeps quiet E (bip32_component buf)"
  by (simp_all add: keeps_def cb_defs quiet_def source_state_def live_inp_def split: option.split sign_union.split)

lemma quiet_add_to_last: "live_tx g = Some t0 \<Longrightarrow> tx_view t = tx_view t0 \<Longrightarrow> eff quiet E g (add_to_last_output t g)"
  by (simp add: add_to_last_output_def Let_def set_flag_def quiet_def)

lemma quiet_set_tag: "quiet g (set_tag tg g)"
  by (simp add: quiet_def set_tag_def)

lemma quiet_output_end [keeps_intros]: "keeps quiet (\<lambda>_ _ _. True) output_end"
  by (auto simp: keeps_def output_end_def on_tx_def Let_def REJECT_soft_def set_flag_def quiet_def set_tag_def
      add_to_last_output_def split: option.split)

lemma quiet_outputs_end [keeps_intros]: "keeps quiet (\<lambda>_ _ _. True) outputs_end"
  by (auto simp: keeps_def outputs_end_def on_tx_def Let_def set_flag_def quiet_def split: option.split)

lemma quiet_paths [keeps_intros]:
  "keeps quiet (\<lambda>_ _ _. True) (set_sign_path sdk)" "keeps quiet (\<lambda>_ _ _. True) (set_change_path sdk)"
proof -
  have q: "eff quiet (\<lambda>_ _ _. True) g (res_bind (prep_lock_arg sdk key g) (\<lambda>l g1. Ok () (h l g1)))"
    if "\<And>l g1. quiet g1 (h l g1)" for key h and g :: "'a ctx"
    using prep_lock_arg_frame [of sdk g key] that
    by (cases "prep_lock_arg sdk key g") (fastforce simp: quiet_def)+
  show "keeps quiet (\<lambda>_ _ _. True) (set_sign_path sdk)" "keeps quiet (\<lambda>_ _ _. True) (set_change_path sdk)"
    by (auto simp: keeps_def set_sign_path_def set_change_path_def on_temp_key_def quiet_def intro!: q
        split: option.split)
qed

section \<open>Callbacks that hash\<close>

lemma tracks_unsafe: "unsafe g \<Longrightarrow> tracks sdk g l"
  by (simp add: tracks_def)

lemma chunk_tracks:
  assumes "hash_lawful sdk" "tracks sdk g l"
  shows "tracks sdk (g\<lparr>hash_state := blake2b_incremental_hash sdk b (hash_state g)\<rparr>) (t_feed b l)"
  using assms(2) hashed_chunk [OF assms(1), of g _ b]
  by (auto simp: tracks_def t_feed_def tracks_input_def tracks_tx_def)

lemma chunk_matches:
  assumes "hash_lawful sdk"
  shows "matches (tracks sdk) (blake2b_chunk sdk b) (t_upd (t_feed b))"
  using chunk_tracks [OF assms] by (auto simp: matches_def blake2b_chunk_def t_upd_def)

lemma header_matches:
  assumes "hash_lawful sdk"
  shows "matches (tracks sdk) (computeNewOffsetsToHash sdk tot offs) (t_upd (t_header tot offs))"
proof (rule matchesI)
  fix g l a g'
  assume t: "tracks sdk g l" and r: "computeNewOffsetsToHash sdk tot offs g = Ok a g'"
  let ?k = "\<lambda>n. offs ! 4 - offs ! 3 - (44 * n + 4)"
  let ?h = "\<lambda>n. concat (map u32_le [tot - ?k n, offs ! 0, offs ! 1, offs ! 2, offs ! 3, offs ! 4 - ?k n, offs ! 5 - ?k n])"
  have "computeNewOffsetsToHash sdk tot offs g = blake2b_chunk sdk (?h (input_count g)) g"
    unfolding computeNewOffsetsToHash_def Let_def
    by (simp add: hash_append_more [OF assms] hash_append [OF assms])
  then have g': "g' = g\<lparr>hash_state := blake2b_incremental_hash sdk (?h (input_count g)) (hash_state g)\<rparr>"
    using r by (simp add: blake2b_chunk_def)
  have "tracks sdk g' (t_feed (?h (t_count l)) l)"
  proof (cases "unsafe g")
    case True
    then show ?thesis by (simp add: g' tracks_unsafe)
  next
    case False
    then have "input_count g = t_count l" using t by (simp add: tracks_def)
    then show ?thesis using chunk_tracks [OF assms t] by (simp add: g')
  qed
  then show "\<exists>l'. t_upd (t_header tot offs) l = Ok a l' \<and> tracks sdk g' l'"
    by (simp add: t_upd_def t_header_def Let_def)
qed

lemma input_count_matches:
  assumes "hash_lawful sdk"
  shows "matches (tracks sdk) (blake2b_input_count sdk n) (t_upd (t_inputs n))"
proof (rule matchesI)
  fix g l a g'
  assume t: "tracks sdk g l" and r: "blake2b_input_count sdk n g = Ok a g'"
  have rej: "tracks sdk (g\<lparr>hard_reject := True\<rparr>) l"
    by (rule tracks_quiet [OF t]) (simp add: quiet_def)
  have "tracks sdk g' (t_inputs n l)"
  proof (cases "unsafe g")
    case True
    then have "unsafe g'"
      using r by (auto simp: blake2b_input_count_def REJECT_HARD_def blake2b_chunk_def split: if_splits)
    then show ?thesis by (rule tracks_unsafe)
  next
    case False
    then have "input_count g = t_count l" using t by (simp add: tracks_def)
    then show ?thesis
      using r rej chunk_tracks [OF assms t]
      by (auto simp: blake2b_input_count_def REJECT_HARD_def blake2b_chunk_def t_inputs_def split: if_splits)
  qed
  then show "\<exists>l'. t_upd (t_inputs n) l = Ok a l' \<and> tracks sdk g' l'"
    by (simp add: t_upd_def)
qed

text \<open>The callbacks that do not hash into \<open>hash_state\<close> keep what it has been fed.\<close>

lemma hashed_frame [simp]:
  "hashed sdk (g\<lparr>su := x1\<rparr>) = hashed sdk g" "hashed sdk (g\<lparr>input_count := x2\<rparr>) = hashed sdk g"
  "hashed sdk (g\<lparr>cell_state := x3\<rparr>) = hashed sdk g" "hashed sdk (g\<lparr>lock_arg_tmp := x4\<rparr>) = hashed sdk g"
  "hashed sdk (g\<lparr>parsed := x5\<rparr>) = hashed sdk g" "hashed sdk (g\<lparr>unsafe := x6\<rparr>) = hashed sdk g"
  by (rule hashed_cong; simp)+

lemma tracks_tx_frame [simp]:
  "tracks_tx sdk (g\<lparr>su := x1\<rparr>) l = tracks_tx sdk g l" "tracks_tx sdk (g\<lparr>input_count := x2\<rparr>) l = tracks_tx sdk g l"
  by (simp_all add: tracks_tx_def [abs_def] tracks_witness_def)

lemma tracksI:
  assumes "input_count g = t_count l" "t_first l \<Longrightarrow> t_begun l"
    "t_live l \<Longrightarrow> (t_begun l \<Longrightarrow> \<not> signing_multisig_input g) \<Longrightarrow> hashed sdk g (t_fed l)"
    "\<And>s. source_state g = Some s \<Longrightarrow> tracks_input sdk l s" "\<And>t. live_tx g = Some t \<Longrightarrow> tracks_tx sdk g l t"
  shows "tracks sdk g l"
  using assms by (simp add: tracks_def)

lemma tracksD:
  assumes "tracks sdk g l" "\<not> unsafe g"
  shows "input_count g = t_count l" "t_first l \<Longrightarrow> t_begun l"
    "t_live l \<Longrightarrow> (t_begun l \<Longrightarrow> \<not> signing_multisig_input g) \<Longrightarrow> hashed sdk g (t_fed l)"
    "source_state g = Some s \<Longrightarrow> tracks_input sdk l s" "live_tx g = Some t \<Longrightarrow> tracks_tx sdk g l t"
  using assms by (simp_all add: tracks_def)

lemma upd_matchesI:
  assumes "\<And>g l a g'. tracks sdk g l \<Longrightarrow> m g = Ok a g' \<Longrightarrow> unsafe g \<Longrightarrow> unsafe g'"
    "\<And>g l a g'. tracks sdk g l \<Longrightarrow> m g = Ok a g' \<Longrightarrow> \<not> unsafe g \<Longrightarrow> tracks sdk g' (f l)"
  shows "matches (tracks sdk) m (t_upd f)"
  using assms tracks_unsafe unfolding matches_def t_upd_def by (metis (full_types) unit.exhaust)

lemma set_count_matches: "matches (tracks sdk) (set_input_count b) (t_upd (t_set_count b))"
proof (rule upd_matchesI)
  fix g l a g'
  assume t: "tracks sdk g l" and r: "set_input_count b g = Ok a g'" and u: "\<not> unsafe g"
  have g': "g' = g\<lparr>input_count := le_word (take 4 b)\<rparr>" using r by (simp add: set_input_count_def)
  have x: "tracks_tx sdk g (t_set_count b l) t = tracks_tx sdk g l t" "tracks_input sdk (t_set_count b l) s = tracks_input sdk l s" for t s
    by (simp_all add: tracks_tx_def tracks_input_def t_set_count_def)
  show "tracks sdk g' (t_set_count b l)"
    unfolding g' using tracksD [OF t u] by (intro tracksI) (simp_all add: x, simp_all add: t_set_count_def)
qed (auto simp: set_input_count_def)

text \<open>Inside an input.\<close>

lemma tracks_inside_input:
  assumes "tracks sdk g l" "\<not> unsafe g" "input_state i = Some s" "tracks_input sdk l' s"
    "t_count l' = t_count l" "t_fed l' = t_fed l" "t_live l' = t_live l" "t_first l' = t_first l" "t_begun l' = t_begun l"
  shows "tracks sdk (g\<lparr>su := U_inp i\<rparr>) l'"
  using tracksD [OF assms(1,2)] assms(3-) by (intro tracksI) simp_all

lemma fresh_input: "hash_lawful sdk \<Longrightarrow> tracks_input sdk (t_input l) zero_input"
  by (simp add: tracks_input_def t_input_def zero_input_def fresh_hash_def hash_lawful_def)

lemma input_start_matches:
  assumes "hash_lawful sdk"
  shows "matches (tracks sdk) input_start (t_upd t_input)"
proof (rule upd_matchesI)
  fix g l a g'
  assume t: "tracks sdk g l" and r: "input_start g = Ok a g'" and u: "\<not> unsafe g"
  obtain i where "g' = (g\<lparr>cell_state := zero_cell, lock_arg_tmp := zeros 28\<rparr>)\<lparr>su := U_inp (i\<lparr>input_state := Some zero_input\<rparr>)\<rparr>"
    using r by (auto simp: input_start_def on_inp_def split: option.splits)
  moreover have "tracks sdk (g\<lparr>cell_state := zero_cell, lock_arg_tmp := zeros 28\<rparr>) l"
    by (rule tracks_quiet [OF t]) (simp add: quiet_def)
  ultimately show "tracks sdk g' (t_input l)"
    using tracks_inside_input [of sdk "g\<lparr>cell_state := zero_cell, lock_arg_tmp := zeros 28\<rparr>" l
        "i\<lparr>input_state := Some zero_input\<rparr>" zero_input "t_input l"] fresh_input [OF assms, of l] u
    by (simp add: t_input_def del: apdu_sign_state_t.update_convs)
qed (auto simp: input_start_def on_inp_def split: option.splits)

lemma save_index_matches: "matches (tracks sdk) (input_save_index b) (t_upd (t_set_index b))"
proof (rule upd_matchesI)
  fix g l a g'
  assume t: "tracks sdk g l" and r: "input_save_index b g = Ok a g'" and u: "\<not> unsafe g"
  obtain i s where "live_inp g = Some i" "input_state i = Some s"
    and g': "g' = g\<lparr>su := U_inp (i\<lparr>input_state := Some (s\<lparr>input_index := le_word (take 4 b)\<rparr>)\<rparr>)\<rparr>"
    using r by (auto simp: input_save_index_def on_input_state_def on_inp_def split: option.splits)
  then have "tracks_input sdk l s" using tracksD(4) [OF t u] by (simp add: source_state_def)
  then have "tracks_input sdk (t_set_index b l) (s\<lparr>input_index := le_word (take 4 b)\<rparr>)"
    by (simp add: tracks_input_def t_set_index_def)
  then show "tracks sdk g' (t_set_index b l)"
    unfolding g' by (intro tracks_inside_input [OF t u]) (simp_all add: t_set_index_def)
qed (auto simp: input_save_index_def on_input_state_def on_inp_def split: option.splits)

lemma add_source_matches:
  assumes "hash_lawful sdk"
  shows "matches (tracks sdk) (context_blake2b_chunk sdk b) (t_upd (t_add_source b))"
proof (rule upd_matchesI)
  fix g l a g'
  assume t: "tracks sdk g l" and r: "context_blake2b_chunk sdk b g = Ok a g'" and u: "\<not> unsafe g"
  obtain i s where "live_inp g = Some i" "input_state i = Some s"
    and g': "g' = g\<lparr>su := U_inp (i\<lparr>input_state := Some (s\<lparr>input_hash_state := blake2b_incremental_hash sdk b (input_hash_state s)\<rparr>)\<rparr>)\<rparr>"
    using r by (auto simp: context_blake2b_chunk_def on_input_state_def on_inp_def split: option.splits)
  then have "tracks_input sdk l s" using tracksD(4) [OF t u] by (simp add: source_state_def)
  then have "tracks_input sdk (t_add_source b l) (s\<lparr>input_hash_state := blake2b_incremental_hash sdk b (input_hash_state s)\<rparr>)"
    using assms by (simp add: tracks_input_def t_add_source_def blake2b_incremental_hash_def conditional_init_hash_state_def hash_lawful_def)
  then show "tracks sdk g' (t_add_source b l)"
    unfolding g' by (intro tracks_inside_input [OF t u]) (simp_all add: t_add_source_def)
qed (auto simp: context_blake2b_chunk_def on_input_state_def on_inp_def split: option.splits)

lemma finish_source_matches:
  assumes "hash_lawful sdk"
  shows "matches (tracks sdk) (finish_context_txn sdk) (t_upd (t_source_end (digest_of sdk)))"
proof (rule upd_matchesI)
  fix g l a g'
  assume t: "tracks sdk g l" and r: "finish_context_txn sdk g = Ok a g'" and u: "\<not> unsafe g"
  obtain i s where s: "live_inp g = Some i" "input_state i = Some s"
    and e: "(let (tx_hash, _) = blake2b_finish_hash sdk (input_hash_state s)
     in res_bind (blake2b_chunk sdk tx_hash g)
       (\<lambda>_ g1. res_bind (blake2b_chunk sdk (u32_le (input_index s)) g1)
         (\<lambda>_ g2. Ok () (g2\<lparr>su := U_inp (i\<lparr>input_state := Some zero_input\<rparr>)\<rparr>)))) = Ok a g'"
    using r by (auto simp: finish_context_txn_def on_input_state_def on_inp_def split: option.splits)
  have si: "tracks_input sdk l s" using tracksD(4) [OF t u] s by (simp add: source_state_def)
  then have d: "fst (blake2b_finish_hash sdk (input_hash_state s)) = digest_of sdk (t_source l)"
    by (simp add: tracks_input_def blake2b_finish_hash_def digest_of_def split: prod.split)
  let ?b = "digest_of sdk (t_source l) @ u32_le (t_index l)"
  let ?g = "g\<lparr>hash_state := blake2b_incremental_hash sdk ?b (hash_state g)\<rparr>"
  have "g' = ?g\<lparr>su := U_inp (i\<lparr>input_state := Some zero_input\<rparr>)\<rparr>"
    using e si d hash_append [OF assms, of "digest_of sdk (t_source l)" g "u32_le (t_index l)"]
    by (auto simp: blake2b_chunk_def tracks_input_def split: prod.splits)
  moreover have "tracks sdk ?g (t_feed ?b l)" by (rule chunk_tracks [OF assms t])
  ultimately show "tracks sdk g' (t_source_end (digest_of sdk) l)"
    using tracks_inside_input [of sdk ?g "t_feed ?b l" "i\<lparr>input_state := Some zero_input\<rparr>" zero_input "t_input (t_feed ?b l)"]
      fresh_input [OF assms, of "t_feed ?b l"] u
    by (simp add: t_source_end_def t_input_def [of "t_feed ?b l"] del: apdu_sign_state_t.update_convs)
qed (auto simp: finish_context_txn_def on_input_state_def on_inp_def blake2b_chunk_def split: option.splits prod.splits)

lemma finish_inputs_matches:
  assumes "hash_lawful sdk"
  shows "matches (tracks sdk) finish_inputs (t_upd t_inputs_end)"
proof (rule upd_matchesI)
  fix g l a g'
  assume t: "tracks sdk g l" and r: "finish_inputs g = Ok a g'" and u: "\<not> unsafe g"
  have g': "g' = g\<lparr>su := U_zero\<rparr>" using r by (simp add: finish_inputs_def)
  have z: "tracks_tx sdk g (t_inputs_end l) zero_tx" by (simp add: tracks_tx_def t_inputs_end_def t_input_def zero_tx_def)
  show "tracks sdk g' (t_inputs_end l)"
    unfolding g' using tracksD [OF t u] fresh_input [OF assms] z
    by (intro tracksI) (simp_all, simp_all add: t_inputs_end_def t_input_def)
qed (auto simp: finish_inputs_def)

lemma finalize_tag_quiet: "finalize_tag t g = Some g1 \<Longrightarrow> hash_state g1 = hash_state g \<and> input_count g1 = input_count g \<and>
    signing_multisig_input g1 = signing_multisig_input g"
  by (auto simp: finalize_tag_def Let_def split: operation_tag.splits if_splits)

lemma raw_end_matches:
  assumes "digests_32 sdk"
  shows "matches (tracks sdk) (finalize_raw_transaction sdk) (t_upd (t_raw_end (digest_of sdk)))"
proof (rule upd_matchesI)
  fix g l a g'
  assume "unsafe g" and "finalize_raw_transaction sdk g = Ok a g'"
  moreover have "eff flags_kept (\<lambda>_ _ _. True) g (finalize_raw_transaction sdk g)"
    by (rule keepsD [OF flags_finalize_raw])
  ultimately show "unsafe g'" by (simp add: flags_kept_def)
next
  fix g l a g'
  assume t: "tracks sdk g l" and r: "finalize_raw_transaction sdk g = Ok a g'" and u: "\<not> unsafe g"
  show "tracks sdk g' (t_raw_end (digest_of sdk) l)"
  proof (cases "unsafe g'")
    case False
    obtain x g1 where x: "live_tx g = Some x" "finalize_tag x g = Some g1"
      using r False by (auto simp: finalize_raw_transaction_def on_tx_def REJECT_soft_def split: option.splits)
    obtain d h where d: "blake2b_finish_hash sdk (hash_state g1) = (d, h)" by fastforce
    obtain p where g': "g' = g1\<lparr>parsed := p, hash_state := h, su := U_tx (x\<lparr>transaction_hash := d\<rparr>)\<rparr>"
      using r by (simp add: finalize_raw_transaction_def on_tx_def x d Let_def) blast
    note q = finalize_tag_quiet [OF x(2)]
    have "tracks_tx sdk g l x" using tracksD(5) [OF t u x(1)] .
    moreover have "d = digest_of sdk (t_fed l)" if "t_live l" "\<not> t_begun l"
      using digest_of_hashed [of sdk g1] tracksD(3) [OF t u] that q d hashed_cong [of g1 g] by simp
    ultimately have "tracks_tx sdk g' (t_raw_end (digest_of sdk) l) (x\<lparr>transaction_hash := d\<rparr>)"
      using q length_digest [OF assms] by (auto simp: g' tracks_tx_def t_raw_end_def)
    then show ?thesis
      using tracksD(1,2) [OF t u] q by (intro tracksI) (auto simp: g' t_raw_end_def)
  qed (rule tracks_unsafe)
qed

text \<open>The witnesses.\<close>

lemma later_witness_matches:
  assumes "hash_lawful sdk"
  shows "matches (tracks sdk) (hash_witness_length sdk n) (upd_size t_witness_size n)"
proof (rule matchesI)
  fix g l a g'
  assume t: "tracks sdk g l" and r: "hash_witness_length sdk n g = Ok a g'"
  have a: "a = (4 \<le> n)" using r by (auto simp: hash_witness_length_def on_tx_def blake2b_chunk_def split: if_splits option.splits)
  have "tracks sdk g' (t_witness_size n l)"
  proof (cases "unsafe g")
    case True
    then have "unsafe g'"
      using r by (auto simp: hash_witness_length_def on_tx_def blake2b_chunk_def split: if_splits option.splits)
    then show ?thesis by (rule tracks_unsafe)
  next
    case False
    show ?thesis
    proof (cases "n < 4")
      case True
      then show ?thesis using r t by (simp add: hash_witness_length_def t_witness_size_def)
    next
      case n: False
      then obtain x where x: "live_tx g = Some x"
        using r by (auto simp: hash_witness_length_def on_tx_def split: option.splits)
      then have "is_first_witness x = t_first l" using tracksD(5) [OF t False] by (simp add: tracks_tx_def)
      then show ?thesis
        using r n x t chunk_tracks [OF assms t]
        by (cases "t_first l") (auto simp: hash_witness_length_def on_tx_def blake2b_chunk_def t_witness_size_def)
    qed
  qed
  then show "\<exists>l'. upd_size t_witness_size n l = Ok a l' \<and> tracks sdk g' l'"
    by (simp add: upd_size_def a)
qed

lemma witnesses_end_matches:
  "matches (tracks sdk) (finalize_witnesses sdk) (t_upd t_witnesses_end)"
proof (rule upd_matchesI)
  fix g l a g'
  assume t: "tracks sdk g l" and r: "finalize_witnesses sdk g = Ok a g'" and u: "\<not> unsafe g"
  obtain x h where x: "live_tx g = Some x" and
    g': "g' = g\<lparr>hash_state := h, su := U_tx (x\<lparr>final_hash := fst (blake2b_finish_hash sdk (hash_state g))\<rparr>)\<rparr>"
    using r by (auto simp: finalize_witnesses_def on_tx_def Let_def split: option.splits prod.splits)
  have "fst (blake2b_finish_hash sdk (hash_state g)) = digest_of sdk (t_fed l)" if "t_live l" "\<not> signing_multisig_input g"
    using tracksD(3) [OF t u] that by (simp add: digest_of_hashed)
  then have "tracks_tx sdk g' (t_witnesses_end l) (x\<lparr>final_hash := fst (blake2b_finish_hash sdk (hash_state g))\<rparr>)"
    using tracksD(5) [OF t u x] by (auto simp: g' tracks_tx_def t_witnesses_end_def)
  then show "tracks sdk g' (t_witnesses_end l)"
    using tracksD(1,2) [OF t u] by (intro tracksI) (auto simp: g' t_witnesses_end_def)
qed (auto simp: finalize_witnesses_def on_tx_def Let_def split: option.splits prod.splits)

lemma restart_hashed:
  assumes "hash_lawful sdk"
  shows "hashed sdk (restart_hash sdk t g) (take 32 (transaction_hash t))"
  using hashed_chunk [OF assms hashed_nothing [OF assms], of "g\<lparr>hash_state := None\<rparr>" "take 32 (transaction_hash t)"]
  by (simp add: restart_hash_def SIGN_HASH_SIZE_def)

lemma restart_frame [simp]:
  "unsafe (restart_hash sdk t g) = unsafe g" "input_count (restart_hash sdk t g) = input_count g"
  "signing_multisig_input (restart_hash sdk t g) = signing_multisig_input g" "su (restart_hash sdk t g) = su g"
  by (simp_all add: restart_hash_def)

lemma begin_witness_matches:
  assumes "hash_lawful sdk"
  shows "matches (tracks sdk) (begin_witness sdk i) (t_upd (t_witness i))"
proof (rule upd_matchesI)
  fix g l a g'
  assume t: "tracks sdk g l" and r: "begin_witness sdk i g = Ok a g'" and u: "\<not> unsafe g"
  obtain x where x: "live_tx g = Some x"
    using r by (auto simp: begin_witness_def on_tx_def split: option.splits)
  note tx = tracksD(5) [OF t u x]
  show "tracks sdk g' (t_witness i l)"
  proof (cases "i = 0")
    case True
    define x2 where "x2 = x\<lparr>is_first_witness := True, witness_multisig_threshold := 0, witness_multisig_pubkeys_cnt := 0,
      witness_multisig_lock_arg_consumed := 0\<rparr>"
    define g1 where "g1 = restart_hash sdk x2 (g\<lparr>su := U_tx x2\<rparr>)"
    have g': "g' = g1\<lparr>su := U_tx (x2\<lparr>witness_stack := writer_start\<rparr>)\<rparr>"
      using r x True by (auto simp: begin_witness_def on_tx_def Let_def x2_def g1_def zero_table_def)
    have f: "transaction_hash x2 = transaction_hash x" "final_hash x2 = final_hash x" "is_first_witness x2"
      "first_witness_done x2 = first_witness_done x"
      by (simp_all add: x2_def)
    have w: "tracks_witness sdk g1 (x2\<lparr>witness_stack := writer_start\<rparr>) h []"
      if "t_id l = Some h" "\<not> t_begun l" for h
    proof -
      have "hashed sdk g1 h"
        using restart_hashed [OF assms, of x2 "g\<lparr>su := U_tx x2\<rparr>"] tx that(1) by (simp add: g1_def f tracks_tx_def)
      moreover have "\<not> first_witness_done x2" using tx that(2) by (simp add: tracks_tx_def f)
      ultimately show ?thesis unfolding tracks_witness_def by (intro exI [of _ "[]"]) simp
    qed
    then have "tracks_tx sdk g1 (t_witness i l) (x2\<lparr>witness_stack := writer_start\<rparr>)"
      using tx True f by (auto simp: tracks_tx_def t_witness_def g1_def)
    then show ?thesis
      using tracksD(1,2) [OF t u] True by (intro tracksI) (simp_all add: g' g1_def t_witness_def)
  next
    case False
    then have "g' = g\<lparr>su := U_tx (x\<lparr>is_first_witness := False\<rparr>)\<rparr>"
      using r x by (simp add: begin_witness_def on_tx_def Let_def)
    moreover have "tracks_tx sdk g (t_witness i l) (x\<lparr>is_first_witness := False\<rparr>)"
      using tx False by (simp add: tracks_tx_def t_witness_def)
    ultimately show ?thesis
      using tracksD(1-3) [OF t u] False by (intro tracksI) (simp_all, simp_all add: t_witness_def)
  qed
qed (auto simp: begin_witness_def on_tx_def Let_def split: option.splits if_splits)

section \<open>The first witness\<close>

text \<open>In a plain transaction the rewriting callbacks hash what the writer appends.\<close>

definition writing :: "'h sdk \<Rightarrow> u8 list \<Rightarrow> 'h ctx \<Rightarrow> u8 list \<Rightarrow> bool" where
  "writing sdk h g log \<longleftrightarrow> \<not> signing_multisig_input g \<and> hashed sdk g (h @ log)"

interpretation written: simulation "writing sdk h" for sdk :: "'h sdk" and h .

lemma append_written:
  assumes "hash_lawful sdk"
  shows "matches (writing sdk h) (blake2b_chunk sdk b) (w_append b)"
  using hashed_chunk [OF assms] by (fastforce simp: matches_def writing_def blake2b_chunk_def w_append_def)

lemma header_appended:
  assumes "hash_lawful sdk"
  shows "matches (writing sdk h) (witness_offsets sdk tot offs) (w_append (w_header tot offs))"
proof (rule matchesI)
  fix g log a g'
  assume w: "writing sdk h g log" and r: "witness_offsets sdk tot offs g = Ok a g'"
  then have "witness_offsets sdk tot offs g = blake2b_chunk sdk (w_header tot offs) g"
    unfolding witness_offsets_def w_header_def Let_def
    by (simp add: writing_def hash_append_more [OF assms] hash_append [OF assms] split: if_splits)
  then show "\<exists>log'. w_append (w_header tot offs) log = Ok a log' \<and> writing sdk h g' log'"
    using matchesD [OF append_written [OF assms] w] r by metis
qed

lemma lock_skipped:
  "matches (writing sdk h) (witness_lock_arg_size sdk n) (\<lambda>log. Ok True log)"
  "matches (writing sdk h) (witness_lock_arg_body_chunk sdk b) (\<lambda>log. Ok () log)"
  by (simp_all add: matches_def writing_def witness_lock_arg_size_def witness_lock_arg_body_chunk_def)

lemma first_witness_matches:
  assumes "hash_lawful sdk"
  shows "matches_component (writing sdk h) (WitnessArgs (Some (WitnessArgs_rewrite_callbacks sdk)))
    (WitnessArgs (Some witness_writer))"
  using append_written [OF assms] header_appended [OF assms] lock_skipped
  unfolding WitnessArgs_rewrite_callbacks_def witness_writer_def
  by (intro written.reader_matches)
    (auto simp: matches_hooks_def matches_Ok call_opt_def [abs_def] intro!: written.reader_matches)

text \<open>What the callbacks may change besides.\<close>

definition witness_frame :: "'h ctx \<Rightarrow> 'h ctx \<Rightarrow> bool" where
  "witness_frame g g' \<longleftrightarrow> (unsafe g \<longrightarrow> unsafe g') \<and> input_count g' = input_count g \<and>
     signing_multisig_input g' = signing_multisig_input g \<and>
     (live_tx g' = None \<or> map_option tx_view (live_tx g') = map_option tx_view (live_tx g))"

interpretation frame_eff: effects witness_frame "\<lambda>_ _ _. True"
  by unfold_locales (auto simp: witness_frame_def)

lemma frame_chunk: "keeps witness_frame (\<lambda>_ _ _. True) (blake2b_chunk sdk b)"
  by (simp add: keeps_def blake2b_chunk_def witness_frame_def)

lemma frame_lock:
  "keeps witness_frame (\<lambda>_ _ _. True) (witness_lock_arg_size sdk n)"
  "keeps witness_frame (\<lambda>_ _ _. True) (witness_lock_arg_body_chunk sdk b)"
  "keeps witness_frame (\<lambda>_ _ _. True) (witness_offsets sdk tot offs)"
  by (simp_all add: keeps_def witness_lock_arg_size_def witness_lock_arg_body_chunk_def witness_offsets_def blake2b_chunk_def
      REJECT_soft_def REJECT_HARD_def on_tx_def Let_def witness_frame_def tx_view_def split: option.split)

lemma frame_WitnessArgs:
  "keeps_component witness_frame (\<lambda>_ _ _. True) (WitnessArgs (Some (WitnessArgs_rewrite_callbacks sdk)))"
  unfolding WitnessArgs_rewrite_callbacks_def
  by (intro frame_eff.reader_keeps keeps_hooksI)
    (auto intro!: frame_chunk frame_lock keeps_someI frame_eff.reader_keeps keeps_hooksI)

lemma witness_piece:
  assumes "hash_lawful sdk" "\<not> signing_multisig_input g" "tracks_witness sdk g x h w"
    and r: "MolReader_WitnessArgs_parse (Some (WitnessArgs_rewrite_callbacks sdk)) MOL_NUM_MAX (witness_stack x) b g = Ok (rv, ws, c) g1"
    and t: "witness_stack t = ws" "first_witness_done t \<longleftrightarrow> first_witness_done x \<or> rv = COMPLETE"
  shows "tracks_witness sdk g1 t h (w @ b)"
proof -
  obtain ps log where p: "concat ps = w" "hashed sdk g (h @ log)"
    "write_pieces ps (writer_start, [], False) = Some (witness_stack x, log, first_witness_done x)"
    using assms(3) by (auto simp: tracks_witness_def)
  have "matches (writing sdk h) (MolReader_WitnessArgs_parse (Some (WitnessArgs_rewrite_callbacks sdk)) MOL_NUM_MAX (witness_stack x) b)
      (write_witness (witness_stack x) b)"
    using matches_componentD(2) [OF first_witness_matches [OF assms(1)]] by (simp add: WitnessArgs_def)
  moreover have "writing sdk h g log" using assms(2) p(2) by (simp add: writing_def)
  ultimately obtain log' where l: "write_witness (witness_stack x) b log = Ok (rv, ws, c) log'" "writing sdk h g1 log'"
    using r by (meson matchesD)
  have "write_pieces (ps @ [b]) (writer_start, [], False) = Some (witness_stack t, log', first_witness_done t)"
    using p(3) l(1) t by (simp add: write_pieces_snoc)
  then show ?thesis
    unfolding tracks_witness_def using p(1) l(2) by (intro exI [of _ "ps @ [b]"]) (auto simp: writing_def)
qed

lemma process_witness_matches:
  assumes "hash_lawful sdk"
  shows "matches (tracks sdk) (process_witness sdk b) (t_upd (t_witness_chunk b))"
proof (rule upd_matchesI)
  fix g l a g'
  assume "unsafe g" and "process_witness sdk b g = Ok a g'"
  moreover have "eff flags_kept (throws sdk flags_kept) g (process_witness sdk b g)"
    by (rule keepsD [OF flags_process_witness])
  ultimately show "unsafe g'" by (simp add: flags_kept_def)
next
  fix g l a g'
  assume t: "tracks sdk g l" and r: "process_witness sdk b g = Ok a g'" and u: "\<not> unsafe g"
  obtain x where x: "live_tx g = Some x"
    using r by (auto simp: process_witness_def on_tx_def split: option.splits)
  note tx = tracksD(5) [OF t u x]
  show "tracks sdk g' (t_witness_chunk b l)"
  proof (cases "t_first l")
    case False
    then have "g' = g\<lparr>hash_state := blake2b_incremental_hash sdk b (hash_state g)\<rparr>"
      using r x tx by (simp add: process_witness_def on_tx_def tracks_tx_def blake2b_chunk_def)
    then show ?thesis using False chunk_tracks [OF assms t] by (simp add: t_witness_chunk_def)
  next
    case True
    then obtain rv ws c g1 where p: "MolReader_WitnessArgs_parse (Some (WitnessArgs_rewrite_callbacks sdk)) MOL_NUM_MAX
        (witness_stack x) b g = Ok (rv, ws, c) g1"
      and k: "on_tx (\<lambda>t1 g1. let t2 = t1\<lparr>witness_stack := ws\<rparr>
            in Ok () (g1\<lparr>su := U_tx (if rv = COMPLETE then t2\<lparr>first_witness_done := True\<rparr> else t2)\<rparr>)) g1 = Ok a g'"
      using r x tx by (auto simp: process_witness_def on_tx_def [of _ g] tracks_tx_def res_bind_eq_Ok)
    have f: "witness_frame g g1"
      using WitnessArgs_parse_eff [OF frame_WitnessArgs, of g sdk MOL_NUM_MAX "witness_stack x" b] p by simp
    obtain t1 where t1: "live_tx g1 = Some t1" using k by (auto simp: on_tx_def split: option.splits)
    define t2 where "t2 = t1\<lparr>witness_stack := ws, first_witness_done := (first_witness_done t1 \<or> rv = COMPLETE)\<rparr>"
    have g': "g' = g1\<lparr>su := U_tx t2\<rparr>"
      using k t1 by (auto simp: on_tx_def Let_def t2_def)
    have v: "tx_view t1 = tx_view x" using f x t1 by (simp add: witness_frame_def)
    have "tracks_tx sdk g1 (t_witness_chunk b l) t2"
      unfolding tracks_tx_def
    proof (intro conjI impI allI)
      fix w h
      assume m: "\<not> signing_multisig_input g1" and w: "t_wit (t_witness_chunk b l) = Some w" and h: "t_id (t_witness_chunk b l) = Some h"
      obtain w0 where w0: "t_wit l = Some w0" "w = w0 @ b" using w True by (auto simp: t_witness_chunk_def)
      have old: "tracks_witness sdk g x h w0"
        using tx w0(1) h True m f by (simp add: tracks_tx_def t_witness_chunk_def witness_frame_def)
      show "tracks_witness sdk g1 t2 h w"
        unfolding w0(2) by (rule witness_piece [OF assms _ old p]) (use m f v in \<open>simp_all add: witness_frame_def t2_def tx_view_def\<close>)
    qed (use tx v True f tracksD(2) [OF t u] in \<open>auto simp: tracks_tx_def t_witness_chunk_def tx_view_def t2_def witness_frame_def\<close>)
    then show ?thesis
      using tracksD(1,2) [OF t u] f True by (intro tracksI) (simp_all add: g' t_witness_chunk_def witness_frame_def)
  qed
qed

lemma self_witness_is_placeholder: "self_witness = hashed_witness (enc_witness_args (placeholder None))"
  by code_simp

lemma witness_end_matches:
  assumes "hash_lawful sdk" "wf_witness first"
  shows "matches (tracks sdk) (process_witness_end sdk) (t_upd (t_witness_end first))"
proof (rule upd_matchesI)
  fix g l a g'
  assume t: "tracks sdk g l" and r: "process_witness_end sdk g = Ok a g'" and u: "\<not> unsafe g"
  obtain x where x: "live_tx g = Some x"
    using r by (auto simp: process_witness_end_def on_tx_def split: option.splits)
  note tx = tracksD(5) [OF t u x]
  show "tracks sdk g' (t_witness_end first l)"
  proof (cases "t_first l")
    case False
    then show ?thesis using r t tx x by (simp add: process_witness_end_def on_tx_def t_witness_end_def tracks_tx_def)
  next
    case True
    let ?g = "(restart_hash sdk x g)\<lparr>hash_state := blake2b_incremental_hash sdk self_witness
        (hash_state (restart_hash sdk x g)), su := U_tx (x\<lparr>first_witness_done := True\<rparr>)\<rparr>"
    have g': "g' = (if first_witness_done x then g else ?g)"
      using r x True tx by (auto simp: process_witness_end_def on_tx_def Let_def tracks_tx_def restart_hash_def blake2b_chunk_def)
    have new: "hashed sdk g' (h @ hashed_witness (enc_witness_args (placeholder first)))"
      if "t_id l = Some h" "t_wit l = Some (enc_first first)" "\<not> signing_multisig_input g" for h
    proof -
      have "tracks_witness sdk g x h (enc_first first)" using tx that by (simp add: tracks_tx_def)
      then obtain ps log where p: "concat ps = enc_first first" "hashed sdk g (h @ log)"
        "write_pieces ps (writer_start, [], False) = Some (witness_stack x, log, first_witness_done x)"
        unfolding tracks_witness_def by blast
      note w = first_witness_written [OF p(1) assms(2) p(3)]
      show ?thesis
      proof (cases "first_witness_done x")
        case True
        then show ?thesis using w p(2) g' by simp
      next
        case False
        have "transaction_hash x = h" "length h = 32" using tx that(1) by (simp_all add: tracks_tx_def)
        then have "hashed sdk (restart_hash sdk x g) h" using restart_hashed [OF assms(1), of x g] by simp
        then have "hashed sdk ?g (h @ self_witness)" using hashed_chunk [OF assms(1)] by simp
        then show ?thesis using False w(1) g' by (simp add: self_witness_is_placeholder)
      qed
    qed
    have "\<exists>d. live_tx g' = Some (x\<lparr>first_witness_done := d\<rparr>)" "signing_multisig_input g' = signing_multisig_input g"
      "input_count g' = input_count g" "source_state g' = source_state g \<or> source_state g' = None"
      using x by (auto simp: g' intro: exI [of _ "first_witness_done x"] exI [of _ True])
    then show ?thesis
      using tracksD [OF t u] new True tx by (intro tracksI) (auto simp: t_witness_end_def tracks_tx_def tracks_input_def split: option.split)
  qed
qed (auto simp: process_witness_end_def on_tx_def Let_def blake2b_chunk_def split: option.splits if_splits)

end
