(* ===== verification/Signer_Demo.thy ===== *)
theory Signer_Demo
  imports Apdu_Sign "HOL-Library.Code_Target_Nat"
begin

text \<open>
  The packets of a transaction given to the signer one after the other, and a whole run: a small
  transaction in two packets, evaluated. (With \<open>Code_Target_Nat\<close>, as the bounds of the reader are
  natural numbers up to \<open>2 ^ 32\<close>.)
\<close>

text \<open>The packets of a transaction after the first: only the last one carries the marker.\<close>

fun transaction_packets :: "'h sdk \<Rightarrow> bool \<Rightarrow> u8 list list \<Rightarrow> 'h ctx act" where
  "transaction_packets sdk secure_only [] g = Ok () g"
| "transaction_packets sdk secure_only (c # cs) g =
     res_bind (next_packet sdk (cs = []) secure_only c g) (\<lambda>_. transaction_packets sdk secure_only cs)"

text \<open>A transaction with one input, hashed by counting its bytes.\<close>

definition count_bytes :: "nat \<Rightarrow> u8 list \<Rightarrow> nat" where "count_bytes h b = h + length b"
definition count_last :: "nat \<Rightarrow> u8 list \<Rightarrow> u8 list \<times> nat" where
  "count_last h b = (of_nat (h + length b) # zeros 31, h + length b)"
definition count_init :: "nat \<Rightarrow> u8 list \<Rightarrow> nat" where "count_init n p = 0"
definition count_start :: "nat \<Rightarrow> nat" where "count_start n = 0"
definition demo_derive :: "u32 list \<Rightarrow> u16 + u8 list \<times> u8 list" where
  "demo_derive path = Inr (replicate 32 7, replicate 32 9)"
definition demo_pair :: "u8 list \<Rightarrow> u16 + u8 list" where "demo_pair d = Inr (replicate 65 4)"
definition demo_ecdsa :: "u8 list \<Rightarrow> u8 list \<Rightarrow> u16 + u8 list \<times> u32" where "demo_ecdsa d x = Inr (zeros 100, 0)"

definition counting_sdk :: "nat sdk" where
  "counting_sdk = \<lparr>sdk_blake2b_init2 = count_init, sdk_blake2b_init = count_start, sdk_hash = count_bytes,
     sdk_hash_last = count_last, sdk_derive_node = demo_derive, sdk_generate_pair = demo_pair,
     sdk_ecdsa_sign = demo_ecdsa, sdk_rethrow_finally = False\<rparr>"

text \<open>The header and the small fields; then, from the header of the raw transaction on, the rest.\<close>

definition demo_packets :: "u8 list list" where
  "demo_packets =
     [[212, 0, 0, 0, 24, 0, 0, 0, 28, 0, 0, 0, 32, 0, 0, 0, 36, 0, 0, 0, 200, 0, 0, 0,
       0, 0, 0, 0, 0, 0, 0, 0, 1, 0, 0, 0,
       164, 0, 0, 0, 28, 0, 0, 0, 32, 0, 0, 0, 36, 0, 0, 0, 40, 0, 0, 0, 156, 0, 0, 0, 160, 0, 0, 0,
       0, 0, 0, 0, 0, 0, 0, 0, 0, 0, 0, 0, 116, 0, 0, 0, 8, 0, 0, 0,
       108, 0, 0, 0, 12, 0, 0, 0, 56, 0, 0, 0, 5, 0, 0, 0],
      [0, 0, 0, 0] @ zeros 32 @ [3, 0, 0, 0,
       52, 0, 0, 0, 28, 0, 0, 0, 32, 0, 0, 0, 36, 0, 0, 0, 40, 0, 0, 0, 44, 0, 0, 0, 48, 0, 0, 0,
       0, 0, 0, 0, 0, 0, 0, 0, 0, 0, 0, 0, 0, 0, 0, 0, 4, 0, 0, 0, 4, 0, 0, 0,
       4, 0, 0, 0, 4, 0, 0, 0, 12, 0, 0, 0, 8, 0, 0, 0, 0, 0, 0, 0]]"

definition demo_signer :: "nat ctx" where
  "demo_signer = apdu_sign_state_t.extend zero_sign_state \<lparr>nvram = blank_nvram, keymem = zero_key_mem\<rparr>"

lemma demo_run:
  "case init_parser counting_sdk (clear_data demo_signer) of Ok _ g0 \<Rightarrow>
     (case transaction_packets counting_sdk True demo_packets g0 of
        Ok _ g' \<Rightarrow> \<not> unsafe g' \<and> \<not> signing_multisig_input g' \<and> live_tx g' \<noteq> None
      | _ \<Rightarrow> False)
   | _ \<Rightarrow> False"
  by code_simp

end
