(* ===== verification/Signer_Transcript.thy ===== *)
theory Signer_Transcript
  imports Signer_Tracking Signer_Demo
begin

text \<open>
  The signer hashes what the transcriber writes. The callbacks of the signer are matched by those
  of the transcriber, so the two readers agree packet by packet; on the serialisation of a
  well-formed transaction the signer's transaction hash is the hash of the plain transaction,
  and the hash it signs is that of the plain signing message.
\<close>

section \<open>The signer and the transcriber\<close>

lemma quiet_size_matches:
  assumes "keeps quiet (\<lambda>_ _ _. True) m" "\<And>g a g'. m g = Ok a g' \<Longrightarrow> a = v"
  shows "matches (tracks sdk) m (\<lambda>l. Ok v l)"
proof (rule matchesI)
  fix g l a g'
  assume t: "tracks sdk g l" and r: "m g = Ok a g'"
  then have "quiet g g'" using keepsD [OF assms(1), of g] by simp
  then show "\<exists>l'. Ok v l = Ok a l' \<and> tracks sdk g' l'"
    using tracks_quiet [OF t] assms(2) [OF r] by simp
qed

lemma size_matches:
  "matches (tracks sdk) (init_bip32 n) (path_size n)"
  "matches (tracks sdk) (set_cell_data_size n) (upd_size (\<lambda>_ l. l) n)"
  "matches (tracks sdk) (cell_type_arg_length n) (\<lambda>l. Ok True l)"
  unfolding path_size_def [abs_def] upd_size_def [abs_def]
  by (rule quiet_size_matches, rule quiet_unions quiet_cells,
      auto simp: init_bip32_def on_temp_key_def REJECT_HARD_def REJECT_soft_def set_cell_data_size_def
        cell_type_arg_length_def not_less not_le split: option.splits if_splits)+

lemma source_matches:
  assumes "hash_lawful sdk"
  shows "matches_component (tracks sdk) (AnnotatedCellInput (Some (annotatedCellInput_callbacks sdk)))
    (AnnotatedCellInput (Some (transcribe_input (digest_of sdk))))"
  unfolding annotatedCellInput_callbacks_def transcribe_input_def hash_type_cb_def
  by (intro tracking.reader_matches; (simp add: matches_hooks_def matches_Ok call_opt_def [abs_def])?)
    (auto intro!: quiet_matches quiet_cells quiet_unions size_matches input_start_matches [OF assms] chunk_matches [OF assms]
      save_index_matches add_source_matches [OF assms] finish_source_matches [OF assms])

lemma raw_matches:
  assumes "hash_lawful sdk" "digests_32 sdk"
  shows "matches_component (tracks sdk) (AnnotatedRawTransaction (Some (AnnotatedRawTransaction_sign_callbacks sdk)))
    (AnnotatedRawTransaction (Some (transcribe_raw (digest_of sdk))))"
proof -
  note types = tracking.AnnotatedRawTransaction_matches tracking.AnnotatedCellInputVec_matches tracking.CellDepVec_matches
    tracking.CellDep_matches tracking.OutPoint_matches tracking.Byte32Vec_matches tracking.CellOutputVec_matches
    tracking.CellOutput_matches tracking.Script_matches tracking.ScriptOpt_matches tracking.BytesVec_matches
    tracking.Bytes_matches tracking.array_matches tracking.byte_matches
  show ?thesis
    unfolding AnnotatedRawTransaction_sign_callbacks_def transcribe_raw_def hash_type_cb_def
    apply (intro types; (simp add: matches_hooks_def matches_Ok call_opt_def [abs_def])?)
    by (rule allI conjI quiet_matches quiet_cells quiet_unions quiet_output_end quiet_outputs_end size_matches
        header_matches [OF assms(1)] chunk_matches [OF assms(1)] input_count_matches [OF assms(1)]
        finish_inputs_matches [OF assms(1)] raw_end_matches [OF assms(2)] source_matches [OF assms(1)])+
qed

lemma signer_matches:
  assumes "hash_lawful sdk" "digests_32 sdk" "wf_witness first"
  shows "matches_component (tracks sdk) (AnnotatedTransaction (Some (annotatedTransaction_callbacks sdk)))
    (AnnotatedTransaction (Some (transcriber (digest_of sdk) first)))"
proof -
  note types = tracking.AnnotatedTransaction_matches tracking.Bip32_matches tracking.BytesVec_matches
    tracking.Bytes_matches tracking.array_matches
  show ?thesis
    unfolding annotatedTransaction_callbacks_def transcriber_def path_callbacks_def transcribe_path_def transcribe_witnesses_def
    apply (intro types; (simp add: matches_hooks_def matches_Ok call_opt_def [abs_def])?)
    by (rule allI conjI quiet_matches quiet_unions quiet_paths size_matches raw_matches [OF assms(1,2)] set_count_matches
      begin_witness_matches [OF assms(1)] later_witness_matches [OF assms(1)] process_witness_matches [OF assms(1)]
      witness_end_matches [OF assms(1,3)] witnesses_end_matches)+
qed

section \<open>A transaction in packets\<close>

lemma quiet_same:
  "su g' = su g \<Longrightarrow> unsafe g' = unsafe g \<Longrightarrow> input_count g' = input_count g \<Longrightarrow> hash_state g' = hash_state g \<Longrightarrow>
    signing_multisig_input g' = signing_multisig_input g \<Longrightarrow> quiet g g'"
  using source_state_cong [of g' g] live_tx_cong [of g' g] by (simp add: quiet_def)

lemma packet_tracked:
  assumes "hash_lawful sdk" "digests_32 sdk" "wf_witness first" "tracks sdk g l"
    "next_packet sdk is_last secure_only c g = Ok () g'"
  shows "\<exists>rv s c' l'. MolReader_AnnotatedTransaction_parse (Some (transcriber (digest_of sdk) first)) MOL_NUM_MAX
      (transaction_stack g) c l = Ok (rv, s, c') l' \<and> tracks sdk g' l' \<and> transaction_stack g' = s \<and>
      rv = (if is_last then COMPLETE else INCOMPLETE)"
proof -
  let ?m = "MolReader_AnnotatedTransaction_parse (Some (annotatedTransaction_callbacks sdk)) MOL_NUM_MAX (transaction_stack g) c"
  obtain rv s c' g1 where p: "?m g = Ok (rv, s, c') g1"
    and k: "(if is_last then
             if rv \<noteq> COMPLETE \<or> hard_reject g1 then Throw EXC_PARSE_ERROR (g1\<lparr>transaction_stack := s, hard_reject := True\<rparr>)
             else if unsafe g1 \<and> secure_only then Throw EXC_SECURITY (g1\<lparr>transaction_stack := s\<rparr>)
             else let g2 = if unsafe g1 then set_tag OPERATION_TAG_NONE (g1\<lparr>transaction_stack := s\<rparr>) else g1\<lparr>transaction_stack := s\<rparr>
                  in Ok () (g2\<lparr>is_valid := True\<rparr>)
           else if rv \<noteq> INCOMPLETE then Throw EXC_PARSE_ERROR (g1\<lparr>transaction_stack := s, hard_reject := True\<rparr>)
           else Ok () (g1\<lparr>transaction_stack := s\<rparr>)) = Ok () g'"
    using assms(5) by (auto simp: next_packet_def parse_packet_def res_bind_eq_Ok split: if_splits)
  have "matches (tracks sdk) ?m (MolReader_AnnotatedTransaction_parse (Some (transcriber (digest_of sdk) first)) MOL_NUM_MAX
      (transaction_stack g) c)"
    using matches_componentD(2) [OF signer_matches [OF assms(1-3)]] by (simp add: AnnotatedTransaction_def)
  then obtain l' where l: "MolReader_AnnotatedTransaction_parse (Some (transcriber (digest_of sdk) first)) MOL_NUM_MAX
      (transaction_stack g) c l = Ok (rv, s, c') l'" "tracks sdk g1 l'"
    using assms(4) p by (meson matchesD)
  have "quiet g1 g'" and "transaction_stack g' = s \<and> rv = (if is_last then COMPLETE else INCOMPLETE)"
    using k by (auto simp: Let_def set_tag_def split: if_splits intro!: quiet_same)
  then show ?thesis using l tracks_quiet by blast
qed

lemma packets_tracked:
  assumes "hash_lawful sdk" "digests_32 sdk" "wf_witness first"
  shows "tracks sdk g l \<Longrightarrow> cs \<noteq> [] \<Longrightarrow> transaction_packets sdk secure_only cs g = Ok () g' \<Longrightarrow>
    \<exists>s c' l'. feed (MolReader_AnnotatedTransaction_parse (Some (transcriber (digest_of sdk) first))) MOL_NUM_MAX
      (transaction_stack g) cs l = Ok (COMPLETE, s, c') l' \<and> tracks sdk g' l'"
proof (induction cs arbitrary: g l)
  case (Cons c cs)
  obtain g1 where n: "next_packet sdk (cs = []) secure_only c g = Ok () g1"
    and r: "transaction_packets sdk secure_only cs g1 = Ok () g'"
    using Cons.prems(3) by (auto simp: res_bind_eq_Ok)
  from packet_tracked [OF assms Cons.prems(1) n] obtain s c' l1 where
    p: "MolReader_AnnotatedTransaction_parse (Some (transcriber (digest_of sdk) first)) MOL_NUM_MAX (transaction_stack g) c l =
      Ok (if cs = [] then COMPLETE else INCOMPLETE, s, c') l1" "tracks sdk g1 l1" "transaction_stack g1 = s"
    by blast
  show ?case
  proof (cases "cs = []")
    case True
    then show ?thesis using p r by simp
  next
    case False
    then show ?thesis using Cons.IH [OF p(2) False r] p by simp
  qed
qed simp

lemma start_tracked:
  assumes "hash_lawful sdk" "init_parser sdk (clear_data g) = Ok () g0"
  shows "tracks sdk g0 blank_transcript"
    "MolReader_AnnotatedTransaction_init_state (Some (transcriber dig first)) l = Ok (transaction_stack g0) l"
proof -
  have "g0 = (clear_data g)\<lparr>transaction_stack := zero_table 5\<rparr>"
    using assms(2) by (simp add: init_parser_def MolReader_AnnotatedTransaction_init_state_def table_init_def
        annotatedTransaction_callbacks_def zero_table_def)
  moreover have "su (clear_data g) = U_zero" "hash_state (clear_data g) = None" "input_count (clear_data g) = 0"
    by (simp_all add: clear_data_def zero_sign_state_def apdu_sign_state_t.defs)
  ultimately show "tracks sdk g0 blank_transcript"
    "MolReader_AnnotatedTransaction_init_state (Some (transcriber dig first)) l = Ok (transaction_stack g0) l"
    by (simp_all add: tracks_blank [OF assms(1)] MolReader_AnnotatedTransaction_init_state_def table_init_def
        transcriber_def zero_table_def)
qed

text \<open>
  C4. The device signs the transaction it was sent: when the packets of a well-formed annotated
  transaction, however it is cut, have been accepted and nothing in it was rejected, then the
  transaction hash is that of the plain transaction, with every source transaction replaced by
  its hash, and unless a multisig input is spent the hash to be signed is that of the plain
  signing message: transaction hash, first witness with a lock of 65 zeros, other witnesses.
\<close>

theorem signs_plain_transaction:
  assumes "hash_lawful sdk" "digests_32 sdk" "wf_signed x first rest" "wf_witness first"
    "init_parser sdk (clear_data g) = Ok () g0" "cs \<noteq> []" "concat cs = enc_annotated_tx x"
    "transaction_packets sdk secure_only cs g0 = Ok () g'" "\<not> unsafe g'" "live_tx g' = Some t"
  shows "transaction_hash t = transaction_id (digest_of sdk) x \<and> (signing_multisig_input g' \<or>
    final_hash t = digest_of sdk (sighash_message (transaction_id (digest_of sdk) x) first rest))"
proof -
  let ?cb = "Some (transcriber (digest_of sdk) first)" and ?s = "transaction_stack g0"
  let ?r = "AnnotatedTransaction ?cb"
  obtain s c' l where f: "feed (snd ?r) MOL_NUM_MAX ?s cs blank_transcript = Ok (COMPLETE, s, c') l" "tracks sdk g' l"
    using packets_tracked [OF assms(1,2,4) start_tracked(1) [OF assms(1,5)] assms(6,8)]
    by (auto simp: AnnotatedTransaction_def)
  have i: "fst ?r blank_transcript = Ok ?s blank_transcript"
    using start_tracked(2) [OF assms(1,5)] by (simp add: AnnotatedTransaction_def)
  have "sim rv_rej (snd ?r MOL_NUM_MAX ?s (concat cs) blank_transcript) (feed (snd ?r) MOL_NUM_MAX ?s cs blank_transcript)"
    using stream_parser.feed_concat [OF AnnotatedTransaction_law [OF transcriber_lawful]
        stream_parser.init_valid [OF AnnotatedTransaction_law [OF transcriber_lawful] i] assms(6)] .
  then have "snd ?r MOL_NUM_MAX ?s (enc_annotated_tx x @ []) blank_transcript = Ok (COMPLETE, s, c') l"
    unfolding f(1) assms(7) by (auto simp: sim_def split: res.splits)
  then have "runs (t_set_count (u32_le (at_input_count x)) # raw_writes (digest_of sdk) (at_raw x) @
      witnesses_writes first (at_witnesses x)) blank_transcript l"
    using readsD [OF transaction_runs [OF assms(3)] initialI [OF i]] by blast
  note l = transcription [OF assms(3) length_digest [OF assms(2)] this]
  have "tracks_tx sdk g' l t" using tracksD(5) [OF f(2) assms(9,10)] .
  then show ?thesis using l by (auto simp: tracks_tx_def)
qed

text \<open>The transaction of \<open>demo_packets\<close>: one input, an empty first witness.\<close>

definition demo_raw :: "'i list \<Rightarrow> 'i raw_tx" where
  "demo_raw is = \<lparr>rt_version = 0, rt_cell_deps = [], rt_header_deps = [], rt_inputs = is, rt_outputs = [], rt_outputs_data = []\<rparr>"

definition demo_annotated :: annotated_tx where
  "demo_annotated = \<lparr>at_sign_path = [], at_change_path = [], at_input_count = 1,
     at_raw = demo_raw [\<lparr>ai_input = \<lparr>in_since = 5, in_previous = \<lparr>op_tx_hash = zeros 32, op_index = 3\<rparr>\<rparr>,
       ai_source = demo_raw []\<rparr>],
     at_witnesses = [[]]\<rparr>"

lemma demo_cut: "concat demo_packets = enc_annotated_tx demo_annotated"
  by code_simp

lemma demo_wf: "wf_signed demo_annotated None []"
  by code_simp

lemma signs_plain_transaction_witness:
  "\<exists>g0 g' t. init_parser counting_sdk (clear_data demo_signer) = Ok () g0 \<and>
    transaction_packets counting_sdk True demo_packets g0 = Ok () g' \<and> live_tx g' = Some t \<and>
    transaction_hash t = transaction_id (digest_of counting_sdk) demo_annotated \<and>
    final_hash t = digest_of counting_sdk (sighash_message (transaction_id (digest_of counting_sdk) demo_annotated) None [])"
proof -
  obtain g0 g' t where r: "init_parser counting_sdk (clear_data demo_signer) = Ok () g0"
    "transaction_packets counting_sdk True demo_packets g0 = Ok () g'" "\<not> unsafe g'" "live_tx g' = Some t"
    "\<not> signing_multisig_input g'"
    using demo_run by (auto split: res.splits)
  have "hash_lawful counting_sdk" "digests_32 counting_sdk" "wf_witness None" "demo_packets \<noteq> []"
    by (simp_all add: hash_lawful_def digests_32_def counting_sdk_def count_bytes_def count_last_def wf_witness_def enc_first_def demo_packets_def Let_def)
  then show ?thesis
    using signs_plain_transaction [OF _ _ demo_wf _ r(1) _ demo_cut r(2-4)] r by blast
qed

end
