(* ===== verification/Spec2Isabelle.thy ===== *)
theory Spec2Isabelle
  imports Signer_Packets Sign_Laws Message_Laws Device_Spec Signer_Transcript
begin

text \<open>
  A verification development for the Nervos application of the Ledger hardware wallets (the C
  code under \<open>src/src/\<close>).

  \<^bold>\<open>The program.\<close> The host sends APDUs; \<open>main_loop\<close> (\<open>apdu.c\<close>) dispatches them to handlers. A
  transaction arrives in packets of at most 230 bytes as a molecule-encoded
  \<open>AnnotatedTransaction\<close>; a resumable reader (\<open>molecule_reader_streaming.h\<close> and the generated
  \<open>blockchain.h\<close>, \<open>annotated.h\<close>) parses it and calls the callbacks of \<open>apdu_sign.c\<close>, which hash
  the plain transaction, sum amounts, classify the operation and reject what cannot be shown.
  After the last packet the operation is put to the user (\<open>ui.c\<close>, \<open>to_string.c\<close>,
  \<open>segwit_addr.c\<close>); the accept button signs with a key derived from the seed (\<open>keys.c\<close>). Other
  commands sign messages or hashes of messages and export public keys; a menu changes the
  settings, kept in flash (\<open>globals.c\<close>).

  \<^bold>\<open>Conventions.\<close>
  \<^item> A stateful function is \<open>'g \<Rightarrow> ('a, 'g) res\<close>: \<open>Ok\<close> a result and the new state,
  \<open>Throw\<close> an exception code of \<open>exception.h\<close> and the state it leaves, or \<open>Undef\<close> for undefined
  behaviour of C (an access outside an array, another member of a union, a bad shift).
  \<^item> Integers are words of their C width.
  \<^item> A union is a datatype whose constructor is the member written last; a union that was
    zeroed can be read as any member.
  \<^item> The SDK (hash, key derivation, signature) is the record \<open>sdk\<close> of functions, a parameter of
  every definition that uses it; \<open>hash_lawful\<close> (hashing two pieces is hashing their
  concatenation) and \<open>sdk_quiet\<close> (the SDK does not throw the code the application uses for
  prompting) are, with \<open>digests_32\<close> (a digest has 32 bytes), the only assumptions about it;
  \<open>demo_sdk\<close> meets them. Of the exception macros of the SDK, which are not part of the
  repository, the models rely on this: a \<open>FINALLY\<close> block runs when its \<open>TRY\<close> block ends or
  throws; whether it also runs when a \<open>CATCH_OTHER\<close> block throws is the field
  \<open>sdk_rethrow_finally\<close>, and no property depends on its value. The commit string is the
  parameter \<open>commit\<close>.

  \<^bold>\<open>The theories\<close>, in the order of their imports:
  \<^item> \<open>Prelude\<close>: results, bind, \<open>zoom\<close>, memory blocks, little- and big-endian numbers.
  \<^item> \<open>Molecule_Reader\<close>: \<open>molecule_reader_streaming.h\<close> and the templates of the generated readers:
    tables, structs, fixed and dynamic vectors, options, \<open>Bytes\<close>.
  \<^item> \<open>Blockchain\<close>, \<open>Annotated\<close>: the readers of \<open>blockchain.h\<close> and \<open>annotated.h\<close>.
  \<^item> \<open>Molecule_Stream\<close>, \<open>Molecule_Laws\<close>, \<open>Molecule_Hooks\<close>, \<open>Molecule_Instances\<close>, \<open>Packets\<close>: the contract
    of a resumable reader as a locale, that every template and every generated reader meets it
    when its callbacks are lawful, and that the result then does not depend on the packets.
  \<^item> \<open>Molecule_Effects\<close>: what a reader may do to the state, from what its callbacks may do: the
    locale \<open>effects\<close>, interpreted below for flags, the table of outputs, keys, text buffers,
    screens, commands and buttons.
  \<^item> \<open>To_String\<close>, \<open>Segwit_Addr\<close>, \<open>Segwit_Laws\<close>, \<open>Address\<close>: numbers, amounts, hex, bech32, addresses and
    paths as strings, with their round trips and bounds.
  \<^item> \<open>Settings\<close>: the settings and the switches of the menu. \<open>Keys\<close>: paths, key pairs, signatures.
  \<^item> \<open>Sign_State\<close>, \<open>Sign_Callbacks\<close>, \<open>Sign_Effects\<close>, \<open>Sign_Laws\<close>: the state of the signer, its callbacks,
    their invariants, and what they compute: the rewritten headers, lock arguments, amounts, fee.
  \<^item> \<open>Molecule_Encode\<close>, \<open>Molecule_Trace\<close>, \<open>Transaction_Format\<close>: the reference serialisation of plain and
    annotated transactions, and the locale \<open>trace\<close>: on a serialisation, a reader does what its
    callbacks do, in the order of the format.
  \<^item> \<open>Molecule_Simulation\<close>: the locale \<open>simulation\<close>: two readers whose callbacks match agree on the
    verdict, the parser state and the unread bytes, and keep their states related.
  \<^item> \<open>Transcriber\<close>, \<open>Transcriber_Trace\<close>, \<open>Witness_Writer\<close>: the specification of what is hashed. The plain
    transaction and the signing message as functions of an annotated transaction; a reader with
    lawful callbacks that writes them down, and the proof that on a well-formed transaction,
    in whatever packets, it writes exactly these.
  \<^item> \<open>Signer_Packets\<close>: the callbacks of the signer are not lawful (some of their effects depend on
    the packets), but they return what those of the transcriber return; so its reader gives the
    same verdict and leaves the same state and bytes however the stream is cut.
  \<^item> \<open>Signer_Tracking\<close>, \<open>Signer_Demo\<close>, \<open>Signer_Transcript\<close>: the callbacks of the signer simulate those of
    the transcriber, hence the device hashes the plain transaction and signs its message. The
    theorem does not cover the lock of a multisig witness, whose hashing depends on the packets.
  \<^item> \<open>App_State\<close>, \<open>Ui\<close>: \<open>globals_t\<close>, prompts and screens. \<open>Apdu_Sign\<close>, \<open>Sign_Message\<close>, \<open>Apdu_Pubkey\<close>: the
    commands. \<open>Apdu\<close>: the dispatch, the exceptions of \<open>main_loop\<close>, buttons and menu; \<open>app_step\<close> is
    the step relation between two waits in \<open>io_exchange\<close>, \<open>app_reachable\<close> its reachable states.
  \<^item> \<open>Ui_Effects\<close>, \<open>App_Effects\<close>, \<open>App_Laws\<close>: what screens and commands may change, the invariant of
    the application. \<open>Authorisation\<close>: only the accept button signs, the instructions 10 to 39
    excepted. \<open>Command_Laws\<close>: responses and errors, and which bytes reach which handler. \<open>Prompt_Laws\<close>, \<open>Accept_Laws\<close>: what is shown, when, and what is signed. \<open>Message_Laws\<close>:
    the text and the hash of messages.
  \<^item> \<open>Device_Spec\<close>: an abstract device (settings, prompt, answers) and the proof that the
    application refines it.

  \<^bold>\<open>Bounds and termination.\<close> No definition uses fuel: the readers recurse on the fields of their
  table and on the bytes of the packet, the loops of the string functions on a counter or, for
  digits, on a number that is divided by ten, and the loop over the characters of a message on
  the bytes left. Buffers have the sizes of the code: 17 and 129 for a screen, 260 for an APDU,
  five outputs, 28 bytes of lock argument.

  \<^bold>\<open>Not modelled.\<close> \<open>boot.c\<close>, \<open>io_event\<close>, \<open>io_exchange_al\<close> and the drawing of flows are calls of the
  SDK: an event of the model is an APDU delivered or an action of the user on the flow on
  display. A restart of the application after it has left \<open>main_loop\<close>, the stack canary, debug
  output and the fuzzing harness are left out. The instructions 10 to 39, which the code looks up
  behind its table of handlers, are undefined: the real device calls the functions it finds there,
  the one of the accept button first (\<open>commands_by_wire\<close> states which APDUs these are, and
  \<open>signing_needs_accept\<close> and \<open>one_response\<close> do not speak about them). An APDU of more than 260 bytes is never delivered.
\<close>

end
